(* ===== verification/Prelude.thy ===== *)
theory Prelude
  imports Complex_Main "HOL-Library.Multiset" "HOL-Library.List_Lexorder" "HOL-Library.Char_ord" "HOL-Library.Code_Target_Nat"
begin

text \<open>
  What every component shares: results that may fail, Go maps, byte strings.

  A Go \<open>string\<close> or \<open>[]byte\<close> is a \<^typ>\<open>string\<close>, a list of 8-bit characters; \<open><\<close> on
  strings is Go's bytewise comparison (the lexicographic order of List\_Lexorder over the
  order of Char\_ord).
  A Go map with string keys is an association list kept strictly sorted by key
  (\<open>mok\<close>), so that two maps are equal exactly when they hold the same bindings. Go
  iterates a map in an unspecified order; a definition here visits it in key order, and
  where the order could matter the component that iterates says so.
\<close>

section \<open>Results\<close>

named_theorems res_iff \<open>when a computation that may fail succeeds\<close>

definition bindR :: "'e + 'a \<Rightarrow> ('a \<Rightarrow> 'e + 'b) \<Rightarrow> 'e + 'b" where
  "bindR m f = (case m of Inl e \<Rightarrow> Inl e | Inr x \<Rightarrow> f x)"

definition guardR :: "bool \<Rightarrow> 'e \<Rightarrow> 'e + unit" where
  "guardR b e = (if b then Inr () else Inl e)"

definition someR :: "'a option \<Rightarrow> 'e \<Rightarrow> 'e + 'a" where
  "someR x e = (case x of None \<Rightarrow> Inl e | Some y \<Rightarrow> Inr y)"

fun mapR :: "('a \<Rightarrow> 'e + 'b) \<Rightarrow> 'a list \<Rightarrow> 'e + 'b list" where
  "mapR f [] = Inr []"
| "mapR f (x # xs) = bindR (f x) (\<lambda>y. bindR (mapR f xs) (\<lambda>ys. Inr (y # ys)))"

lemma bindR_simps [simp]:
  "bindR (Inl e) f = Inl e"
  "bindR (Inr x) f = f x"
  by (simp_all add: bindR_def)

lemma guardR_simps [simp]:
  "guardR True e = Inr ()"
  "guardR False e = Inl e"
  by (simp_all add: guardR_def)

lemma someR_simps [simp]:
  "someR None e = Inl e"
  "someR (Some x) e = Inr x"
  by (simp_all add: someR_def)

lemma bindR_Inr_iff [res_iff]: "bindR m f = Inr y \<longleftrightarrow> (\<exists>x. m = Inr x \<and> f x = Inr y)"
  by (cases m) auto

lemma guardR_Inr_iff [res_iff]: "guardR b e = Inr u \<longleftrightarrow> b"
  by (cases b) auto

lemma someR_Inr_iff [res_iff]: "someR x e = Inr y \<longleftrightarrow> x = Some y"
  by (cases x) auto

lemma mapR_Inr_iff [res_iff]: "mapR f xs = Inr ys \<longleftrightarrow> list_all2 (\<lambda>x y. f x = Inr y) xs ys"
proof (induction xs arbitrary: ys)
  case Nil
  then show ?case by auto
next
  case (Cons x xs)
  then show ?case by (cases ys) (auto simp: bindR_Inr_iff)
qed

lemma mapR_in: "mapR f xs = Inr ys \<Longrightarrow> y \<in> set ys \<Longrightarrow> \<exists>x \<in> set xs. f x = Inr y"
  unfolding mapR_Inr_iff by (induction rule: list_all2_induct) auto

lemma sorted_le_last: "sorted xs \<Longrightarrow> x \<in> set xs \<Longrightarrow> x \<le> last xs"
  for x :: "'a :: linorder"
  by (induction xs) auto

definition is_ok :: "'e + 'a \<Rightarrow> bool" where
  "is_ok r = (case r of Inl e \<Rightarrow> False | Inr x \<Rightarrow> True)"

lemma is_ok_simps [simp]: "is_ok (Inl e) = False" "is_ok (Inr x) = True"
  by (simp_all add: is_ok_def)

lemma is_ok_iff: "is_ok r \<longleftrightarrow> (\<exists>x. r = Inr x)"
  by (cases r) auto

section \<open>Go maps\<close>

type_synonym 'v gomap = "(string \<times> 'v) list"

abbreviation mget :: "'v gomap \<Rightarrow> string \<Rightarrow> 'v option" where
  "mget \<equiv> map_of"

abbreviation mkeys :: "'v gomap \<Rightarrow> string list" where
  "mkeys m \<equiv> map fst m"

fun mput :: "string \<Rightarrow> 'v \<Rightarrow> 'v gomap \<Rightarrow> 'v gomap" where
  "mput k v [] = [(k, v)]"
| "mput k v (p # m) =
     (if fst p < k then p # mput k v m
      else if fst p = k then (k, v) # m
      else (k, v) # p # m)"

definition mdel :: "string \<Rightarrow> 'v gomap \<Rightarrow> 'v gomap" where
  "mdel k m = filter (\<lambda>p. fst p \<noteq> k) m"

definition mok :: "'v gomap \<Rightarrow> bool" where
  "mok m = sorted_wrt (<) (mkeys m)"

definition mof :: "(string \<times> 'v) list \<Rightarrow> 'v gomap" where
  "mof kvs = fold (\<lambda>p m. mput (fst p) (snd p) m) kvs []"

lemma map_of_mput [simp]: "mget (mput k v m) x = (if x = k then Some v else mget m x)"
  by (induction m) auto

lemma keys_mput: "set (mkeys (mput k v m)) = insert k (set (mkeys m))"
  by (induction m) auto

lemma mok_Nil [simp]: "mok []"
  by (simp add: mok_def)

lemma mok_Cons: "mok (p # m) \<longleftrightarrow> (\<forall>k \<in> set (mkeys m). fst p < k) \<and> mok m"
  by (auto simp: mok_def)

lemma mok_mput [simp]: "mok m \<Longrightarrow> mok (mput k v m)"
  by (induction m) (auto simp: mok_Cons keys_mput simp del: set_map)

lemma mok_mdel [simp]: "mok m \<Longrightarrow> mok (mdel k m)"
  by (induction m) (auto simp: mok_Cons mdel_def)

lemma map_of_mdel [simp]: "mget (mdel k m) x = (if x = k then None else mget m x)"
  by (induction m) (auto simp: mdel_def)

lemma mok_distinct: "mok m \<Longrightarrow> distinct (mkeys m)"
  by (induction m) (auto simp: mok_Cons)

lemma in_map_filter: "y \<in> set (List.map_filter f xs) \<longleftrightarrow> (\<exists>x \<in> set xs. f x = Some y)"
  by (induction xs) (auto simp: List.map_filter_simps split: option.split)

lemma mok_filter: "mok m \<Longrightarrow> mok (filter P m)"
  by (induction m) (auto simp: mok_Cons)

lemma mok_map_snd: "mok (map (\<lambda>(k, v). (k, f k v)) m) = mok m"
  by (simp add: mok_def comp_def case_prod_unfold)

lemma mget_map_snd: "mget (map (\<lambda>(k, v). (k, f k v)) m) x = map_option (f x) (mget m x)"
  by (induction m) auto

lemma mget_in_keys: "x \<in> set (mkeys m) \<longleftrightarrow> mget m x \<noteq> None"
  by (simp add: map_of_eq_None_iff)

lemma mok_ext:
  assumes "mok a" and "mok b" and "\<And>k. mget a k = mget b k"
  shows "a = b"
  using assms
proof (induction a arbitrary: b)
  case Nil
  show ?case
  proof (cases b)
    case (Cons q b')
    with Nil.prems(3) [of "fst q"] show ?thesis by simp
  qed simp
next
  case (Cons p a)
  note eqm = Cons.prems(3)
  obtain q b' where b: "b = q # b'"
  proof (cases b)
    case Nil
    with eqm [of "fst p"] show thesis by (cases p) simp
  qed (use that in blast)
  have low: "\<And>k. k \<in> set (mkeys a) \<Longrightarrow> fst p < k" "\<And>k. k \<in> set (mkeys b') \<Longrightarrow> fst q < k"
    using Cons.prems(1,2) b by (auto simp: mok_Cons)
  have keq: "k \<in> set (mkeys (p # a)) \<longleftrightarrow> k \<in> set (mkeys (q # b'))" for k
    using eqm b by (simp only: mget_in_keys)
  have fst: "fst p = fst q"
    using keq [of "fst p"] keq [of "fst q"] low by fastforce
  with eqm [of "fst p"] b have "p = q" by (cases p; cases q) simp
  moreover have "mget a k = mget b' k" for k
  proof (cases "k = fst p")
    case True
    have "k \<notin> set (mkeys a)" "k \<notin> set (mkeys b')"
      using low fst True by fastforce+
    then show ?thesis by (simp only: mget_in_keys not_not)
  next
    case False
    then show ?thesis using eqm [of k] b \<open>p = q\<close> by (cases p) (simp split: if_splits)
  qed
  ultimately show ?case
    using Cons.IH [of b'] Cons.prems(1,2) b by (simp add: mok_Cons)
qed

text \<open>
  The interface the components use of a map. Its laws are those of a finite function; the
  client lemmas below are proved from them alone.
\<close>

locale finite_map =
  fixes empty :: "'m"
    and put :: "'k \<Rightarrow> 'v \<Rightarrow> 'm \<Rightarrow> 'm"
    and del :: "'k \<Rightarrow> 'm \<Rightarrow> 'm"
    and get :: "'m \<Rightarrow> 'k \<Rightarrow> 'v option"
    and ok :: "'m \<Rightarrow> bool"
  assumes get_empty: "get empty x = None"
    and get_put: "get (put k v m) x = (if x = k then Some v else get m x)"
    and get_del: "get (del k m) x = (if x = k then None else get m x)"
    and ok_empty: "ok empty"
    and ok_put: "ok m \<Longrightarrow> ok (put k v m)"
    and ok_del: "ok m \<Longrightarrow> ok (del k m)"
    and ok_ext: "ok a \<Longrightarrow> ok b \<Longrightarrow> (\<And>x. get a x = get b x) \<Longrightarrow> a = b"
begin

definition put_all :: "('k \<times> 'v) list \<Rightarrow> 'm \<Rightarrow> 'm" where
  "put_all kvs m = fold (\<lambda>p m. put (fst p) (snd p) m) kvs m"

lemma get_put_all:
  "get (put_all kvs m) x = (case map_of (rev kvs) x of None \<Rightarrow> get m x | Some v \<Rightarrow> Some v)"
proof (induction kvs arbitrary: m)
  case Nil
  then show ?case by (simp add: put_all_def)
next
  case (Cons p kvs)
  have "put_all (p # kvs) m = put_all kvs (put (fst p) (snd p) m)"
    by (simp add: put_all_def)
  with Cons show ?case
    by (cases p) (simp add: get_put map_add_def split: option.split)
qed

lemma ok_put_all: "ok m \<Longrightarrow> ok (put_all kvs m)"
  by (induction kvs arbitrary: m) (simp_all add: put_all_def ok_put)

lemma put_all_last_wins:
  "(k, v) \<in> set kvs \<Longrightarrow> \<exists>w. get (put_all kvs m) k = Some w \<and> (k, w) \<in> set kvs"
  unfolding get_put_all
  by (cases "map_of (rev kvs) k") (auto dest: map_of_SomeD simp: map_of_eq_None_iff image_iff)

lemma put_put_same: "ok m \<Longrightarrow> put k v (put k w m) = put k v m"
  by (rule ok_ext) (simp_all add: ok_put get_put)

lemma put_comm: "ok m \<Longrightarrow> j \<noteq> k \<Longrightarrow> put k v (put j w m) = put j w (put k v m)"
  by (rule ok_ext) (simp_all add: ok_put get_put)

lemma put_get_same: "ok m \<Longrightarrow> get m k = Some v \<Longrightarrow> put k v m = m"
  by (rule ok_ext) (auto simp: ok_put get_put)

lemma del_put_same: "ok m \<Longrightarrow> del k (put k v m) = del k m"
  by (rule ok_ext) (auto simp: ok_put ok_del get_put get_del)

end

interpretation gm: finite_map "[]" mput mdel mget mok
  by unfold_locales (auto intro: mok_ext)

lemma mof_put_all: "mof kvs = gm.put_all kvs []"
  by (simp add: mof_def gm.put_all_def)

lemma mok_mof [simp]: "mok (mof kvs)"
  by (simp add: mof_put_all gm.ok_put_all)

lemma mget_mof: "mget (mof kvs) x = map_of (rev kvs) x"
  by (simp add: mof_put_all gm.get_put_all split: option.split)

lemma keys_mof: "set (mkeys (mof kvs)) = fst ` set kvs"
proof -
  have "x \<in> set (mkeys (mof kvs)) \<longleftrightarrow> x \<in> fst ` set kvs" for x
    by (simp only: mget_in_keys mget_mof) (simp add: map_of_eq_None_iff)
  then show ?thesis by blast
qed

lemma distinct_map_of_rev: "distinct (map fst m) \<Longrightarrow> map_of (rev m) = map_of m"
  by (induction m) (auto simp: map_add_def fun_eq_iff image_iff split: option.split dest!: map_of_SomeD)

lemma mof_mok: "mok m \<Longrightarrow> mof m = m"
proof (rule mok_ext)
  fix k
  assume "mok m"
  then show "mget (mof m) k = mget m k"
    using mok_distinct [of m] by (simp add: mget_mof distinct_map_of_rev)
qed simp_all

lemma set_mof: "set (mof kvs) \<subseteq> set kvs"
proof
  fix p assume "p \<in> set (mof kvs)"
  then have "mget (mof kvs) (fst p) = Some (snd p)"
    by (simp add: mok_distinct)
  then show "p \<in> set kvs"
    by (auto simp: mget_mof dest: map_of_SomeD)
qed

lemma mok_set_ext: "mok a \<Longrightarrow> mok b \<Longrightarrow> set a = set b \<Longrightarrow> a = b"
proof (rule mok_ext)
  fix k
  assume "mok a" "mok b" "set a = set b"
  then have "mget a k = Some v \<longleftrightarrow> mget b k = Some v" for v
    by (simp add: mok_distinct)
  then show "mget a k = mget b k"
    by (metis not_Some_eq)
qed

section \<open>Sorting by two keys\<close>

lemma in_set_ne: "x \<in> set xs \<Longrightarrow> xs \<noteq> []"
  by auto

lemma sort_key_ne [simp]: "sort_key f xs = [] \<longleftrightarrow> xs = []"
  by (metis mset_sort mset_zero_iff)

lemma last_sort_key_max:
  assumes "xs \<noteq> []" and "x \<in> set xs"
  shows "f x \<le> f (last (sort_key f xs))"
proof -
  have "f (last (sort_key f xs)) = last (map f (sort_key f xs))"
    using assms(1) by (simp add: last_map)
  moreover have "f x \<in> set (map f (sort_key f xs))" using assms(2) by simp
  ultimately show ?thesis by (metis sorted_le_last sorted_sort_key)
qed

lemma hd_sort_key_min:
  assumes "xs \<noteq> []" and "x \<in> set xs"
  shows "f (hd (sort_key f xs)) \<le> f x"
proof (cases "sort_key f xs")
  case Nil
  then have "mset xs = {#}" by (metis mset_sort mset.simps(1))
  then show ?thesis using assms(1) by simp
next
  case (Cons y ys)
  then have "sorted (map f (y # ys))" by (metis sorted_sort_key)
  moreover have "x \<in> set (y # ys)" using assms(2) by (metis Cons set_sort)
  ultimately show ?thesis using Cons by auto
qed

lemma last_sort_two_keys:
  assumes "xs \<noteq> []" and "x \<in> set xs" and m_def: "m = last (sort_key f (sort_key g xs))"
  shows "m \<in> set xs" and "f x < f m \<or> f x = f m \<and> g x \<le> g m"
proof -
  let ?ys = "sort_key g xs"
  have ne: "?ys \<noteq> []" "sort_key f ?ys \<noteq> []"
    using assms(1) by (metis mset_sort mset_zero_iff)+
  show "m \<in> set xs" unfolding m_def using last_in_set [OF ne(2)] by simp
  have le: "f x \<le> f m" unfolding m_def using last_sort_key_max [OF ne(1), of x f] assms(2) by simp
  have "g x \<le> g m" if eq: "f x = f m"
  proof -
    let ?zs = "filter (\<lambda>y. f y = f m) ?ys"
    have split: "sort_key f ?ys = butlast (sort_key f ?ys) @ [m]" using ne(2) m_def by simp
    have "filter (\<lambda>y. f y = f m) (sort_key f ?ys) =
        filter (\<lambda>y. f y = f m) (butlast (sort_key f ?ys)) @ [m]"
      using arg_cong [OF split, of "filter (\<lambda>y. f y = f m)"] by simp
    then have "last ?zs = m" by (simp add: sort_key_stable)
    moreover have "sorted (map g ?zs)" by (rule sorted_filter) simp
    moreover have xz: "x \<in> set ?zs" using assms(2) eq by simp
    moreover have "?zs \<noteq> []" by (rule in_set_ne [OF xz])
    ultimately show ?thesis
      using sorted_le_last [of "map g ?zs" "g x"] by (simp add: last_map)
  qed
  then show "f x < f m \<or> f x = f m \<and> g x \<le> g m" using le by auto
qed

end
