(* ===== verification/GoText.thy ===== *)
theory GoText
  imports Prelude
begin

text \<open>
  The string operations of Go's standard library that the sources call, over byte strings:
  \<open>strings.Split\<close>, \<open>strings.Join\<close>, \<open>strings.Cut\<close>, \<open>bytes.TrimSpace\<close>,
  \<open>strings.ReplaceAll\<close> of one byte, ASCII case folding, decimal numbers
  (\<open>strconv.Itoa\<close>, \<open>ParseInt\<close>), and the UTF-8 decoder that \<open>encoding/json\<close> relies on.
  Case folding is the ASCII part of Go's Unicode folding.
\<close>

abbreviation byte :: "char \<Rightarrow> nat" where
  "byte c \<equiv> of_char c"

section \<open>Splitting, joining, trimming\<close>

fun split_on :: "char \<Rightarrow> string \<Rightarrow> string list" where
  "split_on c [] = [[]]"
| "split_on c (x # xs) =
     (if x = c then [] # split_on c xs
      else (case split_on c xs of [] \<Rightarrow> [[x]] | y # ys \<Rightarrow> (x # y) # ys))"

fun join_with :: "string \<Rightarrow> string list \<Rightarrow> string" where
  "join_with sep [] = []"
| "join_with sep [x] = x"
| "join_with sep (x # y # ys) = x @ sep @ join_with sep (y # ys)"

fun cut_at :: "char \<Rightarrow> string \<Rightarrow> (string \<times> string) option" where
  "cut_at c [] = None"
| "cut_at c (x # xs) =
     (if x = c then Some ([], xs) else map_option (\<lambda>(a, b). (x # a, b)) (cut_at c xs))"

definition replace_byte :: "char \<Rightarrow> string \<Rightarrow> string \<Rightarrow> string" where
  "replace_byte c r s = concat (map (\<lambda>x. if x = c then r else [x]) s)"

text \<open>The UTF-8 spellings of the code points \<open>unicode.IsSpace\<close> accepts.\<close>

definition space_seqs :: "string list" where
  "space_seqs =
     [[CHR 0x20], [CHR 0x09], [CHR 0x0A], [CHR 0x0B], [CHR 0x0C], [CHR 0x0D],
      [CHR 0xC2, CHR 0x85], [CHR 0xC2, CHR 0xA0], [CHR 0xE1, CHR 0x9A, CHR 0x80],
      [CHR 0xE2, CHR 0x80, CHR 0x80], [CHR 0xE2, CHR 0x80, CHR 0x81],
      [CHR 0xE2, CHR 0x80, CHR 0x82], [CHR 0xE2, CHR 0x80, CHR 0x83],
      [CHR 0xE2, CHR 0x80, CHR 0x84], [CHR 0xE2, CHR 0x80, CHR 0x85],
      [CHR 0xE2, CHR 0x80, CHR 0x86], [CHR 0xE2, CHR 0x80, CHR 0x87],
      [CHR 0xE2, CHR 0x80, CHR 0x88], [CHR 0xE2, CHR 0x80, CHR 0x89],
      [CHR 0xE2, CHR 0x80, CHR 0x8A], [CHR 0xE2, CHR 0x80, CHR 0xA8],
      [CHR 0xE2, CHR 0x80, CHR 0xA9], [CHR 0xE2, CHR 0x80, CHR 0xAF],
      [CHR 0xE2, CHR 0x81, CHR 0x9F], [CHR 0xE3, CHR 0x80, CHR 0x80]]"

fun is_prefix :: "string \<Rightarrow> string \<Rightarrow> bool" where
  "is_prefix [] s = True"
| "is_prefix (p # ps) [] = False"
| "is_prefix (p # ps) (x # s) = (p = x \<and> is_prefix ps s)"

definition is_suffix :: "string \<Rightarrow> string \<Rightarrow> bool" where
  "is_suffix p s = is_prefix (rev p) (rev s)"

lemma is_prefix_iff: "is_prefix p s \<longleftrightarrow> (\<exists>t. s = p @ t)"
  by (induction p s rule: is_prefix.induct) auto

lemma is_suffix_iff: "is_suffix p s \<longleftrightarrow> (\<exists>t. s = t @ p)"
  unfolding is_suffix_def is_prefix_iff
  by (metis rev_append rev_rev_ident)

function strip_seqs :: "string list \<Rightarrow> string \<Rightarrow> string" where
  "strip_seqs sps s =
     (case find (\<lambda>p. p \<noteq> [] \<and> is_prefix p s) sps of
        None \<Rightarrow> s
      | Some p \<Rightarrow> strip_seqs sps (drop (length p) s))"
  by pat_completeness auto

termination
  by (relation "measure (\<lambda>(sps, s). length s)") (auto simp: find_Some_iff is_prefix_iff)

declare strip_seqs.simps [simp del]

definition trim_space :: "string \<Rightarrow> string" where
  "trim_space s = rev (strip_seqs (map rev space_seqs) (rev (strip_seqs space_seqs s)))"

lemma split_on_not_Nil [simp]: "split_on c s \<noteq> []"
  by (induction s) (auto split: list.splits)

lemma join_split: "join_with [c] (split_on c s) = s"
proof (induction s)
  case IH: (Cons x s)
  show ?case
  proof (cases "split_on c s")
    case (Cons y ys)
    with IH show ?thesis by (cases ys) auto
  qed simp
qed simp

lemma split_on_single: "c \<notin> set s \<Longrightarrow> split_on c s = [s]"
  by (induction s) auto

lemma split_on_append: "c \<notin> set a \<Longrightarrow> split_on c (a @ c # b) = a # split_on c b"
  by (induction a) auto

lemma split_on_free: "x \<in> set (split_on c s) \<Longrightarrow> c \<notin> set x"
proof (induction s arbitrary: x)
  case (Cons y s)
  then show ?case by (cases "split_on c s") (auto split: if_splits)
qed simp

lemma cut_at_Some: "cut_at c s = Some (a, b) \<longleftrightarrow> s = a @ c # b \<and> c \<notin> set a"
proof (induction s arbitrary: a)
  case (Cons x s)
  show ?case
  proof (cases a)
    case (Cons y a')
    then show ?thesis using Cons.IH [of a'] by auto
  qed auto
qed auto

lemma cut_at_None: "cut_at c s = None \<longleftrightarrow> c \<notin> set s"
  by (induction s) auto

section \<open>Case folding\<close>

definition lower_char :: "char \<Rightarrow> char" where
  "lower_char c = (if 65 \<le> byte c \<and> byte c \<le> 90 then char_of (byte c + 32) else c)"

definition to_lower :: "string \<Rightarrow> string" where
  "to_lower s = map lower_char s"

definition equal_fold :: "string \<Rightarrow> string \<Rightarrow> bool" where
  "equal_fold a b = (to_lower a = to_lower b)"

lemma equal_fold_refl [simp]: "equal_fold a a"
  by (simp add: equal_fold_def)

lemma equal_fold_sym: "equal_fold a b = equal_fold b a"
  by (auto simp: equal_fold_def)

lemma equal_fold_trans: "equal_fold a b \<Longrightarrow> equal_fold b c \<Longrightarrow> equal_fold a c"
  by (simp add: equal_fold_def)

section \<open>Decimal numbers\<close>

definition is_digit :: "char \<Rightarrow> bool" where
  "is_digit c = (48 \<le> byte c \<and> byte c \<le> 57)"

definition digit_val :: "char \<Rightarrow> nat" where
  "digit_val c = byte c - 48"

definition dec_val :: "string \<Rightarrow> nat" where
  "dec_val s = fold (\<lambda>c n. 10 * n + digit_val c) s 0"

fun nat_str :: "nat \<Rightarrow> string" where
  "nat_str n = (if n < 10 then [char_of (48 + n)] else nat_str (n div 10) @ [char_of (48 + n mod 10)])"

declare nat_str.simps [simp del]

definition int_str :: "int \<Rightarrow> string" where
  "int_str i = (if i < 0 then CHR ''-'' # nat_str (nat (- i)) else nat_str (nat i))"

text \<open>\<open>strconv.ParseInt(s, 10, 64)\<close> and \<open>strconv.Atoi\<close>: an optional sign, digits, the 64-bit range.\<close>

definition int64_min :: int where "int64_min = - (2 ^ 63)"
definition int64_max :: int where "int64_max = 2 ^ 63 - 1"

definition parse_int64 :: "string \<Rightarrow> int option" where
  "parse_int64 s =
     (let neg = (s \<noteq> [] \<and> hd s = CHR ''-'');
          ds = (if s \<noteq> [] \<and> (hd s = CHR ''-'' \<or> hd s = CHR ''+'') then tl s else s);
          v = (if neg then - int (dec_val ds) else int (dec_val ds))
      in if ds = [] \<or> \<not> list_all is_digit ds \<or> v < int64_min \<or> int64_max < v then None
         else Some v)"

lemma is_digit_char_of: "(n :: nat) < 10 \<Longrightarrow> is_digit (char_of (48 + n))"
  by (simp add: is_digit_def)

lemma digit_val_char_of: "(n :: nat) < 10 \<Longrightarrow> digit_val (char_of (48 + n)) = n"
  by (simp add: digit_val_def)

lemma dec_val_snoc: "dec_val (s @ [c]) = 10 * dec_val s + digit_val c"
  by (simp add: dec_val_def)

lemma nat_str_digits: "list_all is_digit (nat_str n)"
proof (induction n rule: nat_str.induct)
  case (1 n)
  show ?case
  proof (cases "n < 10")
    case True
    then show ?thesis by (subst nat_str.simps) (simp add: is_digit_char_of)
  next
    case False
    with 1 have "list_all is_digit (nat_str (n div 10))" by simp
    with False show ?thesis
      by (subst nat_str.simps) (simp add: is_digit_char_of)
  qed
qed

lemma nat_str_not_Nil [simp]: "nat_str n \<noteq> []"
  by (subst nat_str.simps) simp

lemma dec_val_nat_str [simp]: "dec_val (nat_str n) = n"
proof (induction n rule: nat_str.induct)
  case (1 n)
  show ?case
  proof (cases "n < 10")
    case True
    then show ?thesis by (subst nat_str.simps) (simp add: dec_val_def digit_val_char_of)
  next
    case False
    with 1 have "dec_val (nat_str (n div 10)) = n div 10" by simp
    with False show ?thesis
      by (subst nat_str.simps) (simp add: dec_val_snoc digit_val_char_of)
  qed
qed

lemma nat_str_inject [simp]: "nat_str m = nat_str n \<longleftrightarrow> m = n"
  by (metis dec_val_nat_str)

lemma parse_int64_nat_str: "int n \<le> int64_max \<Longrightarrow> parse_int64 (nat_str n) = Some (int n)"
proof -
  assume n: "int n \<le> int64_max"
  have "is_digit (hd (nat_str n))"
    using nat_str_digits [of n] by (cases "nat_str n") auto
  then have "hd (nat_str n) \<noteq> CHR ''-''" "hd (nat_str n) \<noteq> CHR ''+''"
    by (auto simp: is_digit_def)
  with n show ?thesis
    by (simp add: parse_int64_def nat_str_digits int64_min_def)
qed

end
