(* ===== verification/Json.thy ===== *)
theory Json
  imports GoText
begin

text \<open>
  JSON as Go's \<open>encoding/json\<close> reads and writes it. \<open>json\<close> is a parsed document with the
  source's number lexemes (\<open>Decoder.UseNumber\<close>) and its members in source order, repeated
  keys included; a \<open>json.RawMessage\<close> is such a value. \<open>norm\<close> is what decoding into
  \<open>any\<close> leaves of it: every object a map, so sorted and with the last of repeated keys.
  \<open>json_read\<close> reads one value off the front of the input, as \<open>Decoder.Decode\<close> does;
  \<open>json_unmarshal\<close> wants the whole input, as \<open>Unmarshal\<close> does. Struct members are
  matched without regard to case (\<open>struct_get\<close>), map members exactly.
\<close>

datatype json =
    JNull
  | JBool bool
  | JNum string
  | JStr string
  | JArr "json list"
  | JObj "(string \<times> json) list"

section \<open>UTF-8\<close>

definition cont_byte :: "char \<Rightarrow> bool" where
  "cont_byte c = (128 \<le> byte c \<and> byte c \<le> 191)"

text \<open>The length of the valid UTF-8 sequence at the front, 0 where there is none.\<close>

definition utf8_len :: "string \<Rightarrow> nat" where
  "utf8_len s = (case s of [] \<Rightarrow> 0 | a # t \<Rightarrow>
     (let x = byte a in
      if x < 128 then 1
      else if x < 194 then 0
      else if x < 224 then (case t of b # _ \<Rightarrow> if cont_byte b then 2 else 0 | [] \<Rightarrow> 0)
      else if x < 240 then
        (case t of b # c # _ \<Rightarrow>
           if (if x = 224 then 160 else 128) \<le> byte b \<and>
              byte b \<le> (if x = 237 then 159 else 191) \<and> cont_byte c then 3 else 0
         | _ \<Rightarrow> 0)
      else if x < 245 then
        (case t of b # c # d # _ \<Rightarrow>
           if (if x = 240 then 144 else 128) \<le> byte b \<and>
              byte b \<le> (if x = 244 then 143 else 191) \<and> cont_byte c \<and> cont_byte d
           then 4 else 0
         | _ \<Rightarrow> 0)
      else 0))"

definition utf8_replacement :: string where
  "utf8_replacement = [CHR 0xEF, CHR 0xBF, CHR 0xBD]"

definition utf8_enc :: "nat \<Rightarrow> string" where
  "utf8_enc r =
     (if r < 128 then [char_of r]
      else if r < 2048 then [char_of (192 + r div 64), char_of (128 + r mod 64)]
      else if 1114111 < r \<or> 55296 \<le> r \<and> r \<le> 57343 then utf8_replacement
      else if r < 65536 then
        [char_of (224 + r div 4096), char_of (128 + r div 64 mod 64), char_of (128 + r mod 64)]
      else
        [char_of (240 + r div 262144), char_of (128 + r div 4096 mod 64),
         char_of (128 + r div 64 mod 64), char_of (128 + r mod 64)])"

section \<open>Reading\<close>

definition is_ws :: "char \<Rightarrow> bool" where
  "is_ws c = (c = CHR 0x20 \<or> c = CHR 0x09 \<or> c = CHR 0x0D \<or> c = CHR 0x0A)"

definition skip_ws :: "string \<Rightarrow> string" where
  "skip_ws s = dropWhile is_ws s"

definition hex_val :: "char \<Rightarrow> nat option" where
  "hex_val c =
     (if is_digit c then Some (byte c - 48)
      else if 97 \<le> byte c \<and> byte c \<le> 102 then Some (byte c - 87)
      else if 65 \<le> byte c \<and> byte c \<le> 70 then Some (byte c - 55)
      else None)"

definition hex4 :: "string \<Rightarrow> nat option" where
  "hex4 s = (case s of a # b # c # d # _ \<Rightarrow>
       (case (hex_val a, hex_val b, hex_val c, hex_val d) of
          (Some w, Some x, Some y, Some z) \<Rightarrow> Some (w * 4096 + x * 256 + y * 16 + z)
        | _ \<Rightarrow> None)
     | _ \<Rightarrow> None)"

text \<open>
  What follows a backslash: the bytes it stands for and how many characters it took. A
  surrogate without its partner reads as the replacement character.
\<close>

definition json_escape :: "string \<Rightarrow> (string \<times> nat) option" where
  "json_escape s = (case s of [] \<Rightarrow> None | c # t \<Rightarrow>
     if c = CHR 0x22 \<or> c = CHR 0x5C \<or> c = CHR ''/'' then Some ([c], 1)
     else if c = CHR ''b'' then Some ([CHR 0x08], 1)
     else if c = CHR ''f'' then Some ([CHR 0x0C], 1)
     else if c = CHR ''n'' then Some ([CHR 0x0A], 1)
     else if c = CHR ''r'' then Some ([CHR 0x0D], 1)
     else if c = CHR ''t'' then Some ([CHR 0x09], 1)
     else if c = CHR ''u'' then
       (case hex4 t of None \<Rightarrow> None | Some r \<Rightarrow>
          if 55296 \<le> r \<and> r \<le> 57343 then
            (case drop 4 t of
               p # q # t2 \<Rightarrow>
                 if p = CHR 0x5C \<and> q = CHR ''u'' then
                   (case hex4 t2 of
                      Some r2 \<Rightarrow>
                        if r < 56320 \<and> 56320 \<le> r2 \<and> r2 \<le> 57343
                        then Some (utf8_enc (65536 + (r - 55296) * 1024 + (r2 - 56320)), 11)
                        else Some (utf8_replacement, 5)
                    | None \<Rightarrow> Some (utf8_replacement, 5))
                 else Some (utf8_replacement, 5)
             | _ \<Rightarrow> Some (utf8_replacement, 5))
          else Some (utf8_enc r, 5))
     else None)"

text \<open>A string literal after its opening quote: the contents and what follows the closing quote.\<close>

function read_str :: "string \<Rightarrow> (string \<times> string) option" where
  "read_str [] = None"
| "read_str (c # s) =
     (if c = CHR 0x22 then Some ([], s)
      else if c = CHR 0x5C then
        (case json_escape s of None \<Rightarrow> None
         | Some (bs, n) \<Rightarrow> map_option (\<lambda>(x, r). (bs @ x, r)) (read_str (drop n s)))
      else if byte c < 32 then None
      else (let k = utf8_len (c # s) in
            if k = 0 then map_option (\<lambda>(x, r). (utf8_replacement @ x, r)) (read_str s)
            else map_option (\<lambda>(x, r). (c # take (k - 1) s @ x, r)) (read_str (drop (k - 1) s))))"
  by pat_completeness auto
termination
  by (relation "measure length") auto

declare read_str.simps [simp del]

text \<open>A number lexeme: \<open>-?(0|[1-9][0-9]*)(\.[0-9]+)?([eE][+-]?[0-9]+)?\<close>.\<close>

definition read_frac :: "string \<Rightarrow> (string \<times> string) option" where
  "read_frac s = (case s of
       c # t \<Rightarrow> if c = CHR ''.'' then
                 (let ds = takeWhile is_digit t in
                  if ds = [] then None else Some (c # ds, dropWhile is_digit t))
               else Some ([], s)
     | [] \<Rightarrow> Some ([], s))"

definition read_exp :: "string \<Rightarrow> (string \<times> string) option" where
  "read_exp s = (case s of
       c # t \<Rightarrow> if c = CHR ''e'' \<or> c = CHR ''E'' then
                 (let sg = (case t of x # _ \<Rightarrow> if x = CHR ''+'' \<or> x = CHR ''-'' then [x] else []
                                     | [] \<Rightarrow> []);
                      u = drop (length sg) t; ds = takeWhile is_digit u in
                  if ds = [] then None else Some (c # sg @ ds, dropWhile is_digit u))
               else Some ([], s)
     | [] \<Rightarrow> Some ([], s))"

definition read_int :: "string \<Rightarrow> (string \<times> string) option" where
  "read_int s = (case s of [] \<Rightarrow> None | c # t \<Rightarrow>
       if c = CHR ''0'' then Some ([c], t)
       else if is_digit c then Some (c # takeWhile is_digit t, dropWhile is_digit t)
       else None)"

definition read_num :: "string \<Rightarrow> (string \<times> string) option" where
  "read_num s =
     (let sg = (case s of c # _ \<Rightarrow> if c = CHR ''-'' then [c] else [] | [] \<Rightarrow> []) in
      case read_int (drop (length sg) s) of None \<Rightarrow> None | Some (ds, r1) \<Rightarrow>
      (case read_frac r1 of None \<Rightarrow> None | Some (fr, r2) \<Rightarrow>
      (case read_exp r2 of None \<Rightarrow> None | Some (ex, r3) \<Rightarrow>
        Some (sg @ ds @ fr @ ex, r3))))"

definition read_lit :: "string \<Rightarrow> (json \<times> string) option" where
  "read_lit s =
     (if is_prefix ''null'' s then Some (JNull, drop 4 s)
      else if is_prefix ''true'' s then Some (JBool True, drop 4 s)
      else if is_prefix ''false'' s then Some (JBool False, drop 5 s)
      else None)"

text \<open>
  The value reader. \<open>f\<close> is fuel (two units per character are enough) and \<open>d\<close> the number of
  open containers, which Go's scanner limits to 10000.
\<close>

definition max_depth :: int where "max_depth = 10000"

fun read_val :: "nat \<Rightarrow> int \<Rightarrow> string \<Rightarrow> (json \<times> string) option"
  and read_elems :: "nat \<Rightarrow> int \<Rightarrow> string \<Rightarrow> (json list \<times> string) option"
  and read_members :: "nat \<Rightarrow> int \<Rightarrow> string \<Rightarrow> ((string \<times> json) list \<times> string) option"
where
  "read_val 0 d s = None"
| "read_val (Suc f) d s =
     (case skip_ws s of [] \<Rightarrow> None | c # r \<Rightarrow>
        if c = CHR 0x22 then map_option (\<lambda>(x, r'). (JStr x, r')) (read_str r)
        else if c = CHR ''['' then
          (if max_depth \<le> d then None
           else if skip_ws r \<noteq> [] \<and> hd (skip_ws r) = CHR '']'' then Some (JArr [], tl (skip_ws r))
           else map_option (\<lambda>(xs, r'). (JArr xs, r')) (read_elems f (d + 1) r))
        else if c = CHR ''{'' then
          (if max_depth \<le> d then None
           else if skip_ws r \<noteq> [] \<and> hd (skip_ws r) = CHR ''}'' then Some (JObj [], tl (skip_ws r))
           else map_option (\<lambda>(xs, r'). (JObj xs, r')) (read_members f (d + 1) r))
        else if c = CHR ''-'' \<or> is_digit c then map_option (\<lambda>(x, r'). (JNum x, r')) (read_num (c # r))
        else read_lit (c # r))"
| "read_elems 0 d s = None"
| "read_elems (Suc f) d s =
     (case read_val f d s of None \<Rightarrow> None | Some (v, r) \<Rightarrow>
        (case skip_ws r of [] \<Rightarrow> None | c # r' \<Rightarrow>
           if c = CHR '','' then map_option (\<lambda>(vs, q). (v # vs, q)) (read_elems f d r')
           else if c = CHR '']'' then Some ([v], r') else None))"
| "read_members 0 d s = None"
| "read_members (Suc f) d s =
     (case skip_ws s of [] \<Rightarrow> None | c # r \<Rightarrow>
        if c \<noteq> CHR 0x22 then None
        else (case read_str r of None \<Rightarrow> None | Some (k, r1) \<Rightarrow>
        (case skip_ws r1 of [] \<Rightarrow> None | c1 # r2 \<Rightarrow>
           if c1 \<noteq> CHR '':'' then None
           else (case read_val f d r2 of None \<Rightarrow> None | Some (v, r3) \<Rightarrow>
             (case skip_ws r3 of [] \<Rightarrow> None | c3 # r4 \<Rightarrow>
                if c3 = CHR '','' then map_option (\<lambda>(vs, q). ((k, v) # vs, q)) (read_members f d r4)
                else if c3 = CHR ''}'' then Some ([(k, v)], r4) else None)))))"

declare read_val.simps [simp del] read_elems.simps [simp del] read_members.simps [simp del]

definition json_read :: "string \<Rightarrow> (json \<times> string) option" where
  "json_read s = read_val (2 * length s + 2) 0 s"

definition json_unmarshal :: "string \<Rightarrow> json option" where
  "json_unmarshal s = (case json_read s of None \<Rightarrow> None
     | Some (j, r) \<Rightarrow> if skip_ws r = [] then Some j else None)"

section \<open>Decoded values\<close>

fun norm :: "json \<Rightarrow> json" where
  "norm (JArr xs) = JArr (map norm xs)"
| "norm (JObj kvs) = JObj (mof (map (\<lambda>(k, v). (k, norm v)) kvs))"
| "norm j = j"

text \<open>Values in which every object is a map: what decoding into \<open>any\<close> yields.\<close>

fun normal :: "json \<Rightarrow> bool" where
  "normal (JArr xs) = (\<forall>x \<in> set xs. normal x)"
| "normal (JObj kvs) = (mok kvs \<and> (\<forall>p \<in> set kvs. normal (snd p)))"
| "normal j = True"

lemma normal_norm: "normal (norm j)"
proof (induction j rule: norm.induct)
  case (2 kvs)
  have "normal (snd p)" if "p \<in> set (mof (map (\<lambda>(k, v). (k, norm v)) kvs))" for p
    using that set_mof [of "map (\<lambda>(k, v). (k, norm v)) kvs"] 2 by fastforce
  then show ?case by auto
qed auto

lemma norm_normal: "normal j \<Longrightarrow> norm j = j"
proof (induction j rule: norm.induct)
  case (2 kvs)
  then have "map (\<lambda>(k, v). (k, norm v)) kvs = kvs"
    by (intro map_idI) auto
  with 2 show ?case by (simp add: mof_mok)
qed (auto intro: map_idI)

lemma normal_member: "normal (JObj m) \<Longrightarrow> mget m k = Some v \<Longrightarrow> normal v"
  by (auto dest!: map_of_SomeD)

text \<open>
  Decoding into \<open>map[string]json.RawMessage\<close>: one level only. \<open>null\<close> decodes to the nil map
  and any other kind of value is an error.
\<close>

definition raw_map :: "json \<Rightarrow> json gomap option" where
  "raw_map j = (case j of JObj kvs \<Rightarrow> Some (mof kvs) | JNull \<Rightarrow> Some [] | _ \<Rightarrow> None)"

text \<open>
  Decoding into a struct member: the last member whose name folds to the field's; a \<open>null\<close>
  or a missing member leaves the zero value.
\<close>

definition struct_get :: "(string \<times> json) list \<Rightarrow> string \<Rightarrow> json option" where
  "struct_get kvs f = map_option snd (find (\<lambda>p. equal_fold (fst p) f) (rev kvs))"

section \<open>Writing\<close>

definition hex_digit :: "nat \<Rightarrow> char" where
  "hex_digit n = (if n < 10 then char_of (48 + n) else char_of (87 + n))"

text \<open>One character (or one UTF-8 sequence) of a string as \<open>json.Marshal\<close> writes it.\<close>

definition enc_byte :: "char \<Rightarrow> string" where
  "enc_byte c =
     (if c = CHR 0x22 \<or> c = CHR 0x5C then [CHR 0x5C, c]
      else if c = CHR 0x08 then [CHR 0x5C, CHR ''b'']
      else if c = CHR 0x0C then [CHR 0x5C, CHR ''f'']
      else if c = CHR 0x0A then [CHR 0x5C, CHR ''n'']
      else if c = CHR 0x0D then [CHR 0x5C, CHR ''r'']
      else if c = CHR 0x09 then [CHR 0x5C, CHR ''t'']
      else if byte c < 32 \<or> c = CHR ''<'' \<or> c = CHR ''>'' \<or> c = CHR ''&'' then
        [CHR 0x5C, CHR ''u'', CHR ''0'', CHR ''0'', hex_digit (byte c div 16), hex_digit (byte c mod 16)]
      else [c])"

function enc_chars :: "string \<Rightarrow> string" where
  "enc_chars [] = []"
| "enc_chars (c # s) =
     (if byte c < 128 then enc_byte c @ enc_chars s
      else if is_prefix [CHR 0xE2, CHR 0x80, CHR 0xA8] (c # s) then
        CHR 0x5C # ''u2028'' @ enc_chars (drop 2 s)
      else if is_prefix [CHR 0xE2, CHR 0x80, CHR 0xA9] (c # s) then
        CHR 0x5C # ''u2029'' @ enc_chars (drop 2 s)
      else (let k = utf8_len (c # s) in
            if k = 0 then CHR 0x5C # ''ufffd'' @ enc_chars s
            else c # take (k - 1) s @ enc_chars (drop (k - 1) s)))"
  by pat_completeness auto
termination
  by (relation "measure length") auto

declare enc_chars.simps [simp del]

definition enc_str :: "string \<Rightarrow> string" where
  "enc_str s = CHR 0x22 # enc_chars s @ [CHR 0x22]"

fun json_enc :: "json \<Rightarrow> string" where
  "json_enc JNull = ''null''"
| "json_enc (JBool b) = (if b then ''true'' else ''false'')"
| "json_enc (JNum n) = n"
| "json_enc (JStr s) = enc_str s"
| "json_enc (JArr xs) = ''['' @ join_with '','' (map json_enc xs) @ '']''"
| "json_enc (JObj kvs) =
     ''{'' @ join_with '','' (map (\<lambda>(k, v). enc_str k @ '':'' @ json_enc v) kvs) @ ''}''"

end
