(* ===== verification/Float64.thy ===== *)
theory Float64
  imports Json
begin

text \<open>
  Go's \<open>float64\<close> as the collator meets it: finite values only (\<open>ParseFloat\<close> reports a
  range error for what would be an infinity, and JSON spells no NaN). A value is the exact
  rational it stands for, with the negative zero apart, because \<open>json.Marshal\<close> writes it
  differently. \<open>parse_float\<close> reads a JSON number lexeme and rounds it to the nearest
  binary64 value, ties to even.
\<close>

datatype f64 = Fin rat | NegZero

fun f64_val :: "f64 \<Rightarrow> rat" where
  "f64_val (Fin q) = q"
| "f64_val NegZero = 0"

fun bit_len :: "nat \<Rightarrow> nat" where
  "bit_len n = (if n = 0 then 0 else Suc (bit_len (n div 2)))"

declare bit_len.simps [simp del]

text \<open>The nearest multiple of \<open>den\<close> units, ties to even.\<close>

definition div_even :: "int \<Rightarrow> int \<Rightarrow> int" where
  "div_even num den =
     (let m = num div den; r = num mod den in
      if den < 2 * r \<or> (2 * r = den \<and> odd m) then m + 1 else m)"

definition pow2 :: "int \<Rightarrow> rat" where
  "pow2 e = (if 0 \<le> e then 2 ^ nat e else 1 / 2 ^ nat (- e))"

text \<open>
  Rounding of \<open>n/d\<close> for \<open>0 \<le> n\<close>, \<open>0 < d\<close>: the exponent \<open>e\<close> puts the quotient
  into 53 bits (or at the subnormal limit), \<open>None\<close> is overflow.
\<close>

definition round64 :: "int \<Rightarrow> int \<Rightarrow> rat option" where
  "round64 n d =
     (if n \<le> 0 then Some 0
      else
        let k = int (bit_len (nat n)) - int (bit_len (nat d));
            big = (if 0 \<le> k then d * 2 ^ nat k \<le> n else d \<le> n * 2 ^ nat (- k));
            e = (if big then k - 52 else k - 53);
            e' = (if e < - 1074 then - 1074 else e);
            m = (if 0 \<le> e' then div_even n (d * 2 ^ nat e') else div_even (n * 2 ^ nat (- e')) d)
        in if 971 < e' \<or> (e' = 971 \<and> 2 ^ 53 \<le> m) then None
           else Some (of_int m * pow2 e'))"

definition lexeme_exp :: "string \<Rightarrow> int" where
  "lexeme_exp s =
     (case dropWhile (\<lambda>c. c \<noteq> CHR ''e'' \<and> c \<noteq> CHR ''E'') s of
        [] \<Rightarrow> 0
      | _ # t \<Rightarrow> (case t of [] \<Rightarrow> 0 | c # u \<Rightarrow>
          if c = CHR ''-'' then - int (dec_val u)
          else if c = CHR ''+'' then int (dec_val u)
          else int (dec_val t)))"

definition parse_float :: "string \<Rightarrow> f64 option" where
  "parse_float s =
     (let neg = (s \<noteq> [] \<and> hd s = CHR ''-'');
          body = takeWhile (\<lambda>c. c \<noteq> CHR ''e'' \<and> c \<noteq> CHR ''E'') (if neg then tl s else s);
          ip = takeWhile (\<lambda>c. c \<noteq> CHR ''.'') body;
          fp = drop 1 (dropWhile (\<lambda>c. c \<noteq> CHR ''.'') body);
          x = lexeme_exp s - int (length fp);
          m = int (dec_val (ip @ fp));
          v = (if 0 \<le> x then round64 (m * 10 ^ nat x) 1 else round64 m (10 ^ nat (- x)))
      in map_option (\<lambda>v. if neg then (if v = 0 then NegZero else Fin (- v)) else Fin v) v)"

text \<open>A real quantity rounded to \<open>float64\<close>, as every arithmetic operation does.\<close>

definition f64_round :: "rat \<Rightarrow> rat option" where
  "f64_round q =
     (let (n, d) = quotient_of q in
      if n < 0 then map_option uminus (round64 (- n) d) else round64 n d)"

text \<open>
  Decoding into \<open>any\<close> without \<open>UseNumber\<close>: numbers become \<open>float64\<close>, a number out of
  range is an error.
\<close>

datatype val = VNull | VBool bool | VNum f64 | VStr string | VArr "val list" | VObj "(string \<times> val) list"

fun to_val :: "json \<Rightarrow> val option" where
  "to_val JNull = Some VNull"
| "to_val (JBool b) = Some (VBool b)"
| "to_val (JNum n) = map_option VNum (parse_float n)"
| "to_val (JStr s) = Some (VStr s)"
| "to_val (JArr xs) =
     (let ys = map to_val xs in
      if None \<in> set ys then None else Some (VArr (map the ys)))"
| "to_val (JObj kvs) =
     (let ys = map (\<lambda>(k, v). (k, to_val v)) kvs in
      if None \<in> snd ` set ys then None else Some (VObj (mof (map (\<lambda>(k, v). (k, the v)) ys))))"

text \<open>\<open>var facts map[string]any; json.Unmarshal(raw, &facts)\<close>.\<close>

definition val_map :: "json \<Rightarrow> val gomap option" where
  "val_map j = (case j of
      JObj kvs \<Rightarrow> (case to_val j of Some (VObj m) \<Rightarrow> Some m | _ \<Rightarrow> None)
    | JNull \<Rightarrow> Some []
    | _ \<Rightarrow> None)"

text \<open>
  \<open>json.Marshal\<close> of a decoded value; \<open>fmt\<close> is the text \<open>strconv\<close> gives a \<open>float64\<close>.
\<close>

fun val_json :: "(f64 \<Rightarrow> string) \<Rightarrow> val \<Rightarrow> json" where
  "val_json fmt VNull = JNull"
| "val_json fmt (VBool b) = JBool b"
| "val_json fmt (VNum x) = JNum (fmt x)"
| "val_json fmt (VStr s) = JStr s"
| "val_json fmt (VArr xs) = JArr (map (val_json fmt) xs)"
| "val_json fmt (VObj kvs) = JObj (map (\<lambda>(k, v). (k, val_json fmt v)) kvs)"

definition val_text :: "(f64 \<Rightarrow> string) \<Rightarrow> val \<Rightarrow> string" where
  "val_text fmt v = json_enc (val_json fmt v)"

end
