(* ===== verification/Wire.thy ===== *)
theory Wire
  imports Float64
begin

text \<open>
  The collect stream (go/internal/wire/wire.go): the record parsers, the per-record state of
  \<open>ParseBatch\<close>, and the whole-batch check. A violation is its machine-stable \<open>Reason\<close>;
  the human-readable \<open>Detail\<close> is not modelled, nothing reads it back. A decoded record is
  a key-sorted map of decoded values, so \<open>canonical\<close> (re-marshalling with sorted keys) is
  the value itself.
\<close>

type_synonym reason = string
type_synonym member_map = "json gomap"

section \<open>Records\<close>

record begin_rec =
  bg_request :: string
  bg_batch :: string
  bg_declaration :: string
  bg_boot :: string
  bg_timens :: int
  bg_instance :: "string option"
  bg_generations :: "nat gomap"

record object_rec =
  ob_collection :: string
  ob_name :: string
  ob_type :: string
  ob_facts :: json
  ob_names :: "json option"
  ob_absent :: "string list"
  ob_evidence :: "json option"
  ob_at :: f64

record relation_rec =
  rl_collection :: string
  rl_name :: string
  rl_type :: string
  rl_vantage :: string
  rl_target_kind :: string
  rl_target_name :: string
  rl_facts :: "json option"

record unobs_rec =
  un_collection :: string
  un_name :: string
  un_fact :: string
  un_reason :: string
  un_detail :: string

record decline_rec =
  de_collection :: string
  de_reason :: string
  de_detail :: string

record commit_rec =
  cm_collection :: string
  cm_generation :: nat
  cm_objects :: nat
  cm_assertions :: nat
  cm_unobservable :: nat
  cm_cpu :: f64

record end_rec =
  en_request :: string
  en_batch :: string
  en_cpu :: f64
  en_wall :: f64

record stream =
  st_objects :: "object_rec list"
  st_assertions :: "relation_rec list"
  st_unobservables :: "unobs_rec list"
  st_decline :: "decline_rec option"
  st_commit :: "commit_rec option"

definition empty_stream :: stream where
  "empty_stream = \<lparr>st_objects = [], st_assertions = [], st_unobservables = [],
     st_decline = None, st_commit = None\<rparr>"

record batch =
  b_begin :: begin_rec
  b_collections :: "stream gomap"
  b_end :: end_rec
  b_hash :: string

section \<open>Lexical rules\<close>

definition is_lower :: "char \<Rightarrow> bool" where
  "is_lower c = (97 \<le> byte c \<and> byte c \<le> 122)"

definition collection_name :: "string \<Rightarrow> bool" where
  "collection_name s =
     (case s of [] \<Rightarrow> False
      | c # t \<Rightarrow> is_lower c \<and> list_all (\<lambda>x. is_lower x \<or> is_digit x \<or> x = CHR ''-'') t)"

definition is_hex :: "char \<Rightarrow> bool" where
  "is_hex c = (hex_val c \<noteq> None)"

definition uuid_shaped :: "string \<Rightarrow> bool" where
  "uuid_shaped s =
     (let parts = split_on (CHR ''-'') s in
      map length parts = [8, 4, 4, 4, 12] \<and> list_all (list_all is_hex) parts)"

definition nil_uuid :: string where
  "nil_uuid = ''00000000-0000-0000-0000-000000000000''"

definition split_lines :: "string \<Rightarrow> string list" where
  "split_lines raw = filter (\<lambda>l. l \<noteq> []) (map trim_space (split_on (CHR 0x0A) raw))"

text \<open>
  One line: a JSON object (or \<open>null\<close>, which decodes to the nil map), and then
  \<open>Decoder.More\<close>, which reports more input unless what follows is the end or a closing
  bracket or brace.
\<close>

definition more_input :: "string \<Rightarrow> bool" where
  "more_input r = (case skip_ws r of [] \<Rightarrow> False | c # _ \<Rightarrow> c \<noteq> CHR '']'' \<and> c \<noteq> CHR ''}'')"

definition decode_record :: "string \<Rightarrow> member_map option" where
  "decode_record line =
     (case json_read line of
        Some (JObj kvs, r) \<Rightarrow>
          if more_input r then None else Some (mof (map (\<lambda>(k, v). (k, norm v)) kvs))
      | Some (JNull, r) \<Rightarrow>
          if (r = [] \<or> is_ws (hd r)) \<and> \<not> more_input r then Some [] else None
      | _ \<Rightarrow> None)"

section \<open>Members\<close>

definition str_member :: "member_map \<Rightarrow> string \<Rightarrow> string option" where
  "str_member m k = (case mget m k of Some (JStr s) \<Rightarrow> Some s | _ \<Rightarrow> None)"

definition num_member :: "member_map \<Rightarrow> string \<Rightarrow> string option" where
  "num_member m k = (case mget m k of Some (JNum n) \<Rightarrow> Some n | _ \<Rightarrow> None)"

definition obj_member :: "member_map \<Rightarrow> string \<Rightarrow> member_map option" where
  "obj_member m k = (case mget m k of Some (JObj kvs) \<Rightarrow> Some kvs | _ \<Rightarrow> None)"

definition fields :: "member_map \<Rightarrow> string list \<Rightarrow> string list \<Rightarrow> reason + unit" where
  "fields m required optional =
     (if \<exists>f \<in> set required. mget m f = None then Inl ''missing-member''
      else if \<exists>f \<in> set (mkeys m). f \<notin> set (''record'' # required @ optional)
        then Inl ''undeclared-member''
      else Inr ())"

definition identity :: "member_map \<Rightarrow> string \<Rightarrow> reason + string" where
  "identity m k = (case str_member m k of
      Some s \<Rightarrow> if s = [] then Inl ''bad-identity'' else Inr s
    | None \<Rightarrow> Inl ''bad-identity'')"

definition known_collection :: "member_map \<Rightarrow> nat gomap \<Rightarrow> reason + string" where
  "known_collection m issued =
     bindR (identity m ''collection'') (\<lambda>name.
     bindR (guardR (collection_name name) ''bad-collection-name'') (\<lambda>_.
     bindR (guardR (mget issued name \<noteq> None) ''unissued-collection'') (\<lambda>_.
     Inr name)))"

definition count :: "member_map \<Rightarrow> string \<Rightarrow> reason + nat" where
  "count m k = (case num_member m k of
      None \<Rightarrow> Inl ''bad-count''
    | Some n \<Rightarrow> (case parse_int64 n of
        None \<Rightarrow> Inl ''bad-count''
      | Some i \<Rightarrow> if i < 0 then Inl ''bad-count'' else Inr (nat i)))"

text \<open>The path of the first null of a decoded value, empty where there is none.\<close>

fun find_null :: "json \<Rightarrow> string \<Rightarrow> string"
  and find_null_members :: "(string \<times> json) list \<Rightarrow> string \<Rightarrow> string"
  and find_null_elems :: "json list \<Rightarrow> nat \<Rightarrow> string \<Rightarrow> string"
where
  "find_null JNull path = path"
| "find_null (JObj kvs) path = find_null_members kvs path"
| "find_null (JArr xs) path = find_null_elems xs 0 path"
| "find_null (JBool b) path = []"
| "find_null (JNum n) path = []"
| "find_null (JStr s) path = []"
| "find_null_members [] path = []"
| "find_null_members ((k, v) # kvs) path =
     (let p = find_null v (path @ ''.'' @ k) in if p \<noteq> [] then p else find_null_members kvs path)"
| "find_null_elems [] i path = []"
| "find_null_elems (x # xs) i path =
     (let p = find_null x (path @ ''['' @ nat_str i @ '']'')
      in if p \<noteq> [] then p else find_null_elems xs (Suc i) path)"

fun has_null :: "json \<Rightarrow> bool" where
  "has_null JNull = True"
| "has_null (JObj kvs) = (\<exists>p \<in> set kvs. has_null (snd p))"
| "has_null (JArr xs) = (\<exists>x \<in> set xs. has_null x)"
| "has_null j = False"

section \<open>Record parsers\<close>

definition parse_generations :: "member_map \<Rightarrow> reason + nat gomap" where
  "parse_generations g =
     mapR (\<lambda>(name, v).
       if \<not> collection_name name then Inl ''bad-generations''
       else (case v of
           JNum n \<Rightarrow> (case parse_int64 n of
               Some i \<Rightarrow> if i < 0 then Inl ''bad-generations'' else Inr (name, nat i)
             | None \<Rightarrow> Inl ''bad-generations'')
         | _ \<Rightarrow> Inl ''bad-generations'')) g"

definition echo_ok :: "nat gomap \<Rightarrow> nat gomap \<Rightarrow> bool" where
  "echo_ok gens issued =
     (length gens = length issued \<and> list_all (\<lambda>(name, g). mget gens name = Some g) issued)"

definition parse_begin :: "member_map \<Rightarrow> nat gomap \<Rightarrow> reason + begin_rec" where
  "parse_begin m issued =
     bindR (fields m [''request'', ''batch'', ''declaration'', ''boot_id'', ''timens'',
                      ''instance'', ''generations''] []) (\<lambda>_.
     bindR (identity m ''request'') (\<lambda>request.
     bindR (identity m ''batch'') (\<lambda>bat.
     bindR (identity m ''declaration'') (\<lambda>declaration.
     bindR (identity m ''boot_id'') (\<lambda>boot.
     bindR (guardR (uuid_shaped boot \<and> \<not> equal_fold boot nil_uuid) ''bad-boot-id'') (\<lambda>_.
     bindR (someR (Option.bind (num_member m ''timens'') parse_int64) ''bad-timens'') (\<lambda>timens.
     bindR (case mget m ''instance'' of
              Some JNull \<Rightarrow> Inr None
            | None \<Rightarrow> Inr None
            | Some (JStr s) \<Rightarrow> if s = [] then Inl ''bad-instance'' else Inr (Some s)
            | _ \<Rightarrow> Inl ''bad-instance'') (\<lambda>inst.
     bindR (someR (obj_member m ''generations'') ''bad-generations'') (\<lambda>graw.
     bindR (parse_generations graw) (\<lambda>gens.
     bindR (guardR (echo_ok gens issued) ''generations-echo-mismatch'') (\<lambda>_.
     Inr \<lparr>bg_request = request, bg_batch = bat, bg_declaration = declaration, bg_boot = boot,
          bg_timens = timens, bg_instance = inst, bg_generations = gens\<rparr>)))))))))))"

definition scalar_name :: "json \<Rightarrow> bool" where
  "scalar_name j = (case j of JStr s \<Rightarrow> s \<noteq> [] | JNum n \<Rightarrow> True | _ \<Rightarrow> False)"

definition check_names :: "json \<Rightarrow> reason + unit" where
  "check_names j = (case j of
      JObj classes \<Rightarrow>
        guardR (list_all (\<lambda>(cls, families).
          (cls = ''stable'' \<or> cls = ''ephemeral'') \<and>
          (case families of
             JObj fm \<Rightarrow> list_all (\<lambda>(family, v).
               (case v of JArr xs \<Rightarrow> list_all scalar_name xs | _ \<Rightarrow> scalar_name v)) fm
           | _ \<Rightarrow> False)) classes) ''bad-names''
    | _ \<Rightarrow> Inl ''bad-names'')"

definition check_evidence :: "json \<Rightarrow> reason + unit" where
  "check_evidence j = (case j of
      JObj m \<Rightarrow>
        bindR (guardR (set (mkeys m) \<subseteq> {''digest'', ''media_type'', ''canon''}) ''bad-evidence'') (\<lambda>_.
        (case (str_member m ''digest'', str_member m ''media_type'') of
           (Some d, Some mt) \<Rightarrow>
             bindR (guardR (d \<noteq> [] \<and> mt \<noteq> []) ''bad-evidence'') (\<lambda>_.
             bindR (guardR ((mt = ''application/json'') = (mget m ''canon'' \<noteq> None)) ''bad-evidence'') (\<lambda>_.
             guardR (mget m ''canon'' = None \<or>
                     (case str_member m ''canon'' of Some c \<Rightarrow> c \<noteq> [] | None \<Rightarrow> False)) ''bad-evidence''))
         | _ \<Rightarrow> Inl ''bad-evidence''))
    | _ \<Rightarrow> Inl ''bad-evidence'')"

definition parse_type :: "member_map \<Rightarrow> reason + string" where
  "parse_type m = (case mget m ''type'' of
      None \<Rightarrow> Inr []
    | Some (JStr s) \<Rightarrow> if collection_name s then Inr s else Inl ''bad-type''
    | Some _ \<Rightarrow> Inl ''bad-type'')"

definition parse_absent :: "member_map \<Rightarrow> reason + string list" where
  "parse_absent m = (case mget m ''absent'' of
      None \<Rightarrow> Inr []
    | Some (JArr xs) \<Rightarrow>
        mapR (\<lambda>x. case x of JStr s \<Rightarrow> if s = [] then Inl ''bad-absent'' else Inr s
                          | _ \<Rightarrow> Inl ''bad-absent'') xs
    | Some _ \<Rightarrow> Inl ''bad-absent'')"

definition parse_at :: "member_map \<Rightarrow> reason + f64" where
  "parse_at m = (case num_member m ''at'' of
      None \<Rightarrow> Inl ''bad-at''
    | Some n \<Rightarrow> (case parse_float n of
        None \<Rightarrow> Inl ''bad-at''
      | Some f \<Rightarrow> if \<not> (0 < f64_val f) \<or> 1000000000 < f64_val f then Inl ''at-out-of-range''
                  else Inr f))"

definition parse_object :: "member_map \<Rightarrow> nat gomap \<Rightarrow> reason + object_rec" where
  "parse_object m issued =
     bindR (fields m [''collection'', ''name'', ''facts'', ''at'']
                     [''type'', ''names'', ''absent'', ''evidence'']) (\<lambda>_.
     bindR (known_collection m issued) (\<lambda>collection.
     bindR (identity m ''name'') (\<lambda>name.
     bindR (parse_type m) (\<lambda>ty.
     bindR (someR (obj_member m ''facts'') ''bad-facts'') (\<lambda>facts.
     bindR (guardR (find_null (JObj facts) ''facts'' = []) ''null-fact'') (\<lambda>_.
     bindR (case mget m ''names'' of None \<Rightarrow> Inr None
              | Some j \<Rightarrow> bindR (check_names j) (\<lambda>_. Inr (Some j))) (\<lambda>names.
     bindR (parse_absent m) (\<lambda>absent.
     bindR (case mget m ''evidence'' of None \<Rightarrow> Inr None
              | Some j \<Rightarrow> bindR (check_evidence j) (\<lambda>_. Inr (Some j))) (\<lambda>evidence.
     bindR (parse_at m) (\<lambda>stamp.
     Inr \<lparr>ob_collection = collection, ob_name = name, ob_type = ty, ob_facts = JObj facts,
          ob_names = names, ob_absent = absent, ob_evidence = evidence, ob_at = stamp\<rparr>))))))))))"

definition parse_relation :: "member_map \<Rightarrow> nat gomap \<Rightarrow> reason + relation_rec" where
  "parse_relation m issued =
     bindR (fields m [''collection'', ''name'', ''type'', ''vantage'', ''target''] [''facts'']) (\<lambda>_.
     bindR (known_collection m issued) (\<lambda>collection.
     bindR (identity m ''name'') (\<lambda>name.
     bindR (identity m ''type'') (\<lambda>ty.
     bindR (identity m ''vantage'') (\<lambda>vantage.
     bindR (someR (obj_member m ''target'') ''bad-target'') (\<lambda>target.
     bindR (guardR (set (mkeys target) \<subseteq> {''kind'', ''name''}) ''bad-target'') (\<lambda>_.
     bindR (identity target ''kind'') (\<lambda>tkind.
     bindR (identity target ''name'') (\<lambda>tname.
     bindR (case mget m ''facts'' of
              None \<Rightarrow> Inr None
            | Some (JObj fm) \<Rightarrow>
                if find_null (JObj fm) ''facts'' = [] then Inr (Some (JObj fm)) else Inl ''null-fact''
            | Some _ \<Rightarrow> Inl ''bad-facts'') (\<lambda>facts.
     Inr \<lparr>rl_collection = collection, rl_name = name, rl_type = ty, rl_vantage = vantage,
          rl_target_kind = tkind, rl_target_name = tname, rl_facts = facts\<rparr>))))))))))"

definition parse_detail :: "member_map \<Rightarrow> reason + string" where
  "parse_detail m = (case mget m ''detail'' of
      None \<Rightarrow> Inr []
    | Some (JStr s) \<Rightarrow> Inr s
    | Some _ \<Rightarrow> Inl ''bad-detail'')"

definition unobs_reasons :: "string list" where
  "unobs_reasons = [''unauthorised'', ''unavailable'', ''unsupported'']"

definition decline_reasons :: "string list" where
  "decline_reasons = ''absent'' # unobs_reasons"

definition parse_unobservable :: "member_map \<Rightarrow> nat gomap \<Rightarrow> reason + unobs_rec" where
  "parse_unobservable m issued =
     bindR (fields m [''collection'', ''name'', ''fact'', ''reason''] [''detail'']) (\<lambda>_.
     bindR (known_collection m issued) (\<lambda>collection.
     bindR (identity m ''name'') (\<lambda>name.
     bindR (identity m ''fact'') (\<lambda>fact.
     bindR (someR (str_member m ''reason'') ''bad-unobservable-reason'') (\<lambda>why.
     bindR (guardR (why \<in> set unobs_reasons) ''bad-unobservable-reason'') (\<lambda>_.
     bindR (parse_detail m) (\<lambda>detail.
     Inr \<lparr>un_collection = collection, un_name = name, un_fact = fact, un_reason = why,
          un_detail = detail\<rparr>)))))))"

definition parse_decline :: "member_map \<Rightarrow> nat gomap \<Rightarrow> reason + decline_rec" where
  "parse_decline m issued =
     bindR (fields m [''collection'', ''reason''] [''detail'']) (\<lambda>_.
     bindR (known_collection m issued) (\<lambda>collection.
     bindR (someR (str_member m ''reason'') ''bad-decline-reason'') (\<lambda>why.
     bindR (guardR (why \<in> set decline_reasons) ''bad-decline-reason'') (\<lambda>_.
     bindR (parse_detail m) (\<lambda>detail.
     Inr \<lparr>de_collection = collection, de_reason = why, de_detail = detail\<rparr>)))))"

text \<open>\<open>checkMeasured\<close>: a number that a clock can read, finite and not negative.\<close>

definition check_measured :: "string \<Rightarrow> reason \<Rightarrow> reason + f64" where
  "check_measured n why = (case parse_float n of
      None \<Rightarrow> Inl why
    | Some f \<Rightarrow> if f64_val f < 0 then Inl why else Inr f)"

definition measured_member :: "member_map \<Rightarrow> string \<Rightarrow> reason \<Rightarrow> f64 \<Rightarrow> reason + f64" where
  "measured_member m k why dflt = (case mget m k of
      None \<Rightarrow> Inr dflt
    | Some (JNum n) \<Rightarrow> check_measured n why
    | Some _ \<Rightarrow> Inl why)"

definition parse_commit :: "member_map \<Rightarrow> nat gomap \<Rightarrow> reason + commit_rec" where
  "parse_commit m issued =
     bindR (fields m [''collection'', ''generation'', ''objects'', ''assertions'', ''unobservable'']
                     [''cpu_ms'']) (\<lambda>_.
     bindR (known_collection m issued) (\<lambda>collection.
     bindR (count m ''generation'') (\<lambda>gen.
     bindR (guardR (mget issued collection = Some gen) ''generation-echo-mismatch'') (\<lambda>_.
     bindR (count m ''objects'') (\<lambda>objects.
     bindR (count m ''assertions'') (\<lambda>assertions.
     bindR (count m ''unobservable'') (\<lambda>unobservable.
     bindR (measured_member m ''cpu_ms'' ''bad-cpu-ms'' (Fin (- 1))) (\<lambda>cpu.
     Inr \<lparr>cm_collection = collection, cm_generation = gen, cm_objects = objects,
          cm_assertions = assertions, cm_unobservable = unobservable, cm_cpu = cpu\<rparr>))))))))"

definition parse_end :: "member_map \<Rightarrow> reason + end_rec" where
  "parse_end m =
     bindR (fields m [''request'', ''batch''] [''cpu_ms'', ''wall_ms'']) (\<lambda>_.
     bindR (identity m ''request'') (\<lambda>request.
     bindR (identity m ''batch'') (\<lambda>bat.
     bindR (measured_member m ''cpu_ms'' ''bad-cpu-ms'' (Fin 0)) (\<lambda>cpu.
     bindR (measured_member m ''wall_ms'' ''bad-wall-ms'' (Fin 0)) (\<lambda>wall.
     Inr \<lparr>en_request = request, en_batch = bat, en_cpu = cpu, en_wall = wall\<rparr>)))))"

end
