(* ===== verification/Batch.thy ===== *)
theory Batch
  imports Wire
begin

text \<open>
  \<open>ParseBatch\<close> of go/internal/wire/wire.go: what the loop carries from line to line, one
  handler per record kind, the whole-batch check, and \<open>Uncommitted\<close>. The last section states what
  an accepted batch satisfies (\<open>batch_ok\<close>) and proves that acceptance gives it.
\<close>

section \<open>The loop\<close>

record pstate =
  ps_begin :: "begin_rec option"
  ps_end :: "end_rec option"
  ps_cols :: "stream gomap"
  ps_last :: "f64 gomap"
  ps_seen :: "string list gomap"

definition pstate_init :: pstate where
  "pstate_init = \<lparr>ps_begin = None, ps_end = None, ps_cols = [], ps_last = [], ps_seen = []\<rparr>"

definition open_stream :: "pstate \<Rightarrow> string \<Rightarrow> reason + stream" where
  "open_stream ps name =
     (let cs = (case mget (ps_cols ps) name of Some cs \<Rightarrow> cs | None \<Rightarrow> empty_stream) in
      if st_commit cs \<noteq> None then Inl ''record-after-commit'' else Inr cs)"

definition open_emitting :: "pstate \<Rightarrow> string \<Rightarrow> reason + stream" where
  "open_emitting ps name =
     bindR (open_stream ps name) (\<lambda>cs.
     if st_decline cs \<noteq> None then Inl ''record-after-decline'' else Inr cs)"

definition put_stream :: "string \<Rightarrow> stream \<Rightarrow> pstate \<Rightarrow> pstate" where
  "put_stream name cs ps = ps\<lparr>ps_cols := mput name cs (ps_cols ps)\<rparr>"

definition on_begin :: "nat gomap \<Rightarrow> pstate \<Rightarrow> member_map \<Rightarrow> reason + pstate" where
  "on_begin issued ps m =
     (if ps_begin ps \<noteq> None then Inl ''duplicate-begin''
      else bindR (parse_begin m issued) (\<lambda>b. Inr (ps\<lparr>ps_begin := Some b\<rparr>)))"

definition seen_names :: "pstate \<Rightarrow> string \<Rightarrow> string list" where
  "seen_names ps c = (case mget (ps_seen ps) c of Some xs \<Rightarrow> xs | None \<Rightarrow> [])"

definition on_object :: "nat gomap \<Rightarrow> pstate \<Rightarrow> member_map \<Rightarrow> reason + pstate" where
  "on_object issued ps m =
     bindR (parse_object m issued) (\<lambda>obj.
     let c = ob_collection obj in
     bindR (open_emitting ps c) (\<lambda>cs.
     if (case mget (ps_last ps) c of Some l \<Rightarrow> f64_val (ob_at obj) < f64_val l | None \<Rightarrow> False)
       then Inl ''at-decreasing''
     else if ob_name obj \<in> set (seen_names ps c) then Inl ''duplicate-object-name''
     else Inr ((put_stream c (cs\<lparr>st_objects := st_objects cs @ [obj]\<rparr>) ps)
            \<lparr>ps_last := mput c (ob_at obj) (ps_last ps),
             ps_seen := mput c (ob_name obj # seen_names ps c) (ps_seen ps)\<rparr>)))"

definition on_relation :: "nat gomap \<Rightarrow> pstate \<Rightarrow> member_map \<Rightarrow> reason + pstate" where
  "on_relation issued ps m =
     bindR (parse_relation m issued) (\<lambda>rel.
     bindR (open_emitting ps (rl_collection rel)) (\<lambda>cs.
     Inr (put_stream (rl_collection rel) (cs\<lparr>st_assertions := st_assertions cs @ [rel]\<rparr>) ps)))"

definition on_unobservable :: "nat gomap \<Rightarrow> pstate \<Rightarrow> member_map \<Rightarrow> reason + pstate" where
  "on_unobservable issued ps m =
     bindR (parse_unobservable m issued) (\<lambda>u.
     bindR (open_emitting ps (un_collection u)) (\<lambda>cs.
     Inr (put_stream (un_collection u) (cs\<lparr>st_unobservables := st_unobservables cs @ [u]\<rparr>) ps)))"

definition on_decline :: "nat gomap \<Rightarrow> pstate \<Rightarrow> member_map \<Rightarrow> reason + pstate" where
  "on_decline issued ps m =
     bindR (parse_decline m issued) (\<lambda>d.
     bindR (open_stream ps (de_collection d)) (\<lambda>cs.
     if st_decline cs \<noteq> None then Inl ''duplicate-decline''
     else if st_objects cs \<noteq> [] \<or> st_assertions cs \<noteq> [] \<or> st_unobservables cs \<noteq> []
       then Inl ''decline-after-records''
     else Inr (put_stream (de_collection d) (cs\<lparr>st_decline := Some d\<rparr>) ps)))"

definition on_commit :: "nat gomap \<Rightarrow> pstate \<Rightarrow> member_map \<Rightarrow> reason + pstate" where
  "on_commit issued ps m =
     bindR (parse_commit m issued) (\<lambda>c.
     bindR (open_stream ps (cm_collection c)) (\<lambda>cs.
     if st_commit cs \<noteq> None then Inl ''duplicate-commit''
     else Inr (put_stream (cm_collection c) (cs\<lparr>st_commit := Some c\<rparr>) ps)))"

definition on_end :: "pstate \<Rightarrow> member_map \<Rightarrow> reason + pstate" where
  "on_end ps m = bindR (parse_end m) (\<lambda>e. Inr (ps\<lparr>ps_end := Some e\<rparr>))"

definition on_record :: "nat gomap \<Rightarrow> pstate \<Rightarrow> member_map \<Rightarrow> reason + pstate" where
  "on_record issued ps m =
     (case str_member m ''record'' of
        None \<Rightarrow> Inl ''missing-record-discriminator''
      | Some kind \<Rightarrow>
          if ps_end ps \<noteq> None then Inl ''record-after-end''
          else if ps_begin ps = None \<and> kind \<noteq> ''begin'' then Inl ''begin-not-first''
          else if kind = ''begin'' then on_begin issued ps m
          else if kind = ''object'' then on_object issued ps m
          else if kind = ''relation_assertion'' then on_relation issued ps m
          else if kind = ''unobservable'' then on_unobservable issued ps m
          else if kind = ''decline'' then on_decline issued ps m
          else if kind = ''commit'' then on_commit issued ps m
          else if kind = ''end'' then on_end ps m
          else Inl ''unknown-record'')"

definition on_line :: "nat gomap \<Rightarrow> pstate \<Rightarrow> string \<Rightarrow> reason + pstate" where
  "on_line issued ps line =
     bindR (someR (decode_record line) ''unparseable-record'') (on_record issued ps)"

fun run_lines :: "nat gomap \<Rightarrow> pstate \<Rightarrow> string list \<Rightarrow> reason + pstate" where
  "run_lines issued ps [] = Inr ps"
| "run_lines issued ps (l # ls) = bindR (on_line issued ps l) (\<lambda>ps'. run_lines issued ps' ls)"

section \<open>The whole-batch check\<close>

definition check_decline :: "stream \<Rightarrow> reason + unit" where
  "check_decline cs = (case st_decline cs of
      None \<Rightarrow> Inr ()
    | Some d \<Rightarrow>
        if de_reason d = ''absent'' then
          (case st_commit cs of
             None \<Rightarrow> Inl ''absent-without-commit''
           | Some c \<Rightarrow>
               if cm_objects c \<noteq> 0 \<or> cm_assertions c \<noteq> 0 \<or> cm_unobservable c \<noteq> 0
               then Inl ''absent-with-objects'' else Inr ())
        else if st_commit cs \<noteq> None then Inl ''decline-with-commit'' else Inr ())"

definition check_counts :: "stream \<Rightarrow> reason + unit" where
  "check_counts cs = (case st_commit cs of
      None \<Rightarrow> Inr ()
    | Some c \<Rightarrow>
        guardR (length (st_objects cs) = cm_objects c \<and>
                length (st_assertions cs) = cm_assertions c \<and>
                length (st_unobservables cs) = cm_unobservable c) ''commit-count-mismatch'')"

fun check_streams :: "stream gomap \<Rightarrow> reason + bool" where
  "check_streams [] = Inr False"
| "check_streams ((name, cs) # m) =
     bindR (check_decline cs) (\<lambda>_.
     bindR (check_counts cs) (\<lambda>_.
     bindR (check_streams m) (\<lambda>any. Inr (st_objects cs \<noteq> [] \<or> any))))"

definition check_batch :: "begin_rec \<Rightarrow> stream gomap \<Rightarrow> end_rec \<Rightarrow> reason + unit" where
  "check_batch b cols e =
     bindR (guardR (en_request e = bg_request b \<and> en_batch e = bg_batch b) ''end-echo-mismatch'') (\<lambda>_.
     bindR (check_streams cols) (\<lambda>any.
     guardR (\<not> (any \<and> \<not> (0 < f64_val (en_wall e)))) ''wall-ms-not-positive''))"

text \<open>\<open>sha\<close> is SHA-256 in hexadecimal (crypto/sha256).\<close>

definition content_hash :: "(string \<Rightarrow> string) \<Rightarrow> string \<Rightarrow> string" where
  "content_hash sha raw = ''sha256:'' @ sha raw"

definition parse_batch :: "(string \<Rightarrow> string) \<Rightarrow> string \<Rightarrow> nat gomap \<Rightarrow> reason + batch" where
  "parse_batch sha raw issued =
     (let lines = split_lines raw in
      if lines = [] then Inl ''empty-stream''
      else bindR (run_lines issued pstate_init lines) (\<lambda>ps.
        case (ps_begin ps, ps_end ps) of
          (Some b, Some e) \<Rightarrow>
            bindR (check_batch b (ps_cols ps) e) (\<lambda>_.
            Inr \<lparr>b_begin = b, b_collections = ps_cols ps, b_end = e,
                 b_hash = content_hash sha raw\<rparr>)
        | _ \<Rightarrow> Inl ''missing-end''))"

definition uncommitted :: "batch \<Rightarrow> string list" where
  "uncommitted b =
     sort (filter (\<lambda>name. case mget (b_collections b) name of
              None \<Rightarrow> True
            | Some cs \<Rightarrow> st_commit cs = None \<and> st_decline cs = None)
          (mkeys (bg_generations (b_begin b))))"

section \<open>What an accepted batch satisfies\<close>

definition object_ok :: "string \<Rightarrow> object_rec \<Rightarrow> bool" where
  "object_ok name ob =
     (ob_collection ob = name \<and> ob_name ob \<noteq> [] \<and> \<not> has_null (ob_facts ob) \<and>
      0 < f64_val (ob_at ob) \<and> f64_val (ob_at ob) \<le> 1000000000 \<and>
      (\<forall>a \<in> set (ob_absent ob). a \<noteq> []))"

definition emits :: "stream \<Rightarrow> bool" where
  "emits cs = (st_objects cs \<noteq> [] \<or> st_assertions cs \<noteq> [] \<or> st_unobservables cs \<noteq> [])"

definition stream_ok :: "nat gomap \<Rightarrow> string \<Rightarrow> stream \<Rightarrow> bool" where
  "stream_ok issued name cs =
     (mget issued name \<noteq> None \<and>
      (\<forall>ob \<in> set (st_objects cs). object_ok name ob) \<and>
      sorted (map (f64_val \<circ> ob_at) (st_objects cs)) \<and>
      distinct (map ob_name (st_objects cs)) \<and>
      (\<forall>rel \<in> set (st_assertions cs). rl_collection rel = name) \<and>
      (\<forall>u \<in> set (st_unobservables cs). un_collection u = name \<and> un_reason u \<in> set unobs_reasons) \<and>
      (\<forall>d. st_decline cs = Some d \<longrightarrow>
         de_reason d \<in> set decline_reasons \<and> \<not> emits cs) \<and>
      (\<forall>c. st_commit cs = Some c \<longrightarrow> mget issued name = Some (cm_generation c)))"

definition closing_ok :: "stream \<Rightarrow> bool" where
  "closing_ok cs =
     ((\<forall>c. st_commit cs = Some c \<longrightarrow>
         length (st_objects cs) = cm_objects c \<and>
         length (st_assertions cs) = cm_assertions c \<and>
         length (st_unobservables cs) = cm_unobservable c) \<and>
      (\<forall>d. st_decline cs = Some d \<longrightarrow>
         (st_commit cs \<noteq> None) = (de_reason d = ''absent'')))"

definition batch_ok :: "nat gomap \<Rightarrow> batch \<Rightarrow> bool" where
  "batch_ok issued b =
     (mok (b_collections b) \<and>
      bg_generations (b_begin b) = issued \<and>
      uuid_shaped (bg_boot (b_begin b)) \<and>
      en_request (b_end b) = bg_request (b_begin b) \<and>
      en_batch (b_end b) = bg_batch (b_begin b) \<and>
      (\<forall>(name, cs) \<in> set (b_collections b). stream_ok issued name cs \<and> closing_ok cs) \<and>
      ((\<exists>(name, cs) \<in> set (b_collections b). st_objects cs \<noteq> []) \<longrightarrow> 0 < f64_val (en_wall (b_end b))))"

text \<open>The loop invariant: every stream so far is well formed, and the bookkeeping agrees with it.\<close>

definition book_ok :: "pstate \<Rightarrow> string \<Rightarrow> stream \<Rightarrow> bool" where
  "book_ok ps name cs =
     (set (seen_names ps name) = ob_name ` set (st_objects cs) \<and>
      (st_objects cs \<noteq> [] \<longrightarrow>
         map_option f64_val (mget (ps_last ps) name) = Some (f64_val (ob_at (last (st_objects cs))))))"

definition pstate_ok :: "nat gomap \<Rightarrow> pstate \<Rightarrow> bool" where
  "pstate_ok issued ps =
     (mok (ps_cols ps) \<and>
      (\<forall>b. ps_begin ps = Some b \<longrightarrow> bg_generations b = issued \<and> uuid_shaped (bg_boot b)) \<and>
      (\<forall>name cs. mget (ps_cols ps) name = Some cs \<longrightarrow> stream_ok issued name cs \<and> book_ok ps name cs) \<and>
      (\<forall>name. mget (ps_cols ps) name = None \<longrightarrow> mget (ps_seen ps) name = None))"

section \<open>Acceptance gives well-formedness\<close>

lemma echo_ok_eq: "mok a \<Longrightarrow> mok b \<Longrightarrow> echo_ok a b \<longleftrightarrow> a = b"
proof
  assume a: "mok a" and b: "mok b" and e: "echo_ok a b"
  have "set b \<subseteq> set a"
    using e by (auto simp: echo_ok_def list_all_iff dest: map_of_SomeD)
  moreover have "card (set a) = card (set b)"
    using e mok_distinct [OF a] mok_distinct [OF b]
    by (simp add: echo_ok_def distinct_card distinct_map)
  ultimately have "set a = set b"
    by (metis List.finite_set card_subset_eq)
  with a b show "a = b"
    by (rule mok_set_ext)
qed (auto simp: echo_ok_def list_all_iff mok_distinct)

lemma decode_record_normal: "decode_record line = Some m \<Longrightarrow> normal (JObj m)"
  using normal_norm [of "JObj kvs" for kvs]
  by (auto simp: decode_record_def simp del: normal.simps split: option.splits json.splits if_splits) simp_all

lemma parse_generations_keys: "parse_generations g = Inr gens \<Longrightarrow> mkeys gens = mkeys g"
  unfolding parse_generations_def mapR_Inr_iff
  by (induction rule: list_all2_induct) (auto split: prod.splits json.splits option.splits if_splits)

lemma parse_begin_Inr:
  assumes "parse_begin m issued = Inr b" and "normal (JObj m)" and "mok issued"
  shows "bg_generations b = issued \<and> uuid_shaped (bg_boot b)"
proof -
  obtain graw gens where g: "obj_member m ''generations'' = Some graw"
      "parse_generations graw = Inr gens" "echo_ok gens issued"
    and b: "bg_generations b = gens" "uuid_shaped (bg_boot b)"
    using assms(1) by (auto simp: parse_begin_def res_iff)
  have "normal (JObj graw)"
    using g(1) normal_member [OF assms(2), of "''generations''"]
    by (simp add: obj_member_def split: option.splits json.splits)
  then have "mok gens"
    using parse_generations_keys [OF g(2)] by (simp add: mok_def)
  then show ?thesis
    using g(3) b assms(3) by (simp add: echo_ok_eq)
qed

lemma find_null_Nil:
  "path \<noteq> [] \<Longrightarrow> find_null j path = [] \<longleftrightarrow> \<not> has_null j"
  "path \<noteq> [] \<Longrightarrow> find_null_members kvs path = [] \<longleftrightarrow> (\<forall>p \<in> set kvs. \<not> has_null (snd p))"
  "path \<noteq> [] \<Longrightarrow> find_null_elems xs i path = [] \<longleftrightarrow> (\<forall>x \<in> set xs. \<not> has_null x)"
  by (induction j path and kvs path and xs i path
      rule: find_null_find_null_members_find_null_elems.induct) (auto simp: Let_def)

lemma open_stream_Inr [res_iff]:
  "open_stream ps name = Inr cs \<longleftrightarrow>
   cs = (case mget (ps_cols ps) name of Some cs \<Rightarrow> cs | None \<Rightarrow> empty_stream) \<and> st_commit cs = None"
  by (auto simp: open_stream_def Let_def)

lemma open_emitting_Inr [res_iff]:
  "open_emitting ps name = Inr cs \<longleftrightarrow> open_stream ps name = Inr cs \<and> st_decline cs = None"
  by (auto simp: open_emitting_def bindR_Inr_iff)

lemma put_stream_sel [simp]:
  "ps_begin (put_stream n cs ps) = ps_begin ps"
  "ps_end (put_stream n cs ps) = ps_end ps"
  "ps_cols (put_stream n cs ps) = mput n cs (ps_cols ps)"
  "ps_last (put_stream n cs ps) = ps_last ps"
  "ps_seen (put_stream n cs ps) = ps_seen ps"
  "seen_names (put_stream n cs ps) = seen_names ps"
  by (simp_all add: put_stream_def seen_names_def fun_eq_iff)

lemma known_collection_Inr: "known_collection m issued = Inr c \<Longrightarrow> mget issued c \<noteq> None"
  by (auto simp: known_collection_def res_iff)

lemma parse_at_Inr: "parse_at m = Inr f \<Longrightarrow> 0 < f64_val f \<and> f64_val f \<le> 1000000000"
  by (auto simp: parse_at_def split: option.splits if_splits)

lemma parse_absent_Inr: "parse_absent m = Inr xs \<Longrightarrow> a \<in> set xs \<Longrightarrow> a \<noteq> []"
  by (auto simp: parse_absent_def dest!: mapR_in split: option.splits json.splits if_splits)

lemma identity_Inr: "identity m k = Inr s \<Longrightarrow> s \<noteq> []"
  by (auto simp: identity_def split: option.splits if_splits)

lemma parse_object_Inr:
  assumes "parse_object m issued = Inr ob"
  shows "object_ok (ob_collection ob) ob \<and> mget issued (ob_collection ob) \<noteq> None"
proof -
  obtain facts where "known_collection m issued = Inr (ob_collection ob)"
      "identity m ''name'' = Inr (ob_name ob)" "ob_facts ob = JObj facts"
      "find_null (JObj facts) ''facts'' = []" "parse_absent m = Inr (ob_absent ob)"
      "parse_at m = Inr (ob_at ob)"
    using assms by (auto simp: parse_object_def res_iff)
  then show ?thesis
    by (simp add: object_ok_def known_collection_Inr parse_at_Inr identity_Inr
        find_null_Nil(1) [of "''facts''" "JObj facts"] parse_absent_Inr del: find_null.simps has_null.simps)
qed

lemma parse_relation_Inr:
  "parse_relation m issued = Inr r \<Longrightarrow> mget issued (rl_collection r) \<noteq> None"
  by (auto simp: parse_relation_def res_iff dest: known_collection_Inr)

lemma parse_unobservable_Inr:
  "parse_unobservable m issued = Inr u \<Longrightarrow>
   mget issued (un_collection u) \<noteq> None \<and> un_reason u \<in> set unobs_reasons"
  by (auto simp: parse_unobservable_def res_iff dest: known_collection_Inr)

lemma parse_decline_Inr:
  "parse_decline m issued = Inr d \<Longrightarrow>
   mget issued (de_collection d) \<noteq> None \<and> de_reason d \<in> set decline_reasons"
  by (auto simp: parse_decline_def res_iff dest: known_collection_Inr)

lemma parse_commit_Inr:
  "parse_commit m issued = Inr c \<Longrightarrow> mget issued (cm_collection c) = Some (cm_generation c)"
  by (auto simp: parse_commit_def res_iff)

text \<open>Adding a well-formed stream to a well-formed state.\<close>

lemma pstate_ok_put:
  assumes ok: "pstate_ok issued ps"
    and cs: "stream_ok issued name cs"
    and bk: "book_ok ps' name cs"
    and cols: "ps_cols ps' = mput name cs (ps_cols ps)"
    and oth: "ps_begin ps' = ps_begin ps"
      "\<And>x. x \<noteq> name \<Longrightarrow> mget (ps_last ps') x = mget (ps_last ps) x"
      "\<And>x. x \<noteq> name \<Longrightarrow> mget (ps_seen ps') x = mget (ps_seen ps) x"
  shows "pstate_ok issued ps'"
  unfolding pstate_ok_def
proof (intro conjI allI impI)
  show "mok (ps_cols ps')"
    using ok cols by (simp add: pstate_ok_def)
next
  fix b assume "ps_begin ps' = Some b"
  then show "bg_generations b = issued" and "uuid_shaped (bg_boot b)"
    using ok oth(1) by (simp_all add: pstate_ok_def)
next
  fix x c assume x: "mget (ps_cols ps') x = Some c"
  show "stream_ok issued x c"
    using ok cs x cols by (auto simp: pstate_ok_def split: if_splits)
  show "book_ok ps' x c"
  proof (cases "x = name")
    case True
    then show ?thesis using bk x cols by simp
  next
    case False
    then have "book_ok ps x c" using ok x cols by (simp add: pstate_ok_def)
    then show ?thesis using False oth by (simp add: book_ok_def seen_names_def)
  qed
next
  fix x assume "mget (ps_cols ps') x = None"
  then show "mget (ps_seen ps') x = None"
    using ok cols oth(3) by (auto simp: pstate_ok_def split: if_splits)
qed

text \<open>The stream a handler works on: what is there, or the empty one.\<close>

lemma pstate_ok_open:
  assumes "pstate_ok issued ps" and "open_stream ps name = Inr cs" and "mget issued name \<noteq> None"
  shows "stream_ok issued name cs \<and> book_ok ps name cs \<and> st_commit cs = None"
proof (cases "mget (ps_cols ps) name")
  case None
  with assms have "cs = empty_stream" "mget (ps_seen ps) name = None"
    by (auto simp: open_stream_Inr pstate_ok_def)
  with assms(3) show ?thesis
    by (auto simp: stream_ok_def book_ok_def empty_stream_def seen_names_def)
next
  case (Some c)
  with assms show ?thesis by (auto simp: open_stream_Inr pstate_ok_def)
qed

lemma on_object_ok:
  assumes ok: "pstate_ok issued ps" and st: "on_object issued ps m = Inr ps'"
  shows "pstate_ok issued ps'"
proof -
  obtain ob cs where ob: "parse_object m issued = Inr ob"
    and op: "open_stream ps (ob_collection ob) = Inr cs" and nd: "st_decline cs = None"
    and mono: "\<not> (case mget (ps_last ps) (ob_collection ob) of
                     Some l \<Rightarrow> f64_val (ob_at ob) < f64_val l | None \<Rightarrow> False)"
    and new: "ob_name ob \<notin> set (seen_names ps (ob_collection ob))"
    and ps': "ps' = (put_stream (ob_collection ob) (cs\<lparr>st_objects := st_objects cs @ [ob]\<rparr>) ps)
            \<lparr>ps_last := mput (ob_collection ob) (ob_at ob) (ps_last ps),
             ps_seen := mput (ob_collection ob) (ob_name ob # seen_names ps (ob_collection ob)) (ps_seen ps)\<rparr>"
    using st by (auto simp: on_object_def Let_def bindR_Inr_iff open_emitting_Inr split: if_splits)
  let ?c = "ob_collection ob" and ?cs = "cs\<lparr>st_objects := st_objects cs @ [ob]\<rparr>"
  note obok = parse_object_Inr [OF ob]
  from pstate_ok_open [OF ok op] obok
  have so: "stream_ok issued ?c cs" and bk: "book_ok ps ?c cs" and nc: "st_commit cs = None" by auto
  have low: "f64_val (ob_at x) \<le> f64_val (ob_at ob)" if "x \<in> set (st_objects cs)" for x
  proof -
    from that have ne: "st_objects cs \<noteq> []" by auto
    have "sorted (map (f64_val \<circ> ob_at) (st_objects cs))" using so by (simp add: stream_ok_def)
    from sorted_le_last [OF this, of "f64_val (ob_at x)"]
    have "f64_val (ob_at x) \<le> f64_val (ob_at (last (st_objects cs)))"
      using that ne by (auto simp: last_map)
    also have "\<dots> \<le> f64_val (ob_at ob)"
      using bk ne mono by (auto simp: book_ok_def split: option.splits)
    finally show ?thesis .
  qed
  have "stream_ok issued ?c ?cs"
    using so obok new bk nd low nc
    by (auto simp: stream_ok_def book_ok_def sorted_append)
  moreover have "book_ok ps' ?c ?cs"
    using bk by (auto simp: book_ok_def ps' seen_names_def)
  ultimately show ?thesis
    by (rule pstate_ok_put [OF ok]) (simp_all add: ps')
qed

lemma on_relation_ok:
  assumes ok: "pstate_ok issued ps" and st: "on_relation issued ps m = Inr ps'"
  shows "pstate_ok issued ps'"
proof -
  obtain r cs where r: "parse_relation m issued = Inr r"
    and op: "open_stream ps (rl_collection r) = Inr cs" and nd: "st_decline cs = None"
    and ps': "ps' = put_stream (rl_collection r) (cs\<lparr>st_assertions := st_assertions cs @ [r]\<rparr>) ps"
    using st by (auto simp: on_relation_def bindR_Inr_iff open_emitting_Inr)
  from pstate_ok_open [OF ok op] parse_relation_Inr [OF r] nd
  have "stream_ok issued (rl_collection r) (cs\<lparr>st_assertions := st_assertions cs @ [r]\<rparr>)"
    and "book_ok ps' (rl_collection r) (cs\<lparr>st_assertions := st_assertions cs @ [r]\<rparr>)"
    by (auto simp: stream_ok_def book_ok_def ps')
  then show ?thesis
    by (rule pstate_ok_put [OF ok]) (simp_all add: ps')
qed

lemma on_unobservable_ok:
  assumes ok: "pstate_ok issued ps" and st: "on_unobservable issued ps m = Inr ps'"
  shows "pstate_ok issued ps'"
proof -
  obtain u cs where u: "parse_unobservable m issued = Inr u"
    and op: "open_stream ps (un_collection u) = Inr cs" and nd: "st_decline cs = None"
    and ps': "ps' = put_stream (un_collection u) (cs\<lparr>st_unobservables := st_unobservables cs @ [u]\<rparr>) ps"
    using st by (auto simp: on_unobservable_def bindR_Inr_iff open_emitting_Inr)
  from pstate_ok_open [OF ok op] parse_unobservable_Inr [OF u] nd
  have "stream_ok issued (un_collection u) (cs\<lparr>st_unobservables := st_unobservables cs @ [u]\<rparr>)"
    and "book_ok ps' (un_collection u) (cs\<lparr>st_unobservables := st_unobservables cs @ [u]\<rparr>)"
    by (auto simp: stream_ok_def book_ok_def ps')
  then show ?thesis
    by (rule pstate_ok_put [OF ok]) (simp_all add: ps')
qed

lemma on_decline_ok:
  assumes ok: "pstate_ok issued ps" and st: "on_decline issued ps m = Inr ps'"
  shows "pstate_ok issued ps'"
proof -
  obtain d cs where d: "parse_decline m issued = Inr d"
    and op: "open_stream ps (de_collection d) = Inr cs" and ne: "\<not> emits cs"
    and ps': "ps' = put_stream (de_collection d) (cs\<lparr>st_decline := Some d\<rparr>) ps"
    using st by (auto simp: on_decline_def bindR_Inr_iff emits_def split: if_splits)
  from pstate_ok_open [OF ok op] parse_decline_Inr [OF d] ne
  have "stream_ok issued (de_collection d) (cs\<lparr>st_decline := Some d\<rparr>)"
    and "book_ok ps' (de_collection d) (cs\<lparr>st_decline := Some d\<rparr>)"
    by (auto simp: stream_ok_def book_ok_def ps' emits_def)
  then show ?thesis
    by (rule pstate_ok_put [OF ok]) (simp_all add: ps')
qed

lemma on_commit_ok:
  assumes ok: "pstate_ok issued ps" and st: "on_commit issued ps m = Inr ps'"
  shows "pstate_ok issued ps'"
proof -
  obtain c cs where c: "parse_commit m issued = Inr c"
    and op: "open_stream ps (cm_collection c) = Inr cs"
    and ps': "ps' = put_stream (cm_collection c) (cs\<lparr>st_commit := Some c\<rparr>) ps"
    using st by (auto simp: on_commit_def bindR_Inr_iff split: if_splits)
  from pstate_ok_open [OF ok op] parse_commit_Inr [OF c]
  have "stream_ok issued (cm_collection c) (cs\<lparr>st_commit := Some c\<rparr>)"
    and "book_ok ps' (cm_collection c) (cs\<lparr>st_commit := Some c\<rparr>)"
    by (auto simp: stream_ok_def book_ok_def ps' emits_def)
  then show ?thesis
    by (rule pstate_ok_put [OF ok]) (simp_all add: ps')
qed

lemma pstate_ok_begin_end:
  assumes "pstate_ok issued ps" and "ps_cols ps' = ps_cols ps" and "ps_last ps' = ps_last ps"
    and "ps_seen ps' = ps_seen ps"
    and "\<And>b. ps_begin ps' = Some b \<Longrightarrow> bg_generations b = issued \<and> uuid_shaped (bg_boot b)"
  shows "pstate_ok issued ps'"
proof -
  have "book_ok ps' = book_ok ps"
    by (simp add: fun_eq_iff book_ok_def seen_names_def assms(3,4))
  with assms show ?thesis by (simp add: pstate_ok_def)
qed

lemma on_record_ok:
  assumes "pstate_ok issued ps" and "on_record issued ps m = Inr ps'"
    and "normal (JObj m)" and "mok issued"
  shows "pstate_ok issued ps'"
proof -
  have "pstate_ok issued ps'" if st: "on_begin issued ps m = Inr ps'"
  proof -
    obtain b where "parse_begin m issued = Inr b" "ps' = ps\<lparr>ps_begin := Some b\<rparr>"
      using st by (auto simp: on_begin_def res_iff split: if_splits)
    with parse_begin_Inr [OF _ assms(3,4)] show ?thesis
      by (intro pstate_ok_begin_end [OF assms(1)]) auto
  qed
  moreover have "pstate_ok issued ps'" if "on_end ps m = Inr ps'"
    using that assms(1)
    by (intro pstate_ok_begin_end [OF assms(1)]) (auto simp: on_end_def res_iff pstate_ok_def)
  ultimately show ?thesis
    using assms(1,2)
    by (auto simp: on_record_def split: option.splits if_splits
        intro: on_object_ok on_relation_ok on_unobservable_ok on_decline_ok on_commit_ok)
qed

lemma run_lines_ok:
  "pstate_ok issued ps \<Longrightarrow> mok issued \<Longrightarrow> run_lines issued ps ls = Inr ps' \<Longrightarrow> pstate_ok issued ps'"
proof (induction ls arbitrary: ps)
  case (Cons l ls)
  then obtain m ps1 where "decode_record l = Some m" "on_record issued ps m = Inr ps1"
      "run_lines issued ps1 ls = Inr ps'"
    by (auto simp: on_line_def res_iff)
  with Cons show ?case
    by (blast intro: on_record_ok decode_record_normal)
qed simp

lemma pstate_ok_init: "pstate_ok issued pstate_init"
  by (simp add: pstate_ok_def pstate_init_def)

lemma check_decline_Inr:
  "check_decline cs = Inr u \<Longrightarrow>
   \<forall>d. st_decline cs = Some d \<longrightarrow> (st_commit cs \<noteq> None) = (de_reason d = ''absent'')"
  by (auto simp: check_decline_def split: option.splits if_splits)

lemma check_streams_Inr:
  "check_streams m = Inr any \<Longrightarrow>
   (\<forall>(name, cs) \<in> set m. closing_ok cs) \<and> (any \<longleftrightarrow> (\<exists>(name, cs) \<in> set m. st_objects cs \<noteq> []))"
proof (induction m arbitrary: any)
  case (Cons p m)
  obtain name cs where p: "p = (name, cs)" by (cases p)
  from Cons.prems obtain a where c: "check_decline cs = Inr ()" "check_counts cs = Inr ()"
      "check_streams m = Inr a" "any = (st_objects cs \<noteq> [] \<or> a)"
    by (auto simp: p bindR_Inr_iff)
  with check_decline_Inr [OF c(1)] have "closing_ok cs"
    by (auto simp: closing_ok_def check_counts_def guardR_Inr_iff split: option.splits)
  with c(4) Cons.IH [OF c(3)] show ?case by (auto simp: p)
qed simp

text \<open>
  Property C6. A batch \<open>ParseBatch\<close> returns is well formed: \<open>begin\<close> echoes exactly the
  issued generations under a boot id of UUID shape, \<open>end\<close> echoes \<open>begin\<close>, and every
  collection in it was issued, emits its objects with distinct names, without nulls, at
  non-decreasing stamps within the boot scale, commits exactly the counts it sent at the
  generation issued, and declines only where it emitted nothing, with a commit if and only
  if the decline is \<open>absent\<close>; if any object was emitted, \<open>wall_ms\<close> is positive.
\<close>

theorem parse_batch_sound:
  assumes "parse_batch sha raw issued = Inr b" and "mok issued"
  shows "batch_ok issued b"
proof -
  obtain ps bg e where run: "run_lines issued pstate_init (split_lines raw) = Inr ps"
    and be: "ps_begin ps = Some bg" "ps_end ps = Some e"
    and ck: "check_batch bg (ps_cols ps) e = Inr ()"
    and b: "b_begin b = bg" "b_collections b = ps_cols ps" "b_end b = e"
  proof -
    obtain ps where "run_lines issued pstate_init (split_lines raw) = Inr ps"
      and res: "(case (ps_begin ps, ps_end ps) of
          (Some b, Some e) \<Rightarrow>
            bindR (check_batch b (ps_cols ps) e) (\<lambda>_.
            Inr \<lparr>b_begin = b, b_collections = ps_cols ps, b_end = e,
                 b_hash = content_hash sha raw\<rparr>)
        | _ \<Rightarrow> Inl ''missing-end'') = Inr b"
      using assms(1) by (auto simp: parse_batch_def Let_def bindR_Inr_iff split: if_splits)
    then show thesis
      by (cases "ps_begin ps"; cases "ps_end ps") (auto simp: bindR_Inr_iff intro: that)
  qed
  have ok: "pstate_ok issued ps"
    by (rule run_lines_ok [OF pstate_ok_init assms(2) run])
  obtain any where any: "check_streams (ps_cols ps) = Inr any"
    and rest: "en_request e = bg_request bg" "en_batch e = bg_batch bg"
      "any \<longrightarrow> 0 < f64_val (en_wall e)"
    using ck by (auto simp: check_batch_def res_iff)
  have "stream_ok issued name cs" if "(name, cs) \<in> set (ps_cols ps)" for name cs
    using that ok by (simp add: pstate_ok_def mok_distinct)
  with check_streams_Inr [OF any] ok be rest show ?thesis
    by (auto simp: batch_ok_def b pstate_ok_def)
qed

text \<open>A stream with every kind of record in it.\<close>

definition sample_issued :: "nat gomap" where
  "sample_issued = [(''pools'', 3), (''units'', 7)]"

definition sample_lines :: "string list" where
  \<open>sample_lines =
    [''{"record":"begin","request":"r1","batch":"b1","declaration":"d","boot_id":"01234567-89ab-cdef-0123-456789abcdef","timens":0,"instance":null,"generations":{"units":7,"pools":3}}'',
     ''{"record":"object","collection":"units","name":"a","type":"service","facts":{"N":1},"at":5}'',
     ''{"record":"object","collection":"units","name":"b","facts":{"N":[2,{"x":"y"}]},"absent":["M"],"at":5}'',
     ''{"record":"relation_assertion","collection":"units","name":"b","type":"in","vantage":"v","target":{"kind":"unit","name":"a"}}'',
     ''{"record":"unobservable","collection":"units","name":"b","fact":"M","reason":"unauthorised"}'',
     ''{"record":"commit","collection":"units","generation":7,"objects":2,"assertions":1,"unobservable":1,"cpu_ms":4}'',
     ''{"record":"decline","collection":"pools","reason":"absent","detail":"no zfs"}'',
     ''{"record":"commit","collection":"pools","generation":3,"objects":0,"assertions":0,"unobservable":0}'',
     ''{"record":"end","request":"r1","batch":"b1","wall_ms":12}'']\<close>

definition sample_raw :: string where
  "sample_raw = concat (map (\<lambda>l. l @ [CHR 0x0A]) sample_lines)"

lemma sample_accepted: "is_ok (parse_batch (\<lambda>raw. ''00'') sample_raw sample_issued)"
  by code_simp

theorem parse_batch_sound_witness:
  "\<exists>b. parse_batch (\<lambda>raw. ''00'') sample_raw sample_issued = Inr b \<and> batch_ok sample_issued b"
proof -
  obtain b where b: "parse_batch (\<lambda>raw. ''00'') sample_raw sample_issued = Inr b"
    using sample_accepted by (auto simp: is_ok_iff)
  moreover have "mok sample_issued" by code_simp
  ultimately show ?thesis using parse_batch_sound [OF b] by blast
qed

end
