(* ===== verification/Store.thy ===== *)
theory Store
  imports Batch
begin

text \<open>
  The collator's durable state (go/internal/store/store.go): one record field per SQLite
  table, a row record per table, and one definition per method of \<open>Store\<close>. A method that
  runs a transaction returns its result and the state it commits; a returned error means the
  deferred rollback ran, so the state is the one it started from. The wall-clock readings
  (\<open>wallNow\<close>) are arguments; the text of a rejection's detail column is not modelled, nor
  are failures of the database engine itself.
\<close>

section \<open>Schema\<close>

record col_row =
  c_issued :: nat
  c_applied :: nat
  c_applied_at :: "string option"
  c_hash :: "string option"
  c_boot :: "string option"
  c_stale :: bool
  c_stale_reason :: "string option"
  c_declaration :: "string option"
  c_cost :: "f64 option"
  c_decline_reason :: "string option"
  c_decline_detail :: "string option"
  c_declined_at :: "string option"
  c_skew :: "int option"

record obj_row =
  o_collection :: string
  o_scope :: string
  o_id :: string
  o_name :: string
  o_type :: string
  o_facts :: json
  o_names :: "json option"
  o_absent :: "string list"
  o_at :: f64
  o_seq :: nat

record unobs_row =
  u_collection :: string
  u_scope :: string
  u_object :: string
  u_fact :: string
  u_reason :: string
  u_detail :: string

record rejection =
  rj_collection :: string
  rj_batch :: string
  rj_reason :: string

datatype observability = Confirmed | Asserted | Contradicted

record rel_row =
  r_collection :: string
  r_scope :: string
  r_key :: string
  r_source_id :: string
  r_source_name :: string
  r_type :: string
  r_vantage :: string
  r_target_kind :: string
  r_target_name :: string
  r_target_id :: "string option"
  r_resolved :: bool
  r_facts :: "json option"
  r_obs :: observability

record snapshot =
  sn_collection :: string
  sn_scope :: string
  sn_taken :: string
  sn_generation :: nat
  sn_digest :: string
  sn_objects :: string
  sn_format :: nat

record db =
  d_cols :: "col_row gomap"
  d_objs :: "obj_row list"
  d_unobs :: "unobs_row list"
  d_rejs :: "rejection list"
  d_decls :: "string gomap"
  d_acks :: "(nat gomap \<times> string) gomap"
  d_rels :: "rel_row list"
  d_snaps :: "(nat \<times> snapshot) list"
  d_next_seq :: nat

definition empty_db :: db where
  "empty_db = \<lparr>d_cols = [], d_objs = [], d_unobs = [], d_rejs = [], d_decls = [], d_acks = [],
     d_rels = [], d_snaps = [], d_next_seq = 1\<rparr>"

text \<open>Library functions the store uses: SHA-256 in hexadecimal and the text of a \<open>float64\<close>.\<close>

record lib =
  sha256 :: "string \<Rightarrow> string"
  fmt_float :: "f64 \<Rightarrow> string"

definition host_native :: string where
  "host_native = []"

datatype store_error =
    NoBootId | NoGenerationRow | NeverIssued | DuplicateKey | GenerationOverflow
  | UndeclaredType | BadFacts | Collision

section \<open>Issuing generations\<close>

definition fresh_row :: "string \<Rightarrow> col_row" where
  "fresh_row decl = \<lparr>c_issued = 1, c_applied = 0, c_applied_at = None, c_hash = None,
     c_boot = None, c_stale = False, c_stale_reason = None, c_declaration = Some decl,
     c_cost = None, c_decline_reason = None, c_decline_detail = None, c_declined_at = None,
     c_skew = None\<rparr>"

text \<open>
  The upsert of one name. A generation column is a signed 64-bit SQLite integer: past its
  maximum the sum is a floating-point value, which does not scan into a \<open>uint64\<close>.
\<close>

definition issue_row :: "col_row gomap \<Rightarrow> string \<Rightarrow> string \<Rightarrow> col_row option" where
  "issue_row cols decl name =
     (case mget cols name of
        None \<Rightarrow> Some (fresh_row decl)
      | Some r \<Rightarrow>
          if int64_max \<le> int (c_issued r) then None
          else Some (r\<lparr>c_issued := c_issued r + 1, c_declaration := Some decl\<rparr>))"

fun issue_loop ::
  "col_row gomap \<Rightarrow> string \<Rightarrow> string list \<Rightarrow> nat gomap \<Rightarrow> (col_row gomap \<times> nat gomap) option"
where
  "issue_loop cols decl [] issued = Some (cols, issued)"
| "issue_loop cols decl (name # names) issued =
     (case issue_row cols decl name of
        None \<Rightarrow> None
      | Some r \<Rightarrow> issue_loop (mput name r cols) decl names (mput name (c_issued r) issued))"

definition issue_generations :: "string list \<Rightarrow> string \<Rightarrow> db \<Rightarrow> (store_error + nat gomap) \<times> db" where
  "issue_generations names decl d =
     (case issue_loop (d_cols d) decl names [] of
        None \<Rightarrow> (Inl GenerationOverflow, d)
      | Some (cols, issued) \<Rightarrow> (Inr issued, d\<lparr>d_cols := cols\<rparr>))"

section \<open>Applying a commit\<close>

record unobserved =
  uo_object :: string
  uo_fact :: string
  uo_reason :: string
  uo_detail :: string

record sobject =
  so_id :: string
  so_name :: string
  so_type :: string
  so_facts :: json
  so_names :: "json option"
  so_absent :: "string list"
  so_at :: f64

definition mint_id :: "string \<Rightarrow> string \<Rightarrow> string" where
  "mint_id collection name = collection @ '':'' @ name"

definition hash_line :: "lib \<Rightarrow> sobject \<Rightarrow> string" where
  "hash_line L ob =
     json_enc (JObj
       [(''id'', JStr (so_id ob)), (''name'', JStr (so_name ob)), (''facts'', so_facts ob),
        (''names'', case so_names ob of None \<Rightarrow> JNull | Some j \<Rightarrow> j),
        (''absent'', if so_absent ob = [] then JNull else JArr (map JStr (so_absent ob))),
        (''at'', JNum (fmt_float L (so_at ob)))]) @ [CHR 0x0A]"

definition hash_objects :: "lib \<Rightarrow> sobject list \<Rightarrow> string" where
  "hash_objects L obs = ''sha256:'' @ sha256 L (concat (map (hash_line L) (sort_key so_id obs)))"

datatype outcome = Applied | NoopIdentical | RefusedBelow | ReusedDifferent

fun outcome_text :: "outcome \<Rightarrow> string" where
  "outcome_text Applied = ''applied''"
| "outcome_text NoopIdentical = ''noop-identical''"
| "outcome_text RefusedBelow = ''refused-below-applied''"
| "outcome_text ReusedDifferent = ''generation-reused-different-content''"

definition add_rejection :: "string \<Rightarrow> string \<Rightarrow> string \<Rightarrow> db \<Rightarrow> db" where
  "add_rejection collection bat why d =
     d\<lparr>d_rejs := d_rejs d @ [\<lparr>rj_collection = collection, rj_batch = bat, rj_reason = why\<rparr>]\<rparr>"

abbreviation in_scope :: "string \<Rightarrow> string \<Rightarrow> obj_row \<Rightarrow> bool" where
  "in_scope collection scope r \<equiv> o_collection r = collection \<and> o_scope r = scope"

definition obj_key :: "obj_row \<Rightarrow> string \<times> string \<times> string" where
  "obj_key r = (o_collection r, o_scope r, o_id r)"

definition unobs_key :: "unobs_row \<Rightarrow> string \<times> string \<times> string \<times> string" where
  "unobs_key r = (u_collection r, u_scope r, u_object r, u_fact r)"

definition unobs_row_of :: "string \<Rightarrow> string \<Rightarrow> unobserved \<Rightarrow> unobs_row" where
  "unobs_row_of collection scope u =
     \<lparr>u_collection = collection, u_scope = scope, u_object = uo_object u, u_fact = uo_fact u,
      u_reason = uo_reason u, u_detail = uo_detail u\<rparr>"

definition obj_row_of :: "string \<Rightarrow> string \<Rightarrow> nat \<Rightarrow> sobject \<Rightarrow> obj_row" where
  "obj_row_of collection scope n ob =
     \<lparr>o_collection = collection, o_scope = scope, o_id = so_id ob, o_name = so_name ob,
      o_type = so_type ob, o_facts = so_facts ob, o_names = so_names ob,
      o_absent = so_absent ob, o_at = so_at ob, o_seq = n\<rparr>"

text \<open>Insertions under a primary key: a second row with the key is an error.\<close>

fun insert_rows :: "('r \<Rightarrow> 'k) \<Rightarrow> 'r list \<Rightarrow> 'r list \<Rightarrow> 'r list option" where
  "insert_rows key rows [] = Some rows"
| "insert_rows key rows (r # rs) =
     (if key r \<in> key ` set rows then None else insert_rows key (rows @ [r]) rs)"

text \<open>\<open>DELETE ... WHERE collection = ? AND scope = ?\<close> on the two tables.\<close>

definition delete_objs :: "string \<Rightarrow> string \<Rightarrow> obj_row list \<Rightarrow> obj_row list" where
  "delete_objs collection scope rows = filter (\<lambda>r. \<not> in_scope collection scope r) rows"

definition delete_unobs :: "string \<Rightarrow> string \<Rightarrow> unobs_row list \<Rightarrow> unobs_row list" where
  "delete_unobs collection scope rows =
     filter (\<lambda>u. \<not> (u_collection u = collection \<and> u_scope u = scope)) rows"

definition apply_rows :: "string \<Rightarrow> string \<Rightarrow> sobject list \<Rightarrow> obj_row list" where
  "apply_rows collection scope obs =
     map (\<lambda>(n, ob). obj_row_of collection scope n ob) (zip [0..<length obs] obs)"

definition applied_row :: "nat \<Rightarrow> string \<Rightarrow> string \<Rightarrow> string \<Rightarrow> col_row \<Rightarrow> col_row" where
  "applied_row gen wall hash boot r =
     r\<lparr>c_applied := gen, c_applied_at := Some wall, c_hash := Some hash, c_boot := Some boot,
       c_stale := False, c_stale_reason := None,
       c_decline_reason := None, c_decline_detail := None, c_declined_at := None\<rparr>"

definition apply_commit_with ::
  "lib \<Rightarrow> string \<Rightarrow> string \<Rightarrow> string \<Rightarrow> nat \<Rightarrow> string \<Rightarrow> string \<Rightarrow> sobject list \<Rightarrow> unobserved list
   \<Rightarrow> db \<Rightarrow> (store_error + outcome) \<times> db"
where
  "apply_commit_with L wall collection scope gen bat boot obs unobs d =
     (if boot = [] then (Inl NoBootId, d)
      else case mget (d_cols d) collection of
        None \<Rightarrow> (Inl NoGenerationRow, d)
      | Some r \<Rightarrow>
          if c_issued r < gen then (Inl NeverIssued, d)
          else if gen < c_applied r then
            (Inr RefusedBelow, add_rejection collection bat (outcome_text RefusedBelow) d)
          else if gen = c_applied r then
            (if c_hash r = Some (hash_objects L obs) then (Inr NoopIdentical, d)
             else (Inr ReusedDifferent, add_rejection collection bat (outcome_text ReusedDifferent) d))
          else
            (case insert_rows unobs_key (delete_unobs collection scope (d_unobs d))
                    (map (unobs_row_of collection scope) unobs) of
               None \<Rightarrow> (Inl DuplicateKey, d)
             | Some us \<Rightarrow>
                 (case insert_rows obj_key (delete_objs collection scope (d_objs d))
                         (apply_rows collection scope obs) of
                    None \<Rightarrow> (Inl DuplicateKey, d)
                  | Some os \<Rightarrow>
                      (Inr Applied,
                       d\<lparr>d_unobs := us, d_objs := os,
                         d_cols := mput collection
                           (applied_row gen wall (hash_objects L obs) boot r) (d_cols d)\<rparr>))))"

definition apply_commit ::
  "lib \<Rightarrow> string \<Rightarrow> string \<Rightarrow> string \<Rightarrow> nat \<Rightarrow> string \<Rightarrow> string \<Rightarrow> sobject list \<Rightarrow> db
   \<Rightarrow> (store_error + outcome) \<times> db"
where
  "apply_commit L wall collection scope gen bat boot obs d =
     apply_commit_with L wall collection scope gen bat boot obs [] d"

section \<open>Declines, costs, rejections\<close>

definition update_row :: "string \<Rightarrow> (col_row \<Rightarrow> col_row) \<Rightarrow> db \<Rightarrow> db" where
  "update_row name f d =
     (case mget (d_cols d) name of None \<Rightarrow> d | Some r \<Rightarrow> d\<lparr>d_cols := mput name (f r) (d_cols d)\<rparr>)"

definition mark_stale_with :: "string \<Rightarrow> string \<Rightarrow> string \<Rightarrow> string \<Rightarrow> db \<Rightarrow> db" where
  "mark_stale_with wall collection why detail =
     update_row collection (\<lambda>r. r\<lparr>c_stale := True, c_stale_reason := Some why,
       c_decline_reason := Some why, c_decline_detail := Some detail, c_declined_at := Some wall\<rparr>)"

definition record_absent :: "string \<Rightarrow> string \<Rightarrow> string \<Rightarrow> db \<Rightarrow> db" where
  "record_absent wall collection detail =
     update_row collection (\<lambda>r. r\<lparr>c_decline_reason := Some ''absent'',
       c_decline_detail := Some detail, c_declined_at := Some wall\<rparr>)"

definition record_cost :: "string \<Rightarrow> f64 \<Rightarrow> db \<Rightarrow> db" where
  "record_cost collection cpu = update_row collection (\<lambda>r. r\<lparr>c_cost := Some cpu\<rparr>)"

definition record_timens_skew :: "string \<Rightarrow> int \<Rightarrow> db \<Rightarrow> db" where
  "record_timens_skew collection skew = update_row collection (\<lambda>r. r\<lparr>c_skew := Some skew\<rparr>)"

section \<open>Acknowledgements\<close>

datatype ack_outcome = AckNew | AckRetry | AckReused

definition acked :: "string \<Rightarrow> db \<Rightarrow> bool" where
  "acked bat d = (mget (d_acks d) bat \<noteq> None)"

text \<open>
  The generations column is the JSON of a map with sorted keys; two maps have the same text
  exactly when they are the same map, so the map itself is stored.
\<close>

definition judge_acked :: "string \<Rightarrow> nat gomap \<Rightarrow> string \<Rightarrow> db \<Rightarrow> ack_outcome \<times> db" where
  "judge_acked bat gens hash d =
     (case mget (d_acks d) bat of
        None \<Rightarrow> (AckNew, d)
      | Some (g, h) \<Rightarrow>
          if g = gens \<and> h = hash then (AckRetry, d)
          else (AckReused, add_rejection [] bat ''batch-id-reused'' d))"

definition record_ack :: "string \<Rightarrow> nat gomap \<Rightarrow> string \<Rightarrow> db \<Rightarrow> db" where
  "record_ack bat gens hash d =
     (if mget (d_acks d) bat = None then d\<lparr>d_acks := mput bat (gens, hash) (d_acks d)\<rparr> else d)"

section \<open>Declarations\<close>

definition record_declaration :: "string \<Rightarrow> string \<Rightarrow> db \<Rightarrow> db" where
  "record_declaration digest document d =
     (if mget (d_decls d) digest = None then d\<lparr>d_decls := mput digest document (d_decls d)\<rparr> else d)"

definition declaration_documents :: "db \<Rightarrow> string gomap" where
  "declaration_documents d =
     filter (\<lambda>(digest, _). Some digest \<in> c_declaration ` snd ` set (d_cols d)) (d_decls d)"

definition declaration_for :: "string \<Rightarrow> db \<Rightarrow> string" where
  "declaration_for collection d =
     (case mget (d_cols d) collection of
        None \<Rightarrow> []
      | Some r \<Rightarrow> (case c_declaration r of
          None \<Rightarrow> []
        | Some digest \<Rightarrow> (case mget (d_decls d) digest of None \<Rightarrow> [] | Some doc \<Rightarrow> doc)))"

section \<open>Reading\<close>

definition objects_in_scope :: "string \<Rightarrow> string \<Rightarrow> db \<Rightarrow> obj_row list" where
  "objects_in_scope collection scope d =
     sort_key o_seq (sort_key o_id (filter (in_scope collection scope) (d_objs d)))"

definition objects_of :: "string \<Rightarrow> db \<Rightarrow> obj_row list" where
  "objects_of collection d =
     sort_key o_scope (sort_key o_seq (sort_key o_id
       (filter (\<lambda>r. o_collection r = collection) (d_objs d))))"

definition unobservables_of :: "string \<Rightarrow> db \<Rightarrow> unobs_row list" where
  "unobservables_of collection d =
     sort_key u_object (sort_key u_fact (filter (\<lambda>u. u_collection u = collection) (d_unobs d)))"

definition holds_object :: "string \<Rightarrow> string \<Rightarrow> db \<Rightarrow> bool" where
  "holds_object collection name d =
     (\<exists>r \<in> set (d_objs d). o_collection r = collection \<and> o_name r = name)"

definition has_collection :: "string \<Rightarrow> db \<Rightarrow> bool" where
  "has_collection name d = (mget (d_cols d) name \<noteq> None)"

record decline_view =
  dv_reason :: string
  dv_detail :: string
  dv_at :: string

definition null_text :: "string option \<Rightarrow> string" where
  "null_text x = (case x of None \<Rightarrow> [] | Some s \<Rightarrow> s)"

definition decline_for :: "string \<Rightarrow> db \<Rightarrow> decline_view" where
  "decline_for collection d =
     (case mget (d_cols d) collection of
        None \<Rightarrow> \<lparr>dv_reason = [], dv_detail = [], dv_at = []\<rparr>
      | Some r \<Rightarrow> \<lparr>dv_reason = null_text (c_decline_reason r),
                  dv_detail = null_text (c_decline_detail r),
                  dv_at = null_text (c_declined_at r)\<rparr>)"

record collection_state =
  cs_name :: string
  cs_generation :: nat
  cs_applied_at :: "string option"
  cs_oldest :: "rat option"
  cs_boot :: "string option"
  cs_count :: nat
  cs_stale :: bool
  cs_stale_reason :: "string option"
  cs_declaration :: "string option"
  cs_cost :: "f64 option"
  cs_decline :: "decline_view option"
  cs_skew :: "int option"

definition min_at :: "obj_row list \<Rightarrow> rat option" where
  "min_at rows = (case map (f64_val \<circ> o_at) rows of [] \<Rightarrow> None | x # xs \<Rightarrow> Some (fold min xs x))"

definition state_of_row :: "db \<Rightarrow> string \<Rightarrow> col_row \<Rightarrow> collection_state" where
  "state_of_row d name r =
     (let objs = filter (\<lambda>o'. o_collection o' = name) (d_objs d) in
      \<lparr>cs_name = name, cs_generation = c_applied r, cs_applied_at = c_applied_at r,
       cs_oldest = min_at objs, cs_boot = c_boot r, cs_count = length objs,
       cs_stale = c_stale r, cs_stale_reason = c_stale_reason r,
       cs_declaration = (case c_declaration r of Some s \<Rightarrow> if s = [] then None else Some s | None \<Rightarrow> None),
       cs_cost = c_cost r,
       cs_decline = (case c_decline_reason r of
           None \<Rightarrow> None
         | Some why \<Rightarrow> if why = [] then None
             else Some \<lparr>dv_reason = why, dv_detail = null_text (c_decline_detail r),
                        dv_at = null_text (c_declined_at r)\<rparr>),
       cs_skew = c_skew r\<rparr>)"

definition collections_of :: "db \<Rightarrow> collection_state list" where
  "collections_of d = map (\<lambda>(name, r). state_of_row d name r) (d_cols d)"

section \<open>A table keyed by collection and scope\<close>

text \<open>
  The three tables a commit replaces share one contract: a row belongs to one collection and
  scope, its primary key determines both, and a delete removes exactly the rows of one scope.
\<close>

lemma insert_rows_eq:
  "insert_rows key rows rs =
     (if distinct (map key rs) \<and> key ` set rows \<inter> key ` set rs = {} then Some (rows @ rs) else None)"
proof (induction rs arbitrary: rows)
  case (Cons r rs)
  then show ?case by auto
qed auto

locale scoped_table =
  fixes coll :: "'r \<Rightarrow> string"
    and scp :: "'r \<Rightarrow> string"
    and key :: "'r \<Rightarrow> 'k"
    and del :: "string \<Rightarrow> string \<Rightarrow> 'r list \<Rightarrow> 'r list"
  assumes key_scope: "key r = key r' \<Longrightarrow> coll r = coll r' \<and> scp r = scp r'"
    and del_eq: "del c s rows = filter (\<lambda>r. \<not> (coll r = c \<and> scp r = s)) rows"
begin

lemma keys_apart:
  assumes "\<And>r. r \<in> set new \<Longrightarrow> coll r = c \<and> scp r = s"
  shows "key ` set (del c s rows) \<inter> key ` set new = {}"
proof -
  have "key r \<noteq> key r'" if "r \<in> set (del c s rows)" and "r' \<in> set new" for r r'
    using key_scope [of r r'] assms [OF that(2)] that(1) by (auto simp: del_eq)
  then show ?thesis by blast
qed

lemma replace_eq:
  assumes "\<And>r. r \<in> set new \<Longrightarrow> coll r = c \<and> scp r = s"
  shows "insert_rows key (del c s rows) new =
         (if distinct (map key new) then Some (del c s rows @ new) else None)"
  using keys_apart [OF assms] by (simp add: insert_rows_eq)

lemma scope_after:
  assumes "\<And>r. r \<in> set new \<Longrightarrow> coll r = c \<and> scp r = s"
  shows "filter (\<lambda>r. coll r = c \<and> scp r = s) (del c s rows @ new) = new"
  using assms by (simp add: del_eq filter_empty_conv)

lemma other_scope_after:
  assumes "\<And>r. r \<in> set new \<Longrightarrow> coll r = c \<and> scp r = s" and "(c', s') \<noteq> (c, s)"
  shows "filter (\<lambda>r. coll r = c' \<and> scp r = s') (del c s rows @ new) =
         filter (\<lambda>r. coll r = c' \<and> scp r = s') rows"
proof -
  have "filter (\<lambda>r. coll r = c' \<and> scp r = s') new = []"
    using assms by (auto simp: filter_empty_conv)
  moreover have "filter (\<lambda>r. coll r = c' \<and> scp r = s') (del c s rows) =
                 filter (\<lambda>r. coll r = c' \<and> scp r = s') rows"
    using assms(2) by (auto simp: del_eq intro!: filter_cong)
  ultimately show ?thesis by simp
qed

lemma other_coll_after:
  assumes "\<And>r. r \<in> set new \<Longrightarrow> coll r = c \<and> scp r = s" and "c' \<noteq> c"
  shows "filter (\<lambda>r. coll r = c') (del c s rows @ new) = filter (\<lambda>r. coll r = c') rows"
proof -
  have "filter (\<lambda>r. coll r = c') new = []"
    using assms by (auto simp: filter_empty_conv)
  moreover have "filter (\<lambda>r. coll r = c') (del c s rows) = filter (\<lambda>r. coll r = c') rows"
    using assms(2) by (auto simp: del_eq intro!: filter_cong)
  ultimately show ?thesis by simp
qed

lemma keys_after:
  assumes "\<And>r. r \<in> set new \<Longrightarrow> coll r = c \<and> scp r = s"
    and "distinct (map key new)" and "distinct (map key rows)"
  shows "distinct (map key (del c s rows @ new))"
proof -
  have "key ` set (del c s rows) \<inter> key ` set new = {}"
    by (rule keys_apart) (rule assms(1))
  moreover have "distinct (map key (del c s rows))"
    using assms(3) by (simp add: del_eq distinct_map_filter)
  ultimately show ?thesis using assms(2) by simp
qed

end

interpretation obj_table: scoped_table o_collection o_scope obj_key delete_objs
  by unfold_locales (auto simp: obj_key_def delete_objs_def)

interpretation unobs_table: scoped_table u_collection u_scope unobs_key delete_unobs
  by unfold_locales (auto simp: unobs_key_def delete_unobs_def)

section \<open>Lemmas on the authority\<close>

lemma apply_rows_length [simp]: "length (apply_rows collection scope obs) = length obs"
  by (simp add: apply_rows_def)

lemma apply_rows_nth:
  "i < length obs \<Longrightarrow> apply_rows collection scope obs ! i = obj_row_of collection scope i (obs ! i)"
  by (simp add: apply_rows_def)

lemma apply_rows_scope: "r \<in> set (apply_rows collection scope obs) \<Longrightarrow> in_scope collection scope r"
  by (auto simp: apply_rows_def obj_row_of_def)

lemma apply_rows_seq: "map o_seq (apply_rows collection scope obs) = [0..<length obs]"
  by (rule nth_equalityI) (auto simp: apply_rows_nth obj_row_of_def)

lemma apply_rows_keys:
  "map obj_key (apply_rows collection scope obs) = map (\<lambda>ob. (collection, scope, so_id ob)) obs"
  by (rule nth_equalityI) (auto simp: apply_rows_nth obj_row_of_def obj_key_def)

lemma unobs_rows_scope:
  "u \<in> set (map (unobs_row_of collection scope) unobs) \<Longrightarrow> u_collection u = collection \<and> u_scope u = scope"
  by (auto simp: unobs_row_of_def)

lemma distinct_tagged: "distinct (map (\<lambda>ob. (c, s, f ob)) obs) = distinct (map f obs)"
  by (simp add: distinct_map inj_on_def)

lemma unobs_rows_keys:
  "map unobs_key (map (unobs_row_of collection scope) unobs) =
   map (\<lambda>u. (collection, scope, uo_object u, uo_fact u)) unobs"
  by (simp add: unobs_key_def unobs_row_of_def)

text \<open>The primary keys of the two tables admit the batch.\<close>

definition admissible :: "sobject list \<Rightarrow> unobserved list \<Rightarrow> bool" where
  "admissible obs unobs =
     (distinct (map so_id obs) \<and> distinct (map (\<lambda>u. (uo_object u, uo_fact u)) unobs))"

definition applied_db ::
  "lib \<Rightarrow> string \<Rightarrow> string \<Rightarrow> string \<Rightarrow> nat \<Rightarrow> string \<Rightarrow> sobject list \<Rightarrow> unobserved list
   \<Rightarrow> col_row \<Rightarrow> db \<Rightarrow> db"
where
  "applied_db L wall collection scope gen boot obs unobs r d =
     d\<lparr>d_unobs := delete_unobs collection scope (d_unobs d) @ map (unobs_row_of collection scope) unobs,
       d_objs := delete_objs collection scope (d_objs d) @ apply_rows collection scope obs,
       d_cols := mput collection (applied_row gen wall (hash_objects L obs) boot r) (d_cols d)\<rparr>"

text \<open>What an apply does, by cases on the guards, in the order the code takes them.\<close>

lemma apply_commit_cases:
  "apply_commit_with L wall collection scope gen bat boot obs unobs d =
     (if boot = [] then (Inl NoBootId, d)
      else case mget (d_cols d) collection of
        None \<Rightarrow> (Inl NoGenerationRow, d)
      | Some r \<Rightarrow>
          if c_issued r < gen then (Inl NeverIssued, d)
          else if gen < c_applied r then
            (Inr RefusedBelow, add_rejection collection bat (outcome_text RefusedBelow) d)
          else if gen = c_applied r then
            (if c_hash r = Some (hash_objects L obs) then (Inr NoopIdentical, d)
             else (Inr ReusedDifferent, add_rejection collection bat (outcome_text ReusedDifferent) d))
          else if admissible obs unobs then
            (Inr Applied, applied_db L wall collection scope gen boot obs unobs r d)
          else (Inl DuplicateKey, d))"
proof -
  have objs: "insert_rows obj_key (delete_objs collection scope (d_objs d)) (apply_rows collection scope obs) =
    (if distinct (map so_id obs)
     then Some (delete_objs collection scope (d_objs d) @ apply_rows collection scope obs) else None)"
    using obj_table.replace_eq [OF apply_rows_scope]
    by (simp add: apply_rows_keys distinct_tagged)
  have unobs: "insert_rows unobs_key (delete_unobs collection scope (d_unobs d))
      (map (unobs_row_of collection scope) unobs) =
    (if distinct (map (\<lambda>u. (uo_object u, uo_fact u)) unobs)
     then Some (delete_unobs collection scope (d_unobs d) @ map (unobs_row_of collection scope) unobs)
     else None)"
    using unobs_table.replace_eq [OF unobs_rows_scope]
    by (simp only: unobs_rows_keys distinct_tagged)
  show ?thesis
    unfolding apply_commit_with_def objs unobs admissible_def applied_db_def
    by (auto split: option.split)
qed

lemma apply_Applied_iff:
  "apply_commit_with L wall collection scope gen bat boot obs unobs d = (Inr Applied, d') \<longleftrightarrow>
   (\<exists>r. boot \<noteq> [] \<and> mget (d_cols d) collection = Some r \<and> c_applied r < gen \<and> gen \<le> c_issued r \<and>
        admissible obs unobs \<and>
        d' = applied_db L wall collection scope gen boot obs unobs r d)"
  by (auto simp: apply_commit_cases split: option.splits if_splits)

lemma apply_Inl_same:
  "apply_commit_with L wall collection scope gen bat boot obs unobs d = (Inl e, d') \<Longrightarrow> d' = d"
  by (auto simp: apply_commit_cases split: option.splits if_splits)

lemma seq_sort:
  assumes "map o_seq rows = [0..<n]"
  shows "sort_key o_seq (sort_key o_id rows) = rows"
proof (rule sort_key_inj_key_eq)
  show "mset (sort_key o_id rows) = mset rows" by simp
  have "inj_on o_seq (set rows)"
    using assms by (metis distinct_map distinct_upt)
  then show "inj_on o_seq (set (sort_key o_id rows))" by simp
  show "sorted (map o_seq rows)" using assms by simp
qed

lemma applied_objects:
  "objects_in_scope collection scope (applied_db L wall collection scope gen boot obs unobs r d) =
   apply_rows collection scope obs"
  using obj_table.scope_after [of "apply_rows collection scope obs" collection scope, OF apply_rows_scope]
  by (simp add: objects_in_scope_def applied_db_def seq_sort [OF apply_rows_seq])

lemma applied_other_objects:
  "(c', s') \<noteq> (collection, scope) \<Longrightarrow>
   objects_in_scope c' s' (applied_db L wall collection scope gen boot obs unobs r d) =
   objects_in_scope c' s' d"
  using obj_table.other_scope_after [of "apply_rows collection scope obs" collection scope c' s', OF apply_rows_scope]
  by (simp add: objects_in_scope_def applied_db_def)

lemma applied_other_collection:
  assumes "c' \<noteq> collection"
  shows "objects_of c' (applied_db L wall collection scope gen boot obs unobs r d) = objects_of c' d"
    and "unobservables_of c' (applied_db L wall collection scope gen boot obs unobs r d) =
         unobservables_of c' d"
  using obj_table.other_coll_after [of "apply_rows collection scope obs" collection scope c', OF apply_rows_scope] assms
    unobs_table.other_coll_after [of "map (unobs_row_of collection scope) unobs" collection scope c', OF unobs_rows_scope]
  by (simp_all add: objects_of_def unobservables_of_def applied_db_def)

lemma applied_cols:
  "mget (d_cols (applied_db L wall collection scope gen boot obs unobs r d)) c =
   (if c = collection then Some (applied_row gen wall (hash_objects L obs) boot r)
    else mget (d_cols d) c)"
  by (simp add: applied_db_def)

lemma applied_unobs_scope:
  "filter (\<lambda>u. u_collection u = collection \<and> u_scope u = scope)
     (d_unobs (applied_db L wall collection scope gen boot obs unobs r d)) =
   map (unobs_row_of collection scope) unobs"
  using unobs_table.scope_after [of "map (unobs_row_of collection scope) unobs" collection scope, OF unobs_rows_scope]
  by (simp add: applied_db_def)

section \<open>Properties\<close>


definition demo_lib :: lib where
  "demo_lib = \<lparr>sha256 = (\<lambda>s. s), fmt_float = (\<lambda>x. ''0'')\<rparr>"

definition demo_db :: db where
  "demo_db = snd (issue_generations [''net'', ''units''] ''decl'' empty_db)"

definition demo_object :: "string \<Rightarrow> sobject" where
  "demo_object name = \<lparr>so_id = mint_id ''units'' name, so_name = name, so_type = ''service'',
     so_facts = JObj [], so_names = None, so_absent = [], so_at = Fin 0\<rparr>"


text \<open>
  Property C10. Every apply that does not go through leaves the estate as it was: an error rolls
  everything back, an identical re-delivery writes nothing, a refused one only adds one
  rejection row that names the collection, the batch and the reason; and each outcome is
  decided by the generation and content alone.
\<close>

theorem apply_commit_refusals:
  "case apply_commit_with L wall collection scope gen bat boot obs unobs d of
     (Inl e, d') \<Rightarrow> d' = d \<and>
        (e = NoBootId \<and> boot = [] \<or>
         e = NoGenerationRow \<and> \<not> has_collection collection d \<or>
         e = NeverIssued \<and> (\<exists>r. mget (d_cols d) collection = Some r \<and> c_issued r < gen) \<or>
         e = DuplicateKey \<and> \<not> admissible obs unobs)
   | (Inr Applied, d') \<Rightarrow> (\<exists>r. mget (d_cols d) collection = Some r \<and> c_applied r < gen \<and> gen \<le> c_issued r)
   | (Inr NoopIdentical, d') \<Rightarrow> d' = d \<and>
        (\<exists>r. mget (d_cols d) collection = Some r \<and> c_applied r = gen \<and> c_hash r = Some (hash_objects L obs))
   | (Inr out, d') \<Rightarrow>
        d' = d\<lparr>d_rejs := d_rejs d @ [\<lparr>rj_collection = collection, rj_batch = bat, rj_reason = outcome_text out\<rparr>]\<rparr> \<and>
        (\<exists>r. mget (d_cols d) collection = Some r \<and>
           (if out = RefusedBelow then gen < c_applied r
            else c_applied r = gen \<and> c_hash r \<noteq> Some (hash_objects L obs)))"
  by (auto simp: apply_commit_cases has_collection_def add_rejection_def split: option.splits)

text \<open>Issuing.\<close>

lemma issue_loop_spec:
  assumes "issue_loop cols decl names issued = Some (cols', issued')"
  shows "mget issued' n = (if n \<in> set names then map_option c_issued (mget cols' n) else mget issued n)"
    and "n \<notin> set names \<Longrightarrow> mget cols' n = mget cols n"
    and "n \<in> set names \<Longrightarrow> \<exists>r'. mget cols' n = Some r' \<and> c_declaration r' = Some decl \<and>
           (case mget cols n of None \<Rightarrow> 1 | Some r \<Rightarrow> c_issued r + 1) \<le> c_issued r' \<and>
           (distinct names \<longrightarrow> c_issued r' = (case mget cols n of None \<Rightarrow> 1 | Some r \<Rightarrow> c_issued r + 1)) \<and>
           c_applied r' = (case mget cols n of None \<Rightarrow> 0 | Some r \<Rightarrow> c_applied r) \<and>
           c_hash r' = (case mget cols n of None \<Rightarrow> None | Some r \<Rightarrow> c_hash r)"
  using assms
proof (induction names arbitrary: cols issued)
  case Nil
  { case 1 then show ?case by simp }
  { case 2 then show ?case by simp }
  { case 3 then show ?case by simp }
next
  case (Cons a names)
  { case 1
    then obtain r where "issue_row cols decl a = Some r"
      and "issue_loop (mput a r cols) decl names (mput a (c_issued r) issued) = Some (cols', issued')"
      by (auto split: option.splits)
    with Cons.IH(1,2) show ?case by fastforce }
  { case 2
    then show ?case using Cons.IH(2) by (fastforce split: option.splits) }
  { case 3
    then obtain r where r: "issue_row cols decl a = Some r"
      and l: "issue_loop (mput a r cols) decl names (mput a (c_issued r) issued) = Some (cols', issued')"
      by (auto split: option.splits)
    have r': "c_declaration r = Some decl \<and>
        c_issued r = (case mget cols a of None \<Rightarrow> 1 | Some r \<Rightarrow> c_issued r + 1) \<and>
        c_applied r = (case mget cols a of None \<Rightarrow> 0 | Some r \<Rightarrow> c_applied r) \<and>
        c_hash r = (case mget cols a of None \<Rightarrow> None | Some r \<Rightarrow> c_hash r)"
      using r by (auto simp: issue_row_def fresh_row_def split: option.splits if_splits)
    show ?case
    proof (cases "n \<in> set names")
      case True
      from Cons.IH(3) [OF True l] r' True show ?thesis
        by (cases "n = a") (auto split: option.splits)
    next
      case False
      from Cons.IH(2) [OF False l] r' False 3 show ?thesis
        by (auto split: option.splits)
    qed }
qed

text \<open>
  Issued generations are never reused. Issuing succeeds unless a counter is
  exhausted; every named collection then holds, and is handed, a generation above every
  generation it was ever issued (the next one when the names are distinct), with its applied
  state untouched and the declaration recorded; a collection that was not named keeps its row,
  and nothing but the generations table changes.
\<close>

theorem issue_generations_fresh:
  assumes "issue_generations names decl d = (Inr issued, d')"
  shows "\<exists>cols'. d' = d\<lparr>d_cols := cols'\<rparr> \<and>
     (\<forall>n. (if n \<in> set names then
            (\<exists>r'. mget cols' n = Some r' \<and> mget issued n = Some (c_issued r') \<and>
              c_declaration r' = Some decl \<and>
              (case mget (d_cols d) n of
                 None \<Rightarrow> 1 \<le> c_issued r' \<and> c_applied r' = 0 \<and> (distinct names \<longrightarrow> c_issued r' = 1)
               | Some r \<Rightarrow> c_issued r < c_issued r' \<and> c_applied r' = c_applied r \<and>
                   c_hash r' = c_hash r \<and> (distinct names \<longrightarrow> c_issued r' = c_issued r + 1)))
           else mget cols' n = mget (d_cols d) n \<and> mget issued n = None))"
proof -
  obtain cols' where loop: "issue_loop (d_cols d) decl names [] = Some (cols', issued)"
    and d': "d' = d\<lparr>d_cols := cols'\<rparr>"
    using assms by (auto simp: issue_generations_def split: option.splits)
  note spec = issue_loop_spec [OF loop]
  show ?thesis
    unfolding d'
  proof (rule exI [of _ cols'], rule conjI [OF refl], rule allI)
    fix n
    show "if n \<in> set names then
            (\<exists>r'. mget cols' n = Some r' \<and> mget issued n = Some (c_issued r') \<and>
              c_declaration r' = Some decl \<and>
              (case mget (d_cols d) n of
                 None \<Rightarrow> 1 \<le> c_issued r' \<and> c_applied r' = 0 \<and> (distinct names \<longrightarrow> c_issued r' = 1)
               | Some r \<Rightarrow> c_issued r < c_issued r' \<and> c_applied r' = c_applied r \<and>
                   c_hash r' = c_hash r \<and> (distinct names \<longrightarrow> c_issued r' = c_issued r + 1)))
           else mget cols' n = mget (d_cols d) n \<and> mget issued n = None"
      using spec(1) [of n] spec(2) [of n] spec(3) [of n] by (auto split: option.splits)
  qed
qed

lemma issue_generations_fresh_witness:
  "\<exists>cols'. snd (issue_generations [''net'', ''units''] ''decl'' empty_db) = empty_db\<lparr>d_cols := cols'\<rparr>"
proof -
  have "issue_generations [''net'', ''units''] ''decl'' empty_db =
    (Inr [(''net'', 1), (''units'', 1)], snd (issue_generations [''net'', ''units''] ''decl'' empty_db))"
    by code_simp
  from issue_generations_fresh [OF this] show ?thesis by blast
qed

text \<open>
  The first acknowledgement of a batch id is the one that stands: once recorded,
  acknowledging it again stores nothing, the same generations and content are judged a retry,
  anything else is judged a reuse and recorded as a rejection of that batch, and an id never
  acknowledged is new and leaves no trace.
\<close>

theorem first_ack_stands:
  "(let d1 = record_ack bat gens hash d;
        (g, h) = (case mget (d_acks d) bat of None \<Rightarrow> (gens, hash) | Some gh \<Rightarrow> gh)
    in acked bat d1 \<and> record_ack bat gens' hash' d1 = d1 \<and>
       judge_acked bat gens' hash' d1 =
         (if gens' = g \<and> hash' = h then (AckRetry, d1)
          else (AckReused, d1\<lparr>d_rejs := d_rejs d1 @
                  [\<lparr>rj_collection = [], rj_batch = bat, rj_reason = ''batch-id-reused''\<rparr>]\<rparr>))) \<and>
   (judge_acked bat gens hash d = (AckNew, d) \<longleftrightarrow> \<not> acked bat d)"
  by (auto simp: record_ack_def acked_def judge_acked_def add_rejection_def Let_def split: option.splits)

end
