(* ===== verification/Relations.thy ===== *)
theory Relations
  imports Store
begin

text \<open>
  Relations (go/internal/store/relations.go): the key of an assembled edge, its
  observability, the assembly of one collection's assertions, the resolver, the strict
  prefix index, and the re-test of unresolved edges.
\<close>

section \<open>Definitions\<close>

record relation_type =
  rt_discriminator :: "string list"
  rt_inverse_observable :: bool
  rt_confirmed_by :: string

record assertion =
  as_source :: string
  as_type :: string
  as_vantage :: string
  as_kind :: string
  as_target :: string
  as_facts :: "json option"

text \<open>One part of the hashed tuple: its length, a colon, its bytes.\<close>

definition frame :: "string \<Rightarrow> string" where
  "frame p = nat_str (length p) @ '':'' @ p"

definition absent_part :: string where
  "absent_part = CHR 0x00 # ''absent''"

definition fact_values :: "json option \<Rightarrow> val gomap option" where
  "fact_values facts = (case facts of None \<Rightarrow> Some [] | Some j \<Rightarrow> val_map j)"

definition discriminator_part :: "lib \<Rightarrow> val gomap \<Rightarrow> string \<Rightarrow> string" where
  "discriminator_part L values name =
     (case mget values name of None \<Rightarrow> absent_part | Some v \<Rightarrow> val_text (fmt_float L) v)"

definition key_parts ::
  "lib \<Rightarrow> string \<Rightarrow> string \<Rightarrow> string list \<Rightarrow> json option \<Rightarrow> string \<Rightarrow> string list option"
where
  "key_parts L source ty discriminator facts target =
     (if discriminator = [] then Some [source, ty, target]
      else map_option (\<lambda>values. [source, ty] @ map (discriminator_part L values) discriminator @ [target])
             (fact_values facts))"

definition relation_key ::
  "lib \<Rightarrow> string \<Rightarrow> string \<Rightarrow> string list \<Rightarrow> json option \<Rightarrow> string \<Rightarrow> string option"
where
  "relation_key L source ty discriminator facts target =
     map_option (\<lambda>parts. ''rel-'' @ take 32 (sha256 L (concat (map frame parts))))
       (key_parts L source ty discriminator facts target)"

text \<open>Fact dictionaries compared as values: both decode, and marshal to the same text.\<close>

definition decode_facts :: "json option \<Rightarrow> val option" where
  "decode_facts facts = (case facts of None \<Rightarrow> Some VNull | Some j \<Rightarrow> to_val j)"

definition same_facts :: "lib \<Rightarrow> json option \<Rightarrow> json option \<Rightarrow> bool" where
  "same_facts L a b =
     (case (decode_facts a, decode_facts b) of
        (Some x, Some y) \<Rightarrow> val_text (fmt_float L) x = val_text (fmt_float L) y
      | _ \<Rightarrow> False)"

type_synonym inverse_fun = "string \<Rightarrow> string \<Rightarrow> string \<Rightarrow> json option option"
type_synonym resolve_fun = "string \<Rightarrow> string \<Rightarrow> string option"

definition observability_of ::
  "lib \<Rightarrow> assertion \<Rightarrow> relation_type \<Rightarrow> inverse_fun option \<Rightarrow> observability"
where
  "observability_of L a declared back_of =
     (case back_of of
        None \<Rightarrow> Asserted
      | Some g \<Rightarrow>
          if \<not> rt_inverse_observable declared \<or> rt_confirmed_by declared = [] then Asserted
          else (case g (rt_confirmed_by declared) (as_target a) (as_source a) of
              None \<Rightarrow> Asserted
            | Some back \<Rightarrow> if same_facts L (as_facts a) back then Confirmed else Contradicted))"

definition relation_of ::
  "lib \<Rightarrow> string \<Rightarrow> string \<Rightarrow> resolve_fun option \<Rightarrow> inverse_fun option \<Rightarrow> string \<Rightarrow> relation_type
   \<Rightarrow> assertion \<Rightarrow> rel_row"
where
  "relation_of L collection scope resolve back_of key declared a =
     (let target = (case resolve of None \<Rightarrow> None | Some f \<Rightarrow> f (as_kind a) (as_target a)) in
      \<lparr>r_collection = collection, r_scope = scope, r_key = key,
       r_source_id = mint_id collection (as_source a), r_source_name = as_source a,
       r_type = as_type a, r_vantage = as_vantage a, r_target_kind = as_kind a,
       r_target_name = as_target a, r_target_id = target, r_resolved = (target \<noteq> None),
       r_facts = as_facts a, r_obs = observability_of L a declared back_of\<rparr>)"

fun assemble ::
  "lib \<Rightarrow> string \<Rightarrow> string \<Rightarrow> relation_type gomap \<Rightarrow> resolve_fun option \<Rightarrow> inverse_fun option
   \<Rightarrow> string list \<Rightarrow> assertion list \<Rightarrow> store_error + rel_row list"
where
  "assemble L collection scope types resolve back_of seen [] = Inr []"
| "assemble L collection scope types resolve back_of seen (a # asserts) =
     (case mget types (as_type a) of
        None \<Rightarrow> Inl UndeclaredType
      | Some declared \<Rightarrow>
          (case relation_key L (mint_id collection (as_source a)) (as_type a)
                  (rt_discriminator declared) (as_facts a) (as_target a) of
             None \<Rightarrow> Inl BadFacts
           | Some key \<Rightarrow>
               if key \<in> set seen then Inl Collision
               else bindR (assemble L collection scope types resolve back_of (key # seen) asserts)
                      (\<lambda>rels. Inr (relation_of L collection scope resolve back_of key declared a # rels))))"

definition rel_key :: "rel_row \<Rightarrow> string \<times> string \<times> string" where
  "rel_key r = (r_collection r, r_scope r, r_key r)"

definition delete_rels :: "string \<Rightarrow> string \<Rightarrow> rel_row list \<Rightarrow> rel_row list" where
  "delete_rels collection scope rows =
     filter (\<lambda>r. \<not> (r_collection r = collection \<and> r_scope r = scope)) rows"

definition apply_assertions ::
  "lib \<Rightarrow> string \<Rightarrow> string \<Rightarrow> assertion list \<Rightarrow> relation_type gomap \<Rightarrow> resolve_fun option
   \<Rightarrow> inverse_fun option \<Rightarrow> db \<Rightarrow> (store_error + rel_row list) \<times> db"
where
  "apply_assertions L collection scope asserts types resolve back_of d =
     (case assemble L collection scope types resolve back_of [] asserts of
        Inl e \<Rightarrow> (Inl e, d)
      | Inr rels \<Rightarrow>
          (case insert_rows rel_key (delete_rels collection scope (d_rels d)) (sort_key r_key rels) of
             None \<Rightarrow> (Inl DuplicateKey, d)
           | Some rows \<Rightarrow> (Inr (sort_key r_key rels), d\<lparr>d_rels := rows\<rparr>)))"

definition relations_of :: "string \<Rightarrow> db \<Rightarrow> rel_row list" where
  "relations_of collection d = sort_key r_key (filter (\<lambda>r. r_collection r = collection) (d_rels d))"

definition relations_touching :: "string \<Rightarrow> string \<Rightarrow> db \<Rightarrow> rel_row list \<times> rel_row list" where
  "relations_touching oid name d =
     (let rows = sort_key r_collection (sort_key r_key
        (filter (\<lambda>r. r_source_id r = oid \<or> r_source_name r = name \<or>
                     r_target_id r = Some oid \<or> r_target_name r = name) (d_rels d)));
          mine = (\<lambda>r. r_source_id r = oid \<or> r_source_name r = name)
      in (filter mine rows, filter (\<lambda>r. \<not> mine r) rows))"

definition resolver_for :: "string gomap \<Rightarrow> string \<Rightarrow> db \<Rightarrow> resolve_fun" where
  "resolver_for pfx scope d kind name =
     (case mget pfx kind of
        None \<Rightarrow> None
      | Some collection \<Rightarrow>
          map_option o_id (find (\<lambda>r. in_scope collection scope r \<and> o_name r = name) (d_objs d)))"

text \<open>\<open>PrefixIndex\<close>: kind to collection, refused when two collections claim a prefix.\<close>

fun prefix_index_from :: "string gomap \<Rightarrow> string gomap \<Rightarrow> string gomap option" where
  "prefix_index_from [] out = Some out"
| "prefix_index_from ((collection, prefix) # m) out =
     (if prefix = [] then prefix_index_from m out
      else if mget out prefix \<noteq> None then None
      else prefix_index_from m (mput prefix collection out))"

definition prefix_index :: "string gomap \<Rightarrow> string gomap option" where
  "prefix_index pfx = prefix_index_from pfx []"

definition upgrade_key :: "string \<Rightarrow> string \<Rightarrow> rel_row list \<Rightarrow> rel_row list" where
  "upgrade_key key oid rows =
     map (\<lambda>r. if r_key r = key then r\<lparr>r_resolved := True, r_target_id := Some oid\<rparr> else r) rows"

fun upgrade_loop :: "resolve_fun \<Rightarrow> rel_row list \<Rightarrow> rel_row list \<times> nat \<Rightarrow> rel_row list \<times> nat" where
  "upgrade_loop resolve [] st = st"
| "upgrade_loop resolve (p # ps) (rows, n) =
     (case resolve (r_target_kind p) (r_target_name p) of
        None \<Rightarrow> upgrade_loop resolve ps (rows, n)
      | Some oid \<Rightarrow> upgrade_loop resolve ps (upgrade_key (r_key p) oid rows, Suc n))"

definition upgrade_unresolved :: "resolve_fun \<Rightarrow> db \<Rightarrow> nat \<times> db" where
  "upgrade_unresolved resolve d =
     (let (rows, n) = upgrade_loop resolve (filter (\<lambda>r. \<not> r_resolved r) (d_rels d)) (d_rels d, 0)
      in (n, d\<lparr>d_rels := rows\<rparr>))"

interpretation rel_table: scoped_table r_collection r_scope rel_key delete_rels
  by unfold_locales (auto simp: rel_key_def delete_rels_def)

section \<open>The key of an edge\<close>

text \<open>A framed part ends where its length says, so two framed lists agree part by part.\<close>

lemma digits_colon:
  assumes "\<forall>c \<in> set a. is_digit c" and "\<forall>c \<in> set b. is_digit c"
    and "a @ CHR '':'' # x = b @ CHR '':'' # y"
  shows "a = b \<and> x = y"
  using assms
proof (induction a arbitrary: b)
  case Nil
  then show ?case by (cases b) (auto simp: is_digit_def)
next
  case (Cons c a)
  then show ?case by (cases b) (auto simp: is_digit_def)
qed

lemma frame_append_inject: "frame p @ x = frame q @ y \<longleftrightarrow> p = q \<and> x = y"
proof
  assume "frame p @ x = frame q @ y"
  then have "nat_str (length p) @ CHR '':'' # (p @ x) = nat_str (length q) @ CHR '':'' # (q @ y)"
    by (simp add: frame_def)
  then have "nat_str (length p) = nat_str (length q) \<and> p @ x = q @ y"
    by (intro digits_colon) (use nat_str_digits in \<open>auto simp: list_all_iff\<close>)
  then show "p = q \<and> x = y" by (auto simp: nat_str_inject)
qed simp

lemma frame_ne [simp]: "frame p \<noteq> []"
  by (simp add: frame_def)

lemma frames_inject: "concat (map frame ps) = concat (map frame qs) \<longleftrightarrow> ps = qs"
proof (induction ps arbitrary: qs)
  case Nil
  then show ?case by (cases qs) auto
next
  case (Cons p ps)
  then show ?case by (cases qs) (auto simp: frame_append_inject)
qed

lemma mint_id_inject [simp]: "mint_id c n = mint_id c n' \<longleftrightarrow> n = n'"
  by (simp add: mint_id_def)

section \<open>Assembly\<close>

definition assembled ::
  "lib \<Rightarrow> string \<Rightarrow> string \<Rightarrow> relation_type gomap \<Rightarrow> resolve_fun option \<Rightarrow> inverse_fun option
   \<Rightarrow> assertion \<Rightarrow> rel_row \<Rightarrow> bool"
where
  "assembled L collection scope types resolve back_of a r =
     (\<exists>declared key. mget types (as_type a) = Some declared \<and>
        relation_key L (mint_id collection (as_source a)) (as_type a) (rt_discriminator declared)
          (as_facts a) (as_target a) = Some key \<and>
        r = relation_of L collection scope resolve back_of key declared a)"

lemma relation_of_key [simp]: "r_key (relation_of L c s resolve back_of key declared a) = key"
  by (simp add: relation_of_def Let_def)

lemma relation_of_scope:
  "r_collection (relation_of L c s resolve back_of key declared a) = c"
  "r_scope (relation_of L c s resolve back_of key declared a) = s"
  by (simp_all add: relation_of_def Let_def)

lemma assemble_Inr_iff:
  "assemble L c s types resolve back_of seen asserts = Inr rels \<longleftrightarrow>
   list_all2 (assembled L c s types resolve back_of) asserts rels \<and>
   distinct (map r_key rels) \<and> set (map r_key rels) \<inter> set seen = {}"
proof (induction asserts arbitrary: seen rels)
  case Nil
  then show ?case by auto
next
  case (Cons a asserts)
  show ?case
  proof (cases rels)
    case Nil
    then show ?thesis by (auto simp: res_iff split: option.splits)
  next
    case (Cons r rels')
    then show ?thesis
      using Cons.IH by (auto simp: res_iff assembled_def split: option.splits)
  qed
qed

lemma assembled_scope:
  "assembled L c s types resolve back_of a r \<Longrightarrow> r_collection r = c \<and> r_scope r = s"
  by (auto simp: assembled_def relation_of_scope)

lemma assembled_all_scope:
  "list_all2 (assembled L c s types resolve back_of) asserts rels \<Longrightarrow> r \<in> set rels \<Longrightarrow>
   r_collection r = c \<and> r_scope r = s"
  by (induction rule: list_all2_induct) (auto dest: assembled_scope)

lemma rel_keys_distinct:
  assumes "\<And>r. r \<in> set rels \<Longrightarrow> r_collection r = c \<and> r_scope r = s"
  shows "distinct (map rel_key rels) = distinct (map r_key rels)"
proof -
  have "map rel_key rels = map (\<lambda>r. (c, s, r_key r)) rels"
    using assms by (simp add: rel_key_def)
  then show ?thesis by (simp only: distinct_tagged)
qed

lemma distinct_map_mset: "mset xs = mset ys \<Longrightarrow> distinct (map f xs) = distinct (map f ys)"
  by (metis distinct_map mset_eq_setD mset_eq_imp_distinct_iff)

lemma apply_assertions_eq:
  "apply_assertions L c s asserts types resolve back_of d =
   (case assemble L c s types resolve back_of [] asserts of
      Inl e \<Rightarrow> (Inl e, d)
    | Inr rels \<Rightarrow> (Inr (sort_key r_key rels),
        d\<lparr>d_rels := delete_rels c s (d_rels d) @ sort_key r_key rels\<rparr>))"
proof (cases "assemble L c s types resolve back_of [] asserts")
  case (Inr rels)
  then have l: "list_all2 (assembled L c s types resolve back_of) asserts rels" and
      k: "distinct (map r_key rels)"
    by (auto simp: assemble_Inr_iff)
  have sc: "r_collection r = c \<and> r_scope r = s" if "r \<in> set (sort_key r_key rels)" for r
    using assembled_all_scope [OF l] that by simp
  have "distinct (map rel_key (sort_key r_key rels))"
    using k rel_keys_distinct [of "sort_key r_key rels", OF sc]
      distinct_map_mset [of "sort_key r_key rels" rels r_key] by simp
  then show ?thesis
    using Inr rel_table.replace_eq [of "sort_key r_key rels" c s "d_rels d", OF sc]
    by (simp add: apply_assertions_def)
qed (simp add: apply_assertions_def)

section \<open>Re-testing unresolved edges\<close>

definition upgrade_one :: "resolve_fun \<Rightarrow> rel_row \<Rightarrow> rel_row \<Rightarrow> rel_row" where
  "upgrade_one resolve p r =
     (case resolve (r_target_kind p) (r_target_name p) of
        None \<Rightarrow> r
      | Some oid \<Rightarrow> if r_key r = r_key p then r\<lparr>r_resolved := True, r_target_id := Some oid\<rparr> else r)"

lemma upgrade_loop_eq:
  "upgrade_loop resolve ps (rows, n) =
   (map (fold (upgrade_one resolve) ps) rows,
    n + length (filter (\<lambda>p. resolve (r_target_kind p) (r_target_name p) \<noteq> None) ps))"
proof (induction ps arbitrary: rows n)
  case (Cons p ps)
  show ?case
  proof (cases "resolve (r_target_kind p) (r_target_name p)")
    case None
    then show ?thesis using Cons by (simp add: upgrade_one_def [abs_def])
  next
    case (Some oid)
    then have "map (fold (upgrade_one resolve) ps) (upgrade_key (r_key p) oid rows) =
      map (fold (upgrade_one resolve) (p # ps)) rows"
      by (simp add: upgrade_key_def upgrade_one_def [of _ p])
    then show ?thesis using Some Cons by simp
  qed
qed simp

lemma upgrade_one_key [simp]: "r_key (upgrade_one resolve p r) = r_key r"
  by (simp add: upgrade_one_def split: option.split)

lemma fold_upgrade_other:
  "r_key r \<notin> r_key ` set ps \<Longrightarrow> fold (upgrade_one resolve) ps r = r"
proof (induction ps)
  case (Cons p ps)
  then have "upgrade_one resolve p r = r"
    by (auto simp: upgrade_one_def split: option.split)
  then show ?case using Cons by simp
qed simp

lemma fold_upgrade_self:
  assumes "distinct (map r_key ps)" and "r \<in> set ps"
  shows "fold (upgrade_one resolve) ps r = upgrade_one resolve r r"
  using assms
proof (induction ps)
  case (Cons p ps)
  show ?case
  proof (cases "r = p")
    case True
    have "r_key (upgrade_one resolve p p) \<notin> r_key ` set ps" using Cons.prems by auto
    then show ?thesis using True by (simp add: fold_upgrade_other)
  next
    case False
    then have "r_key r \<in> r_key ` set ps" using Cons.prems by simp
    then have "r_key r \<noteq> r_key p" using Cons.prems by auto
    then have "upgrade_one resolve p r = r" by (auto simp: upgrade_one_def split: option.split)
    then show ?thesis using Cons False by simp
  qed
qed simp


definition upgraded :: "resolve_fun \<Rightarrow> rel_row \<Rightarrow> rel_row" where
  "upgraded resolve r =
     (if r_resolved r then r
      else case resolve (r_target_kind r) (r_target_name r) of
        None \<Rightarrow> r
      | Some oid \<Rightarrow> r\<lparr>r_resolved := True, r_target_id := Some oid\<rparr>)"

lemma upgrade_unresolved_eq:
  assumes "distinct (map r_key (d_rels d))"
  shows "upgrade_unresolved resolve d =
    (length (filter (\<lambda>r. \<not> r_resolved r \<and> resolve (r_target_kind r) (r_target_name r) \<noteq> None) (d_rels d)),
     d\<lparr>d_rels := map (upgraded resolve) (d_rels d)\<rparr>)"
proof -
  let ?ps = "filter (\<lambda>r. \<not> r_resolved r) (d_rels d)"
  have dist: "distinct (map r_key ?ps)" using assms by (rule distinct_map_filter)
  have "fold (upgrade_one resolve) ?ps r = upgraded resolve r" if r: "r \<in> set (d_rels d)" for r
  proof (cases "r_resolved r")
    case True
    have "r_key r \<notin> r_key ` set ?ps"
    proof
      assume "r_key r \<in> r_key ` set ?ps"
      then obtain p where p: "p \<in> set (d_rels d)" "\<not> r_resolved p" "r_key p = r_key r" by auto
      then have "p = r" using assms r by (auto simp: distinct_map dest: inj_onD)
      then show False using True p by simp
    qed
    then show ?thesis using True by (simp add: fold_upgrade_other upgraded_def)
  next
    case False
    then have "r \<in> set ?ps" using r by simp
    from fold_upgrade_self [OF dist this] show ?thesis
      using False by (simp add: upgraded_def upgrade_one_def split: option.split)
  qed
  then have "map (fold (upgrade_one resolve) ?ps) (d_rels d) = map (upgraded resolve) (d_rels d)"
    by simp
  then show ?thesis
    by (simp add: upgrade_unresolved_def upgrade_loop_eq filter_filter conj_commute)
qed

section \<open>Properties\<close>

definition number_text :: "lib \<Rightarrow> bool" where
  "number_text L = (\<forall>x. case fmt_float L x of [] \<Rightarrow> False | c # _ \<Rightarrow> is_digit c \<or> c = CHR ''-'')"

lemma present_part: "number_text L \<Longrightarrow> val_text (fmt_float L) v \<noteq> absent_part"
proof (cases v)
  case (VNum x)
  assume "number_text L"
  then have "case fmt_float L x of [] \<Rightarrow> False | c # _ \<Rightarrow> is_digit c \<or> c = CHR ''-''"
    by (simp add: number_text_def)
  then show ?thesis
    using VNum by (cases "fmt_float L x") (auto simp: val_text_def absent_part_def is_digit_def)
qed (auto simp: val_text_def absent_part_def enc_str_def)

lemma discriminator_part_eq:
  "number_text L \<Longrightarrow> discriminator_part L m n = discriminator_part L m' n \<longleftrightarrow>
     map_option (val_text (fmt_float L)) (mget m n) = map_option (val_text (fmt_float L)) (mget m' n)"
  using present_part [of L] by (auto simp: discriminator_part_def split: option.split) metis+

text \<open>
  Property C13. The key of an edge identifies it. For one declared discriminator, two edges of
  a collection have the same key exactly when they agree on the source, the type, the target
  and, discriminator by discriminator, on the fact's value or on its absence, which no value
  stands for; so no separator inside a name can merge two edges. The hash is assumed not to
  collide on the two tuples, and a float's text to begin like a number.
\<close>

theorem relation_key_identifies:
  assumes "number_text L"
    and "key_parts L (mint_id c s) ty disc facts t = Some p"
    and "key_parts L (mint_id c s') ty' disc facts' t' = Some q"
    and "take 32 (sha256 L (concat (map frame p))) = take 32 (sha256 L (concat (map frame q))) \<Longrightarrow>
         concat (map frame p) = concat (map frame q)"
  shows "relation_key L (mint_id c s) ty disc facts t = relation_key L (mint_id c s') ty' disc facts' t' \<longleftrightarrow>
     s = s' \<and> ty = ty' \<and> t = t' \<and>
     (\<forall>n \<in> set disc. map_option (val_text (fmt_float L)) (mget (the (fact_values facts)) n) =
                      map_option (val_text (fmt_float L)) (mget (the (fact_values facts')) n))"
proof -
  have "relation_key L (mint_id c s) ty disc facts t = relation_key L (mint_id c s') ty' disc facts' t'
        \<longleftrightarrow> p = q"
    using assms(2-4) by (auto simp: relation_key_def frames_inject)
  also have "\<dots> \<longleftrightarrow> s = s' \<and> ty = ty' \<and> t = t' \<and>
     (\<forall>n \<in> set disc. map_option (val_text (fmt_float L)) (mget (the (fact_values facts)) n) =
                      map_option (val_text (fmt_float L)) (mget (the (fact_values facts')) n))"
    using assms(1-3) by (auto simp: key_parts_def discriminator_part_eq split: if_splits)
  finally show ?thesis .
qed

definition demo_assertion :: "string \<Rightarrow> string \<Rightarrow> assertion" where
  "demo_assertion source target = \<lparr>as_source = source, as_type = ''wants'', as_vantage = ''source'',
     as_kind = ''unit'', as_target = target, as_facts = None\<rparr>"

lemma relation_key_identifies_witness:
  "relation_key demo_lib (mint_id ''u'' ''a'') ''w'' [] None ''b'' \<noteq>
   relation_key demo_lib (mint_id ''u'' ''a'') ''w'' [] None ''c''"
proof -
  have "number_text demo_lib" by (simp add: number_text_def demo_lib_def is_digit_def)
  from relation_key_identifies [OF this, of "''u''" "''a''" "''w''" "[]" None "''b''" "[''u:a'', ''w'', ''b'']"
      "''a''" "''w''" None "''c''" "[''u:a'', ''w'', ''c'']"]
  show ?thesis by (simp add: key_parts_def mint_id_def demo_lib_def frame_def nat_str.simps)
qed

text \<open>
  Applying a collection's assertions either keeps one edge for each of them or
  changes nothing. On success the scope holds exactly the assembled edges, one per assertion
  with its minted source, its target resolved or kept by name, its facts and its observability,
  sorted by key and with distinct keys; no other scope or table changes. It fails exactly when
  an assertion is of an undeclared type, its discriminator facts do not decode, or two
  assertions have one key.
\<close>

theorem apply_assertions_one_each:
  "case apply_assertions L c s asserts types resolve back_of d of
     (Inl e, d') \<Rightarrow> d' = d \<and>
       \<not> (\<exists>rels. list_all2 (assembled L c s types resolve back_of) asserts rels \<and> distinct (map r_key rels))
   | (Inr out, d') \<Rightarrow>
       (\<exists>rels. list_all2 (assembled L c s types resolve back_of) asserts rels \<and>
               mset rels = mset out \<and> distinct (map r_key rels)) \<and>
       sorted (map r_key out) \<and>
       filter (\<lambda>r. r_collection r = c \<and> r_scope r = s) (d_rels d') = out \<and>
       filter (\<lambda>r. \<not> (r_collection r = c \<and> r_scope r = s)) (d_rels d') =
         filter (\<lambda>r. \<not> (r_collection r = c \<and> r_scope r = s)) (d_rels d) \<and>
       d' = d\<lparr>d_rels := d_rels d'\<rparr>"
proof (cases "assemble L c s types resolve back_of [] asserts")
  case (Inl e)
  then have "\<not> (\<exists>rels. list_all2 (assembled L c s types resolve back_of) asserts rels \<and> distinct (map r_key rels))"
    using assemble_Inr_iff [of L c s types resolve back_of "[]" asserts] by auto
  then show ?thesis by (simp add: apply_assertions_eq Inl)
next
  case (Inr rels)
  then have l: "list_all2 (assembled L c s types resolve back_of) asserts rels" and
      k: "distinct (map r_key rels)"
    by (auto simp: assemble_Inr_iff)
  let ?out = "sort_key r_key rels"
  have sc: "r_collection r = c \<and> r_scope r = s" if "r \<in> set ?out" for r
    using assembled_all_scope [OF l] that by simp
  have mine: "filter (\<lambda>r. r_collection r = c \<and> r_scope r = s) (delete_rels c s (d_rels d) @ ?out) = ?out"
    by (rule rel_table.scope_after) (use sc in blast)
  have "filter (\<lambda>r. \<not> (r_collection r = c \<and> r_scope r = s)) ?out = []"
    using sc by (auto simp: filter_empty_conv)
  then have other: "filter (\<lambda>r. \<not> (r_collection r = c \<and> r_scope r = s)) (delete_rels c s (d_rels d) @ ?out) =
      filter (\<lambda>r. \<not> (r_collection r = c \<and> r_scope r = s)) (d_rels d)"
    by (simp add: delete_rels_def)
  show ?thesis
    using l k mine other by (auto simp: apply_assertions_eq Inr)
qed

text \<open>
  Re-testing unresolved edges only resolves. With keys distinct, exactly the
  unresolved edges whose target the resolver now finds become resolved, to that object; no
  edge is re-keyed, removed, downgraded or otherwise changed, nothing but the edges changes,
  the count is of the edges resolved, and a second run with the same resolver changes nothing.
\<close>

theorem upgrade_only_resolves:
  assumes "distinct (map r_key (d_rels d))"
  shows "let (n, d') = upgrade_unresolved resolve d in
     list_all2 (\<lambda>r r'.
        if \<not> r_resolved r \<and> resolve (r_target_kind r) (r_target_name r) \<noteq> None
        then r' = r\<lparr>r_resolved := True, r_target_id := resolve (r_target_kind r) (r_target_name r)\<rparr>
        else r' = r) (d_rels d) (d_rels d') \<and>
     d' = d\<lparr>d_rels := d_rels d'\<rparr> \<and>
     n = length (filter (\<lambda>r. \<not> r_resolved r) (d_rels d)) - length (filter (\<lambda>r. \<not> r_resolved r) (d_rels d')) \<and>
     upgrade_unresolved resolve d' = (0, d')"
proof -
  let ?d = "d\<lparr>d_rels := map (upgraded resolve) (d_rels d)\<rparr>"
  have key [simp]: "r_key (upgraded resolve r) = r_key r" for r
    by (simp add: upgraded_def split: option.split)
  have twice [simp]: "upgraded resolve (upgraded resolve r) = upgraded resolve r" for r
    by (auto simp: upgraded_def split: option.split)
  have res: "\<not> r_resolved (upgraded resolve r) \<longleftrightarrow>
      \<not> r_resolved r \<and> resolve (r_target_kind r) (r_target_name r) = None" for r
    by (auto simp: upgraded_def split: option.split)
  have none: "\<not> (\<not> r_resolved (upgraded resolve r) \<and>
      resolve (r_target_kind (upgraded resolve r)) (r_target_name (upgraded resolve r)) \<noteq> None)" for r
    by (auto simp: upgraded_def split: option.split)
  have again: "upgrade_unresolved resolve ?d = (0, ?d)"
    using assms none by (subst upgrade_unresolved_eq) (simp_all add: comp_def filter_map)
  have count: "length (filter (\<lambda>r. \<not> r_resolved r \<and> resolve (r_target_kind r) (r_target_name r) \<noteq> None) rs) =
     length (filter (\<lambda>r. \<not> r_resolved r) rs) - length (filter (\<lambda>r. \<not> r_resolved r) (map (upgraded resolve) rs))" for rs
  proof (induction rs)
    case (Cons r rs)
    have "length (filter (\<lambda>r. \<not> r_resolved r) (map (upgraded resolve) rs)) \<le> length (filter (\<lambda>r. \<not> r_resolved r) rs)"
      by (induction rs) (auto simp: res)
    then show ?case using Cons res [of r] by auto
  qed simp
  have "list_all2 (\<lambda>r r'.
        if \<not> r_resolved r \<and> resolve (r_target_kind r) (r_target_name r) \<noteq> None
        then r' = r\<lparr>r_resolved := True, r_target_id := resolve (r_target_kind r) (r_target_name r)\<rparr>
        else r' = r) (d_rels d) (map (upgraded resolve) (d_rels d))"
    by (auto simp: list_all2_map2 upgraded_def intro!: list.rel_refl_strong split: option.split)
  then show ?thesis
    using again count by (simp add: upgrade_unresolved_eq [OF assms])
qed

definition demo_rels :: "rel_row list" where
  "demo_rels =
     [\<lparr>r_collection = ''units'', r_scope = [], r_key = ''k'', r_source_id = ''units:a'', r_source_name = ''a'',
        r_type = ''wants'', r_vantage = ''source'', r_target_kind = ''unit'', r_target_name = ''b'',
        r_target_id = Some ''units:host-b'', r_resolved = True, r_facts = None, r_obs = Asserted\<rparr>,
      \<lparr>r_collection = ''units'', r_scope = ''guest'', r_key = ''k'', r_source_id = ''units:a'', r_source_name = ''a'',
        r_type = ''wants'', r_vantage = ''source'', r_target_kind = ''unit'', r_target_name = ''b'',
        r_target_id = None, r_resolved = False, r_facts = None, r_obs = Asserted\<rparr>]"

lemma upgrade_only_resolves_witness:
  "fst (upgrade_unresolved (\<lambda>k n. Some ''units:b'') (empty_db\<lparr>d_rels := drop 1 demo_rels\<rparr>)) = 1"
proof -
  have "distinct (map r_key (d_rels (empty_db\<lparr>d_rels := drop 1 demo_rels\<rparr>)))"
    by (simp add: demo_rels_def)
  from upgrade_only_resolves [OF this, of "\<lambda>k n. Some ''units:b''"] show ?thesis
    by (simp add: upgrade_unresolved_def demo_rels_def)
qed

text \<open>
  Without distinct keys it does not hold: the key does not carry the scope and the update
  matches on the key alone, so an unresolved edge of one scope re-targets the resolved edge
  of another.
\<close>

lemma upgrade_crosses_scopes:
  "map r_target_id (d_rels (snd (upgrade_unresolved (\<lambda>k n. Some ''units:guest-b'')
     (empty_db\<lparr>d_rels := demo_rels\<rparr>)))) = [Some ''units:guest-b'', Some ''units:guest-b'']"
  by (simp add: upgrade_unresolved_def demo_rels_def upgrade_key_def empty_db_def)

end
