(* ===== verification/Client.thy ===== *)
theory Client
  imports Batch
begin

text \<open>
  The collator's side of one exchange with a collector (go/internal/wire/client.go and
  verbs.go) and the collectors' decoding of a name token. The socket is a parameter: given
  the bytes written it gives back the bytes a read to the end would deliver, or nothing
  where the connection fails. The request goes out whole before anything is read.
\<close>

section \<open>Text\<close>

text \<open>\<open>strings.ReplaceAll\<close> with a non-empty pattern.\<close>

function replace_all :: "string \<Rightarrow> string \<Rightarrow> string \<Rightarrow> string" where
  "replace_all pat new s =
     (if s = [] \<or> pat = [] then s
      else if is_prefix pat s then new @ replace_all pat new (drop (length pat) s)
      else hd s # replace_all pat new (tl s))"
  by pat_completeness auto
termination
  by (relation "measure (\<lambda>(pat, new, s). length s)") auto

declare replace_all.simps [simp del]

definition encode_name_token :: "string \<Rightarrow> string" where
  "encode_name_token name = replace_all '' '' ''%20'' (replace_all ''%'' ''%25'' name)"

definition decode_name_token :: "string \<Rightarrow> string" where
  "decode_name_token token = replace_all ''%25'' ''%'' (replace_all ''%20'' '' '' token)"

section \<open>The exchange\<close>

type_synonym socket = "string \<Rightarrow> string option"

record client =
  cl_ceiling :: int
  cl_socket :: socket

datatype client_error =
    Transport
  | Violated reason
  | Refused reason
  | NoCollections
  | AnsweredNothing

definition default_byte_ceiling :: int where
  "default_byte_ceiling = 4 * 2 ^ 20"

definition ceiling_of :: "client \<Rightarrow> int" where
  "ceiling_of c = (if 0 < cl_ceiling c then cl_ceiling c else default_byte_ceiling)"

definition newline :: string where
  "newline = [CHR 0x0A]"

text \<open>The limited reader stops one byte past the ceiling, and having read it is the violation.\<close>

definition exchange :: "client \<Rightarrow> string \<Rightarrow> client_error + string" where
  "exchange c request =
     (case cl_socket c (request @ newline) of
        None \<Rightarrow> Inl Transport
      | Some response \<Rightarrow>
          (let raw = take (nat (ceiling_of c + 1)) response in
           if int (length raw) = ceiling_of c + 1 then Inl (Violated ''byte-ceiling-exceeded'')
           else Inr raw))"

definition declare_doc :: "client \<Rightarrow> client_error + string" where
  "declare_doc c =
     bindR (exchange c ''declare'') (\<lambda>raw. if raw = [] then Inl AnsweredNothing else Inr raw)"

definition collect_request :: "nat gomap \<Rightarrow> string" where
  "collect_request issued = ''collect'' @ concat (map (\<lambda>(name, g). '' '' @ name @ '':'' @ nat_str g) issued)"

definition collect :: "(string \<Rightarrow> string) \<Rightarrow> client \<Rightarrow> nat gomap \<Rightarrow> client_error + batch" where
  "collect sha c issued =
     (if issued = [] then Inl NoCollections
      else bindR (exchange c (collect_request issued))
        (\<lambda>raw. case parse_batch sha raw issued of Inl r \<Rightarrow> Inl (Violated r) | Inr b \<Rightarrow> Inr b))"

section \<open>The reverse channel\<close>

definition reverse_verbs :: "string list" where
  "reverse_verbs = [''object'', ''evidence'', ''lookup'']"

text \<open>The declared set is a Go map, \<open>None\<close> when it is nil.\<close>

definition requestable :: "string \<Rightarrow> string \<Rightarrow> string \<Rightarrow> bool gomap option \<Rightarrow> client_error + unit" where
  "requestable verb collection token declared =
     (if verb \<notin> set reverse_verbs then Inl (Refused ''unknown-verb'')
      else if collection = [] \<or> token = [] then Inl (Refused ''incomplete-request'')
      else case declared of
        None \<Rightarrow> Inl (Refused ''no-declaration'')
      | Some names \<Rightarrow>
          if mget names collection \<noteq> Some True then Inl (Refused ''undeclared-collection'')
          else if (\<exists>c \<in> set collection. c \<in> {CHR 0x0A, CHR 0x0D, CHR '' ''}) \<or>
                  (\<exists>c \<in> set token. c \<in> {CHR 0x0A, CHR 0x0D})
          then Inl (Refused ''malformed-token'')
          else Inr ())"

definition reverse_request :: "string \<Rightarrow> string \<Rightarrow> string \<Rightarrow> string" where
  "reverse_request verb collection token =
     verb @ '' '' @ collection @ '' '' @ encode_name_token token"

definition reverse_call ::
  "client \<Rightarrow> string \<Rightarrow> string \<Rightarrow> string \<Rightarrow> bool gomap option \<Rightarrow> client_error + string"
where
  "reverse_call c verb collection token declared =
     bindR (requestable verb collection token declared) (\<lambda>_.
       bindR (exchange c (reverse_request verb collection token)) (\<lambda>raw.
         if raw = [] then Inl AnsweredNothing else Inr raw))"

section \<open>Freshness\<close>

text \<open>A product of \<open>time.Duration\<close>s is a signed 64-bit product.\<close>

definition wrap64 :: "int \<Rightarrow> int" where
  "wrap64 x = (x + 2 ^ 63) mod 2 ^ 64 - 2 ^ 63"

definition duration_units :: "(string \<times> int) list" where
  "duration_units =
     [(''ms'', 10 ^ 6), (''s'', 10 ^ 9), (''m'', 60 * 10 ^ 9), (''h'', 3600 * 10 ^ 9),
      (''d'', 86400 * 10 ^ 9)]"

fun freshness_digits :: "int \<Rightarrow> string \<Rightarrow> int option" where
  "freshness_digits n [] = Some n"
| "freshness_digits n (c # s) =
     (if \<not> is_digit c then None
      else (let n' = n * 10 + int (digit_val c) in
            if 2 ^ 40 < n' then None else freshness_digits n' s))"

fun freshness_in :: "(string \<times> int) list \<Rightarrow> string \<Rightarrow> int option" where
  "freshness_in [] s = None"
| "freshness_in ((suffix, unit) # us) s =
     (if length suffix < length s \<and> is_suffix suffix s
      then map_option (\<lambda>n. wrap64 (n * unit)) (freshness_digits 0 (take (length s - length suffix) s))
      else freshness_in us s)"

definition parse_freshness :: "string \<Rightarrow> int option" where
  "parse_freshness s = freshness_in duration_units s"

section \<open>The declaration\<close>

record decl_relation =
  dr_type :: string
  dr_carries :: bool
  dr_discriminator :: "string list"
  dr_inverse :: bool
  dr_confirmed :: string

record decl_collection =
  dc_name :: string
  dc_freshness :: string
  dc_prefix :: string
  dc_relations :: "decl_relation list"
  dc_facts :: "json gomap"

text \<open>
  \<open>json.Unmarshal\<close> into the structs: a member of the wrong kind is an error, a \<open>null\<close> or a
  missing one leaves the zero value. A member given twice is taken from its last occurrence.
\<close>

definition text_field :: "(string \<times> json) list \<Rightarrow> string \<Rightarrow> string option" where
  "text_field kvs f = (case struct_get kvs f of
      None \<Rightarrow> Some [] | Some JNull \<Rightarrow> Some [] | Some (JStr s) \<Rightarrow> Some s | _ \<Rightarrow> None)"

definition bool_field :: "(string \<times> json) list \<Rightarrow> string \<Rightarrow> bool option" where
  "bool_field kvs f = (case struct_get kvs f of
      None \<Rightarrow> Some False | Some JNull \<Rightarrow> Some False | Some (JBool b) \<Rightarrow> Some b | _ \<Rightarrow> None)"

definition list_field :: "(string \<times> json) list \<Rightarrow> string \<Rightarrow> json list option" where
  "list_field kvs f = (case struct_get kvs f of
      None \<Rightarrow> Some [] | Some JNull \<Rightarrow> Some [] | Some (JArr xs) \<Rightarrow> Some xs | _ \<Rightarrow> None)"

definition struct_of :: "json \<Rightarrow> (string \<times> json) list option" where
  "struct_of j = (case j of JObj kvs \<Rightarrow> Some kvs | JNull \<Rightarrow> Some [] | _ \<Rightarrow> None)"

definition text_of :: "json \<Rightarrow> string option" where
  "text_of j = (case j of JStr s \<Rightarrow> Some s | JNull \<Rightarrow> Some [] | _ \<Rightarrow> None)"

fun mapO :: "('a \<Rightarrow> 'b option) \<Rightarrow> 'a list \<Rightarrow> 'b list option" where
  "mapO f [] = Some []"
| "mapO f (x # xs) =
     (case f x of None \<Rightarrow> None | Some y \<Rightarrow> map_option (\<lambda>ys. y # ys) (mapO f xs))"

definition decode_decl_relation :: "json \<Rightarrow> decl_relation option" where
  "decode_decl_relation j =
     Option.bind (struct_of j) (\<lambda>kvs.
     Option.bind (text_field kvs ''type'') (\<lambda>ty.
     Option.bind (bool_field kvs ''carries_facts'') (\<lambda>carries.
     Option.bind (Option.bind (list_field kvs ''discriminator'') (mapO text_of)) (\<lambda>disc.
     Option.bind (bool_field kvs ''inverse_observable'') (\<lambda>inv.
     Option.bind (text_field kvs ''confirmed_by'') (\<lambda>conf.
       Some \<lparr>dr_type = ty, dr_carries = carries, dr_discriminator = disc, dr_inverse = inv,
             dr_confirmed = conf\<rparr>))))))"

definition decode_decl_collection :: "json \<Rightarrow> decl_collection option" where
  "decode_decl_collection j =
     Option.bind (struct_of j) (\<lambda>kvs.
     Option.bind (text_field kvs ''name'') (\<lambda>name.
     Option.bind (text_field kvs ''freshness'') (\<lambda>fresh.
     Option.bind (text_field kvs ''prefix'') (\<lambda>pfx.
     Option.bind (Option.bind (list_field kvs ''relations'') (mapO decode_decl_relation)) (\<lambda>rels.
     Option.bind (case struct_get kvs ''facts'' of None \<Rightarrow> Some [] | Some f \<Rightarrow> raw_map f) (\<lambda>facts.
       Some \<lparr>dc_name = name, dc_freshness = fresh, dc_prefix = pfx, dc_relations = rels,
             dc_facts = facts\<rparr>))))))"

definition decode_declaration :: "string \<Rightarrow> (string \<times> decl_collection list) option" where
  "decode_declaration raw =
     Option.bind (json_unmarshal raw) (\<lambda>j.
     Option.bind (struct_of j) (\<lambda>kvs.
     Option.bind (text_field kvs ''collector'') (\<lambda>collector.
     Option.bind (Option.bind (list_field kvs ''collections'') (mapO decode_decl_collection)) (\<lambda>cols.
       Some (collector, cols)))))"

fun freshness_table :: "decl_collection list \<Rightarrow> int gomap \<Rightarrow> int gomap option" where
  "freshness_table [] m = Some m"
| "freshness_table (col # cols) m =
     (if \<not> collection_name (dc_name col) then None
      else case parse_freshness (dc_freshness col) of
        None \<Rightarrow> None
      | Some dur \<Rightarrow> freshness_table cols (mput (dc_name col) dur m))"

definition parse_declaration :: "string \<Rightarrow> (string \<times> decl_collection list \<times> int gomap) option" where
  "parse_declaration raw =
     (case decode_declaration raw of
        None \<Rightarrow> None
      | Some (collector, cols) \<Rightarrow>
          if cols = [] then None
          else map_option (\<lambda>m. (collector, cols, m)) (freshness_table cols []))"

section \<open>Lemmas\<close>

lemma mapO_Some_iff: "mapO f xs = Some ys \<longleftrightarrow> list_all2 (\<lambda>x y. f x = Some y) xs ys"
proof (induction xs arbitrary: ys)
  case (Cons x xs)
  then show ?case by (cases ys) (auto split: option.splits)
qed auto

lemma replace_all_Nil [simp]: "replace_all pat new [] = []"
  by (subst replace_all.simps) simp

lemma replace_all_Cons:
  "pat \<noteq> [] \<Longrightarrow> replace_all pat new (c # s) =
     (if is_prefix pat (c # s) then new @ replace_all pat new (drop (length pat) (c # s))
      else c # replace_all pat new s)"
  by (subst replace_all.simps) simp

lemma replace_one: "replace_all [p] new s = concat (map (\<lambda>c. if c = p then new else [c]) s)"
  by (induction s) (auto simp: replace_all_Cons)

definition encode_char :: "char \<Rightarrow> string" where
  "encode_char c = (if c = CHR ''%'' then ''%25'' else if c = CHR '' '' then ''%20'' else [c])"

lemma encode_chars: "encode_name_token name = concat (map encode_char name)"
  by (induction name) (simp_all add: encode_name_token_def replace_one encode_char_def)

lemma decode_encode: "decode_name_token (encode_name_token name) = name"
proof -
  have "replace_all ''%20'' '' '' (concat (map encode_char name)) =
        concat (map (\<lambda>c. if c = CHR ''%'' then ''%25'' else [c]) name)"
    by (induction name) (auto simp: encode_char_def replace_all_Cons)
  moreover have "replace_all ''%25'' ''%'' (concat (map (\<lambda>c. if c = CHR ''%'' then ''%25'' else [c]) name)) = name"
    by (induction name) (auto simp: replace_all_Cons)
  ultimately show ?thesis by (simp add: decode_name_token_def encode_chars)
qed

lemma encode_free: "CHR '' '' \<notin> set (encode_name_token name)"
  by (induction name) (auto simp: encode_chars encode_char_def)

lemma encode_lines: "CHR 0x0A \<in> set (encode_name_token name) \<longleftrightarrow> CHR 0x0A \<in> set name"
  by (induction name) (auto simp: encode_chars encode_char_def)

lemma requestable_Inr:
  "requestable verb collection token declared = Inr u \<longleftrightarrow>
     verb \<in> set reverse_verbs \<and> collection \<noteq> [] \<and> token \<noteq> [] \<and>
     (\<exists>names. declared = Some names \<and> mget names collection = Some True) \<and>
     CHR 0x0A \<notin> set collection \<and> CHR 0x0D \<notin> set collection \<and> CHR '' '' \<notin> set collection \<and>
     CHR 0x0A \<notin> set token \<and> CHR 0x0D \<notin> set token"
  by (auto simp: requestable_def split: option.splits)

lemma digits_value:
  "0 \<le> n \<Longrightarrow> freshness_digits n s =
     (if list_all is_digit s \<and> (s = [] \<or> fold (\<lambda>c n. n * 10 + int (digit_val c)) s n \<le> 2 ^ 40)
      then Some (fold (\<lambda>c n. n * 10 + int (digit_val c)) s n) else None)"
proof (induction s arbitrary: n)
  case (Cons c s)
  have mono: "n' \<le> fold (\<lambda>c n. n * 10 + int (digit_val c)) s n'" if "0 \<le> n'" for n' s
    using that
  proof (induction s arbitrary: n')
    case (Cons c s)
    from Cons.IH [of "n' * 10 + int (digit_val c)"] Cons.prems show ?case by simp
  qed simp
  show ?case
    using Cons.IH [of "n * 10 + int (digit_val c)"] mono [of "n * 10 + int (digit_val c)" s] Cons.prems
    by (auto simp: Let_def)
qed simp

lemma dec_val_fold: "fold (\<lambda>c n. n * 10 + int (digit_val c)) s (int k) = int (fold (\<lambda>c n. 10 * n + digit_val c) s k)"
proof (induction s arbitrary: k)
  case (Cons c s)
  from Cons [of "10 * k + digit_val c"] show ?case by (simp add: ac_simps)
qed simp

lemma freshness_digits_eq:
  "s \<noteq> [] \<Longrightarrow> freshness_digits 0 s =
     (if list_all is_digit s \<and> int (dec_val s) \<le> 2 ^ 40 then Some (int (dec_val s)) else None)"
  using digits_value [of 0 s] dec_val_fold [of s 0] by (simp add: dec_val_def)

lemma freshness_in_Some:
  assumes "freshness_in us s = Some v"
  shows "\<exists>suffix unit ds. (suffix, unit) \<in> set us \<and> s = ds @ suffix \<and> ds \<noteq> [] \<and> list_all is_digit ds \<and>
     int (dec_val ds) \<le> 2 ^ 40 \<and> v = wrap64 (int (dec_val ds) * unit)"
  using assms
proof (induction us s rule: freshness_in.induct)
  case (2 suffix unit us s)
  show ?case
  proof (cases "length suffix < length s \<and> is_suffix suffix s")
    case True
    then obtain ds where s: "s = ds @ suffix" by (auto simp: is_suffix_iff)
    then have ne: "ds \<noteq> []" using True by auto
    have "map_option (\<lambda>n. wrap64 (n * unit)) (freshness_digits 0 ds) = Some v"
      using 2(2) True s by simp
    then have "list_all is_digit ds \<and> int (dec_val ds) \<le> 2 ^ 40 \<and> v = wrap64 (int (dec_val ds) * unit)"
      by (simp only: freshness_digits_eq [OF ne]) (simp split: if_splits)
    then show ?thesis using s ne by (intro exI [of _ suffix] exI [of _ unit] exI [of _ ds]) simp
  next
    case False
    moreover from this have "freshness_in us s = Some v" using 2(2) by auto
    ultimately obtain suffix' unit' ds where "(suffix', unit') \<in> set us" "s = ds @ suffix'" "ds \<noteq> []"
        "list_all is_digit ds" "int (dec_val ds) \<le> 2 ^ 40" "v = wrap64 (int (dec_val ds) * unit')"
      using 2(1) by blast
    then show ?thesis by (intro exI [of _ suffix'] exI [of _ unit'] exI [of _ ds]) simp
  qed
qed simp

lemma digit_not_unit: "is_digit c \<Longrightarrow> c \<noteq> CHR ''m'' \<and> c \<noteq> CHR ''s'' \<and> c \<noteq> CHR ''h'' \<and> c \<noteq> CHR ''d''"
  by (auto simp: is_digit_def)

lemma freshness_in_units:
  assumes "(suffix, unit) \<in> set duration_units" and "ds \<noteq> []" and "list_all is_digit ds"
    and "int (dec_val ds) \<le> 2 ^ 40"
  shows "freshness_in duration_units (ds @ suffix) = Some (wrap64 (int (dec_val ds) * unit))"
proof -
  obtain c cs where ds: "rev ds = c # cs" "is_digit c"
    using assms(2,3) by (cases ds rule: rev_cases) auto
  have other: "is_suffix ''ms'' (ds @ [x]) = (x = CHR ''s'' \<and> c = CHR ''m'')" for x
    by (auto simp: is_suffix_def ds(1))
  have single: "is_suffix [y] (ds @ [x]) = (x = y)" for x y
    by (auto simp: is_suffix_def)
  have ms: "is_suffix ''ms'' (ds @ ''ms'')" by (simp add: is_suffix_def)
  have "0 < length ds" using assms(2) by simp
  then show ?thesis
    using assms(1) freshness_digits_eq [OF assms(2)] assms(3,4) digit_not_unit [OF ds(2)]
    unfolding duration_units_def
    by (elim set_ConsD [elim_format] disjE) (simp_all add: other single ms)
qed

section \<open>Properties\<close>

text \<open>
  The reverse channel sends three tokens or nothing. A refused request fails with
  its refusal whatever the socket would do; an admitted one carries a verb of the closed list
  and a declared collection, goes out as one line, and that line splits at its spaces into the
  verb, the collection and a token which the collector's decoding turns back into the name.
\<close>

theorem reverse_request_three_tokens:
  "case requestable verb collection name declared of
     Inl e \<Rightarrow> reverse_call c verb collection name declared = Inl e
   | Inr _ \<Rightarrow> verb \<in> {''object'', ''evidence'', ''lookup''} \<and>
       Option.bind declared (\<lambda>names. mget names collection) = Some True \<and>
       CHR 0x0A \<notin> set (reverse_request verb collection name) \<and>
       (\<exists>token. split_on CHR '' '' (reverse_request verb collection name) = [verb, collection, token] \<and>
          decode_name_token token = name) \<and>
       reverse_call c verb collection name declared =
         (case exchange c (reverse_request verb collection name) of
            Inl e \<Rightarrow> Inl e
          | Inr raw \<Rightarrow> if raw = [] then Inl AnsweredNothing else Inr raw)"
proof (cases "requestable verb collection name declared")
  case (Inl e)
  then show ?thesis by (simp add: reverse_call_def)
next
  case (Inr u)
  then have ok: "verb \<in> set reverse_verbs" "CHR '' '' \<notin> set collection" "CHR 0x0A \<notin> set collection"
      "CHR 0x0A \<notin> set name" "Option.bind declared (\<lambda>names. mget names collection) = Some True"
    by (auto simp: requestable_Inr)
  have verb: "CHR '' '' \<notin> set verb" "CHR 0x0A \<notin> set verb"
    using ok(1) by (auto simp: reverse_verbs_def)
  have "split_on CHR '' '' (reverse_request verb collection name) = [verb, collection, encode_name_token name]"
    using ok verb encode_free [of name] by (simp add: reverse_request_def split_on_append split_on_single)
  moreover have "CHR 0x0A \<notin> set (reverse_request verb collection name)"
    using ok verb by (simp add: reverse_request_def encode_lines)
  ultimately show ?thesis
    using Inr ok decode_encode [of name]
    by (auto simp: reverse_call_def bindR_def reverse_verbs_def split: sum.split)
qed

text \<open>
  A response is taken whole or not at all: an exchange gives back exactly the
  bytes the collector sent when they fit the ceiling, is a violation exactly when there is
  one byte more, and otherwise the connection failed; no prefix of a response is ever parsed.
\<close>

theorem exchange_whole_response:
  "exchange c request =
     (case cl_socket c (request @ newline) of
        None \<Rightarrow> Inl Transport
      | Some response \<Rightarrow>
          if int (length response) \<le> ceiling_of c then Inr response
          else Inl (Violated ''byte-ceiling-exceeded''))"
proof -
  have "0 < ceiling_of c" by (simp add: ceiling_of_def default_byte_ceiling_def)
  then show ?thesis
    by (auto simp: exchange_def Let_def min_def split: option.split)
qed

text \<open>
  A freshness parses exactly when it is digits and a unit from the grammar, the
  digits within the range check, and its value is their product as a 64-bit duration.
\<close>

theorem parse_freshness_grammar:
  "parse_freshness s = Some v \<longleftrightarrow>
     (\<exists>ds suffix unit. (suffix, unit) \<in> {(''ms'', 10 ^ 6), (''s'', 10 ^ 9), (''m'', 60 * 10 ^ 9),
          (''h'', 3600 * 10 ^ 9), (''d'', 86400 * 10 ^ 9)} \<and>
        s = ds @ suffix \<and> ds \<noteq> [] \<and> list_all is_digit ds \<and> int (dec_val ds) \<le> 2 ^ 40 \<and>
        v = wrap64 (int (dec_val ds) * unit))"
proof -
  have units: "set duration_units = {(''ms'', 10 ^ 6), (''s'', 10 ^ 9), (''m'', 60 * 10 ^ 9),
      (''h'', 3600 * 10 ^ 9), (''d'', 86400 * 10 ^ 9)}"
    by (simp add: duration_units_def)
  show ?thesis
    unfolding units [symmetric] parse_freshness_def
  proof
    assume "freshness_in duration_units s = Some v"
    from freshness_in_Some [OF this]
    show "\<exists>ds suffix unit. (suffix, unit) \<in> set duration_units \<and> s = ds @ suffix \<and> ds \<noteq> [] \<and>
        list_all is_digit ds \<and> int (dec_val ds) \<le> 2 ^ 40 \<and> v = wrap64 (int (dec_val ds) * unit)"
      by metis
  qed (auto simp: freshness_in_units simp del: of_nat_le_numeral_power_cancel_iff)
qed

text \<open>
  The range check bounds the digits, not the duration: a freshness the grammar admits can
  still overflow 64 bits of nanoseconds and come out negative.
\<close>

lemma freshness_overflows: "parse_freshness ''10000000000s'' = Some (-8446744073709551616)"
  by code_simp

text \<open>The order the comment gives, spaces before percents, does not decode.\<close>

lemma space_first_does_not_decode:
  "decode_name_token (replace_all ''%'' ''%25'' (replace_all '' '' ''%20'' ''a b'')) = ''a%20b''"
  by code_simp

end
