(* ===== verification/Opinions.thy ===== *)
theory Opinions
  imports Client Store
begin

text \<open>
  The rule table of a declaration and its evaluation on one object's facts
  (go/internal/collate/opinions.go) and the closed table of named evaluators
  (go/internal/collate/evaluators.go). A condition is the raw JSON of a rule's \<open>when\<close>;
  evaluating one gives \<open>None\<close> where the code returns an error. Facts are decoded values.
\<close>

section \<open>The declared document\<close>

record rule =
  ru_key :: string
  ru_level :: string
  ru_grounds :: string
  ru_when :: "json option"
  ru_evaluator :: string
  ru_applies :: "string list"
  ru_sentence :: string
  ru_cites :: "string list"

record declared_collection =
  dl_name :: string
  dl_question :: string
  dl_prefix :: string
  dl_facts :: "json gomap"
  dl_rules :: "rule list"
  dl_ceiling :: int

definition int_field :: "(string \<times> json) list \<Rightarrow> string \<Rightarrow> int option" where
  "int_field kvs f = (case struct_get kvs f of
      None \<Rightarrow> Some 0 | Some JNull \<Rightarrow> Some 0 | Some (JNum n) \<Rightarrow> parse_int64 n | _ \<Rightarrow> None)"

definition texts_field :: "(string \<times> json) list \<Rightarrow> string \<Rightarrow> string list option" where
  "texts_field kvs f = Option.bind (list_field kvs f) (mapO text_of)"

definition map_field :: "(string \<times> json) list \<Rightarrow> string \<Rightarrow> json gomap option" where
  "map_field kvs f = (case struct_get kvs f of None \<Rightarrow> Some [] | Some j \<Rightarrow> raw_map j)"

definition decode_rule :: "json \<Rightarrow> rule option" where
  "decode_rule j =
     Option.bind (struct_of j) (\<lambda>kvs.
     Option.bind (text_field kvs ''key'') (\<lambda>key.
     Option.bind (text_field kvs ''level'') (\<lambda>level.
     Option.bind (text_field kvs ''grounds'') (\<lambda>grounds.
     Option.bind (text_field kvs ''evaluator'') (\<lambda>evaluator.
     Option.bind (texts_field kvs ''applies_to'') (\<lambda>applies.
     Option.bind (text_field kvs ''sentence'') (\<lambda>sentence.
     Option.bind (texts_field kvs ''cites'') (\<lambda>cites.
       Some \<lparr>ru_key = key, ru_level = level, ru_grounds = grounds,
             ru_when = struct_get kvs ''when'', ru_evaluator = evaluator, ru_applies = applies,
             ru_sentence = sentence, ru_cites = cites\<rparr>))))))))"

definition decode_declared_collection :: "json \<Rightarrow> declared_collection option" where
  "decode_declared_collection j =
     Option.bind (struct_of j) (\<lambda>kvs.
     Option.bind (text_field kvs ''name'') (\<lambda>name.
     Option.bind (text_field kvs ''question'') (\<lambda>question.
     Option.bind (text_field kvs ''prefix'') (\<lambda>pfx.
     Option.bind (map_field kvs ''facts'') (\<lambda>facts.
     Option.bind (Option.bind (list_field kvs ''rules'') (mapO decode_rule)) (\<lambda>rules.
     Option.bind (case struct_get kvs ''ceiling'' of None \<Rightarrow> Some 0
                  | Some c \<Rightarrow> Option.bind (struct_of c) (\<lambda>m. int_field m ''records'')) (\<lambda>ceiling.
       Some \<lparr>dl_name = name, dl_question = question, dl_prefix = pfx, dl_facts = facts,
             dl_rules = rules, dl_ceiling = ceiling\<rparr>)))))))"

definition declared_document :: "string \<Rightarrow> declared_collection list option" where
  "declared_document raw =
     Option.bind (json_unmarshal raw) (\<lambda>j.
     Option.bind (struct_of j) (\<lambda>kvs.
     Option.bind (list_field kvs ''collections'') (mapO decode_declared_collection)))"

section \<open>Conditions\<close>

definition bool_of :: "json \<Rightarrow> bool option" where
  "bool_of j = (case j of JBool b \<Rightarrow> Some b | JNull \<Rightarrow> Some False | _ \<Rightarrow> None)"

definition list_of :: "json \<Rightarrow> json list option" where
  "list_of j = (case j of JArr xs \<Rightarrow> Some xs | JNull \<Rightarrow> Some [] | _ \<Rightarrow> None)"

definition float_of :: "json \<Rightarrow> f64 option" where
  "float_of j = (case j of JNum n \<Rightarrow> parse_float n | JNull \<Rightarrow> Some (Fin 0) | _ \<Rightarrow> None)"

definition same_json :: "lib \<Rightarrow> val \<Rightarrow> json \<Rightarrow> bool option" where
  "same_json L value want =
     map_option (\<lambda>expected. val_text (fmt_float L) value = val_text (fmt_float L) expected) (to_val want)"

definition compare_num :: "val \<Rightarrow> json \<Rightarrow> (rat \<Rightarrow> rat \<Rightarrow> bool) \<Rightarrow> bool option" where
  "compare_num value want ok =
     (case value of
        VNum a \<Rightarrow> map_option (\<lambda>b. ok (f64_val a) (f64_val b)) (float_of want)
      | _ \<Rightarrow> None)"

text \<open>The tests of a leaf, in the order the code tries them.\<close>

definition leaf_test :: "lib \<Rightarrow> json gomap \<Rightarrow> val option \<Rightarrow> bool option" where
  "leaf_test L node value =
     (case mget node ''present'' of
        Some want \<Rightarrow> map_option (\<lambda>expected. (value \<noteq> None) = expected) (bool_of want)
      | None \<Rightarrow>
     (case value of None \<Rightarrow> Some False
      | Some v \<Rightarrow>
     (case mget node ''non_empty'' of
        Some want \<Rightarrow> map_option (\<lambda>expected.
            case v of VArr xs \<Rightarrow> (xs \<noteq> []) = expected | _ \<Rightarrow> False) (bool_of want)
      | None \<Rightarrow>
     (case mget node ''equals'' of
        Some want \<Rightarrow> same_json L v want
      | None \<Rightarrow>
     (case mget node ''not_equals'' of
        Some want \<Rightarrow> map_option Not (same_json L v want)
      | None \<Rightarrow>
     (case mget node ''in'' of
        Some want \<Rightarrow> map_option (\<lambda>opts. \<exists>o' \<in> set opts. same_json L v o' = Some True) (list_of want)
      | None \<Rightarrow>
     (case mget node ''at_least'' of
        Some want \<Rightarrow> compare_num v want (\<lambda>a b. b \<le> a)
      | None \<Rightarrow>
     (case mget node ''at_most'' of
        Some want \<Rightarrow> compare_num v want (\<lambda>a b. a \<le> b)
      | None \<Rightarrow> None))))))))"

lemma size_member:
  assumes "raw_map j = Some m" and "mget m k = Some v"
  shows "size v < size j"
proof (cases j)
  case (JObj kvs)
  then have "(k, v) \<in> set kvs"
    using assms set_mof [of kvs] by (auto simp: raw_map_def dest: map_of_SomeD)
  then have "size v < Suc (size_list (size_prod (\<lambda>_. 0) size) kvs)"
    by (induction kvs) auto
  then show ?thesis using JObj by simp
qed (use assms in \<open>auto simp: raw_map_def\<close>)

lemma size_items: "list_of j = Some xs \<Longrightarrow> size_list size xs \<le> size j"
  by (cases j) (auto simp: list_of_def)

function match :: "lib \<Rightarrow> json \<Rightarrow> val gomap \<Rightarrow> bool option"
  and every :: "lib \<Rightarrow> json list \<Rightarrow> val gomap \<Rightarrow> bool \<Rightarrow> bool option"
where
  "match L raw facts =
     (case raw_map raw of
        None \<Rightarrow> None
      | Some node \<Rightarrow>
     (case mget node ''all'' of
        Some nested \<Rightarrow> (case list_of nested of None \<Rightarrow> None | Some items \<Rightarrow> every L items facts True)
      | None \<Rightarrow>
     (case mget node ''any'' of
        Some nested \<Rightarrow> (case list_of nested of None \<Rightarrow> None | Some items \<Rightarrow> every L items facts False)
      | None \<Rightarrow>
     (case mget node ''not'' of
        Some nested \<Rightarrow> map_option Not (match L nested facts)
      | None \<Rightarrow>
     (case mget node ''fact'' of
        None \<Rightarrow> None
      | Some raw_fact \<Rightarrow>
          (case text_of raw_fact of
             None \<Rightarrow> None
           | Some name \<Rightarrow> leaf_test L node (mget facts name)))))))"
| "every L [] facts is_all = Some is_all"
| "every L (item # items) facts is_all =
     (case match L item facts of
        None \<Rightarrow> None
      | Some got \<Rightarrow>
          if is_all \<and> \<not> got then Some False
          else if \<not> is_all \<and> got then Some True
          else every L items facts is_all)"
  by pat_completeness auto
termination
  by (relation "measure (\<lambda>x. case x of Inl (L, j, m) \<Rightarrow> 2 * size j
        | Inr (L, js, m, b) \<Rightarrow> 2 * size_list size js + 1)")
     (auto dest!: size_member size_items)

declare match.simps [simp del]

function check_condition_facts :: "string list \<Rightarrow> json \<Rightarrow> bool"
  and check_condition_list :: "string list \<Rightarrow> json list \<Rightarrow> bool"
where
  "check_condition_facts declared raw =
     (case raw_map raw of
        None \<Rightarrow> False
      | Some node \<Rightarrow>
     (case mget node ''all'' of
        Some nested \<Rightarrow> (case list_of nested of None \<Rightarrow> False | Some items \<Rightarrow> check_condition_list declared items)
      | None \<Rightarrow>
     (case mget node ''any'' of
        Some nested \<Rightarrow> (case list_of nested of None \<Rightarrow> False | Some items \<Rightarrow> check_condition_list declared items)
      | None \<Rightarrow>
     (case mget node ''not'' of
        Some nested \<Rightarrow> check_condition_facts declared nested
      | None \<Rightarrow>
     (case mget node ''fact'' of
        None \<Rightarrow> True
      | Some raw_fact \<Rightarrow>
          (case text_of raw_fact of
             None \<Rightarrow> False
           | Some name \<Rightarrow> name \<in> set declared))))))"
| "check_condition_list declared [] = True"
| "check_condition_list declared (item # items) =
     (check_condition_facts declared item \<and> check_condition_list declared items)"
  by pat_completeness auto
termination
  by (relation "measure (\<lambda>x. case x of Inl (d, j) \<Rightarrow> 2 * size j
        | Inr (d, js) \<Rightarrow> 2 * size_list size js + 1)")
     (auto dest!: size_member size_items)

declare check_condition_facts.simps [simp del]

text \<open>\<open>ConditionFacts\<close>: the facts a condition tests, whatever other members a node carries.\<close>

function collect_facts :: "json \<Rightarrow> string list"
  and collect_items :: "json list \<Rightarrow> string list"
where
  "collect_facts raw =
     (case raw_map raw of
        None \<Rightarrow> []
      | Some node \<Rightarrow>
          (case mget node ''all'' of None \<Rightarrow> [] | Some nested \<Rightarrow>
             (case list_of nested of None \<Rightarrow> [] | Some items \<Rightarrow> collect_items items)) @
          (case mget node ''any'' of None \<Rightarrow> [] | Some nested \<Rightarrow>
             (case list_of nested of None \<Rightarrow> [] | Some items \<Rightarrow> collect_items items)) @
          (case mget node ''not'' of None \<Rightarrow> [] | Some nested \<Rightarrow> collect_facts nested) @
          (case mget node ''fact'' of None \<Rightarrow> [] | Some raw_fact \<Rightarrow>
             (case text_of raw_fact of None \<Rightarrow> [] | Some name \<Rightarrow> if name = [] then [] else [name])))"
| "collect_items [] = []"
| "collect_items (item # items) = collect_facts item @ collect_items items"
  by pat_completeness auto
termination
  by (relation "measure (\<lambda>x. case x of Inl j \<Rightarrow> 2 * size j | Inr js \<Rightarrow> 2 * size_list size js + 1)")
     (auto dest!: size_member size_items)

declare collect_facts.simps [simp del]

definition condition_facts :: "json \<Rightarrow> string list" where
  "condition_facts raw = sort (remdups (collect_facts raw))"

section \<open>Named evaluators\<close>

definition number_fact :: "val gomap \<Rightarrow> string \<Rightarrow> rat option" where
  "number_fact facts name = (case mget facts name of Some (VNum x) \<Rightarrow> Some (f64_val x) | _ \<Rightarrow> None)"

definition map_fact :: "val gomap \<Rightarrow> string \<Rightarrow> val gomap" where
  "map_fact facts name = (case mget facts name of Some (VObj m) \<Rightarrow> m | _ \<Rightarrow> [])"

definition strings_fact :: "val gomap \<Rightarrow> string \<Rightarrow> string list" where
  "strings_fact facts name =
     (case mget facts name of
        Some (VArr xs) \<Rightarrow> List.map_filter (\<lambda>v. case v of VStr s \<Rightarrow> Some s | _ \<Rightarrow> None) xs
      | _ \<Rightarrow> [])"

definition truthy :: "val option \<Rightarrow> bool" where
  "truthy v = (case v of
      None \<Rightarrow> False
    | Some VNull \<Rightarrow> False
    | Some (VBool b) \<Rightarrow> b
    | Some (VStr s) \<Rightarrow> s \<noteq> []
    | Some _ \<Rightarrow> True)"

definition slice_stall_floor :: rat where
  "slice_stall_floor = 1"

definition slice_stall_attention :: "string \<Rightarrow> rat" where
  "slice_stall_attention name =
     (if name = ''PsiIoFullAvg60'' then 20 else if name = ''PsiMemoryFullAvg60'' then 10 else 0)"

definition slice_stall_resources :: "string list" where
  "slice_stall_resources = [''PsiIoFullAvg60'', ''PsiMemoryFullAvg60'']"

definition unexplained_stall :: "val gomap \<Rightarrow> (string \<Rightarrow> rat \<Rightarrow> bool) \<Rightarrow> bool" where
  "unexplained_stall facts band =
     (\<exists>name \<in> set slice_stall_resources.
        (case number_fact facts name of
           None \<Rightarrow> False
         | Some stall \<Rightarrow>
             slice_stall_floor \<le> stall \<and> band name stall \<and>
             \<not> truthy (mget (map_fact facts ''StallExplainedBy'') name) \<and>
             \<not> truthy (mget (map_fact facts ''StallAttributionUnobservable'') name) \<and>
             truthy (mget (map_fact facts ''StallUnexplained'') name)))"

definition slice_stall_unexplained :: "val gomap \<Rightarrow> bool" where
  "slice_stall_unexplained facts =
     unexplained_stall facts (\<lambda>name stall. slice_stall_attention name \<le> stall)"

definition slice_stall_unexplained_minor :: "val gomap \<Rightarrow> bool" where
  "slice_stall_unexplained_minor facts =
     unexplained_stall facts (\<lambda>name stall. stall < slice_stall_attention name)"

definition slice_stall_unattributed :: "val gomap \<Rightarrow> bool" where
  "slice_stall_unattributed facts =
     (\<exists>name \<in> set slice_stall_resources.
        (case number_fact facts name of
           None \<Rightarrow> False
         | Some stall \<Rightarrow>
             slice_stall_floor \<le> stall \<and>
             \<not> truthy (mget (map_fact facts ''StallExplainedBy'') name) \<and>
             truthy (mget (map_fact facts ''StallAttributionUnobservable'') name)))"

definition durable_gap :: "val gomap \<Rightarrow> bool" where
  "durable_gap facts =
     (let independent = strings_fact facts ''IndependentDestinations'' in
      independent \<noteq> [] \<and>
      (\<forall>destination \<in> set independent. destination \<in> set (strings_fact facts ''UnimplementedHops'')))"

definition protection_no_durable_history :: "val gomap \<Rightarrow> bool" where
  "protection_no_durable_history facts =
     (strings_fact facts ''UnimplementedHops'' \<noteq> [] \<and>
      mget facts ''Class'' = Some (VStr ''backup'') \<and> mget facts ''Kind'' = Some (VStr ''saas-pull'') \<and>
      durable_gap facts)"

definition protection_no_durable_copy :: "val gomap \<Rightarrow> bool" where
  "protection_no_durable_copy facts =
     (strings_fact facts ''UnimplementedHops'' \<noteq> [] \<and>
      mget facts ''Class'' = Some (VStr ''backup'') \<and> mget facts ''Kind'' \<noteq> Some (VStr ''saas-pull'') \<and>
      durable_gap facts)"

definition protection_hop_unimplemented :: "val gomap \<Rightarrow> bool" where
  "protection_hop_unimplemented facts =
     (strings_fact facts ''UnimplementedHops'' \<noteq> [] \<and>
      \<not> (mget facts ''Class'' = Some (VStr ''backup'') \<and> durable_gap facts))"

definition evaluators :: "(string \<times> (val gomap \<Rightarrow> bool)) list" where
  "evaluators =
     [(''slice-stall-unexplained'', slice_stall_unexplained),
      (''slice-stall-unexplained-minor'', slice_stall_unexplained_minor),
      (''slice-stall-unattributed'', slice_stall_unattributed),
      (''protection-no-durable-copy'', protection_no_durable_copy),
      (''protection-no-durable-history'', protection_no_durable_history),
      (''protection-hop-unimplemented'', protection_hop_unimplemented)]"

definition known_evaluator :: "string \<Rightarrow> bool" where
  "known_evaluator name = (map_of evaluators name \<noteq> None)"

definition evaluator_names :: "string list" where
  "evaluator_names = sort (map fst evaluators)"

definition evaluate :: "string \<Rightarrow> val gomap \<Rightarrow> bool" where
  "evaluate name facts = (case map_of evaluators name of None \<Rightarrow> False | Some run \<Rightarrow> run facts)"

section \<open>Rules and opinions\<close>

definition rule_ok :: "string list \<Rightarrow> rule \<Rightarrow> bool" where
  "rule_ok declared r =
     ((\<forall>cited \<in> set (ru_cites r). cited \<in> set declared) \<and>
      (ru_when r \<noteq> None) \<noteq> (ru_evaluator r \<noteq> []) \<and>
      (ru_evaluator r = [] \<or> known_evaluator (ru_evaluator r)) \<and>
      (case ru_when r of None \<Rightarrow> True | Some cond \<Rightarrow> check_condition_facts declared cond))"

text \<open>An unreadable document or a refused rule is an error; the first collection of the name counts.\<close>

definition rules_for :: "string \<Rightarrow> string \<Rightarrow> rule list option" where
  "rules_for document collection =
     (if document = [] then Some []
      else case declared_document document of
        None \<Rightarrow> None
      | Some cols \<Rightarrow>
          (case find (\<lambda>c. dl_name c = collection) cols of
             None \<Rightarrow> Some []
           | Some c \<Rightarrow>
               if \<forall>r \<in> set (dl_rules c). rule_ok (mkeys (dl_facts c)) r then Some (dl_rules c) else None))"

record opinion =
  op_object :: string
  op_instance :: "string option"
  op_key :: string
  op_level :: string
  op_grounds :: string
  op_sentence :: string
  op_cites :: "string list"

definition judges :: "rule \<Rightarrow> string \<Rightarrow> bool" where
  "judges r object_type = (ru_applies r = [] \<or> object_type \<in> set (ru_applies r))"

text \<open>A rule without a condition reaching \<open>match\<close> fails to parse its empty text.\<close>

definition fires :: "lib \<Rightarrow> rule \<Rightarrow> val gomap \<Rightarrow> bool" where
  "fires L r facts =
     (if ru_evaluator r \<noteq> [] then evaluate (ru_evaluator r) facts
      else case ru_when r of None \<Rightarrow> False | Some cond \<Rightarrow> match L cond facts = Some True)"

definition opinion_of :: "string \<Rightarrow> string option \<Rightarrow> rule \<Rightarrow> opinion" where
  "opinion_of object inst r =
     \<lparr>op_object = object, op_instance = inst, op_key = ru_key r, op_level = ru_level r,
      op_grounds = ru_grounds r, op_sentence = ru_sentence r, op_cites = ru_cites r\<rparr>"

definition judge_shaped ::
  "lib \<Rightarrow> rule list \<Rightarrow> string \<Rightarrow> string option \<Rightarrow> string \<Rightarrow> val gomap \<Rightarrow> opinion list"
where
  "judge_shaped L rules object inst object_type facts =
     sort_key op_key (map (opinion_of object inst)
       (filter (\<lambda>r. judges r object_type \<and> fires L r facts) rules))"

definition judge :: "lib \<Rightarrow> rule list \<Rightarrow> string \<Rightarrow> string option \<Rightarrow> val gomap \<Rightarrow> opinion list" where
  "judge L rules object inst facts = judge_shaped L rules object inst [] facts"

text \<open>\<open>SecretFacts\<close>: \<open>None\<close> is an unreadable document, no names where nothing is declared.\<close>

definition decode_discloses :: "json gomap \<Rightarrow> string gomap option" where
  "decode_discloses facts =
     mapO (\<lambda>(name, spec). map_option (\<lambda>d. (name, d))
       (Option.bind (struct_of spec) (\<lambda>kvs. text_field kvs ''discloses''))) facts"

definition secret_columns :: "string \<Rightarrow> (string \<times> string gomap) list option" where
  "secret_columns document =
     Option.bind (json_unmarshal document) (\<lambda>j.
     Option.bind (struct_of j) (\<lambda>kvs.
     Option.bind (list_field kvs ''collections'') (mapO (\<lambda>c.
       Option.bind (struct_of c) (\<lambda>m.
       Option.bind (text_field m ''name'') (\<lambda>name.
       Option.bind (Option.bind (map_field m ''facts'') decode_discloses) (\<lambda>facts.
         Some (name, facts))))))))"

definition secret_facts :: "string \<Rightarrow> string \<Rightarrow> string list option" where
  "secret_facts document collection =
     (if document = [] then Some []
      else map_option (\<lambda>cols.
        case find (\<lambda>c. fst c = collection) cols of
          None \<Rightarrow> []
        | Some c \<Rightarrow> map fst (filter (\<lambda>p. snd p = ''secret'') (snd c)))
        (secret_columns document))"

section \<open>Lemmas\<close>

text \<open>Two fact maps no declared name can tell apart.\<close>

definition agree :: "string list \<Rightarrow> val gomap \<Rightarrow> val gomap \<Rightarrow> bool" where
  "agree names facts facts' = (\<forall>n \<in> set names. mget facts n = mget facts' n)"

lemma match_agree:
  "check_condition_facts declared raw \<Longrightarrow> agree declared facts facts' \<Longrightarrow>
     match L raw facts = match L raw facts'"
  "check_condition_list declared items \<Longrightarrow> agree declared facts facts' \<Longrightarrow>
     every L items facts b = every L items facts' b"
proof (induction L raw facts and L items facts b arbitrary: facts' and facts' rule: match_every.induct)
  case (1 L raw facts)
  note ck = 1(4) [unfolded check_condition_facts.simps [of declared raw]]
  from ck obtain node where node: "raw_map raw = Some node" by (cases "raw_map raw") auto
  have leaf: "name \<in> set declared \<Longrightarrow> leaf_test L node (mget facts name) = leaf_test L node (mget facts' name)" for name
    using 1(5) by (simp add: agree_def)
  show ?case
  proof (cases "mget node ''all''")
    case (Some nested)
    then obtain items where "list_of nested = Some items" "check_condition_list declared items"
      using ck node by (auto split: option.splits)
    then show ?thesis using 1(3) [OF node Some] 1(5) node Some
      by (simp add: match.simps [of L raw])
  next
    case no_all: None
    show ?thesis
    proof (cases "mget node ''any''")
      case (Some nested)
      then obtain items where "list_of nested = Some items" "check_condition_list declared items"
        using ck node no_all by (auto split: option.splits)
      then show ?thesis using 1(2) [OF node no_all Some] 1(5) node no_all Some
        by (simp add: match.simps [of L raw])
    next
      case no_any: None
      show ?thesis
      proof (cases "mget node ''not''")
        case (Some nested)
        then have "check_condition_facts declared nested" using ck node no_all no_any by simp
        then have "match L nested facts = match L nested facts'"
          using 1(1) [OF node no_all no_any Some] 1(5) by simp
        then show ?thesis using node no_all no_any Some by (simp add: match.simps [of L raw])
      next
        case None
        then show ?thesis
          using ck node no_all no_any leaf
          by (auto simp: match.simps [of L raw] split: option.splits)
      qed
    qed
  qed
next
  case (2 L facts is_all)
  then show ?case by simp
next
  case (3 L item items facts is_all)
  then show ?case by (auto split: option.splits)
qed

lemma match_collected:
  "agree ([] # collect_facts raw) facts facts' \<Longrightarrow> match L raw facts = match L raw facts'"
  "agree ([] # collect_items items) facts facts' \<Longrightarrow> every L items facts b = every L items facts' b"
proof (induction L raw facts and L items facts b arbitrary: facts' and facts' rule: match_every.induct)
  case (1 L raw facts)
  note ag = 1(4) [unfolded collect_facts.simps [of raw]]
  show ?case
  proof (cases "raw_map raw")
    case None
    then show ?thesis by (simp add: match.simps [of L raw])
  next
    case node: (Some node)
    have leaf: "mget node ''fact'' = Some f \<Longrightarrow> text_of f = Some name \<Longrightarrow> mget facts name = mget facts' name" for f name
      using ag node by (cases "name = []") (auto simp: agree_def)
    show ?thesis
    proof (cases "mget node ''all''")
      case (Some nested)
      then have "list_of nested = Some items \<Longrightarrow> every L items facts True = every L items facts' True" for items
        using 1(3) [OF node Some, of items facts'] ag node by (auto simp: agree_def)
      then show ?thesis using node Some by (simp add: match.simps [of L raw] split: option.split)
    next
      case no_all: None
      show ?thesis
      proof (cases "mget node ''any''")
        case (Some nested)
        then have "list_of nested = Some items \<Longrightarrow> every L items facts False = every L items facts' False" for items
          using 1(2) [OF node no_all Some, of items facts'] ag node by (auto simp: agree_def)
        then show ?thesis using node no_all Some by (simp add: match.simps [of L raw] split: option.split)
      next
        case no_any: None
        show ?thesis
        proof (cases "mget node ''not''")
          case (Some nested)
          then have "match L nested facts = match L nested facts'"
            using 1(1) [OF node no_all no_any Some, of facts'] ag node by (auto simp: agree_def)
          then show ?thesis using node no_all no_any Some by (simp add: match.simps [of L raw])
        next
          case None
          then show ?thesis
            using node no_all no_any leaf by (simp add: match.simps [of L raw] split: option.split)
        qed
      qed
    qed
  qed
next
  case (2 L facts is_all)
  then show ?case by simp
next
  case (3 L item items facts is_all)
  from 3(3) have "agree ([] # collect_facts item) facts facts'" "agree ([] # collect_items items) facts facts'"
    by (auto simp: agree_def)
  with 3(1,2) show ?case by (auto split: option.splits)
qed

section \<open>Properties\<close>

text \<open>The facts a named evaluator reads, fixed in its code.\<close>

definition evaluator_reads :: "string \<Rightarrow> string list" where
  "evaluator_reads name =
     (if name \<in> {''slice-stall-unexplained'', ''slice-stall-unexplained-minor''}
      then [''PsiIoFullAvg60'', ''PsiMemoryFullAvg60'', ''StallExplainedBy'', ''StallAttributionUnobservable'',
            ''StallUnexplained'']
      else if name = ''slice-stall-unattributed''
      then [''PsiIoFullAvg60'', ''PsiMemoryFullAvg60'', ''StallExplainedBy'', ''StallAttributionUnobservable'']
      else if name = ''protection-hop-unimplemented''
      then [''UnimplementedHops'', ''Class'', ''IndependentDestinations'']
      else if name \<in> {''protection-no-durable-copy'', ''protection-no-durable-history''}
      then [''UnimplementedHops'', ''Class'', ''Kind'', ''IndependentDestinations'']
      else [])"

lemma slice_agree:
  "agree (evaluator_reads ''slice-stall-unexplained'') facts facts' \<Longrightarrow>
   slice_stall_unexplained facts = slice_stall_unexplained facts'"
  "agree (evaluator_reads ''slice-stall-unexplained-minor'') facts facts' \<Longrightarrow>
   slice_stall_unexplained_minor facts = slice_stall_unexplained_minor facts'"
  "agree (evaluator_reads ''slice-stall-unattributed'') facts facts' \<Longrightarrow>
   slice_stall_unattributed facts = slice_stall_unattributed facts'"
  by (simp_all add: agree_def evaluator_reads_def slice_stall_unexplained_def slice_stall_unexplained_minor_def
      slice_stall_unattributed_def unexplained_stall_def slice_stall_resources_def number_fact_def map_fact_def
      cong del: option.case_cong_weak)

lemma protection_agree:
  "agree (evaluator_reads ''protection-no-durable-copy'') facts facts' \<Longrightarrow>
   protection_no_durable_copy facts = protection_no_durable_copy facts'"
  "agree (evaluator_reads ''protection-no-durable-history'') facts facts' \<Longrightarrow>
   protection_no_durable_history facts = protection_no_durable_history facts'"
  "agree (evaluator_reads ''protection-hop-unimplemented'') facts facts' \<Longrightarrow>
   protection_hop_unimplemented facts = protection_hop_unimplemented facts'"
  by (simp_all add: agree_def evaluator_reads_def protection_no_durable_copy_def protection_no_durable_history_def
      protection_hop_unimplemented_def durable_gap_def strings_fact_def)

lemma evaluate_agree:
  assumes "agree (evaluator_reads name) facts facts'"
  shows "evaluate name facts = evaluate name facts'"
proof (cases "map_of evaluators name")
  case (Some run)
  then have "(name, run) \<in> set evaluators" by (rule map_of_SomeD)
  then have "run facts = run facts'"
    using assms slice_agree protection_agree unfolding evaluators_def list.set insert_iff empty_iff prod.inject by blast
  then show ?thesis using Some by (simp add: evaluate_def)
qed (simp add: evaluate_def)

text \<open>
  Property C18. An accepted rule table judges by the facts its collection declares and, where it
  names evaluators, by the fixed facts those read. If a collection's table is accepted, every
  opinion it yields cites only declared facts, and two sets of facts that agree on every declared
  name and on every fact a named evaluator of the table reads get the same opinions. So no
  undeclared value decides a rule with a condition; the facts of an evaluator need not be declared.
\<close>

theorem accepted_rules_read_declared:
  assumes "declared_document document = Some cols"
    and "find (\<lambda>c. dl_name c = collection) cols = Some c"
    and "rules_for document collection = Some rules"
    and "\<forall>n \<in> set (mkeys (dl_facts c)). mget facts n = mget facts' n"
    and "\<forall>r \<in> set rules. \<forall>n \<in> set (evaluator_reads (ru_evaluator r)). mget facts n = mget facts' n"
  shows "judge_shaped L rules object inst ty facts = judge_shaped L rules object inst ty facts' \<and>
     (\<forall>op \<in> set (judge_shaped L rules object inst ty facts). set (op_cites op) \<subseteq> set (mkeys (dl_facts c)))"
proof -
  have ok: "rules = [] \<or> (\<forall>r \<in> set rules. rule_ok (mkeys (dl_facts c)) r)"
    using assms(1-3) by (auto simp: rules_for_def split: if_splits)
  have "fires L r facts = fires L r facts'" if r: "r \<in> set rules" for r
  proof (cases "ru_evaluator r = []")
    case True
    have "match L cond facts = match L cond facts'" if "ru_when r = Some cond" for cond
    proof (rule match_agree(1))
      show "check_condition_facts (mkeys (dl_facts c)) cond" using ok r that by (auto simp: rule_ok_def)
      show "agree (mkeys (dl_facts c)) facts facts'" using assms(4) by (simp add: agree_def)
    qed
    then show ?thesis using True by (simp add: fires_def split: option.split)
  next
    case False
    have "agree (evaluator_reads (ru_evaluator r)) facts facts'" using assms(5) r by (simp add: agree_def)
    then show ?thesis using False evaluate_agree by (simp add: fires_def)
  qed
  then have "filter (\<lambda>r. judges r ty \<and> fires L r facts) rules = filter (\<lambda>r. judges r ty \<and> fires L r facts') rules"
    by (intro filter_cong) auto
  moreover have "set (op_cites op) \<subseteq> set (mkeys (dl_facts c))"
    if "op \<in> set (judge_shaped L rules object inst ty facts)" for op
    using that ok by (auto simp: judge_shaped_def opinion_of_def rule_ok_def)
  ultimately show ?thesis by (simp add: judge_shaped_def)
qed

definition demo_document :: string where
  \<open>demo_document = ''{"collections":[{"name":"units","facts":{"State":{"kind":"text"}},'' @
     ''"rules":[{"key":"failed","level":"critical","when":{"fact":"State","equals":"failed"},'' @
     ''"cites":["State"]},'' @
     ''{"key":"gap","level":"warn","evaluator":"protection-hop-unimplemented","cites":["State"]}]}]}''\<close>

text \<open>What it declares, and the facts of a failed unit with a hop that is not there.\<close>

definition demo_rules :: "rule list" where
  "demo_rules =
     [\<lparr>ru_key = ''failed'', ru_level = ''critical'', ru_grounds = [],
       ru_when = Some (JObj [(''fact'', JStr ''State''), (''equals'', JStr ''failed'')]),
       ru_evaluator = [], ru_applies = [], ru_sentence = [], ru_cites = [''State'']\<rparr>,
      \<lparr>ru_key = ''gap'', ru_level = ''warn'', ru_grounds = [], ru_when = None,
       ru_evaluator = ''protection-hop-unimplemented'', ru_applies = [], ru_sentence = [], ru_cites = [''State'']\<rparr>]"

definition demo_declared :: declared_collection where
  "demo_declared =
     \<lparr>dl_name = ''units'', dl_question = [], dl_prefix = [],
      dl_facts = [(''State'', JObj [(''kind'', JStr ''text'')])], dl_rules = demo_rules, dl_ceiling = 0\<rparr>"

definition failed_facts :: "val gomap" where
  "failed_facts = [(''State'', VStr ''failed''), (''UnimplementedHops'', VArr [VStr ''tape''])]"

lemma demo_document_declares: "declared_document demo_document = Some [demo_declared]"
  by code_simp

lemma accepted_rules_read_declared_witness:
  "judge_shaped demo_lib demo_rules ''units:a'' None [] (failed_facts @ [(''X'', VBool True)]) =
   judge_shaped demo_lib demo_rules ''units:a'' None [] failed_facts \<and>
   map op_key (judge_shaped demo_lib demo_rules ''units:a'' None [] failed_facts) = [''failed'', ''gap'']"
proof
  have "\<forall>r \<in> set (dl_rules demo_declared). rule_ok (mkeys (dl_facts demo_declared)) r" by code_simp
  then have "rules_for demo_document ''units'' = Some demo_rules"
    by (simp add: rules_for_def demo_document_declares demo_declared_def) (simp add: demo_document_def)
  moreover have "find (\<lambda>c. dl_name c = ''units'') [demo_declared] = Some demo_declared"
    and "\<forall>n \<in> set (mkeys (dl_facts demo_declared)). mget (failed_facts @ [(''X'', VBool True)]) n = mget failed_facts n"
    and "\<forall>r \<in> set demo_rules. \<forall>n \<in> set (evaluator_reads (ru_evaluator r)).
      mget (failed_facts @ [(''X'', VBool True)]) n = mget failed_facts n"
    by code_simp+
  ultimately show "judge_shaped demo_lib demo_rules ''units:a'' None [] (failed_facts @ [(''X'', VBool True)]) =
   judge_shaped demo_lib demo_rules ''units:a'' None [] failed_facts"
    using accepted_rules_read_declared [OF demo_document_declares] by blast
  show "map op_key (judge_shaped demo_lib demo_rules ''units:a'' None [] failed_facts) = [''failed'', ''gap'']"
    by code_simp
qed

text \<open>
  \<open>ConditionFacts\<close> names every fact a condition can depend on: facts that agree
  on them (and on the empty name, which is no fact's) give the condition the same outcome,
  whether it holds, does not hold or cannot be decided.
\<close>

theorem condition_facts_suffice:
  assumes "\<forall>n \<in> set (condition_facts raw). mget facts n = mget facts' n" and "mget facts [] = mget facts' []"
  shows "match L raw facts = match L raw facts'"
  by (rule match_collected(1)) (use assms in \<open>auto simp: agree_def condition_facts_def\<close>)

lemma condition_facts_suffice_witness:
  "match demo_lib (JObj [(''fact'', JStr ''A''), (''present'', JBool True)]) [(''A'', VBool False), (''B'', VNull)] =
   match demo_lib (JObj [(''fact'', JStr ''A''), (''present'', JBool True)]) [(''A'', VBool False)]"
  by (rule condition_facts_suffice) code_simp+

text \<open>
  The three evaluators of a protection target are one verdict: none fires on a
  target with no unimplemented hop, and on any other exactly one does.
\<close>

theorem protection_one_verdict:
  "length (filter (\<lambda>name. evaluate name facts)
     [''protection-no-durable-copy'', ''protection-no-durable-history'', ''protection-hop-unimplemented'']) =
   (if strings_fact facts ''UnimplementedHops'' = [] then 0 else 1)"
  by (auto simp: evaluate_def evaluators_def protection_no_durable_copy_def
      protection_no_durable_history_def protection_hop_unimplemented_def)

text \<open>
  A rule decided by an evaluator is accepted whatever facts the collection declares, so the
  facts it reads need not be declared.
\<close>

lemma evaluator_reads_undeclared:
  "rule_ok [] \<lparr>ru_key = ''k'', ru_level = ''info'', ru_grounds = [], ru_when = None,
     ru_evaluator = ''protection-hop-unimplemented'', ru_applies = [], ru_sentence = [], ru_cites = []\<rparr>"
  by (simp add: rule_ok_def known_evaluator_def evaluators_def)

end
