(* ===== verification/History.thy ===== *)
theory History
  imports Store
begin

text \<open>
  The record of past readings (go/internal/store/record.go): one row per stored reading, under
  a sequence number SQLite never reuses. Moments are texts compared byte by byte, as SQLite
  compares them.
\<close>

section \<open>Definitions\<close>

definition snapshot_format :: nat where
  "snapshot_format = 1"

definition in_series :: "string \<Rightarrow> string \<Rightarrow> nat \<times> snapshot \<Rightarrow> bool" where
  "in_series c s row = (sn_collection (snd row) = c \<and> sn_scope (snd row) = s)"

text \<open>\<open>ORDER BY taken_at, seq\<close> and \<open>ORDER BY seq\<close>.\<close>

definition by_time :: "(nat \<times> snapshot) list \<Rightarrow> (nat \<times> snapshot) list" where
  "by_time rows = sort_key (sn_taken \<circ> snd) (sort_key fst rows)"

definition newest_of :: "string \<Rightarrow> string \<Rightarrow> (nat \<times> snapshot) list \<Rightarrow> (nat \<times> snapshot) option" where
  "newest_of c s rows =
     (let mine = filter (in_series c s) rows in
      if mine = [] then None else Some (last (sort_key fst mine)))"

definition record_snapshot :: "snapshot \<Rightarrow> db \<Rightarrow> bool \<times> db" where
  "record_snapshot sn d =
     (case newest_of (sn_collection sn) (sn_scope sn) (d_snaps d) of
        Some (q, newest) \<Rightarrow>
          if sn_digest newest = sn_digest sn then (False, d)
          else (True, d\<lparr>d_snaps := d_snaps d @ [(d_next_seq d, sn\<lparr>sn_format := snapshot_format\<rparr>)],
                        d_next_seq := Suc (d_next_seq d)\<rparr>)
      | None \<Rightarrow> (True, d\<lparr>d_snaps := d_snaps d @ [(d_next_seq d, sn\<lparr>sn_format := snapshot_format\<rparr>)],
                         d_next_seq := Suc (d_next_seq d)\<rparr>))"

definition snapshot_at_or_before :: "string \<Rightarrow> string \<Rightarrow> string \<Rightarrow> db \<Rightarrow> snapshot option" where
  "snapshot_at_or_before c s moment d =
     (let rows = filter (\<lambda>row. in_series c s row \<and> sn_taken (snd row) \<le> moment) (d_snaps d) in
      if rows = [] then None else Some (snd (last (by_time rows))))"

definition record_begins :: "string \<Rightarrow> string \<Rightarrow> db \<Rightarrow> string" where
  "record_begins c s d =
     (let rows = filter (in_series c s) (d_snaps d) in
      if rows = [] then [] else sn_taken (snd (hd (by_time rows))))"

definition newest_seqs :: "(nat \<times> snapshot) list \<Rightarrow> nat list" where
  "newest_seqs rows =
     map (\<lambda>row. fst (last (sort_key fst (filter (in_series (sn_collection (snd row)) (sn_scope (snd row))) rows)))) rows"

definition prune_snapshots :: "string \<Rightarrow> db \<Rightarrow> nat \<times> db" where
  "prune_snapshots before d =
     (let gone = (\<lambda>row. sn_taken (snd row) < before \<and> fst row \<notin> set (newest_seqs (d_snaps d)))
      in (length (filter gone (d_snaps d)), d\<lparr>d_snaps := filter (\<lambda>row. \<not> gone row) (d_snaps d)\<rparr>))"

section \<open>Lemmas\<close>

definition snaps_ok :: "db \<Rightarrow> bool" where
  "snaps_ok d = (sorted_wrt (<) (map fst (d_snaps d)) \<and> (\<forall>row \<in> set (d_snaps d). fst row < d_next_seq d))"

definition series :: "string \<Rightarrow> string \<Rightarrow> db \<Rightarrow> snapshot list" where
  "series c s d = map snd (filter (in_series c s) (d_snaps d))"

text \<open>No two neighbouring readings of a series are the same reading.\<close>

definition no_repeats :: "snapshot list \<Rightarrow> bool" where
  "no_repeats sns = successively (\<lambda>a b. sn_digest a \<noteq> sn_digest b) sns"

lemma strict_sorted_filter: "sorted_wrt (<) (map f xs) \<Longrightarrow> sorted_wrt (<) (map f (filter P xs))"
  by (induction xs) auto

lemma newest_of_eq:
  assumes "snaps_ok d"
  shows "newest_of c s (d_snaps d) =
    (if filter (in_series c s) (d_snaps d) = [] then None
     else Some (last (filter (in_series c s) (d_snaps d))))"
proof -
  have "sorted (map fst (filter (in_series c s) (d_snaps d)))"
    using assms strict_sorted_filter unfolding snaps_ok_def by (metis strict_sorted_imp_sorted)
  then have "sort_key fst (filter (in_series c s) (d_snaps d)) = filter (in_series c s) (d_snaps d)"
    by (rule sort_key_id_if_sorted)
  then show ?thesis by (simp add: newest_of_def)
qed

lemma newest_of_series:
  "snaps_ok d \<Longrightarrow> map_option snd (newest_of c s (d_snaps d)) =
     (if series c s d = [] then None else Some (last (series c s d)))"
  by (simp add: newest_of_eq series_def last_map)

lemma record_snapshot_ok: "snaps_ok d \<Longrightarrow> snaps_ok (snd (record_snapshot sn d))"
  by (auto simp: record_snapshot_def snaps_ok_def sorted_wrt_append less_Suc_eq split: option.split)

text \<open>
  Property C15. A reading is stored exactly when it differs from the newest one of its series.
  The series of its collection and scope then ends with it, under the current format, and it
  is otherwise left as it was; no other series changes, a host that flips between two states
  has every flip recorded, and no two neighbouring readings are ever the same.
\<close>

theorem record_snapshot_spec:
  assumes "snaps_ok d"
  shows "let c = sn_collection sn; s = sn_scope sn; (stored, d') = record_snapshot sn d in
     (stored \<longleftrightarrow> series c s d = [] \<or> sn_digest (last (series c s d)) \<noteq> sn_digest sn) \<and>
     series c s d' = series c s d @ (if stored then [sn\<lparr>sn_format := snapshot_format\<rparr>] else []) \<and>
     sn_digest (last (series c s d')) = sn_digest sn \<and>
     (\<forall>c' s'. (c', s') \<noteq> (c, s) \<longrightarrow> series c' s' d' = series c' s' d) \<and>
     (\<forall>c' s'. no_repeats (series c' s' d) \<longrightarrow> no_repeats (series c' s' d')) \<and>
     snaps_ok d'"
proof -
  let ?c = "sn_collection sn" and ?s = "sn_scope sn"
  let ?new = "(d_next_seq d, sn\<lparr>sn_format := snapshot_format\<rparr>)"
  let ?d = "d\<lparr>d_snaps := d_snaps d @ [?new], d_next_seq := Suc (d_next_seq d)\<rparr>"
  let ?stored = "series ?c ?s d = [] \<or> sn_digest (last (series ?c ?s d)) \<noteq> sn_digest sn"
  have eq: "record_snapshot sn d = (if ?stored then (True, ?d) else (False, d))"
    using newest_of_series [OF assms, of ?c ?s]
    by (auto simp: record_snapshot_def split: option.splits if_splits)
  have ser: "series c' s' ?d = series c' s' d @ (if c' = ?c \<and> s' = ?s then [snd ?new] else [])" for c' s'
    by (auto simp: series_def in_series_def)
  have rep: "no_repeats (series c' s' d) \<Longrightarrow> ?stored \<Longrightarrow> no_repeats (series c' s' ?d)" for c' s'
    unfolding ser by (auto simp: no_repeats_def successively_append_iff)
  have ok: "snaps_ok (snd (record_snapshot sn d))" using assms by (rule record_snapshot_ok)
  show ?thesis
  proof (cases ?stored)
    case True
    then show ?thesis using ok rep unfolding eq by (auto simp: ser)
  next
    case False
    then show ?thesis using assms unfolding eq by auto
  qed
qed

definition asked :: "string \<Rightarrow> string \<Rightarrow> string \<Rightarrow> db \<Rightarrow> (nat \<times> snapshot) list" where
  "asked c s moment d = filter (\<lambda>row. in_series c s row \<and> sn_taken (snd row) \<le> moment) (d_snaps d)"

definition no_newer :: "nat \<times> snapshot \<Rightarrow> nat \<times> snapshot \<Rightarrow> bool" where
  "no_newer r m = (sn_taken (snd r) < sn_taken (snd m) \<or> sn_taken (snd r) = sn_taken (snd m) \<and> fst r \<le> fst m)"

lemma at_or_before_last:
  assumes "asked c s moment d \<noteq> []"
  obtains m where "snapshot_at_or_before c s moment d = Some (snd m)" and "m \<in> set (asked c s moment d)"
    and "\<forall>r \<in> set (asked c s moment d). no_newer r m"
proof
  let ?m = "last (by_time (asked c s moment d))"
  show "snapshot_at_or_before c s moment d = Some (snd ?m)"
    using assms by (simp add: snapshot_at_or_before_def asked_def)
  show "?m \<in> set (asked c s moment d)"
    using last_sort_two_keys(1) [OF assms hd_in_set [OF assms], of ?m "sn_taken \<circ> snd" fst]
    by (simp add: by_time_def)
  show "\<forall>r \<in> set (asked c s moment d). no_newer r ?m"
    using last_sort_two_keys(2) [OF assms _ refl, of _ "sn_taken \<circ> snd" fst]
    by (simp add: by_time_def no_newer_def)
qed

lemma at_or_before_Some_iff:
  assumes "snaps_ok d"
  shows "snapshot_at_or_before c s moment d = Some sn \<longleftrightarrow>
    (\<exists>m. snd m = sn \<and> m \<in> set (asked c s moment d) \<and> (\<forall>r \<in> set (asked c s moment d). no_newer r m))"
proof (cases "asked c s moment d = []")
  case True
  then show ?thesis by (simp add: snapshot_at_or_before_def asked_def)
next
  case False
  then obtain m where m: "snapshot_at_or_before c s moment d = Some (snd m)" "m \<in> set (asked c s moment d)"
      "\<forall>r \<in> set (asked c s moment d). no_newer r m"
    by (rule at_or_before_last)
  have inj: "inj_on fst (set (d_snaps d))"
    using assms unfolding snaps_ok_def by (metis distinct_map strict_sorted_iff)
  have "m' = m" if "m' \<in> set (asked c s moment d)" and "\<forall>r \<in> set (asked c s moment d). no_newer r m'" for m'
  proof -
    have "no_newer m m'" and "no_newer m' m" using m(2,3) that by blast+
    then have "fst m = fst m'" unfolding no_newer_def by (metis less_asym less_irrefl order_antisym)
    moreover have "m \<in> set (d_snaps d)" and "m' \<in> set (d_snaps d)"
      using m(2) that(1) by (simp_all add: asked_def)
    ultimately show ?thesis using inj_onD [OF inj, of m' m] by simp
  qed
  then show ?thesis using m by (metis option.inject)
qed

text \<open>
  A question about a past moment is answered by the newest reading at or before
  it, or by nothing exactly when the record does not reach that far back: no reading of the
  series is as old, which is when the record has not begun or begins later.
\<close>

theorem snapshot_at_or_before_spec:
  "case snapshot_at_or_before c s moment d of
     None \<Rightarrow> filter (\<lambda>sn. sn_taken sn \<le> moment) (series c s d) = [] \<and>
             (series c s d = [] \<or> moment < record_begins c s d)
   | Some sn \<Rightarrow> record_begins c s d \<le> sn_taken sn \<and> sn_taken sn \<le> moment \<and>
       (\<exists>q. (q, sn) \<in> set (filter (in_series c s) (d_snaps d)) \<and>
          list_all (\<lambda>(q', sn'). moment < sn_taken sn' \<or>
              sn_taken sn' < sn_taken sn \<or> sn_taken sn' = sn_taken sn \<and> q' \<le> q)
            (filter (in_series c s) (d_snaps d)))"
proof -
  let ?mine = "filter (in_series c s) (d_snaps d)"
  let ?rows = "filter (\<lambda>row. in_series c s row \<and> sn_taken (snd row) \<le> moment) (d_snaps d)"
  have begins: "record_begins c s d \<le> sn_taken (snd row)" if "row \<in> set ?mine" for row
  proof -
    have ne: "?mine \<noteq> []" by (rule in_set_ne [OF that])
    have "sn_taken (snd (hd (by_time ?mine))) \<le> sn_taken (snd row)"
      using hd_sort_key_min [of "sort_key fst ?mine" row "sn_taken \<circ> snd"] ne that by (simp add: by_time_def)
    then show ?thesis using ne by (simp add: record_begins_def)
  qed
  show ?thesis
  proof (cases "?rows = []")
    case True
    have late: "moment < sn_taken (snd row)" if "row \<in> set ?mine" for row
      using True that by (auto simp: filter_empty_conv not_le)
    have "moment < record_begins c s d" if ne: "?mine \<noteq> []"
    proof -
      have "hd (by_time ?mine) \<in> set (by_time ?mine)" using ne by (intro hd_in_set) (simp add: by_time_def)
      then have "hd (by_time ?mine) \<in> set ?mine" by (simp add: by_time_def)
      from late [OF this] show ?thesis using ne by (simp add: record_begins_def)
    qed
    then show ?thesis using True late
      by (auto simp: snapshot_at_or_before_def series_def filter_empty_conv not_le)
  next
    case False
    then have "asked c s moment d \<noteq> []" by (simp add: asked_def)
    then obtain m where ans: "snapshot_at_or_before c s moment d = Some (snd m)"
      and "m \<in> set (asked c s moment d)" and "\<forall>r \<in> set (asked c s moment d). no_newer r m"
      by (rule at_or_before_last)
    then have in_rows: "m \<in> set ?rows"
      and best: "r \<in> set ?rows \<Longrightarrow> sn_taken (snd r) < sn_taken (snd m) \<or>
                   sn_taken (snd r) = sn_taken (snd m) \<and> fst r \<le> fst m" for r
      by (simp_all add: asked_def no_newer_def)
    have mine: "m \<in> set ?mine" and le: "sn_taken (snd m) \<le> moment" using in_rows by auto
    have "list_all (\<lambda>(q', sn'). moment < sn_taken sn' \<or>
              sn_taken sn' < sn_taken (snd m) \<or> sn_taken sn' = sn_taken (snd m) \<and> q' \<le> fst m) ?mine"
      (is "list_all ?P ?mine")
      unfolding list_all_iff
    proof
      fix r
      assume "r \<in> set ?mine"
      then show "?P r" using best [of r] by (auto simp: case_prod_unfold not_le)
    qed
    moreover have "(fst m, snd m) \<in> set ?mine" using mine by simp
    ultimately show ?thesis using le begins [OF mine] unfolding ans by (auto intro!: exI [of _ "fst m"])
  qed
qed

text \<open>Pruning.\<close>

lemma newest_seqs_iff:
  assumes "snaps_ok d" and "row \<in> set (d_snaps d)"
  shows "fst row \<in> set (newest_seqs (d_snaps d)) \<longleftrightarrow>
     row = last (filter (in_series (sn_collection (snd row)) (sn_scope (snd row))) (d_snaps d))"
proof -
  let ?f = "\<lambda>r. filter (in_series (sn_collection (snd r)) (sn_scope (snd r))) (d_snaps d)"
  have sorted: "sorted (map fst (?f r))" for r
    using assms(1) strict_sorted_filter unfolding snaps_ok_def by (metis strict_sorted_imp_sorted)
  have eq: "newest_seqs (d_snaps d) = map (\<lambda>r. fst (last (?f r))) (d_snaps d)"
    by (simp add: newest_seqs_def sort_key_id_if_sorted [OF sorted])
  have inj: "inj_on fst (set (d_snaps d))"
    using assms(1) unfolding snaps_ok_def by (metis distinct_map strict_sorted_iff)
  have last_in: "last (?f r) \<in> set (d_snaps d) \<and> in_series (sn_collection (snd r)) (sn_scope (snd r)) (last (?f r))"
    if "r \<in> set (d_snaps d)" for r
  proof -
    have "r \<in> set (?f r)" using that by (simp add: in_series_def)
    then have "?f r \<noteq> []" by (rule in_set_ne)
    from last_in_set [OF this] show ?thesis by simp
  qed
  show ?thesis
  proof
    assume "fst row \<in> set (newest_seqs (d_snaps d))"
    then obtain r where r: "r \<in> set (d_snaps d)" "fst row = fst (last (?f r))" by (auto simp: eq)
    then have "row = last (?f r)" using inj assms(2) last_in [OF r(1)] by (auto dest: inj_onD)
    moreover from this have "?f r = ?f row" using last_in [OF r(1)] by (simp add: in_series_def)
    ultimately show "row = last (?f row)" by simp
  next
    assume "row = last (?f row)"
    then have "fst row = fst (last (?f row))" by simp
    then show "fst row \<in> set (newest_seqs (d_snaps d))" using assms(2) by (auto simp: eq)
  qed
qed


text \<open>
  Property C16. Pruning drops only old readings that are not the newest of their series. Every
  series that had a reading still has its newest one, readings no older than the horizon all
  stay, in order, the count is of the rows dropped, and a question whose answer is no older
  than the horizon has the same answer.
\<close>

theorem prune_snapshots_spec:
  assumes "snaps_ok d"
  shows "let (n, d') = prune_snapshots before d in
     d' = d\<lparr>d_snaps := filter (\<lambda>row. before \<le> sn_taken (snd row) \<or>
        row = last (filter (in_series (sn_collection (snd row)) (sn_scope (snd row))) (d_snaps d))) (d_snaps d)\<rparr> \<and>
     n = length (d_snaps d) - length (d_snaps d') \<and>
     (\<forall>c s. if series c s d = [] then series c s d' = []
            else series c s d' \<noteq> [] \<and> last (series c s d') = last (series c s d)) \<and>
     (\<forall>c s moment sn. snapshot_at_or_before c s moment d = Some sn \<and> before \<le> sn_taken sn \<longrightarrow>
        snapshot_at_or_before c s moment d' = Some sn) \<and>
     snaps_ok d'"
proof -
  let ?keep = "\<lambda>row. before \<le> sn_taken (snd row) \<or>
        row = last (filter (in_series (sn_collection (snd row)) (sn_scope (snd row))) (d_snaps d))"
  let ?d = "d\<lparr>d_snaps := filter ?keep (d_snaps d)\<rparr>"
  have keep: "filter (\<lambda>row. \<not> (sn_taken (snd row) < before \<and> fst row \<notin> set (newest_seqs (d_snaps d)))) (d_snaps d) =
      filter ?keep (d_snaps d)"
    using newest_seqs_iff [OF assms] by (intro filter_cong) (auto simp: not_less)
  have n: "length (filter (\<lambda>row. sn_taken (snd row) < before \<and> fst row \<notin> set (newest_seqs (d_snaps d))) (d_snaps d)) =
      length (d_snaps d) - length (filter ?keep (d_snaps d))"
    using sum_length_filter_compl [of "\<lambda>row. sn_taken (snd row) < before \<and> fst row \<notin> set (newest_seqs (d_snaps d))" "d_snaps d"]
    unfolding keep by linarith
  have prune: "prune_snapshots before d =
      (length (d_snaps d) - length (filter ?keep (d_snaps d)), ?d)"
    unfolding prune_snapshots_def Let_def using keep n by simp
  have mine: "filter (in_series c s) (d_snaps ?d) = filter (\<lambda>row. before \<le> sn_taken (snd row) \<or>
      row = last (filter (in_series c s) (d_snaps d))) (filter (in_series c s) (d_snaps d))" for c s
    by (auto simp: in_series_def intro!: filter_cong)
  have newest: "if series c s d = [] then series c s ?d = []
      else series c s ?d \<noteq> [] \<and> last (series c s ?d) = last (series c s d)" for c s
  proof (cases "filter (in_series c s) (d_snaps d)" rule: rev_cases)
    case Nil
    then show ?thesis using mine [of c s] by (simp add: series_def)
  next
    case (snoc xs x)
    then show ?thesis using mine [of c s] by (simp add: series_def)
  qed
  have ok: "snaps_ok ?d"
    using assms strict_sorted_filter [of fst "d_snaps d" ?keep] by (simp add: snaps_ok_def)
  have same: "snapshot_at_or_before c s moment ?d = Some sn"
    if ans: "snapshot_at_or_before c s moment d = Some sn" and late: "before \<le> sn_taken sn" for c s moment sn
  proof -
    obtain m where m: "snd m = sn" "m \<in> set (asked c s moment d)"
        "\<forall>r \<in> set (asked c s moment d). no_newer r m"
      using ans at_or_before_Some_iff [OF assms] by auto
    have "m \<in> set (asked c s moment ?d)" using m late by (auto simp: asked_def)
    moreover have "set (asked c s moment ?d) \<subseteq> set (asked c s moment d)" by (auto simp: asked_def)
    ultimately show ?thesis using m at_or_before_Some_iff [OF ok] by blast
  qed
  show ?thesis
    unfolding prune using newest same ok by simp
qed

definition demo_snapshot :: "string \<Rightarrow> string \<Rightarrow> snapshot" where
  "demo_snapshot moment digest = \<lparr>sn_collection = ''net'', sn_scope = [], sn_taken = moment,
     sn_generation = 1, sn_digest = digest, sn_objects = ''[]'', sn_format = 1\<rparr>"

definition demo_record :: db where
  "demo_record = fold (\<lambda>sn d. snd (record_snapshot sn d))
     [demo_snapshot ''1'' ''A'', demo_snapshot ''5'' ''B'', demo_snapshot ''9'' ''A''] empty_db"

lemma demo_record_ok: "snaps_ok demo_record"
  by code_simp

lemma record_snapshot_spec_witness:
  "snaps_ok (snd (record_snapshot (demo_snapshot ''9'' ''B'') demo_record))"
  using record_snapshot_spec [OF demo_record_ok, of "demo_snapshot ''9'' ''B''"]
  by (cases "record_snapshot (demo_snapshot ''9'' ''B'') demo_record") (simp add: Let_def)

lemma prune_snapshots_spec_witness: "snaps_ok (snd (prune_snapshots ''6'' demo_record))"
  using prune_snapshots_spec [OF demo_record_ok, of "''6''"]
  by (cases "prune_snapshots ''6'' demo_record") (simp add: Let_def)

text \<open>
  The reading in force at the horizon is not kept: pruning at moment 6 drops the reading of
  moment 5, which was the baseline of every question about moments 6 to 8.
\<close>

lemma prune_drops_the_baseline:
  "map_option sn_taken (snapshot_at_or_before ''net'' [] ''7'' demo_record) = Some ''5''"
  "snapshot_at_or_before ''net'' [] ''7'' (snd (prune_snapshots ''6'' demo_record)) = None"
  by code_simp+

end
