(* ===== verification/Changes.thy ===== *)
theory Changes
  imports Opinions History
begin

text \<open>
  What changed (go/internal/collate/changes.go): the measures a diff must not read, an object
  stripped to what the record compares, the comparison of two readings, the stored reading of
  a collection and the question about a past moment. Go visits the two maps of a comparison
  in an unspecified order and sorts what it finds; here they are visited in key order.
\<close>

section \<open>Definitions\<close>

definition temperament_of :: "json \<Rightarrow> string option" where
  "temperament_of raw = Option.bind (struct_of raw) (\<lambda>kvs. text_field kvs ''temperament'')"

definition is_measure :: "json \<Rightarrow> bool" where
  "is_measure raw = (temperament_of raw \<in> {Some ''counter'', Some ''gauge''})"

text \<open>\<open>None\<close> is a declaration that is not known.\<close>

definition measure_facts :: "string \<Rightarrow> string \<Rightarrow> string list option" where
  "measure_facts document collection =
     Option.bind (declared_document document) (\<lambda>cols.
       map_option (\<lambda>c. map fst (filter (\<lambda>p. is_measure (snd p)) (dl_facts c)))
         (find (\<lambda>c. dl_name c = collection) cols))"

record diffable_object =
  df_id :: string
  df_scope :: string
  df_name :: string
  df_type :: string
  df_facts :: "val gomap"
  df_absent :: "string list"

definition nul :: string where
  "nul = [CHR 0x00]"

definition df_key :: "diffable_object \<Rightarrow> string" where
  "df_key x = df_scope x @ nul @ df_id x"

definition diffable_of :: "string list \<Rightarrow> obj_row \<Rightarrow> diffable_object option" where
  "diffable_of msr r =
     map_option (\<lambda>facts. \<lparr>df_id = o_id r, df_scope = o_scope r, df_name = o_name r, df_type = o_type r,
         df_facts = filter (\<lambda>p. fst p \<notin> set msr) facts, df_absent = sort (o_absent r)\<rparr>)
       (val_map (o_facts r))"

definition diffable :: "obj_row list \<Rightarrow> string list \<Rightarrow> diffable_object list option" where
  "diffable rows msr = map_option (sort_key df_key) (mapO (diffable_of msr) rows)"

definition omit_empty :: "string \<Rightarrow> string \<Rightarrow> (string \<times> json) list" where
  "omit_empty name s = (if s = [] then [] else [(name, JStr s)])"

definition diffable_json :: "lib \<Rightarrow> diffable_object \<Rightarrow> json" where
  "diffable_json L x =
     JObj ([(''id'', JStr (df_id x))] @ omit_empty ''scope'' (df_scope x) @ [(''name'', JStr (df_name x))] @
       omit_empty ''type'' (df_type x) @
       [(''facts'', JObj (map (\<lambda>(k, v). (k, val_json (fmt_float L) v)) (df_facts x)))] @
       (if df_absent x = [] then [] else [(''absent'', JArr (map JStr (df_absent x)))]))"

definition encode_reading :: "lib \<Rightarrow> diffable_object list \<Rightarrow> string" where
  "encode_reading L xs = json_enc (JArr (map (diffable_json L) xs))"

definition decode_diffable :: "json \<Rightarrow> diffable_object option" where
  "decode_diffable j =
     Option.bind (struct_of j) (\<lambda>kvs.
     Option.bind (text_field kvs ''id'') (\<lambda>oid.
     Option.bind (text_field kvs ''scope'') (\<lambda>scope.
     Option.bind (text_field kvs ''name'') (\<lambda>name.
     Option.bind (text_field kvs ''type'') (\<lambda>ty.
     Option.bind (case struct_get kvs ''facts'' of None \<Rightarrow> Some [] | Some f \<Rightarrow> val_map f) (\<lambda>facts.
     Option.bind (texts_field kvs ''absent'') (\<lambda>absent.
       Some \<lparr>df_id = oid, df_scope = scope, df_name = name, df_type = ty, df_facts = facts,
             df_absent = absent\<rparr>)))))))"

definition decode_reading :: "string \<Rightarrow> diffable_object list option" where
  "decode_reading raw = Option.bind (json_unmarshal raw) (\<lambda>j. Option.bind (list_of j) (mapO decode_diffable))"

definition same_value :: "lib \<Rightarrow> val \<Rightarrow> val \<Rightarrow> bool" where
  "same_value L a b = (val_text (fmt_float L) a = val_text (fmt_float L) b)"

definition fact_differs :: "lib \<Rightarrow> diffable_object \<Rightarrow> diffable_object \<Rightarrow> string \<Rightarrow> bool" where
  "fact_differs L was now name =
     (case (mget (df_facts was) name, mget (df_facts now) name) of
        (None, None) \<Rightarrow> False
      | (Some a, Some b) \<Rightarrow> \<not> same_value L a b
      | _ \<Rightarrow> True)"

definition changed_paths :: "lib \<Rightarrow> diffable_object \<Rightarrow> diffable_object \<Rightarrow> string list" where
  "changed_paths L was now =
     sort ((if df_name was \<noteq> df_name now then [''name''] else []) @
       (if df_type was \<noteq> df_type now then [''type''] else []) @
       (if join_with nul (df_absent was) \<noteq> join_with nul (df_absent now) then [''absent''] else []) @
       map (\<lambda>n. ''facts.'' @ n)
         (filter (fact_differs L was now) (remdups (mkeys (df_facts was) @ mkeys (df_facts now)))))"

record object_ref =
  or_id :: string
  or_scope :: string

record changed_object =
  cg_id :: string
  cg_scope :: string
  cg_paths :: "string list"

record record_gap =
  gp_asked :: string
  gp_begins :: string
  gp_reason :: string

record collection_changes =
  cc_collection :: string
  cc_added :: "object_ref list"
  cc_removed :: "object_ref list"
  cc_changed :: "changed_object list"
  cc_since :: string
  cc_gap :: "record_gap option"

definition ref_of :: "diffable_object \<Rightarrow> object_ref" where
  "ref_of x = \<lparr>or_id = df_id x, or_scope = df_scope x\<rparr>"

definition by_key :: "diffable_object list \<Rightarrow> diffable_object gomap" where
  "by_key xs = mof (map (\<lambda>x. (df_key x, x)) xs)"

definition no_changes :: "string \<Rightarrow> string \<Rightarrow> collection_changes" where
  "no_changes collection since =
     \<lparr>cc_collection = collection, cc_added = [], cc_removed = [], cc_changed = [], cc_since = since, cc_gap = None\<rparr>"

definition changed_of :: "lib \<Rightarrow> diffable_object gomap \<Rightarrow> string \<times> diffable_object \<Rightarrow> changed_object option" where
  "changed_of L after p =
     (case mget after (fst p) of
        None \<Rightarrow> None
      | Some now \<Rightarrow>
          (let paths = changed_paths L (snd p) now in
           if paths = [] then None
           else Some \<lparr>cg_id = df_id (snd p), cg_scope = df_scope (snd p), cg_paths = paths\<rparr>))"

definition compare_readings :: "lib \<Rightarrow> diffable_object list \<Rightarrow> diffable_object list \<Rightarrow> collection_changes" where
  "compare_readings L before after =
     (let b = by_key before; a = by_key after in
      (no_changes [] [])
        \<lparr>cc_added := map (ref_of \<circ> snd) (filter (\<lambda>p. mget b (fst p) = None) a),
         cc_removed := map (ref_of \<circ> snd) (filter (\<lambda>p. mget a (fst p) = None) b),
         cc_changed := sort_key cg_id (List.map_filter (changed_of L a) b)\<rparr>)"

definition gap_answer :: "string \<Rightarrow> string \<Rightarrow> string \<Rightarrow> string \<Rightarrow> collection_changes" where
  "gap_answer collection since begins reason =
     (no_changes collection since)\<lparr>cc_gap := Some \<lparr>gp_asked = since, gp_begins = begins, gp_reason = reason\<rparr>\<rparr>"

text \<open>\<open>None\<close> is an error: a baseline or a live fact dictionary that does not decode.\<close>

definition changes_since :: "lib \<Rightarrow> string \<Rightarrow> string \<Rightarrow> string \<Rightarrow> db \<Rightarrow> collection_changes option" where
  "changes_since L collection scope since d =
     (case measure_facts (declaration_for collection d) collection of
        None \<Rightarrow> Some (gap_answer collection since [] ''undeclared'')
      | Some msr \<Rightarrow>
     (let begins = record_begins collection scope d in
      case snapshot_at_or_before collection scope since d of
        None \<Rightarrow> Some (gap_answer collection since begins
                       (if begins = [] then ''no-record'' else ''before-record''))
      | Some baseline \<Rightarrow>
          if sn_format baseline \<noteq> snapshot_format
          then Some (gap_answer collection since begins ''format-changed'')
          else
            Option.bind (decode_reading (sn_objects baseline)) (\<lambda>before.
            Option.bind (diffable (objects_in_scope collection scope d) msr) (\<lambda>after.
              Some ((compare_readings L before after)
                \<lparr>cc_collection := collection, cc_since := sn_taken baseline\<rparr>)))))"

definition digest_of :: "lib \<Rightarrow> string \<Rightarrow> string" where
  "digest_of L encoded = ''sha256:'' @ sha256 L encoded"

text \<open>The outer \<open>None\<close> is an error, the inner one a collection whose declaration is not held.\<close>

definition snapshot_for ::
  "lib \<Rightarrow> string \<Rightarrow> string \<Rightarrow> string \<Rightarrow> nat \<Rightarrow> db \<Rightarrow> snapshot option option"
where
  "snapshot_for L collection scope taken gen d =
     (case measure_facts (declaration_for collection d) collection of
        None \<Rightarrow> Some None
      | Some msr \<Rightarrow>
          map_option (\<lambda>xs. Some
            \<lparr>sn_collection = collection, sn_scope = scope, sn_taken = taken, sn_generation = gen,
             sn_digest = digest_of L (encode_reading L xs), sn_objects = encode_reading L xs,
             sn_format = 0\<rparr>)
            (diffable (objects_in_scope collection scope d) msr))"

section \<open>Lemmas\<close>

lemma by_key_get: "distinct (map df_key xs) \<Longrightarrow> x \<in> set xs \<Longrightarrow> mget (by_key xs) (df_key x) = Some x"
proof -
  assume d: "distinct (map df_key xs)" and x: "x \<in> set xs"
  have "distinct (map fst (map (\<lambda>x. (df_key x, x)) xs))" using d by (simp add: comp_def)
  then have "map_of (rev (map (\<lambda>x. (df_key x, x)) xs)) = map_of (map (\<lambda>x. (df_key x, x)) xs)"
    by (rule distinct_map_of_rev)
  moreover have "map_of (map (\<lambda>x. (df_key x, x)) xs) (df_key x) = Some x"
    using d x by (intro map_of_is_SomeI) (auto simp: comp_def)
  ultimately show ?thesis by (simp add: by_key_def mget_mof)
qed

lemma by_key_key: "mget (by_key xs) k = Some x \<Longrightarrow> k = df_key x \<and> x \<in> set xs"
  by (auto simp: by_key_def mget_mof dest: map_of_SomeD)

lemma by_key_none: "mget (by_key xs) k = None \<longleftrightarrow> k \<notin> df_key ` set xs"
  by (auto simp: by_key_def mget_mof map_of_eq_None_iff image_iff)

lemma by_key_mok: "mok (by_key xs)"
  by (simp add: by_key_def)

lemma changed_paths_Nil:
  "changed_paths L was now = [] \<longleftrightarrow>
     df_name was = df_name now \<and> df_type was = df_type now \<and>
     join_with nul (df_absent was) = join_with nul (df_absent now) \<and>
     (\<forall>n. map_option (val_text (fmt_float L)) (mget (df_facts was) n) =
          map_option (val_text (fmt_float L)) (mget (df_facts now) n))"
proof -
  have keys: "fact_differs L was now n \<Longrightarrow> n \<in> set (mkeys (df_facts was)) \<union> set (mkeys (df_facts now))" for n
    unfolding Un_iff mget_in_keys by (auto simp: fact_differs_def split: option.splits)
  have "filter (fact_differs L was now) (remdups (mkeys (df_facts was) @ mkeys (df_facts now))) = [] \<longleftrightarrow>
      (\<forall>n. \<not> fact_differs L was now n)"
    unfolding filter_empty_conv set_remdups set_append using keys by blast
  moreover have "\<not> fact_differs L was now n \<longleftrightarrow>
      map_option (val_text (fmt_float L)) (mget (df_facts was) n) =
      map_option (val_text (fmt_float L)) (mget (df_facts now) n)" for n
    by (auto simp: fact_differs_def same_value_def split: option.split)
  ultimately show ?thesis by (simp add: changed_paths_def del: remdups.simps set_remdups)
qed

lemma mapO_cong2: "list_all2 (\<lambda>x y. f x = g y) xs ys \<Longrightarrow> mapO f xs = mapO g ys"
  by (induction rule: list_all2_induct) (auto split: option.split)

lemma val_map_mok: "val_map j = Some m \<Longrightarrow> mok m"
  by (cases j) (auto simp: val_map_def Let_def split: val.splits option.splits if_splits)

lemma mget_filter_key: "mget (filter (\<lambda>p. P (fst p)) m) k = (if P k then mget m k else None)"
  by (induction m) auto

text \<open>Two rows a diff may not tell apart: they differ in measured facts at most.\<close>

definition same_but :: "string list \<Rightarrow> obj_row \<Rightarrow> obj_row \<Rightarrow> bool" where
  "same_but msr r r' =
     (o_id r = o_id r' \<and> o_scope r = o_scope r' \<and> o_name r = o_name r' \<and> o_type r = o_type r' \<and>
      sort (o_absent r) = sort (o_absent r') \<and>
      (case (val_map (o_facts r), val_map (o_facts r')) of
         (Some f, Some f') \<Rightarrow> (\<forall>n. n \<in> set msr \<or> mget f n = mget f' n)
       | _ \<Rightarrow> False))"

lemma same_but_diffable: "same_but msr r r' \<Longrightarrow> diffable_of msr r = diffable_of msr r'"
proof -
  assume s: "same_but msr r r'"
  then obtain f f' where f: "val_map (o_facts r) = Some f" "val_map (o_facts r') = Some f'"
    and n: "\<forall>n. n \<in> set msr \<or> mget f n = mget f' n"
    by (auto simp: same_but_def split: option.splits)
  have "filter (\<lambda>p. fst p \<notin> set msr) f = filter (\<lambda>p. fst p \<notin> set msr) f'"
    using f n by (intro mok_ext) (auto simp: mok_filter val_map_mok mget_filter_key [of "\<lambda>n. n \<notin> set msr"])
  then show ?thesis using s f by (auto simp: diffable_of_def same_but_def)
qed

lemma diffable_same_but: "list_all2 (same_but msr) rows rows' \<Longrightarrow> diffable rows msr = diffable rows' msr"
proof -
  assume "list_all2 (same_but msr) rows rows'"
  then have "list_all2 (\<lambda>r r'. diffable_of msr r = diffable_of msr r') rows rows'"
    by (rule list_all2_mono) (rule same_but_diffable)
  from mapO_cong2 [OF this] show ?thesis by (simp add: diffable_def)
qed

lemma by_key_set: "distinct (map df_key xs) \<Longrightarrow> set (by_key xs) = (\<lambda>x. (df_key x, x)) ` set xs"
proof -
  assume d: "distinct (map df_key xs)"
  have "p \<in> set (by_key xs) \<longleftrightarrow> mget (by_key xs) (fst p) = Some (snd p)" for p
    using mok_distinct [OF by_key_mok, of xs] by (simp add: map_of_eq_Some_iff)
  moreover have "mget (by_key xs) (fst p) = Some (snd p) \<longleftrightarrow> p \<in> (\<lambda>x. (df_key x, x)) ` set xs" for p
    using by_key_get [OF d, of "snd p"] by_key_key [of xs "fst p" "snd p"] by (cases p) auto
  ultimately show ?thesis by blast
qed

lemma by_key_filter:
  assumes "distinct (map df_key xs)"
  shows "set (map (ref_of \<circ> snd) (filter (\<lambda>p. Q (fst p)) (by_key xs))) = ref_of ` {x \<in> set xs. Q (df_key x)}"
proof -
  have "set (filter (\<lambda>p. Q (fst p)) (by_key xs)) = (\<lambda>x. (df_key x, x)) ` {x \<in> set xs. Q (df_key x)}"
    using by_key_set [OF assms] by auto
  then show ?thesis by (simp add: image_image comp_def del: set_filter)
qed

text \<open>
  Comparing two readings reports every difference once and nothing else. The
  objects added are those whose scope and id only the later reading has, the objects removed
  those only the earlier one has, and an object in both is reported exactly when its name,
  type, absences or some fact's value or presence differ, with the paths that do; a reading
  compared with itself reports nothing.
\<close>

theorem compare_readings_spec:
  assumes "distinct (map df_key before)" and "distinct (map df_key after)"
  shows "let ch = compare_readings L before after in
     set (cc_added ch) = ref_of ` {x \<in> set after. df_key x \<notin> df_key ` set before} \<and>
     set (cc_removed ch) = ref_of ` {x \<in> set before. df_key x \<notin> df_key ` set after} \<and>
     set (cc_changed ch) = {\<lparr>cg_id = df_id x, cg_scope = df_scope x, cg_paths = changed_paths L x y\<rparr> | x y.
        x \<in> set before \<and> y \<in> set after \<and> df_key x = df_key y \<and>
        \<not> (df_name x = df_name y \<and> df_type x = df_type y \<and>
           join_with nul (df_absent x) = join_with nul (df_absent y) \<and>
           (\<forall>n. map_option (val_text (fmt_float L)) (mget (df_facts x) n) =
                map_option (val_text (fmt_float L)) (mget (df_facts y) n)))} \<and>
     (before = after \<longrightarrow> cc_added ch = [] \<and> cc_removed ch = [] \<and> cc_changed ch = [])"
proof -
  let ?ch = "compare_readings L before after"
  note sets = by_key_set [OF assms(1)] by_key_set [OF assms(2)]
  have added: "set (cc_added ?ch) = ref_of ` {x \<in> set after. df_key x \<notin> df_key ` set before}"
    using by_key_filter [OF assms(2), of "\<lambda>k. mget (by_key before) k = None"]
    by (simp add: compare_readings_def no_changes_def Let_def by_key_none del: set_map set_filter)
  have removed: "set (cc_removed ?ch) = ref_of ` {x \<in> set before. df_key x \<notin> df_key ` set after}"
    using by_key_filter [OF assms(1), of "\<lambda>k. mget (by_key after) k = None"]
    by (simp add: compare_readings_def no_changes_def Let_def by_key_none del: set_map set_filter)
  have one: "changed_of L (by_key after) (df_key x, x) = Some c \<longleftrightarrow>
      (\<exists>y. y \<in> set after \<and> df_key x = df_key y \<and> changed_paths L x y \<noteq> [] \<and>
           c = \<lparr>cg_id = df_id x, cg_scope = df_scope x, cg_paths = changed_paths L x y\<rparr>)" for x c
  proof (cases "mget (by_key after) (df_key x)")
    case None
    then have "df_key x \<notin> df_key ` set after" by (simp add: by_key_none)
    then show ?thesis using None by (auto simp: changed_of_def)
  next
    case (Some y)
    then have "y \<in> set after" "df_key x = df_key y" by (auto dest: by_key_key)
    moreover have "y' = y" if "y' \<in> set after" "df_key x = df_key y'" for y'
      using by_key_get [OF assms(2) that(1)] that(2) Some by simp
    ultimately show ?thesis using Some by (auto simp: changed_of_def Let_def)
  qed
  have changed: "set (cc_changed ?ch) = {c. \<exists>x \<in> set before. changed_of L (by_key after) (df_key x, x) = Some c}"
    by (auto simp: compare_readings_def no_changes_def Let_def in_map_filter sets)
  have self: "cc_added ?ch = [] \<and> cc_removed ?ch = [] \<and> cc_changed ?ch = []" if "before = after"
  proof -
    have "set (cc_changed ?ch) = {}"
      using that assms one unfolding changed
      by (auto simp: changed_paths_Nil dest!: inj_onD [of df_key "set after"] simp: distinct_map)
    moreover have "set (cc_added ?ch) = {}" and "set (cc_removed ?ch) = {}"
      using that added removed by auto
    ultimately show ?thesis by simp
  qed
  show ?thesis
    unfolding Let_def using added removed self
    by (auto simp: changed one changed_paths_Nil)
qed

definition demo_diffable :: "string \<Rightarrow> val \<Rightarrow> diffable_object" where
  "demo_diffable oid v = \<lparr>df_id = oid, df_scope = [], df_name = oid, df_type = [],
     df_facts = [(''State'', v)], df_absent = []\<rparr>"

lemma compare_readings_spec_witness:
  "set (cc_added (compare_readings demo_lib [demo_diffable ''a'' (VBool True)] [demo_diffable ''b'' (VBool True)])) =
   {\<lparr>or_id = ''b'', or_scope = []\<rparr>}"
proof -
  have "distinct (map df_key [demo_diffable ''a'' (VBool True)])"
    and "distinct (map df_key [demo_diffable ''b'' (VBool True)])" by simp_all
  from compare_readings_spec [OF this, of demo_lib] show ?thesis
    by (auto simp: Let_def demo_diffable_def df_key_def nul_def ref_of_def)
qed

text \<open>
  A measure never makes a change. If a collection's reading has just been stored
  and its live objects then come to differ in counter and gauge facts only, the new reading
  has the digest of the stored one: nothing is written and the record does not move.
\<close>

theorem measures_make_no_change:
  assumes "snaps_ok d"
    and "measure_facts (declaration_for c d) c = Some msr"
    and "snapshot_for L c s taken gen d = Some (Some sn)"
    and "record_snapshot sn d = (b, d1)"
    and "d_snaps d2 = d_snaps d1" and "d_next_seq d2 = d_next_seq d1"
    and "measure_facts (declaration_for c d2) c = Some msr"
    and "list_all2 (same_but msr) (objects_in_scope c s d) (objects_in_scope c s d2)"
  shows "\<exists>sn'. snapshot_for L c s taken' gen' d2 = Some (Some sn') \<and> sn_digest sn' = sn_digest sn \<and>
     record_snapshot sn' d2 = (False, d2)"
proof -
  obtain xs where xs: "diffable (objects_in_scope c s d) msr = Some xs"
    and sn: "sn_collection sn = c" "sn_scope sn = s" "sn_digest sn = digest_of L (encode_reading L xs)"
    using assms(2,3) by (auto simp: snapshot_for_def)
  obtain sn' where sn': "snapshot_for L c s taken' gen' d2 = Some (Some sn')" "sn_digest sn' = sn_digest sn"
      "sn_collection sn' = c" "sn_scope sn' = s"
    using assms(7) xs sn diffable_same_but [OF assms(8)] by (simp add: snapshot_for_def)
  have ok1: "snaps_ok d1" using record_snapshot_ok [OF assms(1), of sn] assms(4) by simp
  then have ok2: "snaps_ok d2" using assms(5,6) by (simp add: snaps_ok_def)
  obtain r where "newest_of c s (d_snaps d1) = Some r" "sn_digest (snd r) = sn_digest sn"
  proof -
    have "newest_of c s (d_snaps d1) \<noteq> None \<and> sn_digest (snd (the (newest_of c s (d_snaps d1)))) = sn_digest sn"
      using assms(4) sn newest_of_eq [OF ok1, of c s]
      by (auto simp: record_snapshot_def in_series_def split: option.splits if_splits)
    then show thesis using that by auto
  qed
  then have "record_snapshot sn' d2 = (False, d2)"
    using sn' assms(5) by (cases r) (simp add: record_snapshot_def)
  then show ?thesis using sn' by blast
qed

definition counter_document :: string where
  \<open>counter_document = ''{"collections":[{"name":"net","facts":{"Bytes":{"temperament":"counter"},"Up":{}}}]}''\<close>

definition counter_object :: "string \<Rightarrow> sobject" where
  "counter_object n = \<lparr>so_id = mint_id ''net'' ''eth0'', so_name = ''eth0'', so_type = [],
     so_facts = JObj [(''Bytes'', JNum n), (''Up'', JBool True)], so_names = None, so_absent = [], so_at = Fin 1\<rparr>"

definition counter_db :: db where
  "counter_db =
     snd (apply_commit_with demo_lib ''t'' ''net'' [] 1 ''b1'' ''boot'' [counter_object ''1''] []
       (snd (issue_generations [''net'', ''net''] ''decl''
         (record_declaration ''decl'' counter_document empty_db))))"

definition counter_snapshot :: snapshot where
  "counter_snapshot = the (the (snapshot_for demo_lib ''net'' [] ''t1'' 1 counter_db))"

definition counter_db2 :: db where
  "counter_db2 =
     snd (apply_commit_with demo_lib ''t'' ''net'' [] 2 ''b2'' ''boot'' [counter_object ''2''] []
       (snd (record_snapshot counter_snapshot counter_db)))"

lemma measures_make_no_change_witness:
  "\<exists>sn'. snapshot_for demo_lib ''net'' [] ''t2'' 2 counter_db2 = Some (Some sn') \<and>
     record_snapshot sn' counter_db2 = (False, counter_db2)"
proof -
  let ?d1 = "snd (record_snapshot counter_snapshot counter_db)"
  have "snaps_ok counter_db"
    and "measure_facts (declaration_for ''net'' counter_db) ''net'' = Some [''Bytes'']"
    and "snapshot_for demo_lib ''net'' [] ''t1'' 1 counter_db = Some (Some counter_snapshot)"
    and "record_snapshot counter_snapshot counter_db = (True, ?d1)"
    and "d_snaps counter_db2 = d_snaps ?d1" and "d_next_seq counter_db2 = d_next_seq ?d1"
    and "measure_facts (declaration_for ''net'' counter_db2) ''net'' = Some [''Bytes'']"
    by code_simp+
  moreover have "list_all2 (same_but [''Bytes'']) (objects_in_scope ''net'' [] counter_db)
      (objects_in_scope ''net'' [] counter_db2)"
  proof -
    have "objects_in_scope ''net'' [] counter_db = [obj_row_of ''net'' [] 0 (counter_object ''1'')]"
      and "objects_in_scope ''net'' [] counter_db2 = [obj_row_of ''net'' [] 0 (counter_object ''2'')]"
      by code_simp+
    moreover have "val_map (so_facts (counter_object ''1'')) = Some [(''Bytes'', VNum (Fin 1)), (''Up'', VBool True)]"
      and "val_map (so_facts (counter_object ''2'')) = Some [(''Bytes'', VNum (Fin 2)), (''Up'', VBool True)]"
      by code_simp+
    ultimately show ?thesis
      by (simp add: same_but_def obj_row_of_def) (simp add: counter_object_def)
  qed
  ultimately show ?thesis
    using measures_make_no_change [of counter_db "''net''" "[''Bytes'']" demo_lib "[]" "''t1''" 1
        counter_snapshot True ?d1 counter_db2 "''t2''" 2] by blast
qed

section \<open>A question about the past\<close>

text \<open>
  What the answer is told by: the newest reading at or before the moment, the object that stands
  for a key in a reading (the last with it), the live object a diff compares, and the paths at
  which two objects differ.
\<close>

definition newest_reading :: "string \<Rightarrow> string \<Rightarrow> string \<Rightarrow> db \<Rightarrow> nat \<Rightarrow> snapshot \<Rightarrow> bool" where
  "newest_reading c s since d q sn =
     ((q, sn) \<in> set (d_snaps d) \<and> sn_collection sn = c \<and> sn_scope sn = s \<and> sn_taken sn \<le> since \<and>
      list_all (\<lambda>(q', sn'). sn_collection sn' = c \<and> sn_scope sn' = s \<and> sn_taken sn' \<le> since \<longrightarrow>
         sn_taken sn' < sn_taken sn \<or> sn_taken sn' = sn_taken sn \<and> q' \<le> q) (d_snaps d))"

definition stands_for :: "diffable_object list \<Rightarrow> string \<Rightarrow> diffable_object option" where
  "stands_for xs k = find (\<lambda>x. df_key x = k) (rev xs)"

definition live_as :: "string list \<Rightarrow> obj_row \<Rightarrow> diffable_object \<Rightarrow> bool" where
  "live_as msr r y =
     (df_id y = o_id r \<and> df_scope y = o_scope r \<and> df_name y = o_name r \<and> df_type y = o_type r \<and>
      df_absent y = sort (o_absent r) \<and>
      (case val_map (o_facts r) of
         None \<Rightarrow> False
       | Some f \<Rightarrow> list_all (\<lambda>n. mget (df_facts y) n = (if n \<in> set msr then None else mget f n))
                     (mkeys f @ mkeys (df_facts y))))"

definition differs_at :: "lib \<Rightarrow> diffable_object \<Rightarrow> diffable_object \<Rightarrow> string \<Rightarrow> bool" where
  "differs_at L x y path =
     (path = ''name'' \<and> df_name x \<noteq> df_name y \<or>
      path = ''type'' \<and> df_type x \<noteq> df_type y \<or>
      path = ''absent'' \<and> join_with nul (df_absent x) \<noteq> join_with nul (df_absent y) \<or>
      take 6 path = ''facts.'' \<and>
        map_option (val_text (fmt_float L)) (mget (df_facts x) (drop 6 path)) \<noteq>
        map_option (val_text (fmt_float L)) (mget (df_facts y) (drop 6 path)))"

lemma by_key_stands: "mget (by_key xs) k = stands_for xs k"
proof -
  have "map_of (map (\<lambda>x. (df_key x, x)) ys) k = find (\<lambda>x. df_key x = k) ys" for ys
    by (induction ys) auto
  from this [of "rev xs"] show ?thesis by (simp add: by_key_def mget_mof stands_for_def rev_map)
qed

lemma in_by_key: "p \<in> set (by_key xs) \<longleftrightarrow> stands_for xs (fst p) = Some (snd p)"
  using mok_distinct [OF by_key_mok, of xs] by (cases p) (simp flip: by_key_stands add: map_of_eq_Some_iff)

lemma stands_key: "stands_for xs k = Some x \<Longrightarrow> df_key x = k"
  by (auto simp: stands_for_def find_Some_iff)

lemma changed_paths_differ: "path \<in> set (changed_paths L x y) \<longleftrightarrow> differs_at L x y path"
proof -
  have d: "fact_differs L x y n \<longleftrightarrow>
      map_option (val_text (fmt_float L)) (mget (df_facts x) n) \<noteq>
      map_option (val_text (fmt_float L)) (mget (df_facts y) n)" for n
    by (auto simp: fact_differs_def same_value_def split: option.split)
  have keys: "fact_differs L x y n \<Longrightarrow> n \<in> set (mkeys (df_facts x)) \<union> set (mkeys (df_facts y))" for n
    unfolding Un_iff mget_in_keys by (auto simp: fact_differs_def split: option.splits)
  have "path \<in> (\<lambda>n. ''facts.'' @ n) ` {n. fact_differs L x y n} \<longleftrightarrow>
      take 6 path = ''facts.'' \<and> fact_differs L x y (drop 6 path)"
  proof
    assume "take 6 path = ''facts.'' \<and> fact_differs L x y (drop 6 path)"
    then show "path \<in> (\<lambda>n. ''facts.'' @ n) ` {n. fact_differs L x y n}"
      by (intro image_eqI [of _ _ "drop 6 path"]) (metis append_take_drop_id, simp)
  qed auto
  moreover have "set (filter (fact_differs L x y) (remdups (mkeys (df_facts x) @ mkeys (df_facts y)))) =
      {n. fact_differs L x y n}"
    using keys by auto
  ultimately show ?thesis
    by (auto simp: changed_paths_def differs_at_def d simp del: set_filter set_remdups)
qed

lemma diffable_live:
  assumes "diffable rows msr = Some after"
  shows "\<exists>ys. list_all2 (live_as msr) rows ys \<and> mset ys = mset after"
proof -
  obtain ys where ys: "mapO (diffable_of msr) rows = Some ys" and after: "after = sort_key df_key ys"
    using assms by (auto simp: diffable_def)
  have "list_all2 (live_as msr) rows ys"
    using ys
  proof (induction rows arbitrary: ys)
    case (Cons r rows)
    then obtain y ys' where y: "diffable_of msr r = Some y" "mapO (diffable_of msr) rows = Some ys'" "ys = y # ys'"
      by (auto split: option.splits)
    then have "live_as msr r y"
      by (auto simp: diffable_of_def live_as_def mget_filter_key [of "\<lambda>n. n \<notin> set msr"] list_all_iff)
    then show ?case using Cons.IH y by simp
  qed simp
  then show ?thesis using after by auto
qed

lemma newest_reading_asked:
  assumes "snapshot_at_or_before c s since d = Some sn"
  shows "\<exists>q. newest_reading c s since d q sn"
proof -
  have "asked c s since d \<noteq> []" using assms by (auto simp: snapshot_at_or_before_def asked_def Let_def split: if_splits)
  then obtain m where "snapshot_at_or_before c s since d = Some (snd m)" "m \<in> set (asked c s since d)"
      "\<forall>r \<in> set (asked c s since d). no_newer r m"
    by (rule at_or_before_last)
  then have "newest_reading c s since d (fst m) sn"
    using assms by (auto simp: newest_reading_def asked_def no_newer_def in_series_def list_all_iff)
  then show ?thesis ..
qed

lemma no_reading_asked:
  assumes "snapshot_at_or_before c s since d = None"
  shows "list_all (\<lambda>row. in_series c s row \<longrightarrow> since < sn_taken (snd row)) (d_snaps d)"
    and "record_begins c s d = [] \<longleftrightarrow> list_all (\<lambda>row. \<not> in_series c s row) (d_snaps d)"
proof -
  show late: "list_all (\<lambda>row. in_series c s row \<longrightarrow> since < sn_taken (snd row)) (d_snaps d)"
    using assms by (auto simp: snapshot_at_or_before_def filter_empty_conv list_all_iff not_le Let_def split: if_splits)
  let ?mine = "filter (in_series c s) (d_snaps d)"
  have "sn_taken (snd (hd (by_time ?mine))) \<noteq> []" if "?mine \<noteq> []"
  proof -
    have "by_time ?mine \<noteq> []" using that by (simp add: by_time_def)
    then have "hd (by_time ?mine) \<in> set (by_time ?mine)" by (rule hd_in_set)
    then have "hd (by_time ?mine) \<in> set ?mine" by (simp add: by_time_def)
    then have "since < sn_taken (snd (hd (by_time ?mine)))" using late by (auto simp: list_all_iff)
    then show ?thesis by auto
  qed
  then show "record_begins c s d = [] \<longleftrightarrow> list_all (\<lambda>row. \<not> in_series c s row) (d_snaps d)"
    by (auto simp: record_begins_def Let_def filter_empty_conv list_all_iff)
qed

lemma image_of_all: "f ` {g x y | x y k. P x y k} = {f (g x y) | x y k. P x y k}"
  by blast

lemma compare_readings_stands:
  "set (cc_added (compare_readings L before after)) =
     {ref_of y | y k. stands_for after k = Some y \<and> stands_for before k = None}"
  "set (cc_removed (compare_readings L before after)) =
     {ref_of x | x k. stands_for before k = Some x \<and> stands_for after k = None}"
  "(\<lambda>ch. (cg_id ch, cg_scope ch, set (cg_paths ch))) ` set (cc_changed (compare_readings L before after)) =
     {(df_id x, df_scope x, Collect (differs_at L x y)) | x y k.
        stands_for before k = Some x \<and> stands_for after k = Some y \<and> (\<exists>path. differs_at L x y path)}"
proof -
  let ?ch = "compare_readings L before after"
  show "set (cc_added ?ch) = {ref_of y | y k. stands_for after k = Some y \<and> stands_for before k = None}"
    by (auto simp: compare_readings_def no_changes_def Let_def in_by_key by_key_stands image_iff) blast
  show "set (cc_removed ?ch) = {ref_of x | x k. stands_for before k = Some x \<and> stands_for after k = None}"
    by (auto simp: compare_readings_def no_changes_def Let_def in_by_key by_key_stands image_iff) blast
  have paths: "set (changed_paths L x y) = Collect (differs_at L x y)" for x y
    by (auto simp: changed_paths_differ)
  have nil: "changed_paths L x y = [] \<longleftrightarrow> \<not> (\<exists>path. differs_at L x y path)" for x y
    by (auto simp flip: changed_paths_differ)
  have one: "changed_of L (by_key after) (k, x) = Some ch \<longleftrightarrow>
      (\<exists>y. stands_for after k = Some y \<and> (\<exists>path. differs_at L x y path) \<and>
         ch = \<lparr>cg_id = df_id x, cg_scope = df_scope x, cg_paths = changed_paths L x y\<rparr>)" for k x ch
    by (auto simp: changed_of_def by_key_stands Let_def nil split: option.split)
  have "c \<in> set (cc_changed ?ch) \<longleftrightarrow>
      (\<exists>k x. stands_for before k = Some x \<and> changed_of L (by_key after) (k, x) = Some c)" for c
    by (auto simp: compare_readings_def no_changes_def Let_def in_map_filter Bex_def split_paired_Ex in_by_key)
  note step = this
  have "set (cc_changed ?ch) = {\<lparr>cg_id = df_id x, cg_scope = df_scope x, cg_paths = changed_paths L x y\<rparr> | x y k.
      stands_for before k = Some x \<and> stands_for after k = Some y \<and> (\<exists>path. differs_at L x y path)}"
    unfolding set_eq_iff mem_Collect_eq step one by blast
  then show "(\<lambda>ch. (cg_id ch, cg_scope ch, set (cg_paths ch))) ` set (cc_changed ?ch) =
     {(df_id x, df_scope x, Collect (differs_at L x y)) | x y k.
        stands_for before k = Some x \<and> stands_for after k = Some y \<and> (\<exists>path. differs_at L x y path)}"
    by (simp only: image_of_all) (simp add: paths)
qed

text \<open>
  Property C17. A question about the past is answered from a baseline or with a gap, never from
  an empty one. The baseline is the newest reading of the collection and scope taken at or before
  the moment. A gap reports no object as added, removed or changed; its reason says that the
  declaration is not held, that there is no reading, that every reading is later, or that the
  baseline has another format. Any other answer says when the baseline was taken and compares
  it with the live objects, stripped of the facts declared as counters and gauges: added are the
  objects only the live side has, removed those only the baseline has, and an object both have is
  reported as changed exactly when its name, type, absences or a fact's value or presence
  differ, with just the paths that do. An object of a reading is the last with its scope and id.
\<close>

theorem changes_since_gap:
  assumes "changes_since L c s since d = Some ch"
  shows "cc_collection ch = c \<and> (case cc_gap ch of
      Some g \<Rightarrow> cc_added ch = [] \<and> cc_removed ch = [] \<and> cc_changed ch = [] \<and> cc_since ch = since \<and>
        gp_asked g = since \<and>
        (gp_reason g = ''undeclared'' \<and> measure_facts (declaration_for c d) c = None \<or>
         gp_reason g = ''no-record'' \<and> list_all (\<lambda>row. \<not> in_series c s row) (d_snaps d) \<or>
         gp_reason g = ''before-record'' \<and> list_ex (in_series c s) (d_snaps d) \<and>
           list_all (\<lambda>row. in_series c s row \<longrightarrow> since < sn_taken (snd row)) (d_snaps d) \<or>
         gp_reason g = ''format-changed'' \<and>
           (\<exists>q sn. newest_reading c s since d q sn \<and> sn_format sn \<noteq> snapshot_format))
    | None \<Rightarrow> \<exists>cols cl msr q sn before rows after.
        declared_document (declaration_for c d) = Some cols \<and> find (\<lambda>cl. dl_name cl = c) cols = Some cl \<and>
        set msr = {n. \<exists>raw. (n, raw) \<in> set (dl_facts cl) \<and> temperament_of raw \<in> {Some ''counter'', Some ''gauge''}} \<and>
        newest_reading c s since d q sn \<and> sn_format sn = snapshot_format \<and> cc_since ch = sn_taken sn \<and>
        decode_reading (sn_objects sn) = Some before \<and>
        list_all2 (live_as msr) (objects_in_scope c s d) rows \<and> mset after = mset rows \<and>
        set (cc_added ch) = {ref_of y | y k. stands_for after k = Some y \<and> stands_for before k = None} \<and>
        set (cc_removed ch) = {ref_of x | x k. stands_for before k = Some x \<and> stands_for after k = None} \<and>
        (\<lambda>ob. (cg_id ob, cg_scope ob, set (cg_paths ob))) ` set (cc_changed ch) =
          {(df_id x, df_scope x, Collect (differs_at L x y)) | x y k.
             stands_for before k = Some x \<and> stands_for after k = Some y \<and> (\<exists>path. differs_at L x y path)})"
proof (cases "measure_facts (declaration_for c d) c")
  case None
  then show ?thesis using assms by (auto simp: changes_since_def gap_answer_def no_changes_def)
next
  case held: (Some msr)
  show ?thesis
  proof (cases "snapshot_at_or_before c s since d")
    case None
    then show ?thesis
      using assms held no_reading_asked [OF None]
      by (auto simp: changes_since_def gap_answer_def no_changes_def Let_def list_all_iff list_ex_iff)
  next
    case (Some sn)
    then obtain q where q: "newest_reading c s since d q sn" using newest_reading_asked by blast
    show ?thesis
    proof (cases "sn_format sn = snapshot_format")
      case False
      then show ?thesis
        using assms held Some q by (auto simp: changes_since_def gap_answer_def no_changes_def Let_def) blast
    next
      case True
      then obtain before after where r: "decode_reading (sn_objects sn) = Some before"
          "diffable (objects_in_scope c s d) msr = Some after"
          "ch = (compare_readings L before after)\<lparr>cc_collection := c, cc_since := sn_taken sn\<rparr>"
        using assms held Some by (auto simp: changes_since_def Let_def split: bind_splits)
      obtain rows where rows: "list_all2 (live_as msr) (objects_in_scope c s d) rows" "mset after = mset rows"
        using diffable_live [OF r(2)] by auto
      obtain cols cl where decl: "declared_document (declaration_for c d) = Some cols"
          "find (\<lambda>cl. dl_name cl = c) cols = Some cl"
          "msr = map fst (filter (\<lambda>p. is_measure (snd p)) (dl_facts cl))"
        using held by (auto simp: measure_facts_def split: bind_splits)
      have "set msr = {n. \<exists>raw. (n, raw) \<in> set (dl_facts cl) \<and> temperament_of raw \<in> {Some ''counter'', Some ''gauge''}}"
        unfolding decl(3) by (force simp: is_measure_def)
      note measures = this
      have side: "cc_added ch = cc_added (compare_readings L before after)" "cc_removed ch = cc_removed (compare_readings L before after)"
        "cc_changed ch = cc_changed (compare_readings L before after)"
        and told: "cc_collection ch = c" "cc_since ch = sn_taken sn" "cc_gap ch = None"
        by (simp_all add: r(3) compare_readings_def no_changes_def Let_def)
      show ?thesis
        unfolding told(3) option.case side
        by (rule conjI [OF told(1)], rule exI [of _ cols], rule exI [of _ cl], rule exI [of _ msr],
            rule exI [of _ q], rule exI [of _ sn], rule exI [of _ before], rule exI [of _ rows],
            rule exI [of _ after])
          (intro conjI decl(1,2) measures q True told(2) r(1) rows compare_readings_stands)
    qed
  qed
qed

text \<open>
  A network interface whose state and counter both move after the reading, beside a new one.
\<close>

definition moved_objects :: "sobject list" where
  "moved_objects =
     [(counter_object ''2'')\<lparr>so_facts := JObj [(''Bytes'', JNum ''2''), (''Up'', JBool False)]\<rparr>,
      (counter_object ''3'')\<lparr>so_id := ''net:eth1'', so_name := ''eth1''\<rparr>]"

definition moved_db :: db where
  "moved_db =
     snd (apply_commit_with demo_lib ''t'' ''net'' [] 2 ''b2'' ''boot'' moved_objects []
       (snd (record_snapshot counter_snapshot counter_db)))"

definition moved_answer :: collection_changes where
  "moved_answer =
     \<lparr>cc_collection = ''net'', cc_added = [\<lparr>or_id = ''net:eth1'', or_scope = []\<rparr>], cc_removed = [],
      cc_changed = [\<lparr>cg_id = ''net:eth0'', cg_scope = [], cg_paths = [''facts.Up'']\<rparr>],
      cc_since = ''t1'', cc_gap = None\<rparr>"

lemma changes_since_gap_witness:
  "changes_since demo_lib ''net'' [] ''t3'' moved_db = Some moved_answer \<and>
   (\<exists>q sn. newest_reading ''net'' [] ''t3'' moved_db q sn \<and> cc_since moved_answer = sn_taken sn)"
proof (rule conjI)
  show asked: "changes_since demo_lib ''net'' [] ''t3'' moved_db = Some moved_answer" by code_simp
  have told: "cc_gap moved_answer = None" by (simp add: moved_answer_def)
  show "\<exists>q sn. newest_reading ''net'' [] ''t3'' moved_db q sn \<and> cc_since moved_answer = sn_taken sn"
    using changes_since_gap [OF asked] unfolding told option.case by (elim conjE exE, intro exI conjI)
qed

end
