(* ===== verification/Collate.thy ===== *)
theory Collate
  imports Relations Changes
begin

text \<open>
  One acquisition (go/internal/collate/collate.go): declare, issue generations, collect,
  validate, apply, acknowledge. The collector is a parameter, a client for each successive
  exchange of the acquisition, since it may be upgraded between two of them; the readings of
  the clock are parameters too. A step returns the reason of the error it returns, if any, and
  the state it leaves. Maps are visited in key order.
\<close>

section \<open>Parameters\<close>

record clock =
  ck_wall :: "string \<Rightarrow> string"
  ck_declined :: "string \<Rightarrow> string"
  ck_taken :: "string \<Rightarrow> string"
  ck_timens :: int

type_synonym failure = "string option"

section \<open>Prefixes and types\<close>

definition relation_table :: "decl_collection \<Rightarrow> relation_type gomap" where
  "relation_table c = mof (map (\<lambda>r. (dr_type r, \<lparr>rt_discriminator = dr_discriminator r,
     rt_inverse_observable = dr_inverse r, rt_confirmed_by = dr_confirmed r\<rparr>)) (dc_relations c))"

definition own_prefixes :: "decl_collection list \<Rightarrow> string gomap" where
  "own_prefixes cols = mof (map (\<lambda>c. (dc_name c, dc_prefix c)) cols)"

definition type_tables :: "decl_collection list \<Rightarrow> relation_type gomap gomap" where
  "type_tables cols = mof (map (\<lambda>c. (dc_name c, relation_table c)) cols)"

definition add_prefixes :: "decl_collection list \<Rightarrow> string gomap \<Rightarrow> string gomap" where
  "add_prefixes cols prefixes =
     fold (\<lambda>c m. if mget m (dc_name c) = None then mput (dc_name c) (dc_prefix c) m else m) cols prefixes"

fun fold_documents :: "(string \<times> string) list \<Rightarrow> string gomap \<Rightarrow> string gomap option" where
  "fold_documents [] prefixes = Some prefixes"
| "fold_documents ((digest, doc) # docs) prefixes =
     (case parse_declaration doc of
        None \<Rightarrow> None
      | Some (collector, cols, fresh) \<Rightarrow> fold_documents docs (add_prefixes cols prefixes))"

definition host_prefixes :: "db \<Rightarrow> string gomap \<Rightarrow> string gomap option" where
  "host_prefixes d prefixes = fold_documents (declaration_documents d) prefixes"

text \<open>\<open>prefixIndexWithClaimants\<close>: the sorted claimants of each prefix, its owner where there is one.\<close>

definition claimants :: "string gomap \<Rightarrow> string list gomap" where
  "claimants prefixes =
     fold (\<lambda>(collection, prefix) m.
         if prefix = [] then m
         else mput prefix ((case mget m prefix of None \<Rightarrow> [] | Some cs \<Rightarrow> cs) @ [collection]) m)
       prefixes []"

definition single_holder :: "string \<times> string list \<Rightarrow> (string \<times> string) option" where
  "single_holder q = (case snd q of [h] \<Rightarrow> Some (fst q, h) | _ \<Rightarrow> None)"

definition prefix_index_with_claimants ::
  "string gomap \<Rightarrow> string gomap \<times> string list \<times> string list gomap"
where
  "prefix_index_with_claimants prefixes =
     (let cl = map (\<lambda>(p, holders). (p, sort holders)) (claimants prefixes) in
      (List.map_filter single_holder cl,
       map fst (filter (\<lambda>(p, holders). length holders \<noteq> 1) cl),
       cl))"

definition prefix_index_tolerant :: "string gomap \<Rightarrow> string gomap \<times> string list" where
  "prefix_index_tolerant prefixes =
     (case prefix_index_with_claimants prefixes of (owner, contested, _) \<Rightarrow> (owner, contested))"

section \<open>Checking the batch against the declaration\<close>

definition object_declared :: "json gomap \<Rightarrow> object_rec \<Rightarrow> bool" where
  "object_declared facts ob =
     (case raw_map (ob_facts ob) of
        None \<Rightarrow> False
      | Some m \<Rightarrow> (\<forall>n \<in> set (mkeys m). mget facts n \<noteq> None) \<and>
                  (\<forall>n \<in> set (ob_absent ob). mget facts n \<noteq> None))"

definition stream_declared :: "json gomap \<Rightarrow> stream \<Rightarrow> bool" where
  "stream_declared facts cs =
     ((\<forall>ob \<in> set (st_objects cs). object_declared facts ob) \<and>
      (\<forall>u \<in> set (st_unobservables cs). mget facts (un_fact u) \<noteq> None))"

definition check_declared_facts :: "decl_collection list \<Rightarrow> batch \<Rightarrow> bool" where
  "check_declared_facts cols b =
     (\<forall>c \<in> set cols.
        dc_facts c = [] \<or>
        (case mget (b_collections b) (dc_name c) of None \<Rightarrow> True | Some cs \<Rightarrow> stream_declared (dc_facts c) cs))"

section \<open>Applying one collection\<close>

definition record_failure :: "string \<Rightarrow> db \<Rightarrow> db" where
  "record_failure reason d = add_rejection [] [] reason d"

definition sobject_of :: "string \<Rightarrow> object_rec \<Rightarrow> sobject" where
  "sobject_of name ob =
     \<lparr>so_id = mint_id name (ob_name ob), so_name = ob_name ob, so_type = ob_type ob,
      so_facts = ob_facts ob, so_names = ob_names ob, so_absent = ob_absent ob, so_at = ob_at ob\<rparr>"

definition unobserved_of :: "string \<Rightarrow> unobs_rec \<Rightarrow> unobserved" where
  "unobserved_of name u =
     \<lparr>uo_object = mint_id name (un_name u), uo_fact = un_fact u, uo_reason = un_reason u,
      uo_detail = un_detail u\<rparr>"

definition keep_record :: "lib \<Rightarrow> clock \<Rightarrow> string \<Rightarrow> string \<Rightarrow> nat \<Rightarrow> db \<Rightarrow> db" where
  "keep_record L ck name scope gen d =
     (case snapshot_for L name scope (ck_taken ck name) gen d of
        None \<Rightarrow> add_rejection name [] ''record-failed'' d
      | Some None \<Rightarrow> d
      | Some (Some sn) \<Rightarrow> snd (record_snapshot sn d))"

definition commit_collection ::
  "lib \<Rightarrow> clock \<Rightarrow> string \<Rightarrow> string \<Rightarrow> nat \<Rightarrow> batch \<Rightarrow> stream \<Rightarrow> db \<Rightarrow> failure \<times> db"
where
  "commit_collection L ck name scope gen b cs d =
     (let d1 = (case st_commit cs of
                  None \<Rightarrow> d
                | Some c \<Rightarrow> if 0 \<le> f64_val (cm_cpu c) then record_cost name (cm_cpu c) d else d)
      in case apply_commit_with L (ck_wall ck name) name scope gen (bg_batch (b_begin b)) (bg_boot (b_begin b))
               (map (sobject_of name) (st_objects cs)) (map (unobserved_of name) (st_unobservables cs)) d1 of
           (Inl e, d2) \<Rightarrow> (Some ''apply'', d2)
         | (Inr Applied, d2) \<Rightarrow>
             (None, keep_record L ck name scope gen
                (case st_decline cs of
                   Some de \<Rightarrow> if de_reason de = ''absent''
                     then record_absent (ck_declined ck name) name (de_detail de) d2 else d2
                 | None \<Rightarrow> d2))
         | (Inr other, d2) \<Rightarrow> (None, d2))"

definition apply_collection ::
  "lib \<Rightarrow> clock \<Rightarrow> string \<Rightarrow> string \<Rightarrow> batch \<Rightarrow> db \<Rightarrow> failure \<times> db"
where
  "apply_collection L ck name scope b d =
     (let gen = (case mget (bg_generations (b_begin b)) name of None \<Rightarrow> 0 | Some g \<Rightarrow> g);
          d0 = record_timens_skew name (bg_timens (b_begin b) - ck_timens ck) d;
          held = add_rejection name (bg_batch (b_begin b)) ''uncommitted-collection'' d0
      in case mget (b_collections b) name of
           None \<Rightarrow> (None, held)
         | Some cs \<Rightarrow>
             if st_commit cs = None \<and> st_decline cs = None then (None, held)
             else case st_decline cs of
                 Some de \<Rightarrow>
                   if de_reason de \<noteq> ''absent''
                   then (None, mark_stale_with (ck_declined ck name) name (de_reason de) (de_detail de) d0)
                   else commit_collection L ck name scope gen b cs d0
               | None \<Rightarrow> commit_collection L ck name scope gen b cs d0)"

fun apply_collections ::
  "lib \<Rightarrow> clock \<Rightarrow> string \<Rightarrow> batch \<Rightarrow> string list \<Rightarrow> failure \<times> db \<Rightarrow> failure \<times> db"
where
  "apply_collections L ck scope b [] st = st"
| "apply_collections L ck scope b (name # names) (err, d) =
     (let (e, d') = apply_collection L ck name scope b d
      in apply_collections L ck scope b names (if err = None then e else err, d'))"

section \<open>Relations\<close>

definition assertion_of :: "relation_rec \<Rightarrow> assertion" where
  "assertion_of r =
     \<lparr>as_source = rl_name r, as_type = rl_type r, as_vantage = rl_vantage r, as_kind = rl_target_kind r,
      as_target = rl_target_name r, as_facts = rl_facts r\<rparr>"

definition committed_assertions :: "batch \<Rightarrow> relation_rec list" where
  "committed_assertions b =
     concat (map (\<lambda>p. if st_commit (snd p) = None then [] else st_assertions (snd p)) (b_collections b))"

definition inverse_in :: "batch \<Rightarrow> inverse_fun" where
  "inverse_in b ty from_name to_name =
     map_option rl_facts (find (\<lambda>r. rl_type r = ty \<and> rl_name r = from_name \<and> rl_target_name r = to_name)
       (rev (committed_assertions b)))"

definition apply_relations ::
  "lib \<Rightarrow> string \<Rightarrow> string \<Rightarrow> batch \<Rightarrow> string gomap \<Rightarrow> relation_type gomap \<Rightarrow> db \<Rightarrow> db"
where
  "apply_relations L name scope b by_kind types d =
     (case mget (b_collections b) name of
        None \<Rightarrow> d
      | Some cs \<Rightarrow>
          if st_commit cs = None then d
          else case apply_assertions L name scope (map assertion_of (st_assertions cs)) types
                      (Some (resolver_for by_kind scope d)) (Some (inverse_in b)) d of
              (Inl e, d') \<Rightarrow> add_rejection name (bg_batch (b_begin b)) ''relation-assembly'' d'
            | (Inr rels, d') \<Rightarrow> d')"

definition types_of :: "decl_collection list \<Rightarrow> string \<Rightarrow> relation_type gomap" where
  "types_of cols name = (case mget (type_tables cols) name of None \<Rightarrow> [] | Some t \<Rightarrow> t)"

definition all_relations ::
  "lib \<Rightarrow> string \<Rightarrow> batch \<Rightarrow> string gomap \<Rightarrow> decl_collection list \<Rightarrow> string list \<Rightarrow> db \<Rightarrow> db"
where
  "all_relations L scope b by_kind cols names d =
     fold (\<lambda>name. apply_relations L name scope b by_kind (types_of cols name)) names d"

section \<open>The acquisition\<close>

definition scope_of :: "batch \<Rightarrow> string" where
  "scope_of b = (case bg_instance (b_begin b) of None \<Rightarrow> host_native | Some s \<Rightarrow> s)"

text \<open>From the judged batch to its acknowledgement.\<close>

definition land_batch ::
  "lib \<Rightarrow> clock \<Rightarrow> decl_collection list \<Rightarrow> string list \<Rightarrow> batch \<Rightarrow> db \<Rightarrow> failure \<times> db"
where
  "land_batch L ck cols names b d =
     (case host_prefixes d (own_prefixes cols) of
        None \<Rightarrow> (Some ''unreadable-declaration'', record_failure ''unreadable-declaration'' d)
      | Some prefixes \<Rightarrow>
          (let (by_kind, contested) = prefix_index_tolerant prefixes;
               d1 = fold (\<lambda>_. record_failure ''ambiguous-prefix'') contested d;
               scope = scope_of b
           in if \<not> check_declared_facts cols b
              then (Some ''undeclared-fact'', record_failure ''undeclared-fact'' d1)
              else
                case apply_collections L ck scope b names (None, d1) of
                  (Some e, d2) \<Rightarrow> (Some e, d2)
                | (None, d2) \<Rightarrow>
                    (let d3 = all_relations L scope b by_kind cols names d2;
                         d4 = snd (upgrade_unresolved (resolver_for by_kind scope d3) d3)
                     in (None, record_ack (bg_batch (b_begin b)) (bg_generations (b_begin b)) (b_hash b) d4))))"

definition judge_batch ::
  "lib \<Rightarrow> clock \<Rightarrow> decl_collection list \<Rightarrow> string list \<Rightarrow> batch \<Rightarrow> db \<Rightarrow> failure \<times> db"
where
  "judge_batch L ck cols names b d =
     (case judge_acked (bg_batch (b_begin b)) (bg_generations (b_begin b)) (b_hash b) d of
        (AckRetry, d1) \<Rightarrow> (None, d1)
      | (AckReused, d1) \<Rightarrow> (Some ''batch-id-reused'', d1)
      | (AckNew, d1) \<Rightarrow> land_batch L ck cols names b d1)"

definition client_reason :: "client_error \<Rightarrow> string" where
  "client_reason e = (case e of Violated r \<Rightarrow> r | _ \<Rightarrow> ''collect-failed'')"

definition acquire_once :: "lib \<Rightarrow> clock \<Rightarrow> (nat \<Rightarrow> client) \<Rightarrow> db \<Rightarrow> failure \<times> db" where
  "acquire_once L ck cl d =
     (case declare_doc (cl 0) of
        Inl e \<Rightarrow> (Some ''declare'', record_failure ''declare-failed'' d)
      | Inr doc \<Rightarrow>
     (let digest = content_hash (sha256 L) doc in
      case parse_declaration doc of
        None \<Rightarrow> (Some ''declaration'', record_failure ''declaration-unparseable'' d)
      | Some (collector, cols, fresh) \<Rightarrow>
     (let names = sort (map dc_name cols);
          d1 = record_declaration digest doc d
      in case issue_generations names digest d1 of
        (Inl e, d2) \<Rightarrow> (Some ''issue generations'', d2)
      | (Inr issued, d2) \<Rightarrow>
     (case collect (sha256 L) (cl 1) issued of
        Inl e \<Rightarrow> (Some ''collect'', record_failure (client_reason e) d2)
      | Inr b \<Rightarrow>
          if bg_declaration (b_begin b) \<noteq> digest \<and>
             (case declare_doc (cl 2) of
                Inl e \<Rightarrow> True
              | Inr again \<Rightarrow> bg_declaration (b_begin b) \<noteq> content_hash (sha256 L) again)
          then (Some ''declaration-unknown'', record_failure ''declaration-unknown'' d2)
          else judge_batch L ck cols names b d2))))"

section \<open>Lemmas on the prefix index\<close>

lemma claimants_snoc:
  "claimants (ps @ [(c, p)]) =
     (if p = [] then claimants ps
      else mput p ((case mget (claimants ps) p of None \<Rightarrow> [] | Some cs \<Rightarrow> cs) @ [c]) (claimants ps))"
  by (simp add: claimants_def)

lemma claimants_mok: "mok (claimants ps)"
proof (induction ps rule: rev_induct)
  case (snoc x ps)
  then show ?case by (cases x) (simp add: claimants_snoc)
qed (simp add: claimants_def)

definition claims :: "string \<Rightarrow> string gomap \<Rightarrow> string list" where
  "claims p ps = map fst (filter (\<lambda>q. snd q = p) ps)"

lemma claimants_get:
  "mget (claimants ps) p = (if p = [] \<or> claims p ps = [] then None else Some (claims p ps))"
proof (induction ps rule: rev_induct)
  case Nil
  then show ?case by (simp add: claimants_def claims_def)
next
  case (snoc x ps)
  then show ?case by (cases x) (auto simp: claimants_snoc claims_def)
qed

lemma single_get:
  "distinct (map fst m) \<Longrightarrow>
   map_of (List.map_filter single_holder m) p =
     (case map_of m p of Some [h] \<Rightarrow> Some h | _ \<Rightarrow> None)"
proof (induction m)
  case (Cons x m)
  have "fst x \<notin> fst ` set m" using Cons.prems by simp
  then have "map_of m (fst x) = None" by (simp add: map_of_eq_None_iff)
  then show ?case using Cons
    by (cases x) (auto simp: List.map_filter_simps single_holder_def split: list.split option.split)
qed (simp add: List.map_filter_simps)

lemma single_keys: "q \<in> set (List.map_filter single_holder m) \<Longrightarrow> fst q \<in> fst ` set m"
  by (induction m) (auto simp: List.map_filter_simps single_holder_def split: list.splits option.splits)

lemma single_Some: "single_holder x = Some q \<Longrightarrow> fst q = fst x"
  by (auto simp: single_holder_def split: list.splits)

lemma single_mok: "mok m \<Longrightarrow> mok (List.map_filter single_holder m)"
proof (induction m)
  case (Cons x m)
  have "fst x < fst q" if "q \<in> set (List.map_filter single_holder m)" for q
    using single_keys [OF that] Cons.prems by (auto simp: mok_Cons)
  then show ?case
    using Cons by (auto simp: List.map_filter_simps mok_Cons dest!: single_Some split: option.split)
qed (simp add: List.map_filter_simps)

lemma tolerant_owner:
  "mget (fst (prefix_index_tolerant ps)) p = (if p = [] then None else case claims p ps of [c] \<Rightarrow> Some c | _ \<Rightarrow> None)"
proof -
  have d: "distinct (map fst (map (\<lambda>(p, holders). (p, sort holders)) (claimants ps)))"
    using mok_distinct [OF claimants_mok [of ps]] by (simp add: comp_def case_prod_unfold)
  have "fst (prefix_index_tolerant ps) =
      List.map_filter single_holder
        (map (\<lambda>(p, holders). (p, sort holders)) (claimants ps))"
    by (simp add: prefix_index_tolerant_def prefix_index_with_claimants_def Let_def)
  then have "mget (fst (prefix_index_tolerant ps)) p =
      (case map_option sort (mget (claimants ps) p) of Some [h] \<Rightarrow> Some h | _ \<Rightarrow> None)"
    using single_get [OF d, of p] by (simp add: mget_map_snd)
  moreover have "(case sort cs of [h] \<Rightarrow> Some h | _ \<Rightarrow> None) = (case cs of [h] \<Rightarrow> Some h | _ \<Rightarrow> None)"
    for cs :: "string list"
  proof (cases "length cs = 1")
    case True
    then show ?thesis by (cases cs) auto
  next
    case False
    moreover then have "length (sort cs) \<noteq> 1" by simp
    ultimately show ?thesis by (auto split: list.split simp del: length_sort)
  qed
  ultimately show ?thesis by (auto simp: claimants_get split: option.split)
qed

lemma tolerant_owner_mok: "mok (fst (prefix_index_tolerant ps))"
  using single_mok [of "map (\<lambda>(p, holders). (p, sort holders)) (claimants ps)"] claimants_mok [of ps]
  by (simp add: prefix_index_tolerant_def prefix_index_with_claimants_def Let_def mok_map_snd)

lemma tolerant_contested:
  "snd (prefix_index_tolerant ps) = map fst (filter (\<lambda>q. length (snd q) \<noteq> 1) (claimants ps))"
  by (simp add: prefix_index_tolerant_def prefix_index_with_claimants_def Let_def filter_map comp_def
      case_prod_unfold)

lemma contested_iff: "p \<in> set (snd (prefix_index_tolerant ps)) \<longleftrightarrow> p \<noteq> [] \<and> 1 < length (claims p ps)"
proof -
  have "p \<in> set (snd (prefix_index_tolerant ps)) \<longleftrightarrow>
      (\<exists>cs. mget (claimants ps) p = Some cs \<and> length cs \<noteq> 1)"
    using mok_distinct [OF claimants_mok [of ps]]
    by (force simp: tolerant_contested map_of_eq_Some_iff)
  then show ?thesis by (auto simp: claimants_get Suc_lessI)
qed

lemma contested_sorted: "sorted_wrt (<) (snd (prefix_index_tolerant ps))"
  using mok_filter [OF claimants_mok, of "\<lambda>q. length (snd q) \<noteq> 1" ps]
  by (simp add: tolerant_contested mok_def)

lemma prefix_index_from_eq:
  "prefix_index_from ps out =
     (if distinct (map snd (filter (\<lambda>q. snd q \<noteq> []) ps)) \<and>
         (\<forall>q \<in> set ps. snd q = [] \<or> mget out (snd q) = None)
      then Some (fold (\<lambda>q m. if snd q = [] then m else mput (snd q) (fst q) m) ps out) else None)"
proof (induction ps out rule: prefix_index_from.induct)
  case (2 collection p m out)
  then show ?case by (auto 4 3)
qed simp

lemma claims_Nil: "claims p ps = [] \<longleftrightarrow> p \<notin> snd ` set ps"
  by (auto simp: claims_def filter_empty_conv image_iff)

lemma prefix_fold_get:
  "distinct (map snd (filter (\<lambda>q. snd q \<noteq> []) ps)) \<Longrightarrow>
   mget (fold (\<lambda>q m. if snd q = [] then m else mput (snd q) (fst q) m) ps out) p =
     (if p = [] then mget out p else case claims p ps of [] \<Rightarrow> mget out p | c # cs \<Rightarrow> Some c)"
proof (induction ps arbitrary: out)
  case (Cons q ps)
  have "claims (snd q) ps = []" if "snd q \<noteq> []"
    using Cons.prems that by (auto simp: claims_Nil)
  then show ?case using Cons by (auto simp: claims_def split: list.split)
qed (simp add: claims_def)

lemma distinct_claims:
  "distinct (map snd (filter (\<lambda>q. snd q \<noteq> []) ps)) \<longleftrightarrow> (\<forall>p. p = [] \<or> length (claims p ps) \<le> 1)"
proof (induction ps)
  case (Cons q ps)
  have len: "length (claims p (q # ps)) = (if snd q = p then 1 else 0) + length (claims p ps)" for p
    by (simp add: claims_def)
  have "(\<forall>p. p = [] \<or> length (claims p (q # ps)) \<le> 1) \<longleftrightarrow>
      (snd q = [] \<or> claims (snd q) ps = []) \<and> (\<forall>p. p = [] \<or> length (claims p ps) \<le> 1)"
    (is "?l \<longleftrightarrow> ?r")
  proof
    assume l: ?l
    have "snd q = [] \<or> claims (snd q) ps = []"
      using l [rule_format, of "snd q"] len [of "snd q"] by auto
    moreover have "p = [] \<or> length (claims p ps) \<le> 1" for p
      using l [rule_format, of p] len [of p] by (auto split: if_splits)
    ultimately show ?r by blast
  next
    assume r: ?r
    have "p = [] \<or> length (claims p (q # ps)) \<le> 1" for p
      using r len [of p] by (cases "snd q = p") auto
    then show ?l by blast
  qed
  moreover have "distinct (map snd (filter (\<lambda>q. snd q \<noteq> []) (q # ps))) \<longleftrightarrow>
      (snd q = [] \<or> claims (snd q) ps = []) \<and> distinct (map snd (filter (\<lambda>q. snd q \<noteq> []) ps))"
    by (auto simp: claims_Nil)
  ultimately show ?case using Cons by simp
qed (simp add: claims_def)

lemma prefix_fold_mok: "mok out \<Longrightarrow> mok (fold (\<lambda>q m. if snd q = [] then m else mput (snd q) (fst q) m) ps out)"
  by (induction ps arbitrary: out) auto

lemma claims_iff: "mok ps \<Longrightarrow> c \<in> set (claims p ps) \<longleftrightarrow> mget ps c = Some p"
  using mok_distinct [of ps] by (force simp: claims_def map_of_eq_Some_iff)

lemma claims_distinct: "mok ps \<Longrightarrow> distinct (claims p ps)"
  using mok_distinct [of ps] by (simp add: claims_def distinct_map_filter)

text \<open>
  A prefix resolves to the one collection that declares it, or to none. In the
  tolerant index a kind belongs to a collection exactly when that collection alone declares it
  as its prefix; the contested kinds, in order, are exactly those that two collections declare,
  and they belong to neither; and the strict index is the same index where nothing is
  contested and is refused everywhere else.
\<close>

theorem prefix_index_spec:
  assumes "mok ps"
  shows "let (owner, contested) = prefix_index_tolerant ps in
     (\<forall>kind c. mget owner kind = Some c \<longleftrightarrow> kind \<noteq> [] \<and> {c'. mget ps c' = Some kind} = {c}) \<and>
     (\<forall>kind. kind \<in> set contested \<longleftrightarrow>
        kind \<noteq> [] \<and> (\<exists>c c'. c \<noteq> c' \<and> mget ps c = Some kind \<and> mget ps c' = Some kind)) \<and>
     sorted_wrt (<) contested \<and>
     prefix_index ps = (if contested = [] then Some owner else None)"
proof -
  let ?owner = "fst (prefix_index_tolerant ps)" and ?contested = "snd (prefix_index_tolerant ps)"
  have cl: "{c. mget ps c = Some kind} = set (claims kind ps)" for kind
    using claims_iff [OF assms] by auto
  have own: "mget ?owner kind = Some c \<longleftrightarrow> kind \<noteq> [] \<and> {c'. mget ps c' = Some kind} = {c}" for kind c
  proof -
    have "set (claims kind ps) = {c} \<longleftrightarrow> claims kind ps = [c]"
      using claims_distinct [OF assms, of kind]
      by (cases "claims kind ps"; cases "tl (claims kind ps)") auto
    then show ?thesis unfolding cl by (auto simp: tolerant_owner split: list.split)
  qed
  have con: "kind \<in> set ?contested \<longleftrightarrow>
      kind \<noteq> [] \<and> (\<exists>c c'. c \<noteq> c' \<and> mget ps c = Some kind \<and> mget ps c' = Some kind)" for kind
  proof -
    have "1 < length (claims kind ps) \<longleftrightarrow> (\<exists>c c'. c \<noteq> c' \<and> c \<in> set (claims kind ps) \<and> c' \<in> set (claims kind ps))"
      using claims_distinct [OF assms, of kind]
      by (cases "claims kind ps"; cases "tl (claims kind ps)") auto
    then show ?thesis by (simp add: contested_iff claims_iff [OF assms])
  qed
  have "prefix_index ps = (if ?contested = [] then Some ?owner else None)"
  proof (cases "distinct (map snd (filter (\<lambda>q. snd q \<noteq> []) ps))")
    case True
    then have le: "\<forall>p. p = [] \<or> length (claims p ps) \<le> 1" by (simp add: distinct_claims)
    have "p \<notin> set ?contested" for p
      using le [rule_format, of p] by (auto simp: contested_iff)
    then have "?contested = []" using hd_in_set by blast
    moreover have "fold (\<lambda>q m. if snd q = [] then m else mput (snd q) (fst q) m) ps [] = ?owner"
    proof (rule mok_ext)
      show "mget (fold (\<lambda>q m. if snd q = [] then m else mput (snd q) (fst q) m) ps []) k = mget ?owner k" for k
        using prefix_fold_get [OF True, of "[]" k] le [rule_format, of k]
        by (cases "claims k ps"; cases "tl (claims k ps)") (auto simp: tolerant_owner)
    qed (simp_all add: prefix_fold_mok tolerant_owner_mok)
    ultimately show ?thesis using True by (simp add: prefix_index_def prefix_index_from_eq)
  next
    case False
    then obtain p where "p \<in> set ?contested" by (auto simp: distinct_claims contested_iff not_le)
    then have "?contested \<noteq> []" by (rule in_set_ne)
    then show ?thesis using False by (simp add: prefix_index_def prefix_index_from_eq)
  qed
  then show ?thesis using own con contested_sorted [of ps] by (simp add: case_prod_unfold)
qed

lemma prefix_index_spec_witness:
  "prefix_index_tolerant [(''units'', ''unit''), (''workloads'', ''unit''), (''zfs'', ''pool'')] =
     ([(''pool'', ''zfs'')], [''unit'']) \<and>
   prefix_index [(''units'', ''unit''), (''workloads'', ''unit''), (''zfs'', ''pool'')] = None"
proof
  have "mok [(''units'', ''unit''), (''workloads'', ''unit''), (''zfs'', ''pool'')]" by code_simp
  note spec = prefix_index_spec [OF this]
  show eq: "prefix_index_tolerant [(''units'', ''unit''), (''workloads'', ''unit''), (''zfs'', ''pool'')] =
     ([(''pool'', ''zfs'')], [''unit''])"
    by code_simp
  from spec eq
  show "prefix_index [(''units'', ''unit''), (''workloads'', ''unit''), (''zfs'', ''pool'')] = None"
    by simp
qed

end
