(* ===== verification/Authority.thy ===== *)
theory Authority
  imports Collate
begin

text \<open>
  The authority over time: what every operation an acquisition performs on the store keeps,
  proved once for any relation between two states that the store's operations respect
  (the locale \<open>store_relation\<close>), and its two instances: the store's invariant, and the
  advance of generations with the content each one names.
\<close>

section \<open>What an acquisition is made of\<close>

definition keeps_generations :: "(col_row \<Rightarrow> col_row) \<Rightarrow> bool" where
  "keeps_generations f =
     (\<forall>r. c_issued (f r) = c_issued r \<and> c_applied (f r) = c_applied r \<and> c_hash (f r) = c_hash r \<and>
          c_boot (f r) = c_boot r)"

locale store_relation =
  fixes R :: "db \<Rightarrow> db \<Rightarrow> bool"
  assumes R_refl: "R d d"
    and R_trans: "R d d' \<Longrightarrow> R d' d'' \<Longrightarrow> R d d''"
    and R_reject: "R d (add_rejection c b w d)"
    and R_declare: "R d (record_declaration g doc d)"
    and R_issue: "R d (snd (issue_generations names g d))"
    and R_apply: "R d (snd (apply_commit_with L wall c s gen b boot obs unobs d))"
    and R_update: "keeps_generations f \<Longrightarrow> R d (update_row c f d)"
    and R_snapshot: "R d (snd (record_snapshot sn d))"
    and R_assert: "R d (snd (apply_assertions L c s as types res inv' d))"
    and R_upgrade: "R d (snd (upgrade_unresolved res' d))"
    and R_ack: "R d (record_ack b gens h d)"
begin

lemma R_reject': "R d d' \<Longrightarrow> R d (add_rejection c b w d')"
  using R_trans R_reject by blast

lemma R_failure: "R d (record_failure w d)"
  by (simp add: record_failure_def R_reject)

lemma R_keep_record: "R d (keep_record L ck name scope gen d)"
  by (simp add: keep_record_def R_refl R_reject R_snapshot split: option.split)

lemma R_decline: "R d (mark_stale_with w c why det d)" and R_absent: "R d (record_absent w c det d)"
  and R_cost: "R d (record_cost c cpu d)" and R_skew: "R d (record_timens_skew c k d)"
  by (auto simp: mark_stale_with_def record_absent_def record_cost_def record_timens_skew_def
      keeps_generations_def intro!: R_update)

lemma R_commit: "R d (snd (commit_collection L ck name scope gen b cs d))"
proof -
  define d1 where "d1 = (case st_commit cs of None \<Rightarrow> d
      | Some c \<Rightarrow> if 0 \<le> f64_val (cm_cpu c) then record_cost name (cm_cpu c) d else d)"
  have d1: "R d d1" by (auto simp: d1_def R_refl R_cost split: option.split)
  obtain out d2 where ap: "apply_commit_with L (ck_wall ck name) name scope gen (bg_batch (b_begin b))
      (bg_boot (b_begin b)) (map (sobject_of name) (st_objects cs))
      (map (unobserved_of name) (st_unobservables cs)) d1 = (out, d2)" by fastforce
  then have d2: "R d d2"
    using R_trans [OF d1] R_apply by (metis snd_conv)
  have "R d2 (keep_record L ck name scope gen
      (case st_decline cs of None \<Rightarrow> d2
       | Some de \<Rightarrow> if de_reason de = ''absent'' then record_absent (ck_declined ck name) name (de_detail de) d2 else d2))"
    by (rule R_trans [OF _ R_keep_record]) (auto simp: R_refl R_absent split: option.split)
  then show ?thesis
    using R_trans [OF d2] d2 ap
    by (auto simp: commit_collection_def Let_def d1_def [symmetric] split: sum.split outcome.split)
qed

lemma R_collection: "R d (snd (apply_collection L ck name scope b d))"
  by (auto simp: apply_collection_def Let_def split: option.split
      intro: R_trans [OF R_skew] R_reject R_commit R_decline)

lemma R_collections: "R d (snd st) \<Longrightarrow> R d (snd (apply_collections L ck scope b names st))"
proof (induction L ck scope b names st rule: apply_collections.induct)
  case (2 L ck scope b name names err d')
  have "R d (snd (apply_collection L ck name scope b d'))"
    using 2(2) R_trans [OF _ R_collection] by simp
  then show ?case using 2(1) by (simp add: case_prod_unfold Let_def)
qed simp

lemma R_relations: "R d (apply_relations L name scope b by_kind types d)"
proof (cases "mget (b_collections b) name")
  case (Some cs)
  obtain out d' where ap: "apply_assertions L name scope (map assertion_of (st_assertions cs)) types
      (Some (resolver_for by_kind scope d)) (Some (inverse_in b)) d = (out, d')" by fastforce
  then have "R d d'" using R_assert by (metis snd_conv)
  then show ?thesis
    using Some ap by (auto simp: apply_relations_def R_refl R_reject' split: sum.split)
qed (simp add: apply_relations_def R_refl)

lemma R_all_relations: "R d (all_relations L scope b by_kind cols names d)"
  unfolding all_relations_def
proof (induction names arbitrary: d)
  case (Cons name names)
  show ?case using R_trans [OF R_relations Cons] by simp
qed (simp add: R_refl)

lemma R_failures: "R d (fold (\<lambda>_. record_failure w) xs d)"
proof (induction xs arbitrary: d)
  case (Cons x xs)
  show ?case using R_trans [OF R_failure Cons] by simp
qed (simp add: R_refl)

lemma R_land: "R d (snd (land_batch L ck cols names b d))"
proof (cases "host_prefixes d (own_prefixes cols)")
  case (Some prefixes)
  obtain by_kind contested where ix: "prefix_index_tolerant prefixes = (by_kind, contested)" by fastforce
  define d1 where "d1 = fold (\<lambda>_. record_failure ''ambiguous-prefix'') contested d"
  have d1: "R d d1" by (simp add: d1_def R_failures)
  obtain err d2 where ap: "apply_collections L ck (scope_of b) b names (None, d1) = (err, d2)" by fastforce
  then have d2: "R d d2" using R_collections [of d "(None, d1)"] d1 by (metis snd_conv)
  define d3 where "d3 = all_relations L (scope_of b) b by_kind cols names d2"
  have "R d d3" using R_trans [OF d2] R_all_relations by (simp add: d3_def)
  then have "R d (record_ack bt gens h (snd (upgrade_unresolved (resolver_for by_kind (scope_of b) d3) d3)))" for bt gens h
    by (meson R_trans R_upgrade R_ack)
  then show ?thesis
    using Some ix ap d2 d1 R_trans [OF d1 R_failure]
    by (auto simp: land_batch_def Let_def d1_def [symmetric] d3_def [symmetric] split: option.split)
qed (simp add: land_batch_def R_failure)

lemma R_judge: "R d (snd (judge_batch L ck cols names b d))"
  by (auto simp: judge_batch_def judge_acked_def R_refl R_reject R_land split: option.split)

lemma R_acquire: "R d (snd (acquire_once L ck cl d))"
proof -
  have issued: "R d d2" if "issue_generations names g (record_declaration g' doc d) = (out, d2)" for names g g' doc out d2
    using R_trans [OF R_declare R_issue, of d] that by (metis snd_conv)
  have failed: "R d (record_failure w d2)"
    if "issue_generations names g (record_declaration g' doc d) = (out, d2)" for names g g' doc out d2 w
    using R_trans [OF issued [OF that] R_failure] .
  have judged: "R d (snd (judge_batch L ck cols names b d2))"
    if "issue_generations names' g (record_declaration g' doc d) = (out, d2)" for names names' g g' doc out d2 cols b
    using R_trans [OF issued [OF that] R_judge] .
  show ?thesis
    by (auto simp: acquire_once_def Let_def R_failure issued failed judged split: sum.split option.split prod.split)
qed

end

section \<open>The invariant of the store\<close>

definition applied :: "db \<Rightarrow> string \<Rightarrow> nat" where
  "applied d c = (case mget (d_cols d) c of None \<Rightarrow> 0 | Some r \<Rightarrow> c_applied r)"

definition issued_of :: "db \<Rightarrow> string \<Rightarrow> nat" where
  "issued_of d c = (case mget (d_cols d) c of None \<Rightarrow> 0 | Some r \<Rightarrow> c_issued r)"

definition content :: "db \<Rightarrow> string \<Rightarrow> string option" where
  "content d c = (case mget (d_cols d) c of None \<Rightarrow> None | Some r \<Rightarrow> c_hash r)"

definition rows_of :: "string \<Rightarrow> db \<Rightarrow> obj_row list" where
  "rows_of c d = filter (\<lambda>r. o_collection r = c) (d_objs d)"

definition row_ok :: "col_row \<Rightarrow> bool" where
  "row_ok r = (c_applied r \<le> c_issued r \<and> int (c_issued r) \<le> int64_max \<and>
     (c_applied r = 0 \<or> c_hash r \<noteq> None \<and> c_boot r \<noteq> None))"

definition cols_ok :: "col_row gomap \<Rightarrow> bool" where
  "cols_ok cols = (mok cols \<and> (\<forall>n. case mget cols n of None \<Rightarrow> True | Some r \<Rightarrow> row_ok r))"

definition edge_ok :: "rel_row \<Rightarrow> bool" where
  "edge_ok r = (r_source_id r = mint_id (r_collection r) (r_source_name r) \<and>
     r_resolved r = (r_target_id r \<noteq> None))"

definition db_ok :: "db \<Rightarrow> bool" where
  "db_ok d =
     (cols_ok (d_cols d) \<and> mok (d_decls d) \<and> mok (d_acks d) \<and>
      distinct (map obj_key (d_objs d)) \<and> distinct (map unobs_key (d_unobs d)) \<and>
      distinct (map rel_key (d_rels d)) \<and>
      (\<forall>r \<in> set (d_objs d). 0 < applied d (o_collection r)) \<and>
      (\<forall>r \<in> set (d_rels d). edge_ok r) \<and> snaps_ok d)"

lemma cols_ok_put: "cols_ok cols \<Longrightarrow> row_ok r \<Longrightarrow> cols_ok (mput n r cols)"
  by (simp add: cols_ok_def)

lemma cols_ok_get: "cols_ok cols \<Longrightarrow> mget cols n = Some r \<Longrightarrow> row_ok r"
  unfolding cols_ok_def by (metis option.simps(5))

lemma issue_row_ok: "cols_ok cols \<Longrightarrow> issue_row cols g n = Some r \<Longrightarrow> row_ok r"
  by (auto simp: issue_row_def fresh_row_def row_ok_def int64_max_def dest!: cols_ok_get
      split: option.splits if_splits)

lemma issue_loop_ok: "cols_ok cols \<Longrightarrow> issue_loop cols g names iss = Some (cols', iss') \<Longrightarrow> cols_ok cols'"
proof (induction names arbitrary: cols iss)
  case (Cons n names)
  then obtain r where r: "issue_row cols g n = Some r"
    and l: "issue_loop (mput n r cols) g names (mput n (c_issued r) iss) = Some (cols', iss')"
    by (auto split: option.splits)
  show ?case by (rule Cons.IH [OF cols_ok_put [OF Cons.prems(1) issue_row_ok [OF Cons.prems(1) r]] l])
qed simp

lemma issue_applied:
  assumes "issue_generations names g d = (out, d')"
  shows "applied d' c = applied d c" and "content d' c = content d c" and "issued_of d c \<le> issued_of d' c"
proof -
  have "applied d' c = applied d c \<and> content d' c = content d c \<and> issued_of d c \<le> issued_of d' c"
  proof (cases "issue_loop (d_cols d) g names []")
    case None
    then show ?thesis using assms by (simp add: issue_generations_def)
  next
    case (Some p)
    then obtain cols' iss where l: "issue_loop (d_cols d) g names [] = Some (cols', iss)" by (cases p) auto
    then have d': "d_cols d' = cols'" using assms by (auto simp: issue_generations_def)
    show ?thesis
      using issue_loop_spec(2,3) [OF l, of c] d'
      by (cases "c \<in> set names") (auto simp: applied_def content_def issued_of_def split: option.splits)
  qed
  then show "applied d' c = applied d c" and "content d' c = content d c" and "issued_of d c \<le> issued_of d' c"
    by simp_all
qed

lemma issue_other:
  assumes "issue_generations names g d = (out, d')"
  shows "d_objs d' = d_objs d" "d_unobs d' = d_unobs d" "d_rels d' = d_rels d" "d_acks d' = d_acks d"
    "d_decls d' = d_decls d" "d_snaps d' = d_snaps d" "d_next_seq d' = d_next_seq d" "d_rejs d' = d_rejs d"
  using assms by (auto simp: issue_generations_def split: option.splits prod.splits)

lemma issue_ok: "db_ok d \<Longrightarrow> db_ok (snd (issue_generations names g d))"
proof -
  assume ok: "db_ok d"
  obtain out d' where i: "issue_generations names g d = (out, d')" by fastforce
  have "cols_ok (d_cols d')"
    using i ok issue_loop_ok by (auto simp: issue_generations_def db_ok_def split: option.splits prod.splits)
  then show ?thesis
    using ok issue_other [OF i] issue_applied(1) [OF i] by (simp add: i db_ok_def snaps_ok_def)
qed

lemma applied_db_applied:
  "applied (applied_db L wall c s gen boot obs unobs r d) c' = (if c' = c then gen else applied d c')"
  by (simp add: applied_def applied_cols applied_row_def)

lemma reject_ok: "db_ok d \<Longrightarrow> db_ok (add_rejection c b w d)"
  by (simp add: db_ok_def add_rejection_def applied_def snaps_ok_def)

lemma apply_ok: "db_ok d \<Longrightarrow> db_ok (snd (apply_commit_with L wall c s gen b boot obs unobs d))"
proof -
  assume ok: "db_ok d"
  obtain out d' where a: "apply_commit_with L wall c s gen b boot obs unobs d = (out, d')" by fastforce
  show ?thesis
  proof (cases "out = Inr Applied")
    case True
    then obtain r where r: "boot \<noteq> []" "mget (d_cols d) c = Some r" "c_applied r < gen" "gen \<le> c_issued r"
        "admissible obs unobs" and d': "d' = applied_db L wall c s gen boot obs unobs r d"
      using a by (auto simp: apply_Applied_iff)
    have rok: "row_ok r" using ok r cols_ok_get [of "d_cols d" c r] by (simp add: db_ok_def)
    have "cols_ok (d_cols d')"
      using ok rok r by (auto simp: d' applied_db_def db_ok_def row_ok_def applied_row_def intro!: cols_ok_put)
    moreover have "distinct (map obj_key (d_objs d'))"
      using ok obj_table.keys_after [of "apply_rows c s obs" c s "d_objs d", OF apply_rows_scope] r(5)
      by (simp add: d' applied_db_def db_ok_def apply_rows_keys distinct_tagged admissible_def)
    moreover have "distinct (map unobs_key (d_unobs d'))"
      using ok unobs_table.keys_after [of "map (unobs_row_of c s) unobs" c s "d_unobs d", OF unobs_rows_scope] r(5)
      unfolding unobs_rows_keys distinct_tagged
      by (simp add: d' applied_db_def db_ok_def admissible_def)
    moreover have "\<forall>r \<in> set (d_objs d'). 0 < applied d' (o_collection r)"
      using ok r(3) apply_rows_scope
      by (auto simp: d' applied_db_applied) (auto simp: applied_db_def delete_objs_def db_ok_def)
    ultimately show ?thesis
      using ok a by (simp add: db_ok_def snaps_ok_def d' applied_db_def)
  next
    case False
    then have "d' = d \<or> (\<exists>w. d' = add_rejection c b w d)"
      using a by (auto simp: apply_commit_cases split: option.splits if_splits)
    then show ?thesis using ok a reject_ok by auto
  qed
qed

lemma update_applied:
  assumes "keeps_generations f"
  shows "applied (update_row c f d) c' = applied d c'" and "content (update_row c f d) c' = content d c'"
    and "issued_of (update_row c f d) c' = issued_of d c'"
  using assms by (auto simp: update_row_def applied_def content_def issued_of_def keeps_generations_def
      split: option.splits)

lemma update_same:
  "d_objs (update_row c f d) = d_objs d" "d_unobs (update_row c f d) = d_unobs d"
  "d_rels (update_row c f d) = d_rels d" "d_acks (update_row c f d) = d_acks d"
  "d_decls (update_row c f d) = d_decls d" "d_snaps (update_row c f d) = d_snaps d"
  "d_next_seq (update_row c f d) = d_next_seq d" "d_rejs (update_row c f d) = d_rejs d"
  by (simp_all add: update_row_def split: option.split)

lemma update_ok: "keeps_generations f \<Longrightarrow> db_ok d \<Longrightarrow> db_ok (update_row c f d)"
proof -
  assume f: "keeps_generations f" and ok: "db_ok d"
  have cols: "cols_ok (d_cols (update_row c f d))"
  proof (cases "mget (d_cols d) c")
    case (Some r)
    then have "row_ok (f r)"
      using f ok cols_ok_get [of "d_cols d" c r] by (simp add: db_ok_def row_ok_def keeps_generations_def)
    then show ?thesis using ok Some by (simp add: update_row_def db_ok_def cols_ok_put)
  qed (use ok in \<open>simp add: update_row_def db_ok_def\<close>)
  show ?thesis
    using ok cols update_applied(1) [OF f] by (simp add: db_ok_def update_same snaps_ok_def)
qed

lemma relation_of_edge: "edge_ok (relation_of L c s res inv' key declared a)"
  by (simp add: relation_of_def edge_ok_def Let_def)

lemma assertions_ok: "db_ok d \<Longrightarrow> db_ok (snd (apply_assertions L c s asserts types res inv' d))"
proof (cases "assemble L c s types res inv' [] asserts")
  case (Inr rels)
  assume ok: "db_ok d"
  have l: "list_all2 (assembled L c s types res inv') asserts rels" and k: "distinct (map r_key rels)"
    using Inr by (auto simp: assemble_Inr_iff)
  let ?out = "sort_key r_key rels"
  have sc: "r_collection r = c \<and> r_scope r = s" if "r \<in> set ?out" for r
    using assembled_all_scope [OF l] that by simp
  have edges: "edge_ok r" if "r \<in> set rels" for r
    using l that by (induction rule: list_all2_induct) (auto simp: assembled_def relation_of_edge)
  have "distinct (map rel_key ?out)"
    using rel_keys_distinct [of ?out c s, OF sc] k distinct_map_mset [of ?out rels r_key] by simp
  then have "distinct (map rel_key (delete_rels c s (d_rels d) @ ?out))"
    using rel_table.keys_after [of ?out c s "d_rels d", OF sc] ok by (simp add: db_ok_def)
  then show ?thesis
    using ok edges Inr
    by (auto simp: apply_assertions_eq db_ok_def snaps_ok_def applied_def delete_rels_def)
qed (simp add: apply_assertions_eq)

lemma upgrade_one_ok: "edge_ok r \<Longrightarrow> edge_ok (upgrade_one res p r)"
  and upgrade_one_rel_key: "rel_key (upgrade_one res p r) = rel_key r"
  by (auto simp: upgrade_one_def edge_ok_def rel_key_def split: option.split)

lemma fold_upgrade_ok: "edge_ok r \<Longrightarrow> edge_ok (fold (upgrade_one res) ps r)"
  and fold_upgrade_rel_key: "rel_key (fold (upgrade_one res) ps r) = rel_key r"
  by (induction ps arbitrary: r) (auto simp: upgrade_one_ok upgrade_one_rel_key)

lemma upgrade_db:
  "snd (upgrade_unresolved res d) =
     d\<lparr>d_rels := map (fold (upgrade_one res) (filter (\<lambda>r. \<not> r_resolved r) (d_rels d))) (d_rels d)\<rparr>"
  by (simp add: upgrade_unresolved_def upgrade_loop_eq)

lemma upgrade_ok: "db_ok d \<Longrightarrow> db_ok (snd (upgrade_unresolved res d))"
  by (auto simp: upgrade_db db_ok_def applied_def snaps_ok_def comp_def fold_upgrade_rel_key fold_upgrade_ok)

lemma record_snapshot_keeps:
  "d_cols (snd (record_snapshot sn d)) = d_cols d" "d_objs (snd (record_snapshot sn d)) = d_objs d"
  "d_unobs (snd (record_snapshot sn d)) = d_unobs d" "d_rels (snd (record_snapshot sn d)) = d_rels d"
  "d_acks (snd (record_snapshot sn d)) = d_acks d" "d_decls (snd (record_snapshot sn d)) = d_decls d"
  by (auto simp: record_snapshot_def split: option.split)

lemma snapshot_ok: "db_ok d \<Longrightarrow> db_ok (snd (record_snapshot sn d))"
  using record_snapshot_ok [of d sn] by (simp add: db_ok_def applied_def record_snapshot_keeps)

interpretation ok_relation: store_relation "\<lambda>d d'. db_ok d \<longrightarrow> db_ok d'"
proof
  show "db_ok d \<longrightarrow> db_ok (add_rejection c b w d)" for d c b w
    by (simp add: reject_ok)
  show "db_ok d \<longrightarrow> db_ok (record_declaration g doc d)" for d g doc
    by (simp add: db_ok_def record_declaration_def applied_def snaps_ok_def)
  show "db_ok d \<longrightarrow> db_ok (record_ack b gens h d)" for d b gens h
    by (simp add: db_ok_def record_ack_def applied_def snaps_ok_def)
qed (auto simp: issue_ok apply_ok update_ok snapshot_ok assertions_ok upgrade_ok)

section \<open>Generations advance, and name their content\<close>

definition advances :: "db \<Rightarrow> db \<Rightarrow> bool" where
  "advances d d' =
     (\<forall>c. issued_of d c \<le> issued_of d' c \<and> applied d c \<le> applied d' c \<and>
          (applied d c = applied d' c \<longrightarrow> content d c = content d' c \<and> rows_of c d = rows_of c d'))"

lemma advances_trans: "advances d d' \<Longrightarrow> advances d' d'' \<Longrightarrow> advances d d''"
  unfolding advances_def by (metis le_trans order_antisym)

lemma advances_same:
  "(\<And>c. applied d' c = applied d c \<and> content d' c = content d c \<and> issued_of d c \<le> issued_of d' c) \<Longrightarrow>
   d_objs d' = d_objs d \<Longrightarrow> advances d d'"
  by (simp add: advances_def rows_of_def)

lemma advances_cols: "d_cols d' = d_cols d \<Longrightarrow> d_objs d' = d_objs d \<Longrightarrow> advances d d'"
  by (rule advances_same) (simp_all add: applied_def content_def issued_of_def)

lemma apply_advances: "advances d (snd (apply_commit_with L wall c s gen b boot obs unobs d))"
proof -
  obtain out d' where a: "apply_commit_with L wall c s gen b boot obs unobs d = (out, d')" by fastforce
  show ?thesis
  proof (cases "out = Inr Applied")
    case True
    then obtain r where r: "mget (d_cols d) c = Some r" "c_applied r < gen" "gen \<le> c_issued r"
      and d': "d' = applied_db L wall c s gen boot obs unobs r d"
      using a by (auto simp: apply_Applied_iff)
    have "rows_of c' d' = rows_of c' d" if "c' \<noteq> c" for c'
      using obj_table.other_coll_after [of "apply_rows c s obs" c s c' "d_objs d", OF apply_rows_scope that]
      by (simp add: rows_of_def d' applied_db_def)
    then show ?thesis
      using r a by (auto simp: advances_def d' applied_def issued_of_def content_def applied_cols applied_row_def)
  next
    case False
    then have "d' = d \<or> (\<exists>w. d' = add_rejection c b w d)"
      using a by (auto simp: apply_commit_cases split: option.splits if_splits)
    then show ?thesis using a by (auto simp: add_rejection_def intro!: advances_cols)
  qed
qed

interpretation advance: store_relation advances
proof
  show "advances d (snd (issue_generations names g d))" for names g d
  proof -
    obtain out d' where i: "issue_generations names g d = (out, d')" by fastforce
    show ?thesis
      using issue_applied [OF i] issue_other(1) [OF i] by (simp add: i advances_same)
  qed
  show "advances d (update_row c f d)" if "keeps_generations f" for f d c
    by (rule advances_same) (simp_all add: update_applied [OF that] update_same)
  show "advances d (snd (apply_commit_with L wall c s gen b boot obs unobs d))" for L wall c s gen b boot obs unobs d
    by (rule apply_advances)
  show "advances d (snd (record_snapshot sn d))" for sn d
    by (rule advances_cols) (simp_all add: record_snapshot_keeps)
  show "advances d (snd (apply_assertions L c s asserts types res inv' d))" for L c s asserts types res inv' d
    by (rule advances_cols) (simp_all add: apply_assertions_eq split: sum.split)
  show "advances d (snd (upgrade_unresolved res' d))" for res' d
    by (rule advances_cols) (simp_all add: upgrade_db)
  show "advances d d'' " if "advances d d'" and "advances d' d''" for d d' d''
    using that by (rule advances_trans)
  show "advances d (add_rejection c b w d)" for d c b w
    by (rule advances_cols) (simp_all add: add_rejection_def)
  show "advances d (record_declaration g doc d)" for d g doc
    by (rule advances_cols) (simp_all add: record_declaration_def)
  show "advances d (record_ack b gens h d)" for d b gens h
    by (rule advances_cols) (simp_all add: record_ack_def)
qed (rule advances_cols, simp_all)

section \<open>Runs\<close>

text \<open>
  A run of the collator: acquisitions, with any collector behind the client and any clock,
  and prunings of the record.
\<close>

inductive collator_run :: "lib \<Rightarrow> db \<Rightarrow> db \<Rightarrow> bool" for L where
  run_start: "collator_run L d d"
| run_acquire: "collator_run L d d' \<Longrightarrow> collator_run L d (snd (acquire_once L ck cl d'))"
| run_prune: "collator_run L d d' \<Longrightarrow> collator_run L d (snd (prune_snapshots before d'))"

inductive_cases collator_runE: "collator_run L d d'"

lemma prune_keeps:
  "d_cols (snd (prune_snapshots before d)) = d_cols d" "d_objs (snd (prune_snapshots before d)) = d_objs d"
  "d_unobs (snd (prune_snapshots before d)) = d_unobs d" "d_rels (snd (prune_snapshots before d)) = d_rels d"
  "d_acks (snd (prune_snapshots before d)) = d_acks d" "d_decls (snd (prune_snapshots before d)) = d_decls d"
  by (simp_all add: prune_snapshots_def Let_def)

lemma prune_ok: "db_ok d \<Longrightarrow> db_ok (snd (prune_snapshots before d))"
proof -
  assume ok: "db_ok d"
  have "snaps_ok (snd (prune_snapshots before d))"
    using ok by (auto simp: db_ok_def prune_snapshots_def Let_def snaps_ok_def intro: strict_sorted_filter)
  then show ?thesis using ok by (simp add: db_ok_def prune_keeps applied_def)
qed

lemma empty_ok: "db_ok empty_db"
  by (simp add: db_ok_def empty_db_def cols_ok_def snaps_ok_def)

text \<open>
  Property C2. Whatever collectors send, the store stays sound. In every state a run from an
  empty store reaches, an applied generation was issued and has its content hash and boot id,
  issued generations fit 64 bits, primary keys are unique in every table, only an applied
  collection has objects, every edge has its minted source and is resolved exactly when it has
  a target, and the record's sequence numbers only grow.
\<close>

theorem reachable_store_ok:
  assumes "collator_run L empty_db d"
  shows "db_ok d"
proof -
  have "db_ok d0 \<Longrightarrow> db_ok d" if "collator_run L d0 d" for d0
    using that
  proof (induction rule: collator_run.induct)
    case (run_acquire d d' ck cl)
    then show ?case using ok_relation.R_acquire by blast
  qed (auto intro: prune_ok)
  then show ?thesis using assms empty_ok by blast
qed

text \<open>
  Property C3. Along any run, issued and applied generations never go back, and an applied
  generation names one content: as long as a collection's applied generation is the same, its
  content hash and its stored objects are the same.
\<close>

theorem generations_name_content:
  assumes "collator_run L d d'"
  shows "issued_of d c \<le> issued_of d' c \<and> applied d c \<le> applied d' c \<and>
     (applied d c = applied d' c \<longrightarrow> content d c = content d' c \<and> rows_of c d = rows_of c d')"
proof -
  have "advances d d'"
    using assms
  proof (induction rule: collator_run.induct)
    case (run_start d)
    show ?case by (rule advance.R_refl)
  next
    case (run_acquire d d' ck cl)
    show ?case using advance.R_trans [OF run_acquire.IH advance.R_acquire] .
  next
    case (run_prune d d' before)
    show ?case
      by (rule advance.R_trans [OF run_prune.IH]) (simp add: advances_cols prune_keeps)
  qed
  then show ?thesis by (simp add: advances_def)
qed

end
