(* ===== verification/Acquire.thy ===== *)
theory Acquire
  imports Authority
begin

text \<open>
  One acquisition as a whole (go/internal/collate/collate.go): what a failed one leaves, what a
  second delivery of a batch does, what a collection that did not answer and one that committed
  become, and what the edges are once a batch has landed; with the host the examples run on.
\<close>

section \<open>A host\<close>

text \<open>
  The host the examples run on: one collector, whose library hashes everything to the same
  digest, which is enough for a single batch.
\<close>

definition host_lib :: lib where
  "host_lib = \<lparr>sha256 = (\<lambda>s. ''00''), fmt_float = (\<lambda>x. ''0'')\<rparr>"

definition host_document :: string where
  \<open>host_document = ''{"collections":[{"name":"units","freshness":"30s","prefix":"unit","facts":{"N":{}},'' @
     ''"relations":[{"type":"in"}]}]}''\<close>

definition host_batch :: string where
  \<open>host_batch = concat (map (\<lambda>l. l @ newline)
    [''{"record":"begin","request":"r","batch":"b","declaration":"sha256:00",'' @
       ''"boot_id":"01234567-89ab-cdef-0123-456789abcdef","timens":0,"instance":null,"generations":{"units":1}}'',
     ''{"record":"object","collection":"units","name":"a","facts":{"N":1},"at":5}'',
     ''{"record":"relation_assertion","collection":"units","name":"a","type":"in","vantage":"v",'' @
       ''"target":{"kind":"unit","name":"a"}}'',
     ''{"record":"commit","collection":"units","generation":1,"objects":1,"assertions":1,"unobservable":0}'',
     ''{"record":"end","request":"r","batch":"b","wall_ms":12}''])\<close>

definition host_client :: "string \<Rightarrow> nat \<Rightarrow> client" where
  "host_client response n = \<lparr>cl_ceiling = 0,
     cl_socket = (\<lambda>request. Some (if is_prefix ''declare'' request then host_document else response))\<rparr>"

definition host_clock :: clock where
  "host_clock = \<lparr>ck_wall = (\<lambda>c. ''t''), ck_declined = (\<lambda>c. ''t''), ck_taken = (\<lambda>c. ''t''), ck_timens = 0\<rparr>"

definition host_cols :: "decl_collection list" where
  "host_cols =
     [\<lparr>dc_name = ''units'', dc_freshness = ''30s'', dc_prefix = ''unit'',
       dc_relations = [\<lparr>dr_type = ''in'', dr_carries = False, dr_discriminator = [], dr_inverse = False,
         dr_confirmed = []\<rparr>],
       dc_facts = [(''N'', JObj [])]\<rparr>]"

definition host_stream :: stream where
  "host_stream =
     \<lparr>st_objects =
        [\<lparr>ob_collection = ''units'', ob_name = ''a'', ob_type = [], ob_facts = JObj [(''N'', JNum ''1'')],
          ob_names = None, ob_absent = [], ob_evidence = None, ob_at = Fin 5\<rparr>],
      st_assertions =
        [\<lparr>rl_collection = ''units'', rl_name = ''a'', rl_type = ''in'', rl_vantage = ''v'',
          rl_target_kind = ''unit'', rl_target_name = ''a'', rl_facts = None\<rparr>],
      st_unobservables = [], st_decline = None,
      st_commit = Some \<lparr>cm_collection = ''units'', cm_generation = 1, cm_objects = 1, cm_assertions = 1,
        cm_unobservable = 0, cm_cpu = Fin (- 1)\<rparr>\<rparr>"

definition host_parsed :: batch where
  "host_parsed =
     \<lparr>b_begin = \<lparr>bg_request = ''r'', bg_batch = ''b'', bg_declaration = ''sha256:00'',
        bg_boot = ''01234567-89ab-cdef-0123-456789abcdef'', bg_timens = 0, bg_instance = None,
        bg_generations = [(''units'', 1)]\<rparr>,
      b_collections = [(''units'', host_stream)],
      b_end = \<lparr>en_request = ''r'', en_batch = ''b'', en_cpu = Fin 0, en_wall = Fin 12\<rparr>,
      b_hash = ''sha256:00''\<rparr>"

definition host_issued :: db where
  "host_issued = snd (issue_generations [''units''] ''sha256:00''
     (record_declaration ''sha256:00'' host_document empty_db))"

lemma host_declared: "parse_declaration host_document = Some ([], host_cols, [(''units'', 30000000000)])"
  by code_simp

lemma host_parse: "parse_batch (sha256 host_lib) host_batch [(''units'', 1)] = Inr host_parsed"
  by code_simp

lemma host_declare: "declare_doc (host_client host_batch n) = Inr host_document"
  by code_simp

lemma host_exchange: "exchange (host_client host_batch n) (collect_request [(''units'', 1)]) = Inr host_batch"
  by code_simp

lemma host_issue:
  "issue_generations [''units''] ''sha256:00'' (record_declaration ''sha256:00'' host_document empty_db) =
   (Inr [(''units'', 1)], host_issued)"
  by code_simp

lemma host_acquire:
  "acquire_once host_lib host_clock (host_client host_batch) empty_db =
   judge_batch host_lib host_clock host_cols [''units''] host_parsed host_issued"
proof -
  have digest: "content_hash (sha256 host_lib) raw = ''sha256:00''" for raw
    by (simp add: content_hash_def host_lib_def)
  have names: "sort (map dc_name host_cols) = [''units'']" by (simp add: host_cols_def)
  have decl: "bg_declaration (b_begin host_parsed) = ''sha256:00''" by (simp add: host_parsed_def)
  show ?thesis
    by (simp add: acquire_once_def host_declare host_declared collect_def host_exchange host_parse host_issue
        digest names decl del: sort_key_simps One_nat_def)
qed

lemma host_acquired: "fst (acquire_once host_lib host_clock (host_client host_batch) empty_db) = None"
  unfolding host_acquire by code_simp


lemma host_run: "collator_run host_lib empty_db (snd (acquire_once host_lib host_clock (host_client host_batch) empty_db))"
  by (rule run_acquire) (rule run_start)

lemma reachable_store_ok_witness: "db_ok (snd (acquire_once host_lib host_clock (host_client host_batch) empty_db))"
  by (rule reachable_store_ok) (rule host_run)

lemma generations_name_content_witness:
  "issued_of empty_db ''units'' \<le>
   issued_of (snd (acquire_once host_lib host_clock (host_client host_batch) empty_db)) ''units''"
  using generations_name_content [OF host_run, of "''units''"] by blast

section \<open>What a failed acquisition leaves\<close>

text \<open>Everything a reader is served, and the acknowledgements.\<close>

definition same_estate :: "db \<Rightarrow> db \<Rightarrow> bool" where
  "same_estate d d' =
     (d_objs d' = d_objs d \<and> d_unobs d' = d_unobs d \<and> d_rels d' = d_rels d \<and> d_snaps d' = d_snaps d \<and>
      d_acks d' = d_acks d \<and> (\<forall>c. applied d' c = applied d c \<and> content d' c = content d c))"

lemma same_refl [simp]: "same_estate d d"
  by (simp add: same_estate_def)

lemma same_trans: "same_estate d d' \<Longrightarrow> same_estate d' d'' \<Longrightarrow> same_estate d d''"
  by (simp add: same_estate_def)

lemma same_reject [simp]: "same_estate d (add_rejection c b w d)"
  by (simp add: same_estate_def add_rejection_def applied_def content_def)

lemma same_failure [simp]: "same_estate d (record_failure w d)"
  by (simp add: record_failure_def)

lemma same_failures [simp]: "same_estate d (fold (\<lambda>_. record_failure w) xs d)"
proof (induction xs arbitrary: d)
  case (Cons x xs)
  show ?case using same_trans [OF same_failure Cons] by simp
qed simp

lemma same_declaration [simp]: "same_estate d (record_declaration g doc d)"
  by (simp add: same_estate_def record_declaration_def applied_def content_def)

lemma same_issue: "issue_generations names g d = (out, d') \<Longrightarrow> same_estate d d'"
  using issue_applied(1,2) issue_other by (simp add: same_estate_def)

text \<open>The edges and the acknowledgements.\<close>

definition same_edges :: "db \<Rightarrow> db \<Rightarrow> bool" where
  "same_edges d d' = (d_rels d' = d_rels d \<and> d_acks d' = d_acks d)"

lemma same_edges_estate: "same_estate d d' \<Longrightarrow> same_edges d d'"
  by (simp add: same_estate_def same_edges_def)

lemma edges_apply: "apply_commit_with L wall c s gen b boot obs unobs d = (out, d') \<Longrightarrow> same_edges d d'"
  by (auto simp: apply_commit_cases applied_db_def add_rejection_def same_edges_def split: option.splits if_splits)

lemma edges_keep_record: "same_edges d (keep_record L ck name scope gen d)"
  by (simp add: keep_record_def same_edges_def add_rejection_def record_snapshot_keeps split: option.split)

lemma edges_update: "same_edges d (update_row c f d)"
  by (simp add: same_edges_def update_same)

lemma edges_trans: "same_edges d d' \<Longrightarrow> same_edges d' d'' \<Longrightarrow> same_edges d d''"
  by (simp add: same_edges_def)

lemma edges_commit: "same_edges d (snd (commit_collection L ck name scope gen b cs d))"
proof -
  define d1 where "d1 = (case st_commit cs of None \<Rightarrow> d
      | Some c \<Rightarrow> if 0 \<le> f64_val (cm_cpu c) then record_cost name (cm_cpu c) d else d)"
  have d1: "same_edges d d1"
    using edges_update same_edges_estate [OF same_refl] by (auto simp: d1_def record_cost_def split: option.split)
  obtain out d2 where ap: "apply_commit_with L (ck_wall ck name) name scope gen (bg_batch (b_begin b))
      (bg_boot (b_begin b)) (map (sobject_of name) (st_objects cs))
      (map (unobserved_of name) (st_unobservables cs)) d1 = (out, d2)" by fastforce
  have d2: "same_edges d d2" using edges_trans [OF d1 edges_apply [OF ap]] .
  have "same_edges d2 (case st_decline cs of None \<Rightarrow> d2
       | Some de \<Rightarrow> if de_reason de = ''absent'' then record_absent (ck_declined ck name) name (de_detail de) d2 else d2)"
    using edges_update same_edges_estate [OF same_refl] by (auto simp: record_absent_def split: option.split)
  from edges_trans [OF edges_trans [OF d2 this] edges_keep_record] d2 ap show ?thesis
    by (auto simp: commit_collection_def Let_def d1_def [symmetric] split: sum.split outcome.split)
qed

lemma edges_collection: "same_edges d (snd (apply_collection L ck name scope b d))"
proof -
  have skew: "same_edges d (record_timens_skew name k d)" for k
    by (simp add: record_timens_skew_def edges_update)
  show ?thesis
    by (auto simp: apply_collection_def Let_def mark_stale_with_def split: option.split
        intro!: edges_trans [OF skew] edges_commit edges_update same_edges_estate [OF same_reject])
qed

lemma edges_collections: "same_edges d (snd st) \<Longrightarrow> same_edges d (snd (apply_collections L ck scope b names st))"
proof (induction L ck scope b names st rule: apply_collections.induct)
  case (2 L ck scope b name names err d')
  have "same_edges d (snd (apply_collection L ck name scope b d'))"
    using 2(2) edges_trans [OF _ edges_collection] by simp
  then show ?case using 2(1) by (simp add: case_prod_unfold Let_def)
qed simp

lemma collection_error: "fst (apply_collection L ck name scope b d) \<in> {None, Some ''apply''}"
  by (auto simp: apply_collection_def commit_collection_def Let_def case_prod_unfold
      split: option.split sum.split outcome.split prod.split)

lemma collections_error:
  "fst st \<in> {None, Some ''apply''} \<Longrightarrow> fst (apply_collections L ck scope b names st) \<in> {None, Some ''apply''}"
proof (induction L ck scope b names st rule: apply_collections.induct)
  case (2 L ck scope b name names err d')
  then show ?case using collection_error [of L ck name scope b d'] by (auto simp: Let_def case_prod_unfold)
qed simp

lemma land_failure:
  assumes "land_batch L ck cols names b d = (Some e, d')"
  shows "same_edges d d' \<and> (e = ''apply'' \<or> same_estate d d')"
proof (cases "host_prefixes d (own_prefixes cols)")
  case None
  then show ?thesis using assms same_failure same_edges_estate by (auto simp: land_batch_def)
next
  case (Some prefixes)
  obtain by_kind contested where ix: "prefix_index_tolerant prefixes = (by_kind, contested)" by fastforce
  define d1 where "d1 = fold (\<lambda>_. record_failure ''ambiguous-prefix'') contested d"
  have d1: "same_estate d d1" by (simp add: d1_def)
  obtain err d2 where ap: "apply_collections L ck (scope_of b) b names (None, d1) = (err, d2)" by fastforce
  have d2: "same_edges d d2"
    using edges_collections [of d "(None, d1)"] ap same_edges_estate [OF d1] by (metis snd_conv)
  have err: "err \<in> {None, Some ''apply''}"
    using collections_error [of "(None, d1)" L ck "scope_of b" b names] ap by simp
  show ?thesis
    using assms Some ix ap d2 err same_trans [OF d1 same_failure] same_edges_estate
    by (auto simp: land_batch_def Let_def d1_def [symmetric] split: option.splits if_splits)
qed

text \<open>
  Property C1. An acquisition that fails applies nothing. Whatever stops it before a
  collection is applied (the collector does not answer, its declaration or its stream is
  malformed, no fetched declaration matches, the batch id is reused, a fact was never
  declared), every object, unobservable fact, edge, reading, acknowledgement, applied
  generation and content hash stays as it was; and even when applying a collection fails, no
  edge changes and the batch is not acknowledged, so that it can be sent again.
\<close>

theorem failed_acquisition_applies_nothing:
  assumes "acquire_once L ck cl d = (Some e, d')"
  shows "d_rels d' = d_rels d \<and> d_acks d' = d_acks d \<and>
     (e = ''apply'' \<or>
      d_objs d' = d_objs d \<and> d_unobs d' = d_unobs d \<and> d_snaps d' = d_snaps d \<and>
      (\<forall>c. applied d' c = applied d c \<and> content d' c = content d c))"
proof -
  have judged: "same_edges d0 d' \<and> (e = ''apply'' \<or> same_estate d0 d')"
    if "judge_batch L ck cols names b d0 = (Some e, d')" for cols names b d0
    using that land_failure same_reject same_edges_estate
    by (auto simp: judge_batch_def judge_acked_def split: option.splits if_splits prod.splits)
  have "same_edges d d' \<and> (e = ''apply'' \<or> same_estate d d')"
  proof (cases "declare_doc (cl 0)")
    case (Inl err)
    then show ?thesis using assms same_edges_estate by (auto simp: acquire_once_def)
  next
    case (Inr doc)
    let ?digest = "content_hash (sha256 L) doc"
    show ?thesis
    proof (cases "parse_declaration doc")
      case None
      then show ?thesis using assms Inr same_edges_estate by (auto simp: acquire_once_def Let_def)
    next
      case (Some p)
      then obtain collector cols fresh where p: "parse_declaration doc = Some (collector, cols, fresh)"
        by (cases p) auto
      obtain out d2 where i: "issue_generations (sort (map dc_name cols)) ?digest
          (record_declaration ?digest doc d) = (out, d2)" by fastforce
      have d2: "same_estate d d2" using same_trans [OF same_declaration same_issue [OF i]] .
      have *: "same_edges d d'' \<and> (e = ''apply'' \<or> same_estate d d'')"
        if "same_edges d2 d'' \<and> (e = ''apply'' \<or> same_estate d2 d'')" for d''
        using that d2 same_trans edges_trans same_edges_estate by blast
      have f: "same_edges d2 (record_failure w d2) \<and> (e = ''apply'' \<or> same_estate d2 (record_failure w d2))" for w
        using same_edges_estate by simp
      show ?thesis
        using assms Inr p i d2 same_edges_estate [OF d2] * [OF f] * [OF judged]
        by (auto simp: acquire_once_def Let_def split: sum.splits if_splits)
    qed
  qed
  then show ?thesis by (auto simp: same_edges_def same_estate_def)
qed

lemma failed_acquisition_applies_nothing_witness:
  "d_rels (record_failure ''empty-stream'' host_issued) = d_rels empty_db"
proof -
  have "acquire_once host_lib host_clock (host_client []) empty_db =
      (Some ''collect'', snd (acquire_once host_lib host_clock (host_client []) empty_db))"
    and "snd (acquire_once host_lib host_clock (host_client []) empty_db) = record_failure ''empty-stream'' host_issued"
    by code_simp+
  from failed_acquisition_applies_nothing [OF this(1)] this(2) show ?thesis
    by (simp add: record_failure_def add_rejection_def)
qed


section \<open>Retries\<close>

lemma record_ack_get:
  "mget (d_acks (record_ack bt gens h d)) bt =
     (case mget (d_acks d) bt of None \<Rightarrow> Some (gens, h) | Some gh \<Rightarrow> Some gh)"
  by (simp add: record_ack_def split: option.split)

lemma same_edges_failures: "d_acks (fold (\<lambda>_. record_failure w) xs d) = d_acks d"
  using same_failures [of d w xs] by (simp add: same_estate_def)

lemma apply_relations_acks: "d_acks (apply_relations L name scope b by_kind types d) = d_acks d"
  by (simp add: apply_relations_def apply_assertions_eq add_rejection_def split: option.split sum.split)

lemma all_relations_acks: "d_acks (all_relations L scope b by_kind cols names d) = d_acks d"
  unfolding all_relations_def
  by (induction names arbitrary: d) (simp_all add: apply_relations_acks)

lemma land_success:
  assumes "land_batch L ck cols names b d = (None, d')"
  obtains prefixes by_kind contested d2 where
    "host_prefixes d (own_prefixes cols) = Some prefixes"
    "prefix_index_tolerant prefixes = (by_kind, contested)"
    "check_declared_facts cols b"
    "apply_collections L ck (scope_of b) b names
       (None, fold (\<lambda>_. record_failure ''ambiguous-prefix'') contested d) = (None, d2)"
    "d' = record_ack (bg_batch (b_begin b)) (bg_generations (b_begin b)) (b_hash b)
       (snd (upgrade_unresolved
         (resolver_for by_kind (scope_of b) (all_relations L (scope_of b) b by_kind cols names d2))
         (all_relations L (scope_of b) b by_kind cols names d2)))"
proof (cases "host_prefixes d (own_prefixes cols)")
  case None
  then show ?thesis using assms by (simp add: land_batch_def)
next
  case (Some prefixes)
  obtain by_kind contested where ix: "prefix_index_tolerant prefixes = (by_kind, contested)" by fastforce
  obtain err d2 where ap: "apply_collections L ck (scope_of b) b names
      (None, fold (\<lambda>_. record_failure ''ambiguous-prefix'') contested d) = (err, d2)" by fastforce
  show ?thesis
    using that [OF Some ix] assms Some ix ap
    by (auto simp: land_batch_def Let_def split: if_splits option.splits)
qed

lemma land_acks:
  assumes "land_batch L ck cols names b d = (None, d')" and "mget (d_acks d) (bg_batch (b_begin b)) = None"
  shows "mget (d_acks d') (bg_batch (b_begin b)) = Some (bg_generations (b_begin b), b_hash b)"
proof -
  from assms(1) obtain prefixes by_kind contested d2 where
    "host_prefixes d (own_prefixes cols) = Some prefixes"
    and "prefix_index_tolerant prefixes = (by_kind, contested)" and "check_declared_facts cols b"
    and ap: "apply_collections L ck (scope_of b) b names
       (None, fold (\<lambda>_. record_failure ''ambiguous-prefix'') contested d) = (None, d2)"
    and d': "d' = record_ack (bg_batch (b_begin b)) (bg_generations (b_begin b)) (b_hash b)
       (snd (upgrade_unresolved
         (resolver_for by_kind (scope_of b) (all_relations L (scope_of b) b by_kind cols names d2))
         (all_relations L (scope_of b) b by_kind cols names d2)))"
    by (rule land_success)
  let ?st = "(None :: failure, fold (\<lambda>_. record_failure ''ambiguous-prefix'') contested d)"
  have "same_edges d (snd ?st)" by (simp add: same_edges_estate)
  from edges_collections [OF this, of L ck "scope_of b" b names] ap
  have "d_acks d2 = d_acks d" by (simp add: same_edges_def)
  then show ?thesis
    using assms(2) by (simp add: d' record_ack_get upgrade_db all_relations_acks)
qed

text \<open>
  Property C8. A batch that was taken is a retry when it comes again. Once judging and landing
  a batch has returned without error, the same bytes under the same batch id are recognised
  whatever declaration and clock they meet: nothing is applied, recorded or changed.
\<close>

theorem taken_batch_is_retry:
  assumes "judge_batch L ck cols names b d = (None, d')"
  shows "judge_batch L' ck' cols' names' b d' = (None, d')"
proof (cases "mget (d_acks d) (bg_batch (b_begin b))")
  case None
  then have "land_batch L ck cols names b d = (None, d')"
    using assms by (simp add: judge_batch_def judge_acked_def)
  from land_acks [OF this None] show ?thesis by (simp add: judge_batch_def judge_acked_def)
next
  case (Some gh)
  then show ?thesis
    using assms by (cases gh) (auto simp: judge_batch_def judge_acked_def split: if_splits)
qed

lemma taken_batch_is_retry_witness:
  "judge_batch host_lib host_clock [] [] host_parsed
     (snd (judge_batch host_lib host_clock host_cols [''units''] host_parsed host_issued)) =
   (None, snd (judge_batch host_lib host_clock host_cols [''units''] host_parsed host_issued))"
proof -
  have "judge_batch host_lib host_clock host_cols [''units''] host_parsed host_issued =
     (None, snd (judge_batch host_lib host_clock host_cols [''units''] host_parsed host_issued))"
    using host_acquired unfolding host_acquire by (metis prod.collapse)
  then show ?thesis by (rule taken_batch_is_retry)
qed

section \<open>Edges after an acquisition\<close>

lemma upgrade_one_resolved: "r_resolved r \<Longrightarrow> r_resolved (upgrade_one res p r)"
  by (simp add: upgrade_one_def split: option.split)

lemma upgrade_one_target:
  "r_target_kind (upgrade_one res p r) = r_target_kind r" "r_target_name (upgrade_one res p r) = r_target_name r"
  "r_collection (upgrade_one res p r) = r_collection r" "r_scope (upgrade_one res p r) = r_scope r"
  by (simp_all add: upgrade_one_def split: option.split)

lemma fold_upgrade_target:
  "r_target_kind (fold (upgrade_one res) ps r) = r_target_kind r"
  "r_target_name (fold (upgrade_one res) ps r) = r_target_name r"
  by (induction ps arbitrary: r) (simp_all add: upgrade_one_target)

lemma fold_upgrade_resolved: "r_resolved r \<Longrightarrow> r_resolved (fold (upgrade_one res) ps r)"
  by (induction ps arbitrary: r) (simp_all add: upgrade_one_resolved)

lemma fold_upgrade_resolves:
  "r \<in> set ps \<Longrightarrow> r_key r' = r_key r \<Longrightarrow> res (r_target_kind r) (r_target_name r) \<noteq> None \<Longrightarrow>
   r_resolved (fold (upgrade_one res) ps r')"
proof (induction ps arbitrary: r')
  case (Cons p ps)
  show ?case
  proof (cases "r = p")
    case True
    then have "r_resolved (upgrade_one res p r')" using Cons.prems by (auto simp: upgrade_one_def)
    then show ?thesis by (simp add: fold_upgrade_resolved)
  next
    case False
    then show ?thesis using Cons by simp
  qed
qed simp

lemma upgrade_leaves_none:
  assumes "r \<in> set (d_rels (snd (upgrade_unresolved res d)))" and "\<not> r_resolved r"
  shows "res (r_target_kind r) (r_target_name r) = None"
proof -
  obtain r0 where r0: "r0 \<in> set (d_rels d)"
      "r = fold (upgrade_one res) (filter (\<lambda>r. \<not> r_resolved r) (d_rels d)) r0"
    using assms(1) by (auto simp: upgrade_db)
  then have "\<not> r_resolved r0" using assms(2) fold_upgrade_resolved by blast
  then have "r0 \<in> set (filter (\<lambda>r. \<not> r_resolved r) (d_rels d))" using r0(1) by simp
  from fold_upgrade_resolves [OF this refl, of res] assms(2) r0(2)
  have "res (r_target_kind r0) (r_target_name r0) = None" by blast
  then show ?thesis by (simp add: r0(2) fold_upgrade_target)
qed

text \<open>
  Property C14. After a batch has landed, no edge stays unresolved beside its target. If a
  stored edge is unresolved and exactly one collection of the host declares the prefix its
  target's kind names, then that collection publishes no object of the target's name in the
  batch's scope.
\<close>

theorem no_edge_left_beside_its_target:
  assumes "land_batch L ck cols names b d = (None, d')"
    and "host_prefixes d (own_prefixes cols) = Some prefixes" and "mok prefixes"
    and "r \<in> set (d_rels d')" and "\<not> r_resolved r"
    and "r_target_kind r \<noteq> []" and "{c'. mget prefixes c' = Some (r_target_kind r)} = {c}"
  shows "\<not> (\<exists>ob \<in> set (d_objs d'). in_scope c (scope_of b) ob \<and> o_name ob = r_target_name r)"
proof -
  from assms(1) obtain prefixes' by_kind contested d2 where
    hp: "host_prefixes d (own_prefixes cols) = Some prefixes'"
    and ix: "prefix_index_tolerant prefixes' = (by_kind, contested)" and "check_declared_facts cols b"
    and "apply_collections L ck (scope_of b) b names
       (None, fold (\<lambda>_. record_failure ''ambiguous-prefix'') contested d) = (None, d2)"
    and d': "d' = record_ack (bg_batch (b_begin b)) (bg_generations (b_begin b)) (b_hash b)
       (snd (upgrade_unresolved
         (resolver_for by_kind (scope_of b) (all_relations L (scope_of b) b by_kind cols names d2))
         (all_relations L (scope_of b) b by_kind cols names d2)))"
    by (rule land_success)
  define d3 where "d3 = all_relations L (scope_of b) b by_kind cols names d2"
  define res where "res = resolver_for by_kind (scope_of b) d3"
  have d'': "d' = record_ack (bg_batch (b_begin b)) (bg_generations (b_begin b)) (b_hash b) (snd (upgrade_unresolved res d3))"
    by (simp add: d' res_def d3_def)
  have rels: "d_rels d' = d_rels (snd (upgrade_unresolved res d3))" and objs: "d_objs d' = d_objs d3"
    by (simp_all add: d'' record_ack_def upgrade_db)
  have "mget by_kind (r_target_kind r) = (case claims (r_target_kind r) prefixes of [c] \<Rightarrow> Some c | _ \<Rightarrow> None)"
    using tolerant_owner [of prefixes "r_target_kind r"] hp ix assms(2,6) by simp
  moreover have "claims (r_target_kind r) prefixes = [c]"
  proof -
    have "set (claims (r_target_kind r) prefixes) = {c}"
      using claims_iff [OF assms(3)] assms(7) by blast
    then show ?thesis
      using claims_distinct [OF assms(3), of "r_target_kind r"]
      by (cases "claims (r_target_kind r) prefixes"; cases "tl (claims (r_target_kind r) prefixes)") auto
  qed
  ultimately have "mget by_kind (r_target_kind r) = Some c" by simp
  moreover have "res (r_target_kind r) (r_target_name r) = None"
    using upgrade_leaves_none assms(4,5) rels by simp
  ultimately have "find (\<lambda>ob. in_scope c (scope_of b) ob \<and> o_name ob = r_target_name r) (d_objs d3) = None"
    by (simp add: res_def resolver_for_def)
  then show ?thesis by (simp add: objs find_None_iff)
qed


definition lonely_batch :: batch where
  "lonely_batch = host_parsed\<lparr>b_collections := [(''units'', host_stream\<lparr>st_assertions :=
     [\<lparr>rl_collection = ''units'', rl_name = ''a'', rl_type = ''in'', rl_vantage = ''v'',
       rl_target_kind = ''unit'', rl_target_name = ''z'', rl_facts = None\<rparr>]\<rparr>)]\<rparr>"

definition lonely_db :: db where
  "lonely_db = snd (land_batch host_lib host_clock host_cols [''units''] lonely_batch host_issued)"

definition lonely_edge :: rel_row where
  "lonely_edge = \<lparr>r_collection = ''units'', r_scope = [], r_key = ''rel-00'', r_source_id = ''units:a'',
     r_source_name = ''a'', r_type = ''in'', r_vantage = ''v'', r_target_kind = ''unit'', r_target_name = ''z'',
     r_target_id = None, r_resolved = False, r_facts = None, r_obs = Asserted\<rparr>"

lemma lonely_landed: "fst (land_batch host_lib host_clock host_cols [''units''] lonely_batch host_issued) = None"
  by code_simp

lemma lonely_rels: "d_rels lonely_db = [lonely_edge]"
  by code_simp

lemma host_prefix: "host_prefixes host_issued (own_prefixes host_cols) = Some [(''units'', ''unit'')]"
  by code_simp

lemma no_edge_left_beside_its_target_witness:
  "\<not> (\<exists>ob \<in> set (d_objs lonely_db). in_scope ''units'' [] ob \<and> o_name ob = ''z'')"
proof -
  have a: "land_batch host_lib host_clock host_cols [''units''] lonely_batch host_issued = (None, lonely_db)"
    using lonely_landed by (simp add: lonely_db_def prod_eq_iff)
  have m: "mok [(''units'', ''unit'')]" by (simp add: mok_def)
  have e: "lonely_edge \<in> set (d_rels lonely_db)" "\<not> r_resolved lonely_edge" "r_target_kind lonely_edge \<noteq> []"
    by (simp_all add: lonely_rels lonely_edge_def)
  have k: "{c'. mget [(''units'', ''unit'')] c' = Some (r_target_kind lonely_edge)} = {''units''}"
    by (auto simp: lonely_edge_def)
  have "\<not> (\<exists>ob \<in> set (d_objs lonely_db). in_scope ''units'' (scope_of lonely_batch) ob \<and>
      o_name ob = r_target_name lonely_edge)"
    by (rule no_edge_left_beside_its_target [OF a host_prefix m e k])
  then show ?thesis
    by (simp add: scope_of_def lonely_batch_def host_parsed_def host_native_def lonely_edge_def)
qed

text \<open>
  An edge is confirmed by the batch it came in, or not at all. An assembled edge
  is confirmed exactly when its type declares an observable inverse and a committed collection
  of the batch asserts that type back from its target to its source, the last such assertion
  carrying the same facts; with different facts it is contradicted, and without any it is
  only asserted.
\<close>

theorem edge_observability:
  assumes "apply_assertions L name scope asserts types res (Some (inverse_in b)) d = (Inr out, d')"
    and "r \<in> set out"
  shows "\<exists>declared. mget types (r_type r) = Some declared \<and>
    (let back = filter (\<lambda>t. rl_type t = rt_confirmed_by declared \<and> rl_name t = r_target_name r \<and>
                            rl_target_name t = r_source_name r) (committed_assertions b)
     in r_obs r = (if \<not> rt_inverse_observable declared \<or> rt_confirmed_by declared = [] \<or> back = [] then Asserted
                   else if same_facts L (r_facts r) (rl_facts (last back)) then Confirmed else Contradicted))"
proof -
  obtain rels where "list_all2 (assembled L name scope types res (Some (inverse_in b))) asserts rels"
    and "r \<in> set rels"
    using assms by (auto simp: apply_assertions_eq assemble_Inr_iff split: sum.splits)
  then obtain a where "assembled L name scope types res (Some (inverse_in b)) a r"
    by (auto simp: list_all2_conv_all_nth in_set_conv_nth)
  then obtain declared key where decl: "mget types (as_type a) = Some declared"
    and r: "r = relation_of L name scope res (Some (inverse_in b)) key declared a"
    by (auto simp: assembled_def)
  have find_last: "find P (rev xs) = (if filter P xs = [] then None else Some (last (filter P xs)))" for P and xs :: "relation_rec list"
    by (induction xs rule: rev_induct) auto
  show ?thesis
    using decl by (intro exI [of _ declared])
      (simp add: r relation_of_def Let_def observability_of_def inverse_in_def find_last)
qed

definition inverse_types :: "relation_type gomap" where
  "inverse_types = [(''in'', \<lparr>rt_discriminator = [], rt_inverse_observable = True, rt_confirmed_by = ''has''\<rparr>)]"

lemma edge_observability_witness:
  "\<exists>declared. mget inverse_types ''in'' = Some declared"
proof -
  let ?out = "case fst (apply_assertions host_lib ''units'' [] [assertion_of (hd (st_assertions host_stream))]
      inverse_types None (Some (inverse_in host_parsed)) empty_db) of Inr out \<Rightarrow> out | Inl _ \<Rightarrow> []"
  have "apply_assertions host_lib ''units'' [] [assertion_of (hd (st_assertions host_stream))]
      inverse_types None (Some (inverse_in host_parsed)) empty_db =
    (Inr ?out, snd (apply_assertions host_lib ''units'' [] [assertion_of (hd (st_assertions host_stream))]
      inverse_types None (Some (inverse_in host_parsed)) empty_db))"
    and r: "hd ?out \<in> set ?out" and ty: "r_type (hd ?out) = ''in''"
    by code_simp+
  from edge_observability [OF this(1) r] ty show ?thesis by auto
qed

section \<open>One collection of a batch\<close>

lemma keep_record_same:
  "d_cols (keep_record L ck name scope gen d) = d_cols d" "d_objs (keep_record L ck name scope gen d) = d_objs d"
  "d_unobs (keep_record L ck name scope gen d) = d_unobs d"
  by (simp_all add: keep_record_def add_rejection_def record_snapshot_keeps split: option.split)

lemma update_get:
  "mget (d_cols (update_row c f d)) c' = (if c' = c then map_option f (mget (d_cols d) c) else mget (d_cols d) c')"
  by (simp add: update_row_def split: option.split)

text \<open>
  Property C12. A collection that did not answer keeps what it had. One that neither committed
  nor declined is only recorded as uncommitted, under the batch; one that declined for any
  reason but absence keeps its objects, generation and content and is marked stale with the
  reason and detail it gave; nothing else of any collection's objects changes.
\<close>

theorem unanswered_collection_stands:
  assumes "case mget (b_collections b) name of
      None \<Rightarrow> why = None
    | Some cs \<Rightarrow> st_commit cs = None \<and> st_decline cs = None \<and> why = None \<or>
        (\<exists>de. st_decline cs = Some de \<and> de_reason de \<noteq> ''absent'' \<and> why = Some de)"
  shows "let (e, d') = apply_collection L ck name scope b d in
     e = None \<and> d_objs d' = d_objs d \<and> d_unobs d' = d_unobs d \<and> d_rels d' = d_rels d \<and> d_snaps d' = d_snaps d \<and>
     (\<forall>c. applied d' c = applied d c \<and> content d' c = content d c) \<and>
     (case why of
        None \<Rightarrow> d_rejs d' = d_rejs d @ [\<lparr>rj_collection = name, rj_batch = bg_batch (b_begin b),
                   rj_reason = ''uncommitted-collection''\<rparr>]
      | Some de \<Rightarrow> d_rejs d' = d_rejs d \<and>
          map_option (\<lambda>r. (c_stale r, c_stale_reason r, c_decline_reason r, c_decline_detail r))
            (mget (d_cols d') name) =
          map_option (\<lambda>r. (True, Some (de_reason de), Some (de_reason de), Some (de_detail de)))
            (mget (d_cols d) name))"
proof -
  have kg: "keeps_generations (\<lambda>r. r\<lparr>c_skew := k\<rparr>)"
    "keeps_generations (\<lambda>r. r\<lparr>c_stale := True, c_stale_reason := x, c_decline_reason := x,
       c_decline_detail := y, c_declined_at := z\<rparr>)" for k x y z
    by (simp_all add: keeps_generations_def)
  have rej: "applied (add_rejection c q w d0) c' = applied d0 c'" "content (add_rejection c q w d0) c' = content d0 c'"
    for c q w d0 c' by (simp_all add: applied_def content_def add_rejection_def)
  have adds: "d_objs (add_rejection c q w d0) = d_objs d0" "d_unobs (add_rejection c q w d0) = d_unobs d0"
    "d_rels (add_rejection c q w d0) = d_rels d0" "d_snaps (add_rejection c q w d0) = d_snaps d0"
    "d_rejs (add_rejection c q w d0) = d_rejs d0 @ [\<lparr>rj_collection = c, rj_batch = q, rj_reason = w\<rparr>]"
    for c q w d0 by (simp_all add: add_rejection_def)
  show ?thesis
    using assms
    by (auto simp: apply_collection_def Let_def record_timens_skew_def mark_stale_with_def update_same
        update_applied [OF kg(1)] update_applied [OF kg(2)] update_get rej adds option.map_comp comp_def
        split: option.splits)
qed

lemma unanswered_collection_stands_witness:
  "rows_of ''pools'' (snd (apply_collection host_lib host_clock ''pools'' [] host_parsed host_issued)) =
   rows_of ''pools'' host_issued"
proof -
  have "case mget (b_collections host_parsed) ''pools'' of
      None \<Rightarrow> (None :: decline_rec option) = None
    | Some cs \<Rightarrow> st_commit cs = None \<and> st_decline cs = None \<and> (None :: decline_rec option) = None \<or>
        (\<exists>de. st_decline cs = Some de \<and> de_reason de \<noteq> ''absent'' \<and> None = Some de)"
    by (simp add: host_parsed_def)
  from unanswered_collection_stands [OF this, of host_lib host_clock "[]" host_issued]
  show ?thesis
    by (cases "apply_collection host_lib host_clock ''pools'' [] host_parsed host_issued")
      (simp add: rows_of_def)
qed

text \<open>
  Property C11. A collection that committed is replaced by what it emitted. If its generation is
  new and was issued and the batch names each object and each unobservable fact once, applying
  it leaves in the batch's scope exactly the emitted objects, in order, under the ids minted
  from the collection and their names, each with the type, facts, display names, absent facts
  and observation time it was emitted with, and exactly the emitted unobservable facts, with
  their reasons; the collection is at that generation and boot, applied now and not stale, and
  it records that it was absent exactly when it said so, in which case it holds nothing.
\<close>

theorem committed_collection_lands:
  assumes "mget (b_collections b) name = Some cs" and "st_commit cs \<noteq> None"
    and "case st_decline cs of None \<Rightarrow> True | Some de \<Rightarrow> de_reason de = ''absent'' \<and> \<not> emits cs"
    and "mget (bg_generations (b_begin b)) name = Some gen" and "bg_boot (b_begin b) \<noteq> []"
    and "mget (d_cols d) name = Some r" and "c_applied r < gen" and "gen \<le> c_issued r"
    and "distinct (map ob_name (st_objects cs))"
    and "distinct (map (\<lambda>u. (un_name u, un_fact u)) (st_unobservables cs))"
  shows "let (e, d') = apply_collection L ck name scope b d in
     e = None \<and>
     objects_in_scope name scope d' =
       map (\<lambda>(n, ob).
           \<lparr>o_collection = name, o_scope = scope, o_id = name @ '':'' @ ob_name ob, o_name = ob_name ob,
            o_type = ob_type ob, o_facts = ob_facts ob, o_names = ob_names ob, o_absent = ob_absent ob,
            o_at = ob_at ob, o_seq = n\<rparr>)
         (zip [0..<length (st_objects cs)] (st_objects cs)) \<and>
     filter (\<lambda>u. u_collection u = name \<and> u_scope u = scope) (d_unobs d') =
       map (\<lambda>un.
           \<lparr>u_collection = name, u_scope = scope, u_object = name @ '':'' @ un_name un, u_fact = un_fact un,
            u_reason = un_reason un, u_detail = un_detail un\<rparr>)
         (st_unobservables cs) \<and>
     applied d' name = gen \<and>
     (\<exists>r'. mget (d_cols d') name = Some r' \<and> \<not> c_stale r' \<and>
        c_boot r' = Some (bg_boot (b_begin b)) \<and> c_applied_at r' = Some (ck_wall ck name) \<and>
        c_decline_reason r' = (if st_decline cs = None then None else Some ''absent'')) \<and>
     (st_decline cs \<noteq> None \<longrightarrow> objects_in_scope name scope d' = [])"
proof -
  define d0 where "d0 = record_timens_skew name (bg_timens (b_begin b) - ck_timens ck) d"
  define d1 where "d1 = (case st_commit cs of None \<Rightarrow> d0
      | Some c \<Rightarrow> if 0 \<le> f64_val (cm_cpu c) then record_cost name (cm_cpu c) d0 else d0)"
  let ?obs = "map (sobject_of name) (st_objects cs)" and ?un = "map (unobserved_of name) (st_unobservables cs)"
  have "\<exists>r1. mget (d_cols d1) name = Some r1 \<and> c_applied r1 = c_applied r \<and> c_issued r1 = c_issued r"
    using assms(6) by (simp add: d1_def d0_def record_timens_skew_def record_cost_def update_get split: option.split)
  then obtain r1 where r1: "mget (d_cols d1) name = Some r1" "c_applied r1 = c_applied r" "c_issued r1 = c_issued r"
    by blast
  have ids: "map so_id ?obs = map (mint_id name) (map ob_name (st_objects cs))"
    by (simp add: sobject_of_def)
  have uns: "map (\<lambda>u. (uo_object u, uo_fact u)) ?un =
      map (\<lambda>p. (mint_id name (fst p), snd p)) (map (\<lambda>u. (un_name u, un_fact u)) (st_unobservables cs))"
    by (simp add: unobserved_of_def)
  have inj: "inj (mint_id name)" "inj (\<lambda>p. (mint_id name (fst p), snd p))"
    by (auto simp: inj_def)
  have adm: "admissible ?obs ?un"
    unfolding admissible_def ids uns using assms(9,10) inj
    by (auto simp only: distinct_map intro: inj_on_subset)
  define d2 where "d2 = applied_db L (ck_wall ck name) name scope gen (bg_boot (b_begin b)) ?obs ?un r1 d1"
  have ap: "apply_commit_with L (ck_wall ck name) name scope gen (bg_batch (b_begin b)) (bg_boot (b_begin b)) ?obs ?un d1
      = (Inr Applied, d2)"
    using assms(5,7,8) r1 adm by (auto simp: apply_Applied_iff d2_def)
  define d3 where "d3 = (case st_decline cs of
      Some de \<Rightarrow> if de_reason de = ''absent'' then record_absent (ck_declined ck name) name (de_detail de) d2 else d2
    | None \<Rightarrow> d2)"
  have res: "apply_collection L ck name scope b d = (None, keep_record L ck name scope gen d3)"
  proof -
    have "commit_collection L ck name scope gen b cs d0 = (None, keep_record L ck name scope gen d3)"
      unfolding commit_collection_def d1_def [symmetric] Let_def ap d3_def by simp
    then show ?thesis
      using assms(1-4) by (auto simp: apply_collection_def Let_def d0_def [symmetric] split: option.splits)
  qed
  have objs: "objects_in_scope name scope (keep_record L ck name scope gen d3) = apply_rows name scope ?obs"
  proof -
    have "d_objs (keep_record L ck name scope gen d3) = d_objs d2"
      by (simp add: keep_record_same d3_def record_absent_def update_same split: option.split)
    then show ?thesis
      using applied_objects [of name scope L "ck_wall ck name" gen "bg_boot (b_begin b)" ?obs ?un r1 d1]
      by (simp add: objects_in_scope_def d2_def)
  qed
  have row: "mget (d_cols d2) name = Some (applied_row gen (ck_wall ck name) (hash_objects L ?obs) (bg_boot (b_begin b)) r1)"
    by (simp add: d2_def applied_cols)
  have shown: "apply_rows name scope ?obs =
      map (\<lambda>(n, ob).
           \<lparr>o_collection = name, o_scope = scope, o_id = name @ '':'' @ ob_name ob, o_name = ob_name ob,
            o_type = ob_type ob, o_facts = ob_facts ob, o_names = ob_names ob, o_absent = ob_absent ob,
            o_at = ob_at ob, o_seq = n\<rparr>)
         (zip [0..<length (st_objects cs)] (st_objects cs))"
    by (rule nth_equalityI) (simp_all add: apply_rows_def obj_row_of_def sobject_of_def mint_id_def)
  have untold: "filter (\<lambda>u. u_collection u = name \<and> u_scope u = scope) (d_unobs (keep_record L ck name scope gen d3)) =
      map (unobs_row_of name scope) ?un"
  proof -
    have "d_unobs (keep_record L ck name scope gen d3) = d_unobs d2"
      by (simp add: keep_record_same d3_def record_absent_def update_same split: option.split)
    then show ?thesis by (simp add: d2_def applied_unobs_scope)
  qed
  have none: "st_objects cs = []" if "st_decline cs \<noteq> None"
    using assms(3) that by (auto simp: emits_def)
  have row3: "\<exists>r'. mget (d_cols d3) name = Some r' \<and> \<not> c_stale r' \<and> c_applied r' = gen \<and>
      c_boot r' = Some (bg_boot (b_begin b)) \<and> c_applied_at r' = Some (ck_wall ck name) \<and>
      c_decline_reason r' = (if st_decline cs = None then None else Some ''absent'')"
    using row assms(3)
    by (auto simp: d3_def record_absent_def update_get applied_row_def split: option.splits)
  show ?thesis
    unfolding res Let_def prod.case objs untold shown keep_record_same(1) applied_def
    using row3 none by (auto simp: unobs_row_of_def unobserved_of_def mint_id_def)
qed

lemma committed_collection_lands_witness:
  "objects_in_scope ''units'' [] (snd (apply_collection host_lib host_clock ''units'' [] host_parsed host_issued)) =
     [\<lparr>o_collection = ''units'', o_scope = [], o_id = ''units:a'', o_name = ''a'', o_type = [],
       o_facts = JObj [(''N'', JNum ''1'')], o_names = None, o_absent = [], o_at = Fin 5, o_seq = 0\<rparr>]"
proof -
  let ?r = "fresh_row ''sha256:00''"
  have a: "mget (b_collections host_parsed) ''units'' = Some host_stream" "st_commit host_stream \<noteq> None"
    "case st_decline host_stream of None \<Rightarrow> True | Some de \<Rightarrow> de_reason de = ''absent'' \<and> \<not> emits host_stream"
    "mget (bg_generations (b_begin host_parsed)) ''units'' = Some 1" "bg_boot (b_begin host_parsed) \<noteq> []"
    "mget (d_cols host_issued) ''units'' = Some ?r" "c_applied ?r < 1" "1 \<le> c_issued ?r"
    "distinct (map ob_name (st_objects host_stream))"
    "distinct (map (\<lambda>u. (un_name u, un_fact u)) (st_unobservables host_stream))"
    by code_simp+
  show ?thesis
    using committed_collection_lands [OF a, of host_lib host_clock "[]"]
    by (cases "apply_collection host_lib host_clock ''units'' [] host_parsed host_issued")
      (simp add: Let_def host_stream_def)
qed

end
