(* ===== verification/JsonText.thy ===== *)
theory JsonText
  imports Json
begin

text \<open>
  What encoding/json writes, encoding/json reads. \<open>spelled\<close> relates the inside of a string
  literal to the string it stands for, so that each of the three writers of strings in the
  sources (\<open>json.Marshal\<close>, an encoder with \<open>SetEscapeHTML(false)\<close>, and the collectors'
  own \<open>appendJSONString\<close>) is one lemma; \<open>reads_as\<close> relates a text to the value that the
  reader takes off it, whatever follows. A byte that is not part of a UTF-8 sequence is read
  back as the replacement character.
\<close>

section \<open>UTF-8\<close>

function valid_utf8 :: "string \<Rightarrow> bool" where
  "valid_utf8 [] = True"
| "valid_utf8 (c # s) =
     (let k = utf8_len (c # s) in k \<noteq> 0 \<and> valid_utf8 (drop (k - 1) s))"
  by pat_completeness auto
termination
  by (relation "measure length") auto

declare valid_utf8.simps [simp del]

lemma utf8_len_take:
  assumes "utf8_len (c # s) \<noteq> 0"
  shows "utf8_len (c # take (utf8_len (c # s) - 1) s @ r) = utf8_len (c # s) \<and> utf8_len (c # s) \<le> Suc (length s)"
proof -
  consider "byte c < 128" | "\<not> byte c < 194" "byte c < 224" | "\<not> byte c < 224" "byte c < 240"
    | "\<not> byte c < 240" "byte c < 245"
    using assms by (force simp: utf8_len_def Let_def)
  then show ?thesis
  proof cases
    case 1
    then show ?thesis by (simp add: utf8_len_def)
  next
    case 2
    then show ?thesis using assms by (cases s) (simp_all add: utf8_len_def split: if_splits)
  next
    case 3
    then obtain a b t where s: "s = a # b # t" using assms by (cases s; cases "tl s") (auto simp: utf8_len_def)
    show ?thesis using 3 assms unfolding s by (simp add: utf8_len_def Let_def split: if_splits)
  next
    case 4
    then obtain a b d t where s: "s = a # b # d # t"
      using assms by (cases s; cases "tl s"; cases "tl (tl s)") (auto simp: utf8_len_def)
    show ?thesis using 4 assms unfolding s by (simp add: utf8_len_def Let_def split: if_splits)
  qed
qed

lemma hex_digits: "\<forall>n \<in> set [0..<16]. hex_val (hex_digit n) = Some n"
  by code_simp

lemma hex_digit_val: "n < 16 \<Longrightarrow> hex_val (hex_digit n) = Some n"
  by (rule hex_digits [THEN bspec]) simp

text \<open>A string with every stray byte replaced.\<close>

function utf8_fix :: "string \<Rightarrow> string" where
  "utf8_fix [] = []"
| "utf8_fix (c # s) =
     (let k = utf8_len (c # s) in
      if k = 0 then utf8_replacement @ utf8_fix s
      else c # take (k - 1) s @ utf8_fix (drop (k - 1) s))"
  by pat_completeness auto
termination
  by (relation "measure length") auto

declare utf8_fix.simps [simp del]

lemma utf8_fix_valid: "valid_utf8 s \<Longrightarrow> utf8_fix s = s"
proof (induction s rule: valid_utf8.induct)
  case (2 c s)
  then have "utf8_fix (drop (utf8_len (c # s) - 1) s) = drop (utf8_len (c # s) - 1) s"
    by (simp add: valid_utf8.simps(2) Let_def)
  with 2(2) show ?case by (simp add: utf8_fix.simps valid_utf8.simps(2) Let_def)
qed (simp add: utf8_fix.simps)

lemma utf8_len_ascii [simp]: "byte c < 128 \<Longrightarrow> utf8_len (c # s) = 1"
  by (simp add: utf8_len_def)

lemma utf8_fix_ascii: "byte c < 128 \<Longrightarrow> utf8_fix (c # s) = c # utf8_fix s"
  by (simp add: utf8_fix.simps)

text \<open>The length of a sequence depends on the bytes above ASCII that follow, and on nothing else.\<close>

abbreviation high :: "char \<Rightarrow> bool" where
  "high c \<equiv> 128 \<le> byte c"

lemma cont_high: "cont_byte c \<Longrightarrow> high c"
  by (simp add: cont_byte_def)

lemma utf8_len_low: "high c \<Longrightarrow> \<not> high a \<Longrightarrow> utf8_len (c # a # s) = 0"
  by (cases s; cases "tl s") (simp_all add: utf8_len_def Let_def cont_byte_def)

lemma utf8_len_second: "224 \<le> byte c \<Longrightarrow> \<not> high b \<Longrightarrow> utf8_len (c # a # b # s) = 0"
  by (cases s) (simp_all add: utf8_len_def Let_def cont_byte_def)

lemma utf8_len_third: "240 \<le> byte c \<Longrightarrow> \<not> high d \<Longrightarrow> utf8_len (c # a # b # d # s) = 0"
  by (simp add: utf8_len_def Let_def cont_byte_def)

lemma utf8_len_takeWhile: "utf8_len (c # takeWhile high s) = utf8_len (c # s)"
proof -
  have two: "utf8_len (c # a # s) = utf8_len (c # [a])" if "byte c < 224" for a s
    using that by (simp add: utf8_len_def Let_def)
  have three: "utf8_len (c # a # b # s) = utf8_len (c # [a, b])" if "byte c < 240" for a b s
    using that by (simp add: utf8_len_def Let_def)
  have four: "utf8_len (c # a # b # d # s) = utf8_len (c # [a, b, d])" for a b d s
    by (simp add: utf8_len_def Let_def)
  have one: "utf8_len [c] = 0" if "high c"
    using that by (simp add: utf8_len_def Let_def)
  have pair: "utf8_len [c, a] = 0" if "224 \<le> byte c" for a
    using that by (simp add: utf8_len_def Let_def)
  have triple: "utf8_len [c, a, b] = 0" if "240 \<le> byte c" for a b
    using that by (simp add: utf8_len_def Let_def)
  show ?thesis
  proof (cases "high c")
    case c: True
    show ?thesis
    proof (cases s)
      case s: (Cons a s1)
      show ?thesis
      proof (cases "high a")
        case True
        show ?thesis
        proof (cases "byte c < 224")
          case False
          then show ?thesis
          proof (cases s1)
            case s1: (Cons b s2)
            show ?thesis
            proof (cases "high b \<and> 240 \<le> byte c")
              case hb: True
              then show ?thesis
                using True s s1 four [of a b "hd s2" "takeWhile high (tl s2)"] four [of a b "hd s2" "tl s2"]
                  utf8_len_third triple
                by (cases s2) auto
            next
              case False
              then show ?thesis
                using True s s1 \<open>\<not> byte c < 224\<close> three [of a b s2] three [of a b "takeWhile high s2"]
                  utf8_len_second pair
                by auto
            qed
          qed (use s True in simp)
        qed (use s True two [of a s1] two [of a "takeWhile high s1"] in simp)
      qed (use s c one utf8_len_low in simp)
    qed simp
  qed (simp add: utf8_len_def)
qed

lemma utf8_len_high:
  "takeWhile high s = takeWhile high t \<Longrightarrow> utf8_len (c # s) = utf8_len (c # t)"
  by (metis utf8_len_takeWhile)

section \<open>String literals\<close>

inductive spelled :: "string \<Rightarrow> string \<Rightarrow> bool" where
  spelled_Nil: "spelled [] []"
| spelled_plain: "spelled t s \<Longrightarrow> 32 \<le> byte c \<Longrightarrow> byte c < 128 \<Longrightarrow> c \<noteq> CHR 0x22 \<Longrightarrow> c \<noteq> CHR 0x5C \<Longrightarrow>
    spelled (c # t) (c # s)"
| spelled_escape: "spelled t s \<Longrightarrow> (\<forall>r. json_escape (e @ r) = Some (bs, length e)) \<Longrightarrow>
    spelled (CHR 0x5C # e @ t) (bs @ s)"
| spelled_multi: "spelled t s \<Longrightarrow> high c \<Longrightarrow> utf8_len (c # m) = Suc (length m) \<Longrightarrow>
    spelled (c # m @ t) (c # m @ s)"
| spelled_stray: "spelled t s \<Longrightarrow> high c \<Longrightarrow> (\<forall>r. utf8_len (c # t @ CHR 0x22 # r) = 0) \<Longrightarrow>
    spelled (c # t) (utf8_replacement @ s)"

lemma spelled_read: "spelled t s \<Longrightarrow> read_str (t @ CHR 0x22 # r) = Some (s, r)"
proof (induction rule: spelled.induct)
  case spelled_Nil
  show ?case by (simp add: read_str.simps)
next
  case (spelled_plain t s c)
  then show ?case by (simp add: read_str.simps)
next
  case (spelled_escape t s e bs)
  then show ?case by (simp add: read_str.simps)
next
  case (spelled_multi t s c m)
  have "utf8_len (c # m @ t @ CHR 0x22 # r) = Suc (length m)"
    using utf8_len_take [of c m "t @ CHR 0x22 # r"] spelled_multi.hyps(3) by simp
  moreover have "c \<noteq> CHR 0x22" "c \<noteq> CHR 0x5C" using spelled_multi.hyps(2) by auto
  ultimately show ?case using spelled_multi by (simp add: read_str.simps)
next
  case (spelled_stray t s c)
  moreover have "c \<noteq> CHR 0x22" "c \<noteq> CHR 0x5C" using spelled_stray.hyps(2) by auto
  ultimately show ?case by (simp add: read_str.simps)
qed


text \<open>What the escapes of the writers stand for.\<close>

lemma escape_short:
  "json_escape (CHR 0x22 # r) = Some ([CHR 0x22], 1)" "json_escape (CHR 0x5C # r) = Some ([CHR 0x5C], 1)"
  "json_escape (CHR ''b'' # r) = Some ([CHR 0x08], 1)" "json_escape (CHR ''f'' # r) = Some ([CHR 0x0C], 1)"
  "json_escape (CHR ''n'' # r) = Some ([CHR 0x0A], 1)" "json_escape (CHR ''r'' # r) = Some ([CHR 0x0D], 1)"
  "json_escape (CHR ''t'' # r) = Some ([CHR 0x09], 1)"
  by (simp_all add: json_escape_def)

lemma hex4_byte:
  "hex4 (CHR ''0'' # CHR ''0'' # hex_digit (byte c div 16) # hex_digit (byte c mod 16) # r) = Some (byte c)"
proof -
  have "hex_val CHR ''0'' = Some 0" by code_simp
  moreover have "byte c div 16 < 16"
    using of_char_mod_256 [of c, where 'a = nat]
    by (metis less_mult_imp_div_less mod_less_divisor numeral_times_numeral semiring_norm(12)
        semiring_norm(13) semiring_norm(11) zero_less_numeral)
  ultimately show ?thesis by (simp add: hex4_def hex_digit_val)
qed

lemma escape_control:
  "byte c < 128 \<Longrightarrow>
   json_escape (CHR ''u'' # CHR ''0'' # CHR ''0'' # hex_digit (byte c div 16) # hex_digit (byte c mod 16) # r) =
   Some ([c], 5)"
  by (simp add: json_escape_def hex4_byte utf8_enc_def)

lemma escape_points:
  "json_escape (CHR ''u'' # CHR ''f'' # CHR ''f'' # CHR ''f'' # CHR ''d'' # r) = Some (utf8_replacement, 5)"
  "json_escape (CHR ''u'' # CHR ''2'' # CHR ''0'' # CHR ''2'' # CHR ''8'' # r) = Some ([CHR 0xE2, CHR 0x80, CHR 0xA8], 5)"
  "json_escape (CHR ''u'' # CHR ''2'' # CHR ''0'' # CHR ''2'' # CHR ''9'' # r) = Some ([CHR 0xE2, CHR 0x80, CHR 0xA9], 5)"
proof -
  have v: "hex_val CHR ''f'' = Some 15" "hex_val CHR ''d'' = Some 13" "hex_val CHR ''2'' = Some 2"
    "hex_val CHR ''0'' = Some 0" "hex_val CHR ''8'' = Some 8" "hex_val CHR ''9'' = Some 9"
    by code_simp+
  have e: "utf8_enc 65533 = utf8_replacement" "utf8_enc 8232 = [CHR 0xE2, CHR 0x80, CHR 0xA8]"
    "utf8_enc 8233 = [CHR 0xE2, CHR 0x80, CHR 0xA9]"
    by code_simp+
  show
    "json_escape (CHR ''u'' # CHR ''f'' # CHR ''f'' # CHR ''f'' # CHR ''d'' # r) = Some (utf8_replacement, 5)"
    "json_escape (CHR ''u'' # CHR ''2'' # CHR ''0'' # CHR ''2'' # CHR ''8'' # r) = Some ([CHR 0xE2, CHR 0x80, CHR 0xA8], 5)"
    "json_escape (CHR ''u'' # CHR ''2'' # CHR ''0'' # CHR ''2'' # CHR ''9'' # r) = Some ([CHR 0xE2, CHR 0x80, CHR 0xA9], 5)"
    by (simp_all add: json_escape_def hex4_def v e)
qed

lemma spelled_short:
  assumes "spelled t s" and "\<And>r. json_escape (x # r) = Some ([c], 1)"
  shows "spelled (CHR 0x5C # x # t) (c # s)"
  using spelled_escape [OF assms(1), of "[x]" "[c]"] assms(2) by simp

lemma spelled_byte:
  assumes "spelled t s" and "byte c < 128"
  shows "spelled (enc_byte c @ t) (c # s)"
proof -
  have control: "spelled (CHR 0x5C # CHR ''u'' # CHR ''0'' # CHR ''0'' # hex_digit (byte c div 16) #
      hex_digit (byte c mod 16) # t) (c # s)"
    using spelled_escape [OF assms(1), of "CHR ''u'' # CHR ''0'' # CHR ''0'' #
        [hex_digit (byte c div 16), hex_digit (byte c mod 16)]" "[c]"] assms(2)
    by (simp add: escape_control)
  have short: "spelled ([CHR 0x5C, x] @ t) (c # s)" if "\<And>r. json_escape (x # r) = Some ([c], 1)" for x
    using spelled_short [OF assms(1) that] by simp
  define S where "S = {CHR 0x22, CHR 0x5C, CHR 0x08, CHR 0x0C, CHR 0x0A, CHR 0x0D, CHR 0x09}"
  show ?thesis
  proof (cases "c \<in> S")
    case True
    then have "\<exists>x. enc_byte c = [CHR 0x5C, x] \<and> (\<forall>r. json_escape (x # r) = Some ([c], 1))"
      unfolding S_def by (elim insertE) (simp_all add: enc_byte_def escape_short)
    then obtain x where "enc_byte c = [CHR 0x5C, x]" "\<forall>r. json_escape (x # r) = Some ([c], 1)" by blast
    then show ?thesis using short [of x] by simp
  next
    case False
    then show ?thesis
      using control spelled_plain [OF assms(1), of c] assms(2) by (simp add: enc_byte_def S_def)
  qed
qed

lemma utf8_len_multi:
  assumes "utf8_len (c # s) \<noteq> 0"
  shows "utf8_len (c # take (utf8_len (c # s) - 1) s) = Suc (length (take (utf8_len (c # s) - 1) s))"
  using utf8_len_take [OF assms, of "[]"] assms by auto

lemma utf8_len_tail_high:
  assumes "high c" and "utf8_len (c # s) = Suc k" and "x \<in> set (take k s)"
  shows "high x"
proof -
  consider "byte c < 224" | "224 \<le> byte c" "byte c < 240" | "240 \<le> byte c" by linarith
  then show ?thesis
  proof cases
    case 1
    then show ?thesis
      using assms by (cases s) (auto simp: utf8_len_def Let_def cont_byte_def split: if_splits)
  next
    case 2
    show ?thesis
    proof (cases "2 \<le> length s")
      case True
      then obtain a b r where s: "s = a # b # r" by (metis Suc_le_length_iff numeral_2_eq_2)
      have "high a \<and> high b \<and> k = 2"
        using 2 assms(2) unfolding s by (auto simp: utf8_len_def Let_def cont_byte_def split: if_splits)
      then show ?thesis using assms(3) s by (auto simp: numeral_2_eq_2)
    next
      case False
      then have "utf8_len (c # s) = 0"
        using 2 by (cases s; cases "tl s") (auto simp: utf8_len_def Let_def)
      then show ?thesis using assms(2) by simp
    qed
  next
    case 3
    show ?thesis
    proof (cases "3 \<le> length s")
      case True
      then obtain a b d r where s: "s = a # b # d # r" by (metis Suc_le_length_iff numeral_3_eq_3)
      have "high a \<and> high b \<and> high d \<and> k = 3"
        using 3 assms(2) unfolding s by (auto simp: utf8_len_def Let_def cont_byte_def split: if_splits)
      then show ?thesis using assms(3) s by (auto simp: numeral_3_eq_3)
    next
      case False
      then have "utf8_len (c # s) = 0"
        using 3 by (cases s; cases "tl s"; cases "tl (tl s)") (auto simp: utf8_len_def Let_def)
      then show ?thesis using assms(2) by simp
    qed
  qed
qed

definition printable :: "string \<Rightarrow> bool" where
  "printable s = (\<forall>x \<in> set s. 32 \<le> byte x)"

lemma printable_simps [simp]:
  "printable []" "printable (c # s) = (32 \<le> byte c \<and> printable s)"
  "printable (s @ t) = (printable s \<and> printable t)"
  by (auto simp: printable_def)

lemma printable_newline: "printable s \<Longrightarrow> CHR 0x0A \<notin> set s"
  by (auto simp: printable_def)

lemma hex_digit_printable: "n < 16 \<Longrightarrow> 32 \<le> byte (hex_digit n)"
  by (simp add: hex_digit_def)

lemma enc_byte_printable: "byte c < 128 \<Longrightarrow> printable (enc_byte c)"
  by (auto simp: enc_byte_def hex_digit_printable)

text \<open>
  A writer of strings: a byte at a time on ASCII, sequence by sequence above it. Both writers of
  encoding/json are one, with different bytes escaped.
\<close>

locale string_writer =
  fixes wb :: "char \<Rightarrow> string"
    and w :: "string \<Rightarrow> string"
  assumes byte_spelled: "byte c < 128 \<Longrightarrow> spelled t s \<Longrightarrow> spelled (wb c @ t) (c # s)"
    and byte_printable: "byte c < 128 \<Longrightarrow> printable (wb c)"
    and w_Nil: "w [] = []"
    and w_Cons: "w (c # s) =
     (if byte c < 128 then wb c @ w s
      else if is_prefix [CHR 0xE2, CHR 0x80, CHR 0xA8] (c # s) then
        CHR 0x5C # ''u2028'' @ w (drop 2 s)
      else if is_prefix [CHR 0xE2, CHR 0x80, CHR 0xA9] (c # s) then
        CHR 0x5C # ''u2029'' @ w (drop 2 s)
      else (let k = utf8_len (c # s) in
            if k = 0 then CHR 0x5C # ''ufffd'' @ w s
            else c # take (k - 1) s @ w (drop (k - 1) s)))"
begin

lemma separator_spelled:
  assumes "c # s = [CHR 0xE2, CHR 0x80, x] @ r" and "w (c # s) = CHR 0x5C # e @ w r"
    and "\<forall>r. json_escape (e @ r) = Some ([CHR 0xE2, CHR 0x80, x], length e)"
    and "x \<in> {CHR 0xA8, CHR 0xA9}" and "spelled (w r) (utf8_fix r)"
  shows "spelled (w (c # s)) (utf8_fix (c # s))"
proof -
  have "utf8_fix (c # s) = [CHR 0xE2, CHR 0x80, x] @ utf8_fix r"
    using assms(1,4) by (auto simp: utf8_fix.simps utf8_len_def cont_byte_def)
  then show ?thesis using spelled_escape [OF assms(5,3)] assms(2) by simp
qed

lemma w_spelled: "spelled (w s) (utf8_fix s)"
proof (induction s rule: length_induct)
  case (1 xs)
  show ?case
  proof (cases xs)
    case Nil
    then show ?thesis by (simp add: w_Nil utf8_fix.simps spelled_Nil)
  next
    case (Cons c s)
    have IH: "spelled (w r) (utf8_fix r)" if "length r \<le> length s" for r
      using 1 Cons that by simp
    define k where "k = utf8_len (c # s)"
    show ?thesis
    proof (cases "byte c < 128")
      case True
      then show ?thesis using IH [of s] Cons by (simp add: w_Cons utf8_fix_ascii byte_spelled)
    next
      case c: False
      consider (ls) r where "c # s = [CHR 0xE2, CHR 0x80, CHR 0xA8] @ r"
        | (ps) r where "c # s = [CHR 0xE2, CHR 0x80, CHR 0xA9] @ r"
        | (other) "\<not> is_prefix [CHR 0xE2, CHR 0x80, CHR 0xA8] (c # s)" "\<not> is_prefix [CHR 0xE2, CHR 0x80, CHR 0xA9] (c # s)"
        by (auto simp: is_prefix_iff)
      then show ?thesis
      proof cases
        case ls
        then show ?thesis
          unfolding Cons by (intro separator_spelled [OF ls, of "''u2028''"]) (auto simp: w_Cons escape_points IH)
      next
        case ps
        then show ?thesis
          unfolding Cons by (intro separator_spelled [OF ps, of "''u2029''"]) (auto simp: w_Cons escape_points IH)
      next
        case other
        then have w: "w (c # s) = (if k = 0 then CHR 0x5C # ''ufffd'' @ w s
              else c # take (k - 1) s @ w (drop (k - 1) s))"
          using c by (simp only: w_Cons if_False Let_def k_def)
        show ?thesis
        proof (cases "k = 0")
          case True
          then show ?thesis
            using w Cons IH [of s] spelled_escape [of "w s" "utf8_fix s" "''ufffd''" utf8_replacement]
            by (simp add: utf8_fix.simps k_def escape_points)
        next
          case False
          then show ?thesis
            using w Cons c IH [of "drop (k - 1) s"] utf8_len_multi [of c s]
              spelled_multi [of "w (drop (k - 1) s)" "utf8_fix (drop (k - 1) s)" c "take (k - 1) s"]
            by (simp add: utf8_fix.simps k_def Let_def)
        qed
      qed
    qed
  qed
qed

lemma w_printable: "printable (w s)"
proof (induction s rule: length_induct)
  case (1 xs)
  show ?case
  proof (cases xs)
    case (Cons c s)
    have IH: "printable (w (drop n s))" for n using 1 Cons by simp
    have "printable (take k s)" if "high c" "utf8_len (c # s) = Suc k" for k
      using utf8_len_tail_high [OF that] by (force simp: printable_def)
    then show ?thesis
      using IH [of 0] IH Cons byte_printable [of c]
      by (cases "utf8_len (c # s)") (auto simp: w_Cons Let_def)
  qed (simp add: w_Nil)
qed

end

text \<open>The encoder after \<open>SetEscapeHTML(false)\<close>: the three characters of HTML go as they are.\<close>

definition plain_byte :: "char \<Rightarrow> string" where
  "plain_byte c = (if c = CHR ''<'' \<or> c = CHR ''>'' \<or> c = CHR ''&'' then [c] else enc_byte c)"

function plain_chars :: "string \<Rightarrow> string" where
  "plain_chars [] = []"
| "plain_chars (c # s) =
     (if byte c < 128 then plain_byte c @ plain_chars s
      else if is_prefix [CHR 0xE2, CHR 0x80, CHR 0xA8] (c # s) then
        CHR 0x5C # ''u2028'' @ plain_chars (drop 2 s)
      else if is_prefix [CHR 0xE2, CHR 0x80, CHR 0xA9] (c # s) then
        CHR 0x5C # ''u2029'' @ plain_chars (drop 2 s)
      else (let k = utf8_len (c # s) in
            if k = 0 then CHR 0x5C # ''ufffd'' @ plain_chars s
            else c # take (k - 1) s @ plain_chars (drop (k - 1) s)))"
  by pat_completeness auto
termination
  by (relation "measure length") auto

declare plain_chars.simps [simp del]

definition plain_str :: "string \<Rightarrow> string" where
  "plain_str s = CHR 0x22 # plain_chars s @ [CHR 0x22]"

interpretation marshal_writer: string_writer enc_byte enc_chars
  by unfold_locales (simp_all only: spelled_byte enc_byte_printable enc_chars.simps)

interpretation plain_writer: string_writer plain_byte plain_chars
proof
  fix c t s
  assume "byte c < 128" and "spelled t s"
  then show "spelled (plain_byte c @ t) (c # s)"
    using spelled_plain [of t s c] by (auto simp: plain_byte_def spelled_byte)
next
  fix c
  assume "byte c < 128"
  then show "printable (plain_byte c)"
    by (auto simp: plain_byte_def enc_byte_printable)
qed (simp_all only: plain_chars.simps)

section \<open>Number lexemes\<close>

definition delimited :: "string \<Rightarrow> bool" where
  "delimited r = (r = [] \<or> hd r \<in> {CHR '','', CHR '']'', CHR ''}''} \<or> is_ws (hd r))"

definition json_number :: "string \<Rightarrow> bool" where
  "json_number n = (read_num n = Some (n, []))"

lemma takeWhile_append_delimited:
  assumes "\<And>c. P c \<Longrightarrow> is_digit c" and "delimited r"
  shows "takeWhile P (t @ r) = takeWhile P t" and "dropWhile P (t @ r) = dropWhile P t @ r"
proof -
  have "\<not> P (hd r)" if "r \<noteq> []"
    using assms that by (auto simp: delimited_def is_ws_def is_digit_def dest!: assms(1))
  then have "takeWhile P r = []" "dropWhile P r = r" by (cases r; auto)+
  then show "takeWhile P (t @ r) = takeWhile P t" and "dropWhile P (t @ r) = dropWhile P t @ r"
    by (induction t) auto
qed

lemmas digits_delimited = takeWhile_append_delimited [where P = is_digit, OF _ _, simplified]

lemma delimited_mark: "delimited (c # r) \<Longrightarrow> c \<noteq> CHR ''.'' \<and> c \<noteq> CHR ''e'' \<and> c \<noteq> CHR ''E''"
  by (auto simp: delimited_def is_ws_def)

lemma read_int_append: "read_int s = Some (ds, q) \<Longrightarrow> delimited r \<Longrightarrow> read_int (s @ r) = Some (ds, q @ r)"
  by (cases s) (auto simp: read_int_def digits_delimited split: if_splits)

lemma read_frac_append: "read_frac s = Some (ds, q) \<Longrightarrow> delimited r \<Longrightarrow> read_frac (s @ r) = Some (ds, q @ r)"
  by (cases s; cases r)
     (auto simp: read_frac_def digits_delimited Let_def dest: delimited_mark split: if_splits)

lemma read_exp_append:
  assumes "read_exp s = Some (ds, q)" and "delimited r"
  shows "read_exp (s @ r) = Some (ds, q @ r)"
proof (cases s)
  case Nil
  then show ?thesis using assms by (cases r) (auto simp: read_exp_def dest: delimited_mark)
next
  case (Cons c t)
  then show ?thesis
    using assms by (cases t) (auto simp: read_exp_def digits_delimited Let_def split: if_splits)
qed

lemma read_num_append:
  assumes "read_num s = Some (n, q)" and "delimited r"
  shows "read_num (s @ r) = Some (n, q @ r)"
proof -
  let ?sg = "case s of c # _ \<Rightarrow> if c = CHR ''-'' then [c] else [] | [] \<Rightarrow> []"
  obtain ds r1 fr r2 ex where i: "read_int (drop (length ?sg) s) = Some (ds, r1)"
    and f: "read_frac r1 = Some (fr, r2)" and e: "read_exp r2 = Some (ex, q)" and n: "n = ?sg @ ds @ fr @ ex"
    using assms(1) unfolding read_num_def Let_def by (auto split: option.splits)
  have "s \<noteq> []" using i by (auto simp: read_int_def)
  then have sg: "(case s @ r of c # _ \<Rightarrow> if c = CHR ''-'' then [c] else [] | [] \<Rightarrow> []) = ?sg"
    and "length ?sg \<le> length s"
    by (cases s; simp)+
  then show ?thesis
    using read_int_append [OF i assms(2)] read_frac_append [OF f assms(2)] read_exp_append [OF e assms(2)] n
    unfolding read_num_def Let_def sg by simp
qed

lemma json_number_start:
  "json_number n \<Longrightarrow> \<exists>c t. n = c # t \<and> (c = CHR ''-'' \<or> is_digit c)"
  by (cases n) (auto simp: json_number_def read_num_def read_int_def Let_def is_digit_def split: if_splits)

text \<open>The bytes of a number: none is white space, a quote or a control character.\<close>

abbreviation number_bytes :: "string \<Rightarrow> bool" where
  "number_bytes s \<equiv> list_all (\<lambda>c. 43 \<le> byte c) s"

lemma takeWhile_digits: "number_bytes (takeWhile is_digit s)"
  by (induction s) (auto simp: is_digit_def)

lemma json_number_bytes:
  assumes "json_number n"
  shows "number_bytes n"
proof -
  have i: "number_bytes ds" if "read_int s = Some (ds, q)" for s ds q
    using that takeWhile_digits by (cases s) (auto simp: read_int_def is_digit_def split: if_splits)
  have f: "number_bytes ds" if "read_frac s = Some (ds, q)" for s ds q
    using that takeWhile_digits by (cases s) (auto simp: read_frac_def Let_def split: if_splits)
  have e: "number_bytes ds" if "read_exp s = Some (ds, q)" for s ds q
    using that takeWhile_digits
    by (cases s) (auto simp: read_exp_def Let_def is_digit_def split: if_splits list.splits)
  let ?sg = "case n of c # _ \<Rightarrow> if c = CHR ''-'' then [c] else [] | [] \<Rightarrow> []"
  obtain ds r1 fr r2 ex r3 where "read_int (drop (length ?sg) n) = Some (ds, r1)" "read_frac r1 = Some (fr, r2)"
    "read_exp r2 = Some (ex, r3)" and n: "n = ?sg @ ds @ fr @ ex"
    using assms unfolding json_number_def read_num_def Let_def by (auto split: option.splits)
  then have "number_bytes (ds @ fr @ ex)" using i f e by simp
  moreover have "number_bytes ?sg" by (simp split: list.split)
  ultimately have "number_bytes (?sg @ ds @ fr @ ex)" by simp
  then show ?thesis using n by metis
qed

lemma json_number_printable: "json_number n \<Longrightarrow> printable n"
  using json_number_bytes by (fastforce simp: printable_def list_all_iff)

lemma nat_str_leading: "nat_str n = CHR ''0'' # t \<Longrightarrow> t = []"
proof (induction n arbitrary: t rule: nat_str.induct)
  case (1 n)
  show ?case
  proof (cases "n < 10")
    case True
    then show ?thesis using 1(2) by (subst (asm) nat_str.simps) simp
  next
    case False
    then have s: "nat_str n = nat_str (n div 10) @ [char_of (48 + n mod 10)]" by (subst nat_str.simps) simp
    then obtain u where u: "nat_str (n div 10) = CHR ''0'' # u"
      using 1(2) nat_str_not_Nil [of "n div 10"] by (cases "nat_str (n div 10)") auto
    have "nat_str 0 = ''0''" by code_simp
    with 1(1) [OF False u] u have "nat_str (n div 10) = nat_str 0" by simp
    then have "n div 10 = 0" by simp
    with False show ?thesis by simp
  qed
qed

lemma read_int_nat_str: "read_int (nat_str n) = Some (nat_str n, [])"
proof -
  obtain c t where n: "nat_str n = c # t" using nat_str_not_Nil by (metis neq_Nil_conv)
  have d: "is_digit c" "list_all is_digit t" using nat_str_digits [of n] by (simp_all add: n)
  have "takeWhile is_digit t = t" "dropWhile is_digit t = []"
    using d(2) by (auto simp: takeWhile_eq_all_conv list_all_iff)
  then show ?thesis
    using d nat_str_leading [of n t] by (auto simp: read_int_def n)
qed

lemma json_number_nat_str: "json_number (nat_str n)"
proof -
  obtain c t where n: "nat_str n = c # t" using nat_str_not_Nil by (metis neq_Nil_conv)
  have "is_digit c" using nat_str_digits [of n] by (simp add: n)
  then have "c \<noteq> CHR ''-''" by (auto simp: is_digit_def)
  then show ?thesis
    using read_int_nat_str [of n] by (simp add: json_number_def read_num_def n read_frac_def read_exp_def)
qed

lemma json_number_int_str: "json_number (int_str i)"
  using json_number_nat_str [of "nat i"] read_int_nat_str [of "nat (- i)"]
  by (simp add: int_str_def json_number_def read_num_def read_frac_def read_exp_def)

section \<open>Values\<close>

text \<open>
  A text that the reader takes for a value, inside \<open>d\<close> open containers, with one unit of
  fuel a byte, and leaving whatever follows it.
\<close>

definition reads_as :: "int \<Rightarrow> string \<Rightarrow> json \<Rightarrow> bool" where
  "reads_as d t j =
     (\<forall>f r. length t \<le> f \<longrightarrow> delimited r \<longrightarrow> read_val f d (t @ r) = Some (j, r))"

lemma reads_asI:
  "(\<And>f r. length t \<le> f \<Longrightarrow> delimited r \<Longrightarrow> read_val f d (t @ r) = Some (j, r)) \<Longrightarrow> reads_as d t j"
  by (simp add: reads_as_def)

lemma reads_asD: "reads_as d t j \<Longrightarrow> length t \<le> f \<Longrightarrow> delimited r \<Longrightarrow> read_val f d (t @ r) = Some (j, r)"
  by (simp add: reads_as_def)

lemma skip_ws_other: "\<not> is_ws c \<Longrightarrow> skip_ws (c # r) = c # r"
  by (simp add: skip_ws_def)

lemma not_ws [simp]:
  "\<not> is_ws CHR 0x22" "\<not> is_ws CHR ''{''" "\<not> is_ws CHR ''}''" "\<not> is_ws CHR ''[''" "\<not> is_ws CHR '']''"
  "\<not> is_ws CHR '',''" "\<not> is_ws CHR '':''" "\<not> is_ws CHR ''-''" "\<not> is_ws CHR ''n''" "\<not> is_ws CHR ''t''"
  "\<not> is_ws CHR ''f''"
  by (simp_all add: is_ws_def)

lemma delimited_simps [simp]:
  "delimited []" "delimited (CHR '','' # r)" "delimited (CHR '']'' # r)" "delimited (CHR ''}'' # r)"
  "delimited (CHR 0x0A # r)"
  by (simp_all add: delimited_def is_ws_def)

lemma reads_as_string: "spelled t s \<Longrightarrow> reads_as d (CHR 0x22 # t @ [CHR 0x22]) (JStr s)"
proof (rule reads_asI)
  fix f r
  assume "spelled t s" and "length (CHR 0x22 # t @ [CHR 0x22]) \<le> f"
  then show "read_val f d ((CHR 0x22 # t @ [CHR 0x22]) @ r) = Some (JStr s, r)"
    using spelled_read [of t s r] by (cases f) (simp_all add: read_val.simps skip_ws_other)
qed

lemma reads_as_number: "json_number n \<Longrightarrow> reads_as d n (JNum n)"
proof (rule reads_asI)
  fix f r
  assume n: "json_number n" and f: "length n \<le> f" and r: "delimited r"
  obtain c t where c: "n = c # t" "c = CHR ''-'' \<or> is_digit c" using json_number_start [OF n] by blast
  then have "\<not> is_ws c" "c \<noteq> CHR 0x22" "c \<noteq> CHR ''[''" "c \<noteq> CHR ''{''"
    by (auto simp: is_ws_def is_digit_def)
  moreover have "read_num (n @ r) = Some (n, r)"
    using read_num_append [of n n "[]" r] n r by (simp add: json_number_def)
  ultimately show "read_val f d (n @ r) = Some (JNum n, r)"
    using c f by (cases f) (simp_all add: read_val.simps skip_ws_other)
qed

lemma reads_as_literal:
  "reads_as d ''null'' JNull" "reads_as d ''true'' (JBool True)" "reads_as d ''false'' (JBool False)"
proof -
  have "read_val f d (''null'' @ r) = Some (JNull, r)" "read_val f d (''true'' @ r) = Some (JBool True, r)"
    "read_val f d (''false'' @ r) = Some (JBool False, r)" if "0 < f" for f r
    using that by (cases f; simp add: read_val.simps skip_ws_other read_lit_def is_digit_def)+
  then show "reads_as d ''null'' JNull" "reads_as d ''true'' (JBool True)" "reads_as d ''false'' (JBool False)"
    by (auto intro!: reads_asI)
qed

lemma read_val_start:
  assumes "read_val f d s = Some x"
  shows "skip_ws s \<noteq> [] \<and> hd (skip_ws s) \<noteq> CHR '']''"
proof -
  obtain f' where f: "f = Suc f'" using assms by (cases f) (auto simp: read_val.simps)
  have "read_lit (CHR '']'' # r) = None" for r by (simp add: read_lit_def)
  then show ?thesis
    using assms unfolding f read_val.simps by (auto simp: is_digit_def split: list.splits if_splits)
qed

text \<open>The elements of an array and the members of an object, joined by commas.\<close>

lemma reads_elems:
  "list_all2 (reads_as d) ts js \<Longrightarrow> ts \<noteq> [] \<Longrightarrow> length (join_with '','' ts) < f \<Longrightarrow>
   read_elems f d (join_with '','' ts @ CHR '']'' # r) = Some (js, r)"
proof (induction ts arbitrary: js f)
  case (Cons t ts)
  then obtain j js' f' where js: "js = j # js'" "reads_as d t j" "list_all2 (reads_as d) ts js'" and f: "f = Suc f'"
    by (cases f) (auto simp: list_all2_Cons1)
  show ?case
  proof (cases ts)
    case Nil
    then show ?thesis
      using js f Cons.prems(3) by (simp add: read_elems.simps reads_asD skip_ws_other)
  next
    case (Cons t' ts')
    have "read_elems f' d (join_with '','' ts @ CHR '']'' # r) = Some (js', r)"
      using Cons js f Cons.prems(3) by (intro Cons.IH) auto
    then show ?thesis
      using Cons js f Cons.prems(3) by (simp add: read_elems.simps reads_asD skip_ws_other)
  qed
qed simp

lemma reads_as_array:
  assumes "list_all2 (reads_as (d + 1)) ts js" and "d < max_depth"
  shows "reads_as d (''['' @ join_with '','' ts @ '']'') (JArr js)"
proof (rule reads_asI)
  fix f r
  assume f: "length (''['' @ join_with '','' ts @ '']'') \<le> f"
  then obtain f' where f': "f = Suc f'" by (cases f) auto
  show "read_val f d ((''['' @ join_with '','' ts @ '']'') @ r) = Some (JArr js, r)"
  proof (cases ts)
    case Nil
    then show ?thesis using assms f' by (simp add: read_val.simps skip_ws_other)
  next
    case (Cons t ts')
    have e: "read_elems f' (d + 1) (join_with '','' ts @ CHR '']'' # r) = Some (js, r)"
      using Cons f f' by (intro reads_elems [OF assms(1)]) auto
    obtain v where "read_val (f' - 1) (d + 1) (join_with '','' ts @ CHR '']'' # r) = Some v"
      using e by (cases f') (auto simp: read_elems.simps split: option.splits)
    from read_val_start [OF this] e show ?thesis
      using assms(2) f' by (simp add: read_val.simps skip_ws_other)
  qed
qed

definition member_text :: "string \<times> string \<Rightarrow> string" where
  "member_text = (\<lambda>(k, t). CHR 0x22 # k @ [CHR 0x22] @ '':'' @ t)"

definition reads_member :: "int \<Rightarrow> string \<times> string \<Rightarrow> string \<times> json \<Rightarrow> bool" where
  "reads_member d kt kv = (spelled (fst kt) (fst kv) \<and> reads_as d (snd kt) (snd kv))"

definition object_text :: "(string \<times> string) list \<Rightarrow> string" where
  "object_text kts = ''{'' @ join_with '','' (map member_text kts) @ ''}''"

lemma reads_members:
  "list_all2 (reads_member d) kts kvs \<Longrightarrow> kts \<noteq> [] \<Longrightarrow> length (join_with '','' (map member_text kts)) < f \<Longrightarrow>
   read_members f d (join_with '','' (map member_text kts) @ CHR ''}'' # r) = Some (kvs, r)"
proof (induction kts arbitrary: kvs f)
  case (Cons kt kts)
  obtain k t where kt: "kt = (k, t)" by (cases kt)
  from Cons.prems(1) kt obtain k' j kvs' where kvs: "kvs = (k', j) # kvs'" and m: "reads_member d (k, t) (k', j)"
    and rest: "list_all2 (reads_member d) kts kvs'"
    by (auto simp: list_all2_Cons1)
  from m have k: "spelled k k'" and t: "reads_as d t j" by (simp_all add: reads_member_def)
  obtain f' where f: "f = Suc f'" using Cons.prems(3) by (cases f) auto
  show ?case
  proof (cases kts)
    case Nil
    then show ?thesis
      using kt kvs k t rest f Cons.prems(3)
      by (simp add: read_members.simps member_text_def reads_asD spelled_read skip_ws_other)
  next
    case c: (Cons kt' kts')
    have "read_members f' d (join_with '','' (map member_text kts) @ CHR ''}'' # r) = Some (kvs', r)"
      using c rest f Cons.prems(3) kt by (intro Cons.IH) (auto simp: member_text_def)
    then show ?thesis
      using c kt kvs k t f Cons.prems(3)
      by (simp add: read_members.simps member_text_def reads_asD spelled_read skip_ws_other)
  qed
qed simp

lemma reads_as_object:
  assumes "list_all2 (reads_member (d + 1)) kts kvs" and "d < max_depth"
  shows "reads_as d (object_text kts) (JObj kvs)"
proof (rule reads_asI)
  fix f r
  assume f: "length (object_text kts) \<le> f"
  then obtain f' where f': "f = Suc f'" by (cases f) (auto simp: object_text_def)
  show "read_val f d (object_text kts @ r) = Some (JObj kvs, r)"
  proof (cases kts)
    case Nil
    then show ?thesis using assms f' by (simp add: object_text_def read_val.simps skip_ws_other)
  next
    case (Cons kt kts')
    have m: "read_members f' (d + 1) (join_with '','' (map member_text kts) @ CHR ''}'' # r) = Some (kvs, r)"
      using Cons f f' by (intro reads_members [OF assms(1)]) (auto simp: object_text_def)
    obtain x where x: "join_with '','' (map member_text kts) = CHR 0x22 # x"
      using Cons by (cases kts'; cases kt) (auto simp: member_text_def)
    show ?thesis
      using m assms(2) f' unfolding object_text_def x by (simp add: read_val.simps skip_ws_other)
  qed
qed

lemma reads_as_unmarshal: "reads_as 0 t j \<Longrightarrow> json_unmarshal t = Some j"
  using reads_asD [of 0 t j "2 * length t + 2" "[]"]
  by (simp add: json_unmarshal_def json_read_def skip_ws_def)

section \<open>The round trip\<close>

text \<open>The depth of a value, and what it takes to be written as it is.\<close>

fun json_depth :: "json \<Rightarrow> int" where
  "json_depth (JArr xs) = 1 + fold max (map json_depth xs) 0"
| "json_depth (JObj kvs) = 1 + fold max (map (\<lambda>p. json_depth (snd p)) kvs) 0"
| "json_depth j = 0"

fun json_writable :: "json \<Rightarrow> bool" where
  "json_writable (JNum n) = json_number n"
| "json_writable (JStr s) = valid_utf8 s"
| "json_writable (JArr xs) = list_all json_writable xs"
| "json_writable (JObj kvs) = list_all (\<lambda>p. valid_utf8 (fst p) \<and> json_writable (snd p)) kvs"
| "json_writable j = True"

lemma fold_max_le: "fold max xs (a :: int) \<le> b \<longleftrightarrow> a \<le> b \<and> (\<forall>x \<in> set xs. x \<le> b)"
  by (induction xs arbitrary: a) auto

lemma json_enc_reads_as:
  "json_writable j \<Longrightarrow> d + json_depth j \<le> max_depth \<Longrightarrow> reads_as d (json_enc j) j"
proof (induction j arbitrary: d)
  case (JArr xs)
  have "list_all2 (reads_as (d + 1)) (map json_enc xs) xs"
    unfolding list_all2_map1
  proof (rule list.rel_refl_strong)
    fix x assume x: "x \<in> set xs"
    have "1 + json_depth x \<le> json_depth (JArr xs)"
      using x fold_max_le [of "map json_depth xs" 0 "fold max (map json_depth xs) 0"] by auto
    then show "reads_as (d + 1) (json_enc x) x"
      using JArr x by (intro JArr.IH) (auto simp: list_all_iff)
  qed
  moreover have "0 \<le> fold max (map json_depth xs) 0"
    using fold_max_le [of "map json_depth xs" 0 "fold max (map json_depth xs) 0"] by simp
  ultimately show ?case using reads_as_array [of d "map json_enc xs" xs] JArr.prems(2) by simp
next
  case (JObj kvs)
  have "list_all2 (reads_member (d + 1)) (map (\<lambda>(k, v). (enc_chars k, json_enc v)) kvs) kvs"
    unfolding list_all2_map1
  proof (rule list.rel_refl_strong)
    fix p assume p: "p \<in> set kvs"
    have "1 + json_depth (snd p) \<le> json_depth (JObj kvs)"
      using p fold_max_le [of "map (\<lambda>p. json_depth (snd p)) kvs" 0 "fold max (map (\<lambda>p. json_depth (snd p)) kvs) 0"] by auto
    then have "reads_as (d + 1) (json_enc (snd p)) (snd p)"
      using JObj p by (intro JObj.IH [of p "snd p"]) (auto simp: list_all_iff snds.simps)
    moreover have "spelled (enc_chars (fst p)) (fst p)"
      using JObj.prems(1) p marshal_writer.w_spelled [of "fst p"] by (auto simp: list_all_iff utf8_fix_valid)
    ultimately show "reads_member (d + 1) (case p of (k, v) \<Rightarrow> (enc_chars k, json_enc v)) p"
      by (cases p) (simp add: reads_member_def)
  qed
  moreover have "0 \<le> fold max (map (\<lambda>p. json_depth (snd p)) kvs) 0"
    using fold_max_le [of "map (\<lambda>p. json_depth (snd p)) kvs" 0 "fold max (map (\<lambda>p. json_depth (snd p)) kvs) 0"] by simp
  moreover have "json_enc (JObj kvs) = object_text (map (\<lambda>(k, v). (enc_chars k, json_enc v)) kvs)"
    by (simp add: object_text_def member_text_def enc_str_def comp_def case_prod_unfold)
  ultimately show ?case using reads_as_object [of d _ kvs] JObj.prems(2) by simp
next
  case (JStr s)
  then show ?case
    using reads_as_string [OF marshal_writer.w_spelled [of s]] by (simp add: enc_str_def utf8_fix_valid)
qed (auto simp: reads_as_literal reads_as_number)

text \<open>Whatever \<open>json.Marshal\<close> writes of a value, \<open>json.Unmarshal\<close> reads back as that value.\<close>

lemma json_round_trip:
  "json_writable j \<Longrightarrow> json_depth j \<le> max_depth \<Longrightarrow> json_unmarshal (json_enc j) = Some j"
  using reads_as_unmarshal [OF json_enc_reads_as [of j 0]] by simp

end
