(* ===== verification/Redelivery.thy ===== *)
theory Redelivery
  imports Store JsonText
begin

text \<open>
  What a re-delivered batch is compared by. \<open>HashObjects\<close> (go/internal/store/store.go) writes
  one line of JSON per object, sorted by id, and hashes the text. The lines are read back here
  (the reader of JsonText, a line's end being a delimiter), so equal texts are equal contents,
  and the outcome of a second delivery is told from the contents alone.
\<close>

section \<open>The content a line carries\<close>

definition hash_json :: "lib \<Rightarrow> sobject \<Rightarrow> json" where
  "hash_json L ob =
     JObj
       [(''id'', JStr (so_id ob)), (''name'', JStr (so_name ob)), (''facts'', so_facts ob),
        (''names'', case so_names ob of None \<Rightarrow> JNull | Some j \<Rightarrow> j),
        (''absent'', if so_absent ob = [] then JNull else JArr (map JStr (so_absent ob))),
        (''at'', JNum (fmt_float L (so_at ob)))]"

text \<open>The text that is hashed.\<close>

abbreviation hash_text :: "lib \<Rightarrow> sobject list \<Rightarrow> string" where
  "hash_text L obs \<equiv> concat (map (hash_line L) (sort_key so_id obs))"

text \<open>
  The fields of an object its line carries. The type is not one of them; a type with no names
  and one whose names are \<open>null\<close> are written alike; the time is compared as it is written.
\<close>

definition hashed_content ::
  "lib \<Rightarrow> sobject \<Rightarrow> string \<times> string \<times> json \<times> json \<times> string list \<times> string"
where
  "hashed_content L ob =
     (so_id ob, so_name ob, so_facts ob, case so_names ob of None \<Rightarrow> JNull | Some j \<Rightarrow> j,
      so_absent ob, fmt_float L (so_at ob))"

text \<open>Objects that JSON can carry: texts are UTF-8, numbers are numbers, and not too deep.\<close>

definition hashable :: "lib \<Rightarrow> sobject \<Rightarrow> bool" where
  "hashable L ob = (json_writable (hash_json L ob) \<and> json_depth (hash_json L ob) \<le> max_depth)"

lemma hash_line_json: "hash_line L ob = json_enc (hash_json L ob) @ [CHR 0x0A]"
  by (simp only: hash_line_def hash_json_def)

lemma hash_json_content: "hash_json L a = hash_json L b \<longleftrightarrow> hashed_content L a = hashed_content L b"
  by (auto simp: hash_json_def hashed_content_def inj_map_eq_map inj_def split: if_splits)

section \<open>Equal texts are equal contents\<close>

text \<open>A line is read off the front of the text, whatever follows it.\<close>

lemma line_read:
  assumes "hashable L ob" and "length (json_enc (hash_json L ob)) \<le> fuel"
  shows "read_val fuel 0 (hash_line L ob @ r) = Some (hash_json L ob, CHR 0x0A # r)"
proof -
  have "reads_as 0 (json_enc (hash_json L ob)) (hash_json L ob)"
    using assms(1) by (intro json_enc_reads_as) (simp_all add: hashable_def)
  then show ?thesis
    using reads_asD [OF _ assms(2), of 0 _ "CHR 0x0A # r"] by (simp add: hash_line_json delimited_def is_ws_def)
qed

lemma lines_told_apart:
  "list_all (hashable L) xs \<Longrightarrow> list_all (hashable L) ys \<Longrightarrow>
   concat (map (hash_line L) xs) = concat (map (hash_line L) ys) \<Longrightarrow>
   map (hashed_content L) xs = map (hashed_content L) ys"
proof (induction xs arbitrary: ys)
  case Nil
  then show ?case by (cases ys) (auto simp: hash_line_json)
next
  case (Cons a xs)
  then obtain b ys' where ys: "ys = b # ys'" by (cases ys) (auto simp: hash_line_json)
  let ?r = "concat (map (hash_line L) xs)" and ?r' = "concat (map (hash_line L) ys')"
  let ?n = "length (json_enc (hash_json L a)) + length (json_enc (hash_json L b))"
  have same: "hash_line L a @ ?r = hash_line L b @ ?r'" using Cons.prems(3) ys by simp
  have "read_val ?n 0 (hash_line L a @ ?r) = Some (hash_json L a, CHR 0x0A # ?r)"
    using Cons.prems(1) by (intro line_read) auto
  moreover have "read_val ?n 0 (hash_line L b @ ?r') = Some (hash_json L b, CHR 0x0A # ?r')"
    using Cons.prems(2) ys by (intro line_read) auto
  ultimately have "hash_json L a = hash_json L b" "?r = ?r'" using same by simp_all
  then show ?case using Cons ys by (simp add: hash_json_content)
qed

lemma same_content_same_text:
  assumes "map (hashed_content L) xs = map (hashed_content L) ys"
  shows "concat (map (hash_line L) xs) = concat (map (hash_line L) ys)"
proof -
  have "map (hash_json L) xs = map (hash_json L) ys"
    using assms by (simp add: list_eq_iff_nth_eq hash_json_content)
  then have "map (hash_line L) xs = map (hash_line L) ys"
    by (simp add: hash_line_json list_eq_iff_nth_eq)
  then show ?thesis by simp
qed

text \<open>Sorted by id, and the ids of an applied batch distinct, the order of emission is forgotten.\<close>

lemma sorted_content: "map (hashed_content L) (sort_key so_id xs) = sort_key fst (map (hashed_content L) xs)"
proof -
  have "insort_key fst (hashed_content L x) (map (hashed_content L) xs) = map (hashed_content L) (insort_key so_id x xs)"
    for x xs by (induction xs) (auto simp: hashed_content_def)
  note step = this [symmetric]
  show ?thesis by (induction xs) (simp_all add: step)
qed

lemma hash_text_iff:
  assumes "list_all (hashable L) obs" and "list_all (hashable L) obs'" and "distinct (map so_id obs)"
  shows "hash_text L obs' = hash_text L obs \<longleftrightarrow> mset (map (hashed_content L) obs') = mset (map (hashed_content L) obs)"
proof
  assume "hash_text L obs' = hash_text L obs"
  then have "map (hashed_content L) (sort_key so_id obs') = map (hashed_content L) (sort_key so_id obs)"
    using assms(1,2) by (intro lines_told_apart) (auto simp: list_all_iff)
  then have "mset (map (hashed_content L) (sort_key so_id obs')) = mset (map (hashed_content L) (sort_key so_id obs))"
    by (rule arg_cong)
  then show "mset (map (hashed_content L) obs') = mset (map (hashed_content L) obs)" by simp
next
  assume same: "mset (map (hashed_content L) obs') = mset (map (hashed_content L) obs)"
  have "distinct (map fst (map (hashed_content L) obs))"
    using assms(3) by (simp add: comp_def hashed_content_def)
  then have "inj_on fst (set (map (hashed_content L) obs'))"
    using mset_eq_setD [OF same] by (simp only: distinct_map)
  then have "sort_key fst (map (hashed_content L) obs') = sort_key fst (map (hashed_content L) obs)"
    using same by (intro sort_key_inj_key_eq) simp_all
  then show "hash_text L obs' = hash_text L obs"
    by (intro same_content_same_text) (simp only: sorted_content)
qed

section \<open>Properties\<close>

text \<open>
  Property C9. What a second delivery of an applied generation does is decided by the content of
  its objects and by nothing else. If the id, the name, the facts, the display names, the absent
  facts and the observation time of its objects are, in some order, those of the objects that were
  applied, it is a no-op, whatever its batch id, boot id, scope, time and unobservables are; if
  any of these differs it is refused, with one rejection row and no other change. The type is
  not compared: a delivery in which only types differ is the no-op too. The objects are ones
  JSON can carry and the two texts hashed are no collision of SHA-256.
\<close>

theorem apply_commit_redelivery:
  assumes "apply_commit_with L wall collection scope gen bat boot obs unobs d = (Inr Applied, d')"
    and "boot' \<noteq> []"
    and "list_all (hashable L) obs" and "list_all (hashable L) obs'"
    and "sha256 L (hash_text L obs') = sha256 L (hash_text L obs) \<Longrightarrow> hash_text L obs' = hash_text L obs"
  shows "apply_commit_with L wall' collection scope' gen bat' boot' obs' unobs' d' =
     (if mset (map (hashed_content L) obs') = mset (map (hashed_content L) obs) then (Inr NoopIdentical, d')
      else (Inr ReusedDifferent,
            d'\<lparr>d_rejs := d_rejs d' @ [\<lparr>rj_collection = collection, rj_batch = bat',
                 rj_reason = ''generation-reused-different-content''\<rparr>]\<rparr>))"
proof -
  obtain r where "gen \<le> c_issued r" and adm: "admissible obs unobs"
    and d': "d' = applied_db L wall collection scope gen boot obs unobs r d"
    using assms(1) by (auto simp: apply_Applied_iff)
  have "mget (d_cols d') collection = Some (applied_row gen wall (hash_objects L obs) boot r)"
    by (simp add: d' applied_cols)
  then have "apply_commit_with L wall' collection scope' gen bat' boot' obs' unobs' d' =
     (if hash_objects L obs' = hash_objects L obs then (Inr NoopIdentical, d')
      else (Inr ReusedDifferent, add_rejection collection bat' ''generation-reused-different-content'' d'))"
    using assms(2) \<open>gen \<le> c_issued r\<close> by (auto simp: apply_commit_cases applied_row_def)
  moreover have "hash_objects L obs' = hash_objects L obs \<longleftrightarrow> hash_text L obs' = hash_text L obs"
    using assms(5) by (auto simp: hash_objects_def)
  moreover have "distinct (map so_id obs)" using adm by (simp add: admissible_def)
  ultimately show ?thesis
    using hash_text_iff [OF assms(3,4)] by (simp add: add_rejection_def)
qed

text \<open>An object, the same after a change of its type only, and one with another fact.\<close>

definition unit_object :: "string \<Rightarrow> json \<Rightarrow> sobject" where
  "unit_object ty state =
     \<lparr>so_id = ''units:a'', so_name = ''a'', so_type = ty, so_facts = JObj [(''State'', state)],
      so_names = None, so_absent = [], so_at = Fin 0\<rparr>"

lemma apply_commit_redelivery_witness:
  fixes d' defines "d' \<equiv> snd (apply_commit_with demo_lib ''t'' ''units'' [] 1 ''b'' ''boot''
    [unit_object ''service'' (JStr ''up'')] [] demo_db)"
  shows "apply_commit_with demo_lib ''t2'' ''units'' [] 1 ''b2'' ''boot'' [unit_object ''timer'' (JStr ''up'')] [] d' =
      (Inr NoopIdentical, d') \<and>
    fst (apply_commit_with demo_lib ''t2'' ''units'' [] 1 ''b2'' ''boot'' [unit_object ''service'' (JStr ''down'')] [] d') =
      Inr ReusedDifferent"
proof -
  have "apply_commit_with demo_lib ''t'' ''units'' [] 1 ''b'' ''boot'' [unit_object ''service'' (JStr ''up'')] [] demo_db =
    (Inr Applied, d')"
    unfolding d'_def by code_simp
  note second = apply_commit_redelivery [OF this, of "''boot''"]
  have h: "hashable demo_lib (unit_object ''service'' (JStr ''up''))" "hashable demo_lib (unit_object ''timer'' (JStr ''up''))"
    "hashable demo_lib (unit_object ''service'' (JStr ''down''))"
    by code_simp+
  have sha: "sha256 demo_lib t = t" for t by (simp add: demo_lib_def)
  have c: "hashed_content demo_lib (unit_object ''timer'' (JStr ''up'')) = hashed_content demo_lib (unit_object ''service'' (JStr ''up''))"
    "hashed_content demo_lib (unit_object ''service'' (JStr ''down'')) \<noteq> hashed_content demo_lib (unit_object ''service'' (JStr ''up''))"
    by (simp_all add: hashed_content_def unit_object_def)
  show ?thesis
    using second [of "[unit_object ''timer'' (JStr ''up'')]"] second [of "[unit_object ''service'' (JStr ''down'')]"] h c
    by (simp add: sha del: One_nat_def)
qed

end
