(* ===== verification/Nesting.thy ===== *)
theory Nesting
  imports Collate
begin

text \<open>
  Trees derived from relations (go/internal/collate/tree.go) and the edges that nest a
  collection's rows (\<open>parentsFrom\<close> of collection_page.go). A row is named by its index on the
  page; \<open>nest\<close> gives the display order with the depth each row is drawn at, and whether a
  cycle was found. The recursive \<open>walk\<close> threads the rows placed so far, which are also the
  ones seen; its list argument is the loop over the children.
\<close>

section \<open>Parents\<close>

definition nesting_types :: "string list" where
  "nesting_types = [''member-of'', ''enslaved-to'']"

definition parents_by :: "rel_row list \<Rightarrow> string \<Rightarrow> string gomap" where
  "parents_by rels nesting =
     fold (\<lambda>r m. if r_type r = nesting then mput (r_source_name r) (r_target_name r) m else m) rels []"

fun first_nesting :: "rel_row list \<Rightarrow> string list \<Rightarrow> string gomap \<times> string" where
  "first_nesting rels [] = ([], [])"
| "first_nesting rels (t # ts) =
     (if parents_by rels t \<noteq> [] then (parents_by rels t, t) else first_nesting rels ts)"

definition parents_from :: "string \<Rightarrow> db \<Rightarrow> string gomap \<times> string" where
  "parents_from collection d = first_nesting (relations_of collection d) nesting_types"

text \<open>A name held by several rows is the index of the last.\<close>

definition index_of :: "obj_row list \<Rightarrow> string \<Rightarrow> nat option" where
  "index_of rows name = map_of (rev (zip (map o_name rows) [0..<length rows])) name"

definition parent_index :: "obj_row list \<Rightarrow> string gomap \<Rightarrow> nat \<Rightarrow> nat option" where
  "parent_index rows parent_of i =
     (case mget parent_of (o_name (rows ! i)) of
        None \<Rightarrow> None
      | Some parent \<Rightarrow>
          (case index_of rows parent of
             None \<Rightarrow> None
           | Some j \<Rightarrow> if j \<noteq> i then Some j else None))"

definition parent_table :: "obj_row list \<Rightarrow> string gomap \<Rightarrow> nat option list" where
  "parent_table rows parent_of = map (parent_index rows parent_of) [0..<length rows]"

section \<open>The walk\<close>

definition children :: "nat option list \<Rightarrow> nat \<Rightarrow> nat list" where
  "children par i = filter (\<lambda>k. par ! k = Some i) [0..<length par]"

definition roots :: "nat option list \<Rightarrow> nat list" where
  "roots par = filter (\<lambda>k. par ! k = None) [0..<length par]"

abbreviation placed :: "(nat \<times> nat) list \<Rightarrow> nat set" where
  "placed st \<equiv> fst ` set st"

text \<open>Every index is one of a row; the bound is what the recursion decreases against.\<close>

function walk :: "nat option list \<Rightarrow> nat list \<Rightarrow> nat \<Rightarrow> (nat \<times> nat) list \<Rightarrow> (nat \<times> nat) list" where
  "walk par [] d st = st"
| "walk par (i # is) d st =
     (if i \<in> placed st \<or> length par \<le> i then walk par is d st
      else walk par is d (walk par (children par i) (Suc d) (st @ [(i, d)])))"
  by pat_completeness auto

termination
proof (relation "measures [\<lambda>(par, is, d, st). card ({..<length par} - placed st), \<lambda>(par, is, d, st). length is]")
  have extends: "walk_dom (par, is, d, st) \<Longrightarrow> \<exists>ys. walk par is d st = st @ ys" for par "is" d st
  proof (induction par "is" d st rule: walk.pinduct)
    case (1 par d st)
    then show ?case by (simp add: walk.psimps)
  next
    case (2 par i "is" d st)
    then show ?case by (auto simp: walk.psimps)
  qed
  fix par :: "nat option list" and i d :: nat and "is" :: "nat list" and st :: "(nat \<times> nat) list"
  assume new: "\<not> (i \<in> placed st \<or> length par \<le> i)"
  have "{..<length par} - placed (st @ [(i, d)]) \<subset> {..<length par} - placed st"
    using new by auto
  then have less: "card ({..<length par} - placed (st @ [(i, d)])) < card ({..<length par} - placed st)"
    by (intro psubset_card_mono) auto
  then show "((par, children par i, Suc d, st @ [(i, d)]), par, i # is, d, st)
      \<in> measures [\<lambda>(par, is, d, st). card ({..<length par} - placed st), \<lambda>(par, is, d, st). length is]"
    by simp
  assume "walk_dom (par, children par i, Suc d, st @ [(i, d)])"
  from extends [OF this] obtain ys where ys: "walk par (children par i) (Suc d) (st @ [(i, d)]) = (st @ [(i, d)]) @ ys" ..
  have "card ({..<length par} - placed ((st @ [(i, d)]) @ ys)) \<le> card ({..<length par} - placed (st @ [(i, d)]))"
    by (intro card_mono) auto
  then show "((par, is, d, walk par (children par i) (Suc d) (st @ [(i, d)])), par, i # is, d, st)
      \<in> measures [\<lambda>(par, is, d, st). card ({..<length par} - placed st), \<lambda>(par, is, d, st). length is]"
    using less by (simp add: ys)
qed auto

declare walk.simps(2) [simp del]

definition nest_table :: "nat option list \<Rightarrow> (nat \<times> nat) list \<times> bool" where
  "nest_table par =
     (let st = walk par (roots par) 0 [];
          broken = (\<exists>i \<in> set [0..<length par]. i \<notin> set (map fst st))
      in (walk par [0..<length par] 0 st, broken))"

definition nest :: "obj_row list \<Rightarrow> string gomap \<Rightarrow> (nat \<times> nat) list \<times> bool" where
  "nest rows parent_of = nest_table (parent_table rows parent_of)"

section \<open>What the walk places\<close>

lemma walk_append: "\<exists>ys. walk par is d st = st @ ys"
proof (induction par "is" d st rule: walk.induct)
  case (2 par i "is" d st)
  then show ?case by (auto simp: walk.simps(2))
qed simp

lemma children_iff: "k \<in> set (children par i) \<longleftrightarrow> k < length par \<and> par ! k = Some i"
  by (auto simp: children_def)

text \<open>A walk places each row once, everything it was asked for, and every child of what it places.\<close>

lemma walk_distinct:
  "distinct (map fst st) \<Longrightarrow> placed st \<subseteq> {..<length par} \<Longrightarrow>
   distinct (map fst (walk par is d st)) \<and> placed (walk par is d st) \<subseteq> {..<length par}"
proof (induction par "is" d st rule: walk.induct)
  case (2 par i "is" d st)
  show ?case
  proof (cases "i \<in> placed st \<or> length par \<le> i")
    case True
    then show ?thesis using 2 by (simp add: walk.simps(2))
  next
    case False
    then have "distinct (map fst (st @ [(i, d)]))" "placed (st @ [(i, d)]) \<subseteq> {..<length par}"
      using 2(4,5) by auto
    then show ?thesis using 2(2,3) False by (simp add: walk.simps(2))
  qed
qed simp

lemma walk_places: "k \<in> set is \<Longrightarrow> k < length par \<Longrightarrow> k \<in> placed (walk par is d st)"
proof (induction par "is" d st rule: walk.induct)
  case (2 par i "is" d st)
  show ?case
  proof (cases "k = i")
    case True
    obtain xs where xs: "walk par (children par i) (Suc d) (st @ [(i, d)]) = (st @ [(i, d)]) @ xs"
      using walk_append by blast
    obtain ys where "walk par is d (walk par (children par i) (Suc d) (st @ [(i, d)])) =
        walk par (children par i) (Suc d) (st @ [(i, d)]) @ ys"
      using walk_append by blast
    moreover obtain zs where "walk par is d st = st @ zs" using walk_append by blast
    ultimately show ?thesis using True 2(5) by (auto simp: walk.simps(2) xs)
  next
    case False
    then show ?thesis using 2 by (auto simp: walk.simps(2))
  qed
qed simp

definition closed_off :: "nat option list \<Rightarrow> nat set \<Rightarrow> nat set \<Rightarrow> bool" where
  "closed_off par new all = (\<forall>i \<in> new. set (children par i) \<subseteq> all)"

lemma walk_closed:
  "walk par is d st = st @ ys \<Longrightarrow> closed_off par (placed ys) (placed (walk par is d st))"
proof (induction par "is" d st arbitrary: ys rule: walk.induct)
  case (2 par i "is" d st)
  show ?case
  proof (cases "i \<in> placed st \<or> length par \<le> i")
    case True
    then show ?thesis using 2(1,4) by (simp add: walk.simps(2))
  next
    case False
    obtain xs where xs: "walk par (children par i) (Suc d) (st @ [(i, d)]) = (st @ [(i, d)]) @ xs"
      using walk_append by blast
    obtain zs where zs: "walk par is d (st @ [(i, d)] @ xs) = (st @ [(i, d)] @ xs) @ zs"
      using walk_append by blast
    have inner: "closed_off par (placed xs) (placed ((st @ [(i, d)]) @ xs))"
      using 2(2) [OF False xs] by (simp add: xs)
    have outer: "closed_off par (placed zs) (placed ((st @ [(i, d)] @ xs) @ zs))"
      using 2(3) [OF False] zs by (simp add: xs)
    have kids: "set (children par i) \<subseteq> placed ((st @ [(i, d)]) @ xs)"
    proof
      fix k
      assume "k \<in> set (children par i)"
      then show "k \<in> placed ((st @ [(i, d)]) @ xs)"
        using walk_places [of k "children par i" par "Suc d" "st @ [(i, d)]"] by (simp add: xs children_iff)
    qed
    have ys: "ys = (i, d) # xs @ zs" using 2(4) False zs by (simp add: walk.simps(2) xs)
    show ?thesis
      using inner outer kids unfolding 2(4) ys by (auto simp: closed_off_def)
  qed
qed (simp add: closed_off_def)

section \<open>Reading the indentation\<close>

text \<open>
  The row above at the smaller depth, with nothing as shallow in between, is the parent.
\<close>

definition parent_above :: "nat option list \<Rightarrow> (nat \<times> nat) list \<Rightarrow> nat \<Rightarrow> nat \<Rightarrow> bool" where
  "parent_above par st i d =
     (\<exists>xs p ys. st = xs @ (p, d) # ys \<and> par ! i = Some p \<and> (\<forall>y \<in> set ys. d < snd y))"

definition well_drawn :: "nat option list \<Rightarrow> (nat \<times> nat) list \<Rightarrow> bool" where
  "well_drawn par st =
     (\<forall>xs i d ys. st = xs @ (i, Suc d) # ys \<longrightarrow> parent_above par xs i d)"

lemma well_drawn_Nil [simp]: "well_drawn par []"
  by (simp add: well_drawn_def)

lemma well_drawn_snoc:
  "well_drawn par (st @ [(i, d)]) \<longleftrightarrow> well_drawn par st \<and> (\<forall>d'. d = Suc d' \<longrightarrow> parent_above par st i d')"
  (is "?l \<longleftrightarrow> ?r")
proof
  assume l: ?l
  have "parent_above par xs j e" if "st = xs @ (j, Suc e) # ys" for xs j e ys
    using l that unfolding well_drawn_def by (metis append_Cons append_assoc)
  then show ?r using l unfolding well_drawn_def by metis
next
  assume r: ?r
  show ?l
    unfolding well_drawn_def
  proof (intro allI impI)
    fix xs j e ys
    assume eq: "st @ [(i, d)] = xs @ (j, Suc e) # ys"
    show "parent_above par xs j e"
    proof (cases ys rule: rev_cases)
      case Nil
      then show ?thesis using eq r by simp
    next
      case (snoc zs z)
      then have "st = xs @ (j, Suc e) # zs" using eq by simp
      then show ?thesis using r unfolding well_drawn_def by blast
    qed
  qed
qed

lemma parent_above_later:
  "parent_above par st i d \<Longrightarrow> \<forall>y \<in> set ys. d < snd y \<Longrightarrow> parent_above par (st @ ys) i d"
  unfolding parent_above_def by fastforce

lemma walk_well_drawn:
  assumes "well_drawn par st"
    and "\<forall>d'. d = Suc d' \<longrightarrow> (\<forall>i \<in> set is. parent_above par st i d')"
    and "walk par is d st = st @ ys"
  shows "well_drawn par (st @ ys) \<and> (\<forall>y \<in> set ys. d \<le> snd y \<and> (snd y = d \<longrightarrow> fst y \<in> set is))"
  using assms
proof (induction par "is" d st arbitrary: ys rule: walk.induct)
  case (2 par i "is" d st)
  show ?case
  proof (cases "i \<in> placed st \<or> length par \<le> i")
    case True
    then show ?thesis using 2(1) [OF True 2(4)] 2(5,6) by (simp add: walk.simps(2))
  next
    case False
    obtain xs where xs: "walk par (children par i) (Suc d) (st @ [(i, d)]) = (st @ [(i, d)]) @ xs"
      using walk_append by blast
    obtain zs where zs: "walk par is d (st @ [(i, d)] @ xs) = (st @ [(i, d)] @ xs) @ zs"
      using walk_append by blast
    have here: "well_drawn par (st @ [(i, d)])" using 2(4,5) by (simp add: well_drawn_snoc)
    have kids: "parent_above par (st @ [(i, d)]) k d" if "k \<in> set (children par i)" for k
      unfolding parent_above_def
      by (rule exI [of _ st], rule exI [of _ i], rule exI [of _ "[]"]) (use that in \<open>simp add: children_iff\<close>)
    have inner: "well_drawn par (st @ [(i, d)] @ xs) \<and> (\<forall>x \<in> set xs. Suc d \<le> snd x)"
      using 2(2) [OF False here _ xs] kids by simp
    have open_later: "\<forall>d'. d = Suc d' \<longrightarrow> (\<forall>k \<in> set is. parent_above par (st @ [(i, d)] @ xs) k d')"
    proof (intro allI impI ballI)
      fix d' k
      assume "d = Suc d'" and "k \<in> set is"
      then show "parent_above par (st @ [(i, d)] @ xs) k d'"
        using 2(5) inner by (intro parent_above_later) fastforce+
    qed
    have outer: "well_drawn par ((st @ [(i, d)] @ xs) @ zs) \<and> (\<forall>z \<in> set zs. d \<le> snd z \<and> (snd z = d \<longrightarrow> fst z \<in> set is))"
      using 2(3) [OF False, of zs, unfolded xs append_assoc] inner open_later zs unfolding append_assoc by blast
    have "ys = (i, d) # xs @ zs" using 2(6) False zs by (simp add: walk.simps(2) xs)
    then show ?thesis using inner outer by auto
  qed
qed simp


lemma walk_skip: "set is \<subseteq> placed st \<Longrightarrow> walk par is d st = st"
  by (induction "is") (auto simp: walk.simps(2))

section \<open>The chain of parents\<close>

fun ancestor :: "nat option list \<Rightarrow> nat \<Rightarrow> nat \<Rightarrow> nat option" where
  "ancestor par 0 i = Some i"
| "ancestor par (Suc k) i = (case par ! i of None \<Rightarrow> None | Some p \<Rightarrow> ancestor par k p)"

lemma placed_depth:
  assumes "well_drawn par st" and "\<forall>y \<in> set st. snd y = 0 \<longrightarrow> fst y \<in> set (roots par)"
  shows "(i, d) \<in> set st \<Longrightarrow> ancestor par (Suc d) i = None"
proof (induction d arbitrary: i)
  case 0
  then show ?case using assms(2) by (auto simp: roots_def)
next
  case (Suc d)
  then obtain xs ys where st: "st = xs @ (i, Suc d) # ys" by (meson split_list)
  then have "parent_above par xs i d" using assms(1) unfolding well_drawn_def by blast
  then obtain p where p: "(p, d) \<in> set xs" "par ! i = Some p" by (auto simp: parent_above_def)
  then show ?case using Suc.IH [of p] by (simp add: st)
qed

lemma reached_from_root:
  assumes closed: "closed_off par (placed st) (placed st)" and rooted: "set (roots par) \<subseteq> placed st"
    and table: "\<And>i p. i < length par \<Longrightarrow> par ! i = Some p \<Longrightarrow> p < length par"
  shows "i < length par \<Longrightarrow> ancestor par k i = None \<Longrightarrow> i \<in> placed st"
proof (induction k arbitrary: i)
  case (Suc k)
  show ?case
  proof (cases "par ! i")
    case None
    then show ?thesis using Suc.prems rooted by (auto simp: roots_def)
  next
    case (Some p)
    then have "p \<in> placed st" using Suc table by simp
    moreover have "i \<in> set (children par p)" using Some Suc.prems by (simp add: children_iff)
    ultimately show ?thesis using closed unfolding closed_off_def by blast
  qed
qed simp

lemma parent_table_bound:
  "i < length (parent_table rows parent_of) \<Longrightarrow> parent_table rows parent_of ! i = Some p \<Longrightarrow>
   p < length (parent_table rows parent_of)"
  by (auto simp: parent_table_def parent_index_def index_of_def split: option.splits if_splits
      dest!: map_of_SomeD in_set_zipE)

lemma nest_rows: "mset (map fst (fst (nest rows parent_of))) = mset [0..<length rows]"
proof -
  define par where "par = parent_table rows parent_of"
  define st where "st = walk par (roots par) 0 []"
  define order where "order = walk par [0..<length par] 0 st"
  have n: "length par = length rows" by (simp add: par_def parent_table_def)
  have dst: "distinct (map fst st)" "placed st \<subseteq> {..<length par}"
    using walk_distinct [of "[]" par "roots par" 0] by (simp_all add: st_def)
  have dord: "distinct (map fst order)" "placed order \<subseteq> {..<length par}"
    using walk_distinct [OF dst, of "[0..<length par]" 0] by (simp_all add: order_def)
  have "{..<length par} \<subseteq> placed order"
    using walk_places [of _ "[0..<length par]" par 0 st] by (auto simp: order_def)
  then have "mset (map fst order) = mset [0..<length rows]"
    using dord n by (intro iffD1 [OF set_eq_iff_mset_eq_distinct]) auto
  then show ?thesis
    by (simp add: nest_def nest_table_def Let_def par_def [symmetric] st_def [symmetric] order_def [symmetric])
qed

lemma root_walk:
  fixes par
  defines "st \<equiv> walk par (roots par) 0 []"
  assumes "\<forall>i p. i < length par \<longrightarrow> par ! i = Some p \<longrightarrow> p < length par"
  shows "well_drawn par st" and "\<forall>y \<in> set st. snd y = 0 \<longrightarrow> fst y \<in> set (roots par)"
    and "(\<exists>i < length par. i \<notin> placed st) \<longleftrightarrow> (\<exists>i < length par. \<forall>k. ancestor par k i \<noteq> None)"
proof -
  show first: "well_drawn par st" "\<forall>y \<in> set st. snd y = 0 \<longrightarrow> fst y \<in> set (roots par)"
    using walk_well_drawn [of par "[]" 0 "roots par" st] by (simp_all add: st_def)
  have closed: "closed_off par (placed st) (placed st)"
    using walk_closed [of par "roots par" 0 "[]" st] by (simp add: st_def)
  have rooted: "set (roots par) \<subseteq> placed st"
    using walk_places [of _ "roots par" par 0 "[]"] by (auto simp: st_def roots_def)
  have reached: "i \<in> placed st" if "i < length par" "ancestor par k i = None" for i k
    by (rule reached_from_root [OF closed rooted _ that]) (use assms(2) in blast)
  show "(\<exists>i < length par. i \<notin> placed st) \<longleftrightarrow> (\<exists>i < length par. \<forall>k. ancestor par k i \<noteq> None)"
  proof
    assume "\<exists>i < length par. i \<notin> placed st"
    then show "\<exists>i < length par. \<forall>k. ancestor par k i \<noteq> None" using reached by blast
  next
    assume "\<exists>i < length par. \<forall>k. ancestor par k i \<noteq> None"
    then obtain i where i: "i < length par" "\<forall>k. ancestor par k i \<noteq> None" by blast
    then have "(i, d) \<notin> set st" for d using placed_depth [OF first, of i d] by blast
    then show "\<exists>i < length par. i \<notin> placed st" using i(1) by force
  qed
qed

lemma top_level_iff:
  assumes "well_drawn par st" and "\<forall>y \<in> set st. snd y = 0 \<longrightarrow> fst y \<in> set (roots par)" and "(i, d) \<in> set st"
  shows "d = 0 \<longleftrightarrow> par ! i = None"
proof (cases d)
  case 0
  then show ?thesis using assms(2,3) by (auto simp: roots_def)
next
  case (Suc e)
  then obtain xs ys where "st = xs @ (i, Suc e) # ys" using assms(3) by (meson split_list)
  then have "parent_above par xs i e" using assms(1) unfolding well_drawn_def by blast
  then show ?thesis using Suc by (auto simp: parent_above_def)
qed

text \<open>
  Property C27. Nesting draws every row once, in an order that can be read. The walk ends on any
  edges; each row of the page appears exactly once; a row drawn deeper than the top is a child
  of the nearest row above it that is one level shallower, as indentation claims; a cycle is
  reported exactly when some row's chain of parents never ends; and where none is reported the
  top level is exactly the rows without a parent on the page.
\<close>

theorem nest_draws_every_row_once:
  "let (order, broken) = nest rows parent_of; par = parent_table rows parent_of in
     mset (map fst order) = mset [0..<length rows] \<and>
     (\<forall>above i d below. order = above @ (i, Suc d) # below \<longrightarrow>
        (\<exists>xs p ys. above = xs @ (p, d) # ys \<and> par ! i = Some p \<and> (\<forall>y \<in> set ys. d < snd y))) \<and>
     (broken \<longleftrightarrow> (\<exists>i < length rows. \<forall>k. ancestor par k i \<noteq> None)) \<and>
     (\<not> broken \<longrightarrow> (\<forall>(i, d) \<in> set order. d = 0 \<longleftrightarrow> par ! i = None))"
proof -
  define par where "par = parent_table rows parent_of"
  define st where "st = walk par (roots par) 0 []"
  define order where "order = walk par [0..<length par] 0 st"
  have n: "length par = length rows" by (simp add: par_def parent_table_def)
  have nest: "nest rows parent_of = (order, \<exists>i < length par. i \<notin> placed st)"
    by (auto simp: nest_def nest_table_def Let_def par_def [symmetric] st_def [symmetric] order_def [symmetric])
  have all: "mset (map fst order) = mset [0..<length rows]"
    using nest_rows [of rows parent_of] by (simp only: nest fst_conv)
  have bound: "\<forall>i p. i < length par \<longrightarrow> par ! i = Some p \<longrightarrow> p < length par"
    by (simp add: par_def parent_table_bound)
  note walked = root_walk [OF bound, folded st_def]
  obtain ys where "order = st @ ys" using walk_append order_def by blast
  then have drawn: "well_drawn par order"
    using walk_well_drawn [of par st 0 "[0..<length par]" ys] walked(1) by (simp add: order_def)
  have "order = st" if "\<not> (\<exists>i < length par. i \<notin> placed st)"
    using that unfolding order_def by (intro walk_skip) auto
  then have top: "\<not> (\<exists>i < length par. i \<notin> placed st) \<longrightarrow> (\<forall>(i, d) \<in> set order. d = 0 \<longleftrightarrow> par ! i = None)"
    using top_level_iff [OF walked(1,2)] by blast
  show ?thesis
    unfolding nest Let_def prod.case par_def [symmetric]
    using all drawn [unfolded well_drawn_def parent_above_def] walked(3) [unfolded n] top [unfolded n]
    unfolding n by (intro conjI)
qed

text \<open>Two units, the second a member of the first, given in the other order.\<close>

definition nested_rows :: "obj_row list" where
  "nested_rows = map (\<lambda>name. \<lparr>o_collection = ''units'', o_scope = [], o_id = name, o_name = name, o_type = [],
     o_facts = JObj [], o_names = None, o_absent = [], o_at = Fin 1, o_seq = 0\<rparr>) [''b'', ''a'']"

lemma nest_draws_every_row_once_witness:
  "nest nested_rows [(''b'', ''a'')] = ([(1, 0), (0, 1)], False) \<and>
   mset (map fst (fst (nest nested_rows [(''b'', ''a'')]))) = mset [0..<length nested_rows]"
proof
  show eq: "nest nested_rows [(''b'', ''a'')] = ([(1, 0), (0, 1)], False)" by code_simp
  show "mset (map fst (fst (nest nested_rows [(''b'', ''a'')]))) = mset [0..<length nested_rows]"
    using nest_draws_every_row_once [of nested_rows "[(''b'', ''a'')]"]
    unfolding eq Let_def prod.case fst_conv by (elim conjE)
qed

end
