(* ===== verification/Query.thy ===== *)
theory Query
  imports Opinions JsonText
begin

text \<open>
  The objects route of the read API: fact filters and pagination
  (go/internal/collate/query.go), the withholding of secret facts
  (\<open>withoutSecrets\<close> of checkpoint.go) and the handler that composes them
  (\<open>GET /v1/collections/{name}/objects\<close> of rest.go). A query string is a map from each
  parameter to its values; \<open>int\<close> in Go is a signed 64-bit integer, and the sums the
  pagination forms are wrapped. \<open>strings.ToLower\<close> is taken on ASCII letters.
\<close>

section \<open>Refusals and the page asked for\<close>

datatype refusal = LimitNotAnInteger | LimitBelowOne | NearMiss string string

type_synonym query = "string list gomap"

definition default_page_limit :: int where "default_page_limit = 500"
definition fallback_max_limit :: int where "fallback_max_limit = 1000"

definition first_value :: "string list \<Rightarrow> string" where
  "first_value values = (case values of [] \<Rightarrow> [] | v # _ \<Rightarrow> v)"

text \<open>A limit of 0 was not asked for.\<close>

fun parse_params :: "query \<Rightarrow> string gomap \<Rightarrow> int \<Rightarrow> string \<Rightarrow> refusal + (string gomap \<times> int \<times> string)" where
  "parse_params [] filters limit cursor = Inr (filters, limit, cursor)"
| "parse_params ((key, values) # q) filters limit cursor =
     (let value = first_value values in
      if key = ''limit'' then
        (case parse_int64 value of
           None \<Rightarrow> Inl LimitNotAnInteger
         | Some parsed \<Rightarrow>
             if parsed < 1 then Inl LimitBelowOne else parse_params q filters parsed cursor)
      else if key = ''cursor'' then parse_params q filters limit value
      else parse_params q (mput key value filters) limit cursor)"

definition parse_page :: "query \<Rightarrow> refusal + (string gomap \<times> int \<times> string)" where
  "parse_page q = parse_params q [] 0 []"

text \<open>The cap of records, 0 where none can be read.\<close>

definition ceiling_for :: "string \<Rightarrow> string \<Rightarrow> int" where
  "ceiling_for document collection =
     (if document = [] then 0
      else case declared_document document of
        None \<Rightarrow> 0
      | Some cols \<Rightarrow> (case find (\<lambda>c. dl_name c = collection) cols of None \<Rightarrow> 0 | Some c \<Rightarrow> dl_ceiling c))"

section \<open>Near misses\<close>

definition fold_key :: "string \<Rightarrow> string" where
  "fold_key key = replace_all ''_'' [] (to_lower key)"

definition trim_prefix :: "string \<Rightarrow> string \<Rightarrow> string" where
  "trim_prefix s p = (if is_prefix p s then drop (length p) s else s)"

definition trim_suffix :: "string \<Rightarrow> string \<Rightarrow> string" where
  "trim_suffix s p = (if is_suffix p s then take (length s - length p) s else s)"

definition near_miss :: "string list \<Rightarrow> string \<Rightarrow> refusal option" where
  "near_miss carried key =
     (if key \<in> set carried then None
      else map_option (NearMiss key)
        (find (\<lambda>name. fold_key name = fold_key (trim_suffix (trim_prefix key ''!'') ''*'')) (sort carried)))"

text \<open>The first refusal in key order; \<open>carried\<close> lists each name once.\<close>

fun check_near_miss :: "string gomap \<Rightarrow> string list \<Rightarrow> refusal option" where
  "check_near_miss [] carried = None"
| "check_near_miss ((key, value) # filters) carried =
     (case near_miss carried key of Some r \<Rightarrow> Some r | None \<Rightarrow> check_near_miss filters carried)"

section \<open>The text a filter matches\<close>

text \<open>
  \<open>strconv.Unquote\<close> of a double-quoted literal: the escapes of a Go string, which are not
  those of JSON (a surrogate or \<open>\/\<close> is an error). The argument is what follows the opening
  quote; the closing quote must be the last character.
\<close>

definition hex_many :: "string \<Rightarrow> nat option" where
  "hex_many s = (if None \<in> hex_val ` set s then None else Some (fold (\<lambda>c n. 16 * n + the (hex_val c)) s 0))"

definition valid_rune :: "nat \<Rightarrow> bool" where
  "valid_rune r = (r \<le> 1114111 \<and> \<not> (55296 \<le> r \<and> r \<le> 57343))"

text \<open>What follows a backslash: its bytes and how many characters it took.\<close>

definition go_escape :: "string \<Rightarrow> (string \<times> nat) option" where
  "go_escape s = (case s of [] \<Rightarrow> None | c # t \<Rightarrow>
     if c = CHR ''a'' then Some ([CHR 0x07], 1)
     else if c = CHR ''b'' then Some ([CHR 0x08], 1)
     else if c = CHR ''f'' then Some ([CHR 0x0C], 1)
     else if c = CHR ''n'' then Some ([CHR 0x0A], 1)
     else if c = CHR ''r'' then Some ([CHR 0x0D], 1)
     else if c = CHR ''t'' then Some ([CHR 0x09], 1)
     else if c = CHR ''v'' then Some ([CHR 0x0B], 1)
     else if c = CHR 0x5C \<or> c = CHR 0x22 then Some ([c], 1)
     else if c = CHR ''x'' \<or> c = CHR ''u'' \<or> c = CHR ''U'' then
       (let n = (if c = CHR ''x'' then 2 else if c = CHR ''u'' then 4 else 8) in
        if length (take n t) < n then None
        else case hex_many (take n t) of
          None \<Rightarrow> None
        | Some r \<Rightarrow>
            if c = CHR ''x'' then Some ([char_of r], 3)
            else if valid_rune r then Some (utf8_enc r, Suc n) else None)
     else if 48 \<le> byte c \<and> byte c \<le> 55 then
       (case t of
          d # e # _ \<Rightarrow>
            if 48 \<le> byte d \<and> byte d \<le> 55 \<and> 48 \<le> byte e \<and> byte e \<le> 55 then
              (let r = (byte c - 48) * 64 + (byte d - 48) * 8 + (byte e - 48) in
               if 255 < r then None else Some ([char_of r], 3))
            else None
        | _ \<Rightarrow> None)
     else None)"

function go_unquote :: "string \<Rightarrow> string option" where
  "go_unquote [] = None"
| "go_unquote (c # s) =
     (if c = CHR 0x22 then (if s = [] then Some [] else None)
      else if c = CHR 0x0A then None
      else if c = CHR 0x5C then
        (case go_escape s of None \<Rightarrow> None
         | Some (bs, n) \<Rightarrow> map_option (\<lambda>x. bs @ x) (go_unquote (drop n s)))
      else if byte c < 128 then map_option (\<lambda>x. c # x) (go_unquote s)
      else (let k = utf8_len (c # s) in
            if k = 0 then map_option (\<lambda>x. utf8_replacement @ x) (go_unquote s)
            else map_option (\<lambda>x. c # take (k - 1) s @ x) (go_unquote (drop (k - 1) s))))"
  by pat_completeness auto
termination
  by (relation "measure length") auto

declare go_unquote.simps [simp del]

text \<open>Stored facts are canonical, so the raw token of a value is its encoding.\<close>

definition fact_text :: "json \<Rightarrow> string" where
  "fact_text raw =
     (let text = json_enc raw in
      if is_prefix [CHR 0x22] text
      then (case go_unquote (tl text) of None \<Rightarrow> text | Some unquoted \<Rightarrow> unquoted)
      else text)"

definition match_value :: "string \<Rightarrow> bool \<Rightarrow> string \<Rightarrow> bool" where
  "match_value text present wanted =
     (let negate = is_prefix ''!'' wanted; pattern = trim_prefix wanted ''!'' in
      if \<not> present then negate
      else
        (let hit = (if is_suffix ''*'' pattern then is_prefix (trim_suffix pattern ''*'') text
                    else text = pattern)
         in hit \<noteq> negate))"

section \<open>Pagination\<close>

definition paginate :: "int \<Rightarrow> int \<Rightarrow> string \<Rightarrow> int \<Rightarrow> int \<times> int \<times> string option" where
  "paginate held requested cursor cap =
     (let max_limit = (if 0 < cap then cap else fallback_max_limit);
          wanted = (if requested = 0 then default_page_limit else requested);
          limit = (if max_limit < wanted then max_limit else wanted);
          asked = (case parse_int64 cursor of None \<Rightarrow> 0 | Some p \<Rightarrow> if 0 < p then p else 0);
          offset = (if held < asked then held else asked);
          after = wrap64 (offset + limit)
      in (offset, limit, if after < held then Some (int_str after) else None))"

section \<open>Secrets\<close>

definition without_secrets :: "json \<Rightarrow> string list \<Rightarrow> json" where
  "without_secrets raw secrets =
     (case raw_map raw of
        None \<Rightarrow> raw
      | Some facts \<Rightarrow>
          if \<exists>name \<in> set (mkeys facts). name \<in> set secrets
          then JObj (filter (\<lambda>p. fst p \<notin> set secrets) facts)
          else raw)"

section \<open>The route\<close>

record object_view =
  ov_id :: string
  ov_instance :: "string option"
  ov_name :: string
  ov_type :: string
  ov_facts :: json
  ov_at :: f64

record objects_page =
  pg_objects :: "object_view list"
  pg_total :: nat
  pg_limit :: int
  pg_next :: "string option"

text \<open>A slice whose end a wrapped sum puts before its start is a run-time panic.\<close>

datatype objects_reply = Unknown | ServerError | Refuse refusal | Page objects_page | Panic

definition instance_of :: "string \<Rightarrow> string option" where
  "instance_of scope = (if scope = host_native then None else Some scope)"

definition view_of :: "obj_row \<times> json \<Rightarrow> object_view" where
  "view_of p = (case p of (r, served) \<Rightarrow>
     \<lparr>ov_id = o_id r, ov_instance = instance_of (o_scope r), ov_name = o_name r, ov_type = o_type r,
      ov_facts = served, ov_at = o_at r\<rparr>)"

definition served_facts :: "string list \<Rightarrow> obj_row \<Rightarrow> json" where
  "served_facts secrets r = (if secrets \<noteq> [] then without_secrets (o_facts r) secrets else o_facts r)"

definition fact_members :: "json \<Rightarrow> json gomap" where
  "fact_members served = (case raw_map served of None \<Rightarrow> [] | Some m \<Rightarrow> m)"

definition row_matches :: "string gomap \<Rightarrow> obj_row \<times> json \<Rightarrow> bool" where
  "row_matches filters p = (case p of (r, served) \<Rightarrow>
     \<forall>(key, wanted) \<in> set filters.
       (if key = ''type'' then match_value (o_type r) (o_type r \<noteq> []) wanted
        else case mget (fact_members served) key of
          None \<Rightarrow> match_value [] False wanted
        | Some raw \<Rightarrow> match_value (fact_text raw) True wanted))"

definition carried_keys :: "(obj_row \<times> json) list \<Rightarrow> string list" where
  "carried_keys rows = remdups (concat (map (\<lambda>p. mkeys (fact_members (snd p))) rows) @ [''type''])"

text \<open>One page of the rows that match.\<close>

definition page_of :: "(obj_row \<times> json) list \<Rightarrow> int \<Rightarrow> string \<Rightarrow> int \<Rightarrow> objects_reply" where
  "page_of kept limit cursor cap =
     (let held = int (length kept);
          (offset, applied_limit, next_cursor) = paginate held limit cursor cap;
          stop = min (wrap64 (offset + applied_limit)) held
      in if stop < offset then Panic
         else Page \<lparr>pg_objects = map view_of (take (nat (stop - offset)) (drop (nat offset) kept)),
              pg_total = length kept, pg_limit = applied_limit, pg_next = next_cursor\<rparr>)"

definition objects_route :: "db \<Rightarrow> string \<Rightarrow> query \<Rightarrow> objects_reply" where
  "objects_route d name q =
     (if \<not> has_collection name d then Unknown
      else case parse_page q of
        Inl refused \<Rightarrow> Refuse refused
      | Inr (filters, limit, cursor) \<Rightarrow>
     (let document = declaration_for name d in
      case secret_facts document name of
        None \<Rightarrow> ServerError
      | Some secrets \<Rightarrow>
     (let rows = map (\<lambda>r. (r, served_facts secrets r)) (objects_of name d) in
      case (if rows = [] then None else check_near_miss filters (carried_keys rows)) of
        Some refused \<Rightarrow> Refuse refused
      | None \<Rightarrow> page_of (filter (row_matches filters) rows) limit cursor (ceiling_for document name))))"

section \<open>Following the cursor\<close>

text \<open>A reader that follows \<open>next_cursor\<close> for at most the given number of pages.\<close>

fun read_pages :: "nat \<Rightarrow> db \<Rightarrow> string \<Rightarrow> query \<Rightarrow> object_view list option" where
  "read_pages 0 d name q = None"
| "read_pages (Suc n) d name q =
     (case objects_route d name q of
        Page p \<Rightarrow>
          (case pg_next p of
             None \<Rightarrow> Some (pg_objects p)
           | Some c \<Rightarrow> map_option (\<lambda>vs. pg_objects p @ vs) (read_pages n d name (mput ''cursor'' [c] q)))
      | _ \<Rightarrow> None)"

text \<open>The matching rows as the route finds them, before it pages them.\<close>

definition matching :: "db \<Rightarrow> string \<Rightarrow> string list \<Rightarrow> string gomap \<Rightarrow> (obj_row \<times> json) list" where
  "matching d name secrets filters =
     filter (row_matches filters) (map (\<lambda>r. (r, served_facts secrets r)) (objects_of name d))"

text \<open>What the route answers with a page depends on the cursor in the page alone.\<close>

definition admitted :: "db \<Rightarrow> string \<Rightarrow> query \<Rightarrow> string gomap \<Rightarrow> int \<Rightarrow> string \<Rightarrow> string list \<Rightarrow> bool" where
  "admitted d name q filters limit cursor secrets =
     (has_collection name d \<and> parse_page q = Inr (filters, limit, cursor) \<and>
      secret_facts (declaration_for name d) name = Some secrets \<and>
      (objects_of name d = [] \<or>
       check_near_miss filters (carried_keys (map (\<lambda>r. (r, served_facts secrets r)) (objects_of name d))) = None))"

lemma route_admitted:
  "admitted d name q filters limit cursor secrets \<Longrightarrow>
   objects_route d name q =
     page_of (matching d name secrets filters) limit cursor (ceiling_for (declaration_for name d) name)"
  by (auto simp: admitted_def objects_route_def matching_def Let_def)

lemma route_page:
  assumes "objects_route d name q = Page p"
  shows "\<exists>filters limit cursor secrets. admitted d name q filters limit cursor secrets"
  using assms by (auto simp: objects_route_def admitted_def Let_def split: if_splits sum.splits option.splits)

lemma wrap64_id: "int64_min \<le> x \<Longrightarrow> x \<le> int64_max \<Longrightarrow> wrap64 x = x"
  by (simp add: wrap64_def int64_min_def int64_max_def)

lemma parse_params_cursor:
  "''cursor'' \<notin> set (mkeys q) \<Longrightarrow>
   parse_params q f l c' = (case parse_params q f l c of Inl e \<Rightarrow> Inl e | Inr (f', l', _) \<Rightarrow> Inr (f', l', c'))"
proof (induction q f l c rule: parse_params.induct)
  case (2 key vs q f l c)
  then show ?case by (auto simp: Let_def split: option.splits)
qed simp

lemma parse_params_put:
  "mok q \<Longrightarrow> parse_params q f l c = Inr (f', l', c') \<Longrightarrow>
   parse_params (mput ''cursor'' [x] q) f l c = Inr (f', l', x)"
proof (induction q f l c rule: parse_params.induct)
  case (1 f l c)
  then show ?case by (simp add: first_value_def)
next
  case (2 key vs q f l c)
  note IH = 2(1-3) and prems = 2(4,5)
  have q: "mok q" and later: "\<forall>k \<in> set (mkeys q). key < k" using prems by (simp_all add: mok_Cons)
  consider (same) "key = ''cursor''" | (before) "''cursor'' < key" | (after) "key < ''cursor''"
    using less_linear by blast
  then show ?case
  proof cases
    case same
    then have "''cursor'' \<notin> set (mkeys q)" using later by auto
    from parse_params_cursor [OF this, of f l x "first_value vs"] show ?thesis
      using same prems by (simp add: Let_def first_value_def)
  next
    case before
    then have "''cursor'' \<notin> set (mkeys ((key, vs) # q))" using later by auto
    moreover have "mput ''cursor'' [x] ((key, vs) # q) = (''cursor'', [x]) # (key, vs) # q" using before by auto
    ultimately show ?thesis
      using parse_params_cursor [of "(key, vs) # q" f l x c] prems by (simp only: parse_params.simps(2)) (simp add: Let_def first_value_def)
  next
    case after
    then have "mput ''cursor'' [x] ((key, vs) # q) = (key, vs) # mput ''cursor'' [x] q" by auto
    then show ?thesis
      using after IH q prems by (auto simp: Let_def split: if_splits option.splits)
  qed
qed

lemma admitted_cursor:
  "mok q \<Longrightarrow> admitted d name q filters limit cursor secrets \<Longrightarrow>
   admitted d name (mput ''cursor'' [c] q) filters limit c secrets"
  using parse_params_put [of q "[]" 0 "[]" filters limit cursor c] by (simp add: admitted_def parse_page_def)

definition page_limit :: "int \<Rightarrow> int \<Rightarrow> int" where
  "page_limit requested cap =
     min (if requested = 0 then default_page_limit else requested)
         (if 0 < cap then cap else fallback_max_limit)"

lemma parse_params_limit: "parse_params q f l c = Inr (f', l', c') \<Longrightarrow> 0 \<le> l \<Longrightarrow> 0 \<le> l'"
proof (induction q f l c rule: parse_params.induct)
  case (2 key vs q f l c)
  then show ?case by (auto simp: Let_def split: if_splits option.splits)
qed simp

lemma page_of_offset:
  fixes kept :: "(obj_row \<times> json) list"
  defines "held \<equiv> int (length kept)"
  assumes "0 \<le> requested" and "held + page_limit requested cap \<le> int64_max"
    and "case parse_int64 cursor of None \<Rightarrow> offset = 0 | Some p \<Rightarrow> p = offset" and "0 \<le> offset" "offset \<le> held"
  shows "page_of kept requested cursor cap =
    Page \<lparr>pg_objects = map view_of (take (nat (page_limit requested cap)) (drop (nat offset) kept)),
      pg_total = length kept, pg_limit = page_limit requested cap,
      pg_next = (if offset + page_limit requested cap < held
                 then Some (int_str (offset + page_limit requested cap)) else None)\<rparr>"
proof -
  define l where "l = page_limit requested cap"
  have l: "0 < l" using assms(2)
    by (simp add: l_def page_limit_def default_page_limit_def fallback_max_limit_def)
  have bound: "held + l \<le> int64_max" using assms(3) by (simp add: l_def)
  have w: "wrap64 (offset + l) = offset + l"
    using bound assms(5,6) l by (intro wrap64_id) (simp_all add: int64_min_def)
  have lim: "(if (if 0 < cap then cap else fallback_max_limit) < (if requested = 0 then default_page_limit else requested)
      then (if 0 < cap then cap else fallback_max_limit) else (if requested = 0 then default_page_limit else requested)) = l"
    by (simp add: l_def page_limit_def)
  have off: "(let asked = (case parse_int64 cursor of None \<Rightarrow> 0 | Some p \<Rightarrow> if 0 < p then p else 0)
      in (if held < asked then held else asked)) = offset"
    using assms(4-6) by (auto simp: Let_def split: option.splits)
  have p: "paginate held requested cursor cap = (offset, l, if offset + l < held then Some (int_str (offset + l)) else None)"
    unfolding paginate_def Let_def lim using off by (simp add: Let_def w)
  have "take (nat (min (offset + l) held - offset)) (drop (nat offset) kept) = take (nat l) (drop (nat offset) kept)"
    using assms(5,6) l by (simp add: held_def min_def)
  moreover have "\<not> min (offset + l) held < offset" using l assms(6) by simp
  ultimately show ?thesis
    unfolding page_of_def Let_def held_def [symmetric]
    by (simp only: p prod.case w l_def [symmetric] if_False)
qed


lemma read_pages_from:
  assumes "admitted d name q filters limit cursor secrets" and "mok q" and "0 \<le> limit"
    and "int (length (matching d name secrets filters)) +
         page_limit limit (ceiling_for (declaration_for name d) name) \<le> int64_max"
    and "case parse_int64 cursor of None \<Rightarrow> k = 0 | Some p \<Rightarrow> p = int k"
    and "k \<le> length (matching d name secrets filters)" and "length (matching d name secrets filters) - k < n"
  shows "read_pages n d name q = Some (map view_of (drop k (matching d name secrets filters)))"
  using assms
proof (induction n arbitrary: q cursor k)
  case (Suc n)
  define K where "K = matching d name secrets filters"
  define l where "l = page_limit limit (ceiling_for (declaration_for name d) name)"
  have l: "0 < l" using Suc.prems(3)
    by (simp add: l_def page_limit_def default_page_limit_def fallback_max_limit_def)
  have "case parse_int64 cursor of None \<Rightarrow> int k = 0 | Some p \<Rightarrow> p = int k"
    using Suc.prems(5) by (simp split: option.splits)
  then have route: "objects_route d name q = Page \<lparr>pg_objects = map view_of (take (nat l) (drop k K)),
      pg_total = length K, pg_limit = l,
      pg_next = (if int k + l < int (length K) then Some (int_str (int k + l)) else None)\<rparr>"
    using route_admitted [OF Suc.prems(1)] Suc.prems(3,4,6)
      page_of_offset [where requested = limit and kept = K and cursor = cursor and offset = "int k"
        and cap = "ceiling_for (declaration_for name d) name"]
    by (simp add: K_def l_def)
  show ?case
  proof (cases "int k + l < int (length K)")
    case False
    then have "take (nat l) (drop k K) = drop k K" using l by simp
    then show ?thesis using route False by (simp add: K_def)
  next
    case True
    define k' where "k' = k + nat l"
    have k': "int k + l = int k'" using l by (simp add: k'_def)
    have "int k' \<le> int64_max" using True Suc.prems(4) l unfolding k' [symmetric] K_def l_def by linarith
    then have c: "parse_int64 (int_str (int k')) = Some (int k')"
      by (simp add: int_str_def parse_int64_nat_str)
    have "int k' < int (length K)" using True unfolding k' .
    then have less: "k' < length K" by simp
    have "k < k'" using l by (simp add: k'_def)
    moreover have "length K - k < Suc n" using Suc.prems(7) unfolding K_def .
    ultimately have k'_le: "k' \<le> length K" "length K - k' < n" using less by linarith+
    have "read_pages n d name (mput ''cursor'' [int_str (int k')] q) = Some (map view_of (drop k' K))"
      unfolding K_def
    proof (rule Suc.IH [OF admitted_cursor [OF Suc.prems(2,1)]])
      show "mok (mput ''cursor'' [int_str (int k')] q)" by (rule mok_mput [OF Suc.prems(2)])
      show "case parse_int64 (int_str (int k')) of None \<Rightarrow> k' = 0 | Some p \<Rightarrow> p = int k'" by (simp add: c)
    qed (use Suc.prems(3,4) k'_le in \<open>simp_all add: K_def\<close>)
    moreover have "take (nat l) (drop k K) @ drop k' K = drop k K"
      by (metis append_take_drop_id drop_drop k'_def add.commute)
    ultimately show ?thesis
      using route True by (simp add: k' K_def flip: map_append)
  qed
qed simp

section \<open>Properties\<close>

text \<open>
  Property C24. Following \<open>next_cursor\<close> visits every matching object once. When the first
  request of a query answers with a page, a reader that repeats it with each page's cursor
  gets, after finitely many pages, exactly the views of the rows that match its filters, each
  once and in the order of the collection, as many as every page's total says.
\<close>

theorem pages_visit_every_match_once:
  assumes "objects_route d name q = Page p" and "mok q" and "mget q ''cursor'' = None"
    and "int (pg_total p) + max 1000 (ceiling_for (declaration_for name d) name) \<le> int64_max"
  shows "\<exists>filters limit secrets.
     parse_page q = Inr (filters, limit, []) \<and> secret_facts (declaration_for name d) name = Some secrets \<and>
     pg_total p = length (matching d name secrets filters) \<and>
     read_pages (Suc (pg_total p)) d name q = Some (map view_of (matching d name secrets filters))"
proof -
  obtain filters limit cursor secrets where adm: "admitted d name q filters limit cursor secrets"
    using route_page [OF assms(1)] by blast
  have "''cursor'' \<notin> set (mkeys q)" using assms(3) mget_in_keys by metis
  from parse_params_cursor [OF this, of "[]" 0 "[]" "[]"] adm have cursor: "cursor = []"
    by (simp add: admitted_def parse_page_def)
  have limit: "0 \<le> limit"
    using adm parse_params_limit [of q "[]" 0 "[]"] by (auto simp: admitted_def parse_page_def)
  let ?K = "matching d name secrets filters" and ?cap = "ceiling_for (declaration_for name d) name"
  have total: "pg_total p = length ?K"
    using assms(1) by (auto simp: route_admitted [OF adm] page_of_def Let_def split: prod.splits if_splits)
  have "page_limit limit ?cap \<le> max 1000 ?cap"
    by (auto simp: page_limit_def fallback_max_limit_def)
  then have "read_pages (Suc (pg_total p)) d name q = Some (map view_of (drop 0 ?K))"
    using assms(2,4) limit adm cursor total
    by (intro read_pages_from) (auto simp: parse_int64_def)
  then show ?thesis using adm cursor total by (auto simp: admitted_def)
qed

text \<open>
  Two rows that differ at most in the secret facts they carry. Stored facts are canonical, so
  each is an object with sorted members.
\<close>

definition same_but_secret :: "string list \<Rightarrow> obj_row \<Rightarrow> obj_row \<Rightarrow> bool" where
  "same_but_secret secrets r r' =
     (r' = r\<lparr>o_facts := o_facts r'\<rparr> \<and>
      (case (o_facts r, o_facts r') of
         (JObj m, JObj m') \<Rightarrow> mok m \<and> mok m' \<and>
           filter (\<lambda>p. fst p \<notin> set secrets) m = filter (\<lambda>p. fst p \<notin> set secrets) m'
       | _ \<Rightarrow> False))"

definition secrets_apart :: "string \<Rightarrow> string list \<Rightarrow> obj_row list \<Rightarrow> obj_row list \<Rightarrow> bool" where
  "secrets_apart name secrets rows rows' =
     list_all2 (\<lambda>r r'. if o_collection r = name then same_but_secret secrets r r' else r' = r) rows rows'"

lemma without_secrets_obj: "mok m \<Longrightarrow> without_secrets (JObj m) secrets = JObj (filter (\<lambda>p. fst p \<notin> set secrets) m)"
  by (auto simp: without_secrets_def raw_map_def mof_mok intro!: filter_True [symmetric])

lemma served_same: "same_but_secret secrets r r' \<Longrightarrow> served_facts secrets r = served_facts secrets r'"
  by (auto simp: same_but_secret_def served_facts_def without_secrets_obj split: json.splits)

lemma same_but_fields:
  "same_but_secret secrets r r' \<Longrightarrow>
     o_collection r' = o_collection r \<and> o_scope r' = o_scope r \<and> o_id r' = o_id r \<and> o_name r' = o_name r \<and>
     o_type r' = o_type r \<and> o_at r' = o_at r \<and> o_seq r' = o_seq r"
proof -
  assume "same_but_secret secrets r r'"
  then have eq: "r' = r\<lparr>o_facts := o_facts r'\<rparr>" unfolding same_but_secret_def by (rule conjunct1)
  define f where "f = o_facts r'"
  have "r' = r\<lparr>o_facts := f\<rparr>" unfolding f_def by (rule eq)
  note e = this
  show ?thesis unfolding e by simp
qed

lemma insort_pairwise:
  assumes "list_all2 P xs ys" and keys: "\<And>x y. P x y \<Longrightarrow> f x = f y" and "P x y"
  shows "list_all2 P (insort_key f x xs) (insort_key f y ys)"
  using assms(1)
proof (induction xs ys rule: list_all2_induct)
  case (Cons a xs b ys)
  then show ?case using assms(3) keys [OF assms(3)] keys [OF Cons(1)] by simp
qed (simp add: assms(3))

lemma sort_pairwise:
  assumes "list_all2 P xs ys" and "\<And>x y. P x y \<Longrightarrow> f x = f y"
  shows "list_all2 P (sort_key f xs) (sort_key f ys)"
  using assms(1)
proof (induction xs ys rule: list_all2_induct)
  case (Cons x xs y ys)
  then show ?case using insort_pairwise [OF Cons.IH assms(2) Cons(1)] by (simp add: sort_key_def)
qed simp

lemma filter_pairwise:
  "list_all2 P xs ys \<Longrightarrow> (\<And>x y. P x y \<Longrightarrow> p x = q y) \<Longrightarrow> list_all2 P (filter p xs) (filter q ys)"
  by (induction xs ys rule: list_all2_induct) auto

lemma objects_apart:
  assumes "secrets_apart name secrets (d_objs d) objs"
  shows "list_all2 (same_but_secret secrets) (objects_of name d) (objects_of name (d\<lparr>d_objs := objs\<rparr>))"
proof -
  let ?P = "\<lambda>r r'. if o_collection r = name then same_but_secret secrets r r' else r' = r"
  have "list_all2 ?P (filter (\<lambda>r. o_collection r = name) (d_objs d)) (filter (\<lambda>r. o_collection r = name) objs)"
    using assms unfolding secrets_apart_def by (rule filter_pairwise) (metis same_but_fields)
  then have "list_all2 (same_but_secret secrets) (filter (\<lambda>r. o_collection r = name) (d_objs d))
      (filter (\<lambda>r. o_collection r = name) objs)"
    by (rule list.rel_mono_strong) auto
  then show ?thesis
    unfolding objects_of_def by (simp, intro sort_pairwise) (simp_all add: same_but_fields)
qed

definition same_answer :: "obj_row \<times> json \<Rightarrow> obj_row \<times> json \<Rightarrow> bool" where
  "same_answer p p' = (snd p = snd p' \<and> view_of p = view_of p' \<and> (\<forall>fs. row_matches fs p = row_matches fs p'))"

lemma answer_same:
  "same_but_secret secrets r r' \<Longrightarrow> same_answer (r, served_facts secrets r) (r', served_facts secrets r')"
  using same_but_fields [of secrets r r'] served_same [of secrets r r']
  by (auto simp: same_answer_def view_of_def row_matches_def)

lemma answers_same:
  "list_all2 same_answer ps ps' \<Longrightarrow>
     map snd ps = map snd ps' \<and> map view_of (filter (row_matches fs) ps) = map view_of (filter (row_matches fs) ps')"
  by (induction ps ps' rule: list_all2_induct) (auto simp: same_answer_def)

lemma carried_keys_snd:
  "carried_keys ps = remdups (concat (map (\<lambda>j. mkeys (fact_members j)) (map snd ps)) @ [''type''])"
  by (simp add: carried_keys_def comp_def)

lemma page_views:
  "map view_of ps = map view_of ps' \<Longrightarrow> page_of ps limit cursor cap = page_of ps' limit cursor cap"
proof -
  assume views: "map view_of ps = map view_of ps'"
  then have len: "length ps = length ps'" by (rule map_eq_imp_length_eq)
  have "map view_of (take n (drop k ps)) = map view_of (take n (drop k ps'))" for n k
    unfolding take_map [symmetric] drop_map [symmetric] views ..
  with len show ?thesis by (simp add: page_of_def Let_def split: prod.split)
qed


lemma views_without:
  "Page p = page_of ps limit cursor cap \<Longrightarrow> v \<in> set (pg_objects p) \<Longrightarrow> \<exists>q \<in> set ps. v = view_of q"
  by (auto simp: page_of_def Let_def split: prod.splits if_splits dest!: in_set_takeD in_set_dropD)

lemma withheld: "secret \<in> set secrets \<Longrightarrow> mget (fact_members (served_facts secrets r)) secret = None"
proof (cases "raw_map (o_facts r)")
  case (Some m)
  assume s: "secret \<in> set secrets"
  then have ne: "secrets \<noteq> []" by auto
  have m: "mok m" using Some by (auto simp: raw_map_def split: json.splits)
  have gone: "map_of (filter (\<lambda>p. fst p \<notin> set secrets) m) secret = None"
    using s by (auto simp: map_of_eq_None_iff)
  show ?thesis
  proof (cases "\<exists>name \<in> set (mkeys m). name \<in> set secrets")
    case True
    then show ?thesis
      using gone mok_filter [OF m] ne Some
      by (simp add: served_facts_def without_secrets_def fact_members_def raw_map_def mof_mok)
  next
    case False
    then have "secret \<notin> set (mkeys m)" using s by blast
    then have "mget m secret = None" using mget_in_keys by metis
    then show ?thesis using False ne Some
      by (auto simp: served_facts_def without_secrets_def fact_members_def)
  qed
qed (auto simp: served_facts_def without_secrets_def fact_members_def split: if_splits)

text \<open>
  Property C25. A secret fact reaches no answer of the objects route. Whatever the query, no
  served object carries a fact its declaration discloses as secret, and two stores that differ
  only in the secret facts of the collection (their values, or whether they are there) give
  the same answer: the same page, the same refusal, the same cursor; so no filter can be used to
  guess one.
\<close>

theorem secrets_never_served:
  assumes "secret_facts (declaration_for name d) name = Some secrets"
    and "secrets_apart name secrets (d_objs d) objs"
  shows "objects_route (d\<lparr>d_objs := objs\<rparr>) name q = objects_route d name q \<and>
    (case objects_route d name q of
       Page p \<Rightarrow> \<forall>v \<in> set (pg_objects p). \<forall>secret \<in> set secrets. mget (fact_members (ov_facts v)) secret = None
     | _ \<Rightarrow> True)"
proof (intro conjI)
  let ?d = "d\<lparr>d_objs := objs\<rparr>" and ?pair = "\<lambda>r. (r, served_facts secrets r)"
  let ?rows = "map ?pair (objects_of name d)" and ?rows' = "map ?pair (objects_of name (d\<lparr>d_objs := objs\<rparr>))"
  have "list_all2 same_answer ?rows ?rows'"
    unfolding list.rel_map
    by (rule list.rel_mono_strong [OF objects_apart [where d = d, OF assms(2)]]) (rule answer_same)
  note same = answers_same [OF this]
  have carried: "carried_keys ?rows' = carried_keys ?rows"
    unfolding carried_keys_snd by (simp only: conjunct1 [OF same [of "[]"]])
  have empty: "?rows' = [] \<longleftrightarrow> ?rows = []" 
    using arg_cong [where f = length, OF conjunct1 [OF same [of "[]"]]] by (simp only: length_map length_0_conv [symmetric])
  have decl: "declaration_for name ?d = declaration_for name d" "has_collection name ?d = has_collection name d"
    by (simp_all add: declaration_for_def has_collection_def split: option.split)
  have pages: "page_of (filter (row_matches fs) ?rows') limit cursor cap = page_of (filter (row_matches fs) ?rows) limit cursor cap"
    for fs limit cursor cap
    by (rule page_views) (use same in simp)
  show "objects_route ?d name q = objects_route d name q"
    unfolding objects_route_def Let_def decl assms(1) option.case carried empty pages ..
  show "case objects_route d name q of
       Page p \<Rightarrow> \<forall>v \<in> set (pg_objects p). \<forall>secret \<in> set secrets. mget (fact_members (ov_facts v)) secret = None
     | _ \<Rightarrow> True"
  proof (cases "objects_route d name q")
    case (Page p)
    then obtain filters limit cursor secrets' where adm: "admitted d name q filters limit cursor secrets'"
      using route_page by blast
    then have "secrets' = secrets" using assms(1) by (simp add: admitted_def)
    then have page: "Page p = page_of (matching d name secrets filters) limit cursor (ceiling_for (declaration_for name d) name)"
      using route_admitted [OF adm] Page by simp
    have "mget (fact_members (ov_facts v)) secret = None"
      if v_in: "v \<in> set (pg_objects p)" and secret: "secret \<in> set secrets" for v secret
    proof -
      obtain p' where "p' \<in> set (matching d name secrets filters)" and v: "v = view_of p'"
        using views_without [OF page v_in] by blast
      then obtain r where "p' = (r, served_facts secrets r)" by (auto simp: matching_def)
      then show ?thesis using withheld [OF secret] by (simp add: v view_of_def)
    qed
    then show ?thesis by (simp add: Page)
  qed simp_all
qed

section \<open>A collection with a secret\<close>

definition keys_document :: string where
  \<open>keys_document = ''{"collector":"keys","collections":[{"name":"keys","freshness":"30s","prefix":"key","ceiling":{"records":2},"facts":{"State":{},"Token":{"discloses":"secret"}}}]}''\<close>

definition key_row :: "nat \<Rightarrow> string \<Rightarrow> string \<Rightarrow> string \<Rightarrow> obj_row" where
  "key_row n name state token =
     \<lparr>o_collection = ''keys'', o_scope = [], o_id = mint_id ''keys'' name, o_name = name, o_type = [],
      o_facts = JObj [(''State'', JStr state), (''Token'', JStr token)], o_names = None, o_absent = [],
      o_at = Fin 5, o_seq = n\<rparr>"

definition keys_db :: "string \<Rightarrow> db" where
  "keys_db token = empty_db\<lparr>d_cols := [(''keys'', fresh_row ''d'')], d_decls := [(''d'', keys_document)],
     d_objs := [key_row 0 ''a'' ''on'' token, key_row 1 ''b'' ''off'' token, key_row 2 ''c'' ''on'' token,
                key_row 3 ''d'' ''on'' token]\<rparr>"

lemma keys_secret: "secret_facts (declaration_for ''keys'' (keys_db token)) ''keys'' = Some [''Token'']"
proof -
  have "declaration_for ''keys'' (keys_db token) = keys_document"
    by (simp add: keys_db_def declaration_for_def fresh_row_def)
  moreover have "secret_facts keys_document ''keys'' = Some [''Token'']" by code_simp
  ultimately show ?thesis by simp
qed

lemma secrets_never_served_witness:
  "objects_route (keys_db ''hunter2'') ''keys'' [(''Token'', [''hunter2''])] =
   objects_route (keys_db ''x'') ''keys'' [(''Token'', [''hunter2''])]"
proof -
  have "secrets_apart ''keys'' [''Token''] (d_objs (keys_db ''x'')) (d_objs (keys_db ''hunter2''))"
    by (simp add: keys_db_def secrets_apart_def key_row_def same_but_secret_def mok_def)
  from secrets_never_served [OF keys_secret this] show ?thesis
    by (simp add: keys_db_def)
qed

lemma pages_visit_every_match_once_witness:
  "\<exists>views. read_pages 4 (keys_db ''x'') ''keys'' [(''State'', [''on''])] = Some views \<and> length views = 3"
proof -
  let ?view = "\<lambda>i n. \<lparr>ov_id = i, ov_instance = None, ov_name = n, ov_type = [], ov_facts = JObj [(''State'', JStr ''on'')], ov_at = Fin 5\<rparr>"
  let ?page = "\<lparr>pg_objects = [?view ''keys:a'' ''a'', ?view ''keys:c'' ''c''], pg_total = 3, pg_limit = 2, pg_next = Some ''2''\<rparr>"
  have route: "objects_route (keys_db ''x'') ''keys'' [(''State'', [''on''])] = Page ?page" by code_simp
  have "int (pg_total ?page) + max 1000 (ceiling_for (declaration_for ''keys'' (keys_db ''x'')) ''keys'') \<le> int64_max"
    by code_simp
  moreover have "mok [(''State'', [''on''])]" by code_simp
  ultimately obtain filters secrets
    where "length (matching (keys_db ''x'') ''keys'' secrets filters) = 3"
      and "read_pages 4 (keys_db ''x'') ''keys'' [(''State'', [''on''])] =
         Some (map view_of (matching (keys_db ''x'') ''keys'' secrets filters))"
    using pages_visit_every_match_once [OF route] by (auto simp: numeral_eq_Suc)
  then show ?thesis by simp
qed

section \<open>A string fact is matched by its own text\<close>

lemma hex_many_byte:
  "hex_many [CHR ''0'', CHR ''0'', hex_digit (byte c div 16), hex_digit (byte c mod 16)] = Some (byte c)"
proof -
  have "hex_val CHR ''0'' = Some 0" by code_simp
  moreover have "byte c div 16 < 16" using of_char_mod_256 [of c, where 'a = nat] by (metis less_mult_imp_div_less mod_less_divisor numeral_times_numeral semiring_norm(12) semiring_norm(13) semiring_norm(11) zero_less_numeral)
  ultimately show ?thesis by (simp add: hex_many_def hex_digit_val)
qed

lemma go_escape_control:
  assumes "byte c < 128"
  shows "go_escape (CHR ''u'' # [CHR ''0'', CHR ''0'', hex_digit (byte c div 16), hex_digit (byte c mod 16)] @ t) = Some ([c], 5)"
  using assms hex_many_byte [of c]
  by (simp add: go_escape_def valid_rune_def utf8_enc_def)

lemma short_escape:
  "c \<in> {CHR 0x22, CHR 0x5C, CHR 0x08, CHR 0x0C, CHR 0x0A, CHR 0x0D, CHR 0x09} \<Longrightarrow>
   \<exists>e. enc_byte c = [CHR 0x5C, e] \<and> (\<forall>t. go_escape (e # t) = Some ([c], 1))"
  by (elim insertE) (simp_all add: enc_byte_def go_escape_def)

lemma unquote_ascii:
  assumes "byte c < 128"
  shows "go_unquote (enc_byte c @ t) = map_option (\<lambda>x. c # x) (go_unquote t)"
proof -
  have esc: ?thesis if "enc_byte c = CHR 0x5C # e" "go_escape (e @ t) = Some ([c], length e)" for e
    using that by (cases "go_unquote t") (simp_all add: go_unquote.simps)
  define S where "S = {CHR 0x22, CHR 0x5C, CHR 0x08, CHR 0x0C, CHR 0x0A, CHR 0x0D, CHR 0x09}"
  consider (short) "c \<in> S" | (control) "c \<notin> S" "byte c < 32 \<or> c = CHR ''<'' \<or> c = CHR ''>'' \<or> c = CHR ''&''"
    | (plain) "c \<notin> S" "\<not> (byte c < 32 \<or> c = CHR ''<'' \<or> c = CHR ''>'' \<or> c = CHR ''&'')"
    by blast
  then show ?thesis
  proof cases
    case short
    from short_escape [OF short [unfolded S_def]] obtain e where "enc_byte c = CHR 0x5C # [e]" "\<forall>t. go_escape (e # t) = Some ([c], 1)"
      by (elim exE conjE)
    then show ?thesis by (intro esc [of "[e]"]) simp_all
  next
    case control
    then have "enc_byte c = CHR 0x5C # [CHR ''u'', CHR ''0'', CHR ''0'', hex_digit (byte c div 16), hex_digit (byte c mod 16)]"
      by (simp add: enc_byte_def S_def)
    then show ?thesis by (rule esc) (use go_escape_control [OF assms, of t] in simp)
  next
    case plain
    then have "enc_byte c = [c]" by (simp add: enc_byte_def S_def)
    then show ?thesis using plain assms by (simp add: go_unquote.simps S_def)
  qed
qed
lemma go_escape_sep:
  "go_escape (CHR ''u'' # CHR ''2'' # CHR ''0'' # CHR ''2'' # CHR ''8'' # t) = Some ([CHR 0xE2, CHR 0x80, CHR 0xA8], 5)"
  "go_escape (CHR ''u'' # CHR ''2'' # CHR ''0'' # CHR ''2'' # CHR ''9'' # t) = Some ([CHR 0xE2, CHR 0x80, CHR 0xA9], 5)"
proof -
  have "hex_many ''2028'' = Some 8232" "hex_many ''2029'' = Some 8233"
    "utf8_enc 8232 = [CHR 0xE2, CHR 0x80, CHR 0xA8]" "utf8_enc 8233 = [CHR 0xE2, CHR 0x80, CHR 0xA9]"
    by code_simp+
  then show
    "go_escape (CHR ''u'' # CHR ''2'' # CHR ''0'' # CHR ''2'' # CHR ''8'' # t) = Some ([CHR 0xE2, CHR 0x80, CHR 0xA8], 5)"
    "go_escape (CHR ''u'' # CHR ''2'' # CHR ''0'' # CHR ''2'' # CHR ''9'' # t) = Some ([CHR 0xE2, CHR 0x80, CHR 0xA9], 5)"
    by (simp_all add: go_escape_def valid_rune_def)
qed

lemma unquote_enc_chars: "valid_utf8 s \<Longrightarrow> go_unquote (enc_chars s @ [CHR 0x22]) = Some s"
proof (induction s rule: valid_utf8.induct)
  case 1
  then show ?case by (simp add: enc_chars.simps go_unquote.simps)
next
  case (2 c s)
  define k where "k = utf8_len (c # s)"
  have k: "k \<noteq> 0" and IH: "go_unquote (enc_chars (drop (k - 1) s) @ [CHR 0x22]) = Some (drop (k - 1) s)"
    using 2 by (simp_all add: k_def valid_utf8.simps(2) Let_def)
  show ?case
  proof (cases "byte c < 128")
    case True
    then show ?thesis
      using IH by (simp add: k_def utf8_len_def enc_chars.simps unquote_ascii)
  next
    case False
    have sep: ?thesis if "c # s = [CHR 0xE2, CHR 0x80, x] @ r" "enc_chars (c # s) = CHR 0x5C # e @ enc_chars r"
      "go_escape (e @ enc_chars r @ [CHR 0x22]) = Some ([CHR 0xE2, CHR 0x80, x], length e)" "x \<in> {CHR 0xA8, CHR 0xA9}"
      for x e r
    proof -
      have "k = 3" using that(1,4) by (auto simp: k_def utf8_len_def cont_byte_def)
      then show ?thesis using IH that by (auto simp: go_unquote.simps)
    qed
    consider (ls) r where "c # s = [CHR 0xE2, CHR 0x80, CHR 0xA8] @ r" | (ps) r where "c # s = [CHR 0xE2, CHR 0x80, CHR 0xA9] @ r"
      | (plain) "\<not> is_prefix [CHR 0xE2, CHR 0x80, CHR 0xA8] (c # s)" "\<not> is_prefix [CHR 0xE2, CHR 0x80, CHR 0xA9] (c # s)"
      by (auto simp: is_prefix_iff)
    then show ?thesis
    proof cases
      case ls
      then show ?thesis by (intro sep [OF ls, of "''u2028''"]) (simp_all add: enc_chars.simps go_escape_sep)
    next
      case ps
      then show ?thesis by (intro sep [OF ps, of "''u2029''"]) (simp_all add: enc_chars.simps go_escape_sep)
    next
      case plain
      have "c \<noteq> CHR 0x0A" "c \<noteq> CHR 0x22" "c \<noteq> CHR 0x5C" using False by auto
      moreover have "enc_chars (c # s) = c # take (k - 1) s @ enc_chars (drop (k - 1) s)"
        using plain False k by (auto simp: enc_chars.simps k_def [symmetric] Let_def)
      moreover have "utf8_len (c # take (k - 1) s @ enc_chars (drop (k - 1) s) @ [CHR 0x22]) = k"
        using utf8_len_take [of c s] k by (simp add: k_def)
      moreover have "length (take (k - 1) s) = k - 1"
        using utf8_len_take [of c s "[]"] k unfolding k_def [symmetric] by auto
      ultimately show ?thesis
        using False k IH by (simp add: go_unquote.simps Let_def)
    qed
  qed
qed

text \<open>
  A string fact is matched by its own text. Unquoting the stored token of a string
  as a Go literal, which is what a filter is compared with, gives the string back, whatever
  characters it holds: every escape the encoder writes is one that \<open>strconv.Unquote\<close> reads
  the same way.
\<close>

theorem fact_text_of_string:
  assumes "valid_utf8 s"
  shows "fact_text (JStr s) = s"
  using unquote_enc_chars [OF assms] by (simp add: fact_text_def enc_str_def)

lemma fact_text_of_string_witness:
  "fact_text (JStr (CHR 0x22 # CHR 0x0A # CHR 0xC3 # CHR 0xA9 # ''<b>'')) = CHR 0x22 # CHR 0x0A # CHR 0xC3 # CHR 0xA9 # ''<b>''"
  by (rule fact_text_of_string) code_simp

end
