(* ===== verification/Status.thy ===== *)
theory Status
  imports Query
begin

text \<open>
  The promise check and the attention roll-up: go/internal/collate/freshness.go,
  go/internal/collate/status.go and the \<open>GET /v1/collections\<close> handler of
  go/internal/collate/rest.go. The clock is a reading in seconds since boot. A verdict carries
  the numbers its sentence states; a reason for not judging is one of four, the text of an
  evaluation error apart. An error of the handler (status 500) is \<open>None\<close>.
\<close>

section \<open>Freshness verdicts\<close>

datatype doubt = NoPromise | OtherClock | NoStamp | EarlierBoot | ImpossibleAge

datatype overdue_ground = AtLeast rat int | Aged rat int

datatype verdict = Current | Overdue overdue_ground | Unverifiable doubt

text \<open>
  A difference of two \<open>float64\<close>; one out of range is an infinity, which compares with the
  finite values as the exact difference does.
\<close>

definition f64_sub :: "rat \<Rightarrow> rat \<Rightarrow> rat" where
  "f64_sub a b = (case f64_round (a - b) of Some x \<Rightarrow> x | None \<Rightarrow> a - b)"

definition f64_near :: "rat \<Rightarrow> rat" where
  "f64_near q = (case f64_round q of Some x \<Rightarrow> x | None \<Rightarrow> q)"

text \<open>\<open>Duration.Seconds\<close> of a positive number of nanoseconds.\<close>

definition duration_seconds :: "int \<Rightarrow> rat" where
  "duration_seconds ns =
     f64_near (f64_near (of_int (ns div 10 ^ 9)) + f64_near (f64_near (of_int (ns mod 10 ^ 9)) / 10 ^ 9))"

definition equal_fold_ptr :: "string option \<Rightarrow> string \<Rightarrow> bool" where
  "equal_fold_ptr a b = (case a of None \<Rightarrow> False | Some s \<Rightarrow> equal_fold s b)"

definition skewed :: "collection_state \<Rightarrow> bool" where
  "skewed cs = (case cs_skew cs of None \<Rightarrow> False | Some n \<Rightarrow> n \<noteq> 0)"

definition freshness_verdict :: "collection_state \<Rightarrow> int \<Rightarrow> rat \<Rightarrow> string \<Rightarrow> verdict" where
  "freshness_verdict cs declared now boot =
     (if declared \<le> 0 then Unverifiable NoPromise
      else if skewed cs then Unverifiable OtherClock
      else case cs_oldest cs of
        None \<Rightarrow> Unverifiable NoStamp
      | Some oldest \<Rightarrow>
     (let bound = 2 * duration_seconds declared in
      if \<not> equal_fold_ptr (cs_boot cs) boot then
        (if bound < now then Overdue (AtLeast now declared) else Unverifiable EarlierBoot)
      else
        (let age = f64_sub now oldest in
         if age < 0 then Unverifiable ImpossibleAge
         else if bound < age then Overdue (Aged age declared)
         else Current)))"

text \<open>
  The documents come in the order a map is iterated; where two of them declare one collection
  the later decides. \<open>docs\<close> is that order.
\<close>

definition promises_of :: "string \<Rightarrow> int gomap \<Rightarrow> int gomap" where
  "promises_of document m =
     (case parse_declaration document of
        None \<Rightarrow> m
      | Some (collector, cols, table) \<Rightarrow>
          fold (\<lambda>c m. case parse_freshness (dc_freshness c) of
                        None \<Rightarrow> m | Some dur \<Rightarrow> mput (dc_name c) dur m) cols m)"

definition declared_freshness_of :: "string list \<Rightarrow> int gomap" where
  "declared_freshness_of docs = fold promises_of docs []"

definition promise :: "int gomap \<Rightarrow> string \<Rightarrow> int" where
  "promise declared name = (case mget declared name of None \<Rightarrow> 0 | Some dur \<Rightarrow> dur)"

definition freshness_map :: "string list \<Rightarrow> collection_state list \<Rightarrow> rat \<Rightarrow> string \<Rightarrow> verdict gomap" where
  "freshness_map docs states now boot =
     (let declared = declared_freshness_of docs in
      fold (\<lambda>cs m. if cs_generation cs = 0 \<or> cs_stale cs then m
                   else mput (cs_name cs) (freshness_verdict cs (promise declared (cs_name cs)) now boot) m)
        states [])"

section \<open>The collections route\<close>

record collection_view =
  cv_name :: string
  cv_generation :: nat
  cv_applied_at :: "string option"
  cv_oldest :: "rat option"
  cv_age :: "rat option"
  cv_cross_boot :: bool
  cv_mismatch :: bool
  cv_skew :: "int option"
  cv_count :: nat
  cv_stale :: bool
  cv_stale_reason :: "string option"
  cv_cost :: "f64 option"
  cv_decline :: "decline_view option"
  cv_freshness :: "verdict option"

text \<open>The age, or the marker that stands for it; \<open>now\<close> is the clock when the row is built.\<close>

definition age_or_marker :: "collection_state \<Rightarrow> rat \<Rightarrow> string \<Rightarrow> collection_view \<Rightarrow> collection_view" where
  "age_or_marker cs now boot v =
     (case cs_oldest cs of
        None \<Rightarrow> v
      | Some oldest \<Rightarrow>
          if \<not> equal_fold_ptr (cs_boot cs) boot then v\<lparr>cv_cross_boot := True\<rparr>
          else if skewed cs then v\<lparr>cv_mismatch := True, cv_skew := cs_skew cs\<rparr>
          else (let age = f64_sub now oldest in
                if age < 0 then v\<lparr>cv_mismatch := True\<rparr> else v\<lparr>cv_age := Some age\<rparr>))"

definition collection_view_of :: "verdict gomap \<Rightarrow> rat \<Rightarrow> string \<Rightarrow> collection_state \<Rightarrow> collection_view" where
  "collection_view_of verdicts now boot cs =
     age_or_marker cs now boot
       \<lparr>cv_name = cs_name cs, cv_generation = cs_generation cs, cv_applied_at = cs_applied_at cs,
        cv_oldest = cs_oldest cs, cv_age = None, cv_cross_boot = False, cv_mismatch = False,
        cv_skew = None, cv_count = cs_count cs, cv_stale = cs_stale cs,
        cv_stale_reason = cs_stale_reason cs, cv_cost = cs_cost cs, cv_decline = cs_decline cs,
        cv_freshness = mget verdicts (cs_name cs)\<rparr>"

text \<open>\<open>clock 0\<close> is read for the verdicts, \<open>clock (Suc i)\<close> for the age of row \<open>i\<close>.\<close>

definition collections_route :: "db \<Rightarrow> string list \<Rightarrow> (nat \<Rightarrow> rat) \<Rightarrow> string \<Rightarrow> collection_view list" where
  "collections_route d docs clock boot =
     (let states = collections_of d; verdicts = freshness_map docs states (clock 0) boot in
      map (\<lambda>(i, cs). collection_view_of verdicts (clock (Suc i)) boot cs)
        (zip [0..<length states] states))"

section \<open>Judging a collection\<close>

datatype unjudged = NothingApplied | NoDeclaration | NotEvaluated | NoRuleTable

datatype judgement = JudgeError | Unjudged unjudged | Judged "opinion list"

text \<open>A rule table that is present and empty judges; one that is absent (or null) does not.\<close>

definition declares_rules :: "string \<Rightarrow> string \<Rightarrow> bool" where
  "declares_rules document collection =
     (case Option.bind (json_unmarshal document) struct_of of
        None \<Rightarrow> False
      | Some kvs \<Rightarrow>
          (case list_field kvs ''collections'' of
             None \<Rightarrow> False
           | Some cols \<Rightarrow>
               (case find (\<lambda>m. text_field m ''name'' = Some collection) (List.map_filter struct_of cols) of
                  None \<Rightarrow> False
                | Some m \<Rightarrow> (case struct_get m ''rules'' of Some (JArr _) \<Rightarrow> True | _ \<Rightarrow> False))))"

definition rule_table :: "string \<Rightarrow> string \<Rightarrow> rule list option option" where
  "rule_table document collection =
     map_option (\<lambda>rules. if declares_rules document collection then Some rules else None)
       (rules_for document collection)"

definition judge_row :: "lib \<Rightarrow> rule list \<Rightarrow> string list \<Rightarrow> obj_row \<Rightarrow> opinion list" where
  "judge_row L rules secrets r =
     (case val_map (o_facts r) of
        None \<Rightarrow> []
      | Some facts \<Rightarrow>
          judge_shaped L rules (o_id r) (instance_of (o_scope r)) (o_type r)
            (filter (\<lambda>p. fst p \<notin> set secrets) facts))"

definition judge_collection :: "lib \<Rightarrow> db \<Rightarrow> collection_state \<Rightarrow> judgement" where
  "judge_collection L d cs =
     (if cs_generation cs = 0 then Unjudged NothingApplied
      else
        (let document = declaration_for (cs_name cs) d in
         if document = [] then Unjudged NoDeclaration
         else case rule_table document (cs_name cs) of
           None \<Rightarrow> Unjudged NotEvaluated
         | Some None \<Rightarrow> Unjudged NoRuleTable
         | Some (Some rules) \<Rightarrow>
             (case secret_facts document (cs_name cs) of
                None \<Rightarrow> JudgeError
              | Some secrets \<Rightarrow>
                  Judged (concat (map (judge_row L rules secrets) (objects_of (cs_name cs) d))))))"

section \<open>The roll-up\<close>

definition level_rank :: "string \<Rightarrow> nat" where
  "level_rank level =
     (if level = ''info'' then 1 else if level = ''warn'' then 2 else if level = ''critical'' then 3 else 0)"

definition level_name :: "nat \<Rightarrow> string" where
  "level_name rank =
     (if rank = 1 then ''info'' else if rank = 2 then ''warn'' else if rank = 3 then ''critical'' else [])"

text \<open>The member is absent, an explicit null, or a level.\<close>

datatype worst_member = NoMember | NullMember | Level string

definition level_json :: "nat \<Rightarrow> worst_member" where
  "level_json rank = (if rank = 0 then NullMember else Level (level_name rank))"

record status_entry =
  se_generation :: nat
  se_total :: nat
  se_judged :: bool
  se_worst :: worst_member
  se_counts :: "nat gomap"
  se_attention :: nat
  se_reason :: "unjudged option"
  se_stale :: bool
  se_stale_reason :: "string option"

record status_view =
  sv_worst :: "string option"
  sv_overdue :: "string list"
  sv_attention :: nat
  sv_unjudged :: "string list"
  sv_collections :: "status_entry gomap"

definition object_key :: "opinion \<Rightarrow> string" where
  "object_key op = (case op_instance op of None \<Rightarrow> op_object op | Some i \<Rightarrow> i @ CHR 0x00 # op_object op)"

definition count_of :: "nat gomap \<Rightarrow> string \<Rightarrow> nat" where
  "count_of m k = (case mget m k of None \<Rightarrow> 0 | Some n \<Rightarrow> n)"

definition per_object :: "opinion list \<Rightarrow> nat gomap" where
  "per_object ops =
     fold (\<lambda>op m. if count_of m (object_key op) < level_rank (op_level op)
                  then mput (object_key op) (level_rank (op_level op)) m else m) ops []"

definition tally :: "nat list \<Rightarrow> nat gomap" where
  "tally ranks = fold (\<lambda>rank c. mput (level_name rank) (Suc (count_of c (level_name rank))) c) ranks []"

definition worst_rank :: "nat list \<Rightarrow> nat" where
  "worst_rank ranks = fold max ranks 0"

definition blank_entry :: "collection_state \<Rightarrow> status_entry" where
  "blank_entry cs =
     \<lparr>se_generation = cs_generation cs, se_total = cs_count cs, se_judged = False, se_worst = NoMember,
      se_counts = [], se_attention = 0, se_reason = None, se_stale = cs_stale cs,
      se_stale_reason = cs_stale_reason cs\<rparr>"

definition judged_entry :: "collection_state \<Rightarrow> nat list \<Rightarrow> status_entry" where
  "judged_entry cs ranks =
     (blank_entry cs)\<lparr>se_judged := True, se_worst := level_json (worst_rank ranks), se_counts := tally ranks,
        se_attention := length ranks\<rparr>"

fun roll_up :: "lib \<Rightarrow> db \<Rightarrow> collection_state list \<Rightarrow> nat \<Rightarrow> status_view \<Rightarrow> (nat \<times> status_view) option" where
  "roll_up L d [] worst v = Some (worst, v)"
| "roll_up L d (cs # states) worst v =
     (case judge_collection L d cs of
        JudgeError \<Rightarrow> None
      | Unjudged reason \<Rightarrow>
          roll_up L d states worst
            (v\<lparr>sv_unjudged := sv_unjudged v @ [cs_name cs],
               sv_collections := mput (cs_name cs) ((blank_entry cs)\<lparr>se_reason := Some reason\<rparr>) (sv_collections v)\<rparr>)
      | Judged ops \<Rightarrow>
          (let ranks = map snd (per_object ops) in
           roll_up L d states (max worst (worst_rank ranks))
             (v\<lparr>sv_attention := sv_attention v + length ranks,
                sv_collections := mput (cs_name cs) (judged_entry cs ranks) (sv_collections v)\<rparr>)))"

definition overdue_names :: "verdict gomap \<Rightarrow> string list" where
  "overdue_names verdicts =
     sort (map fst (filter (\<lambda>p. case snd p of Overdue _ \<Rightarrow> True | _ \<Rightarrow> False) verdicts))"

definition status_route :: "lib \<Rightarrow> db \<Rightarrow> string list \<Rightarrow> rat \<Rightarrow> string \<Rightarrow> status_view option" where
  "status_route L d docs now boot =
     (let states = collections_of d in
      map_option (\<lambda>(worst, v). if 0 < worst then v\<lparr>sv_worst := Some (level_name worst)\<rparr> else v)
        (roll_up L d states 0
           \<lparr>sv_worst = None, sv_overdue = overdue_names (freshness_map docs states now boot),
            sv_attention = 0, sv_unjudged = [], sv_collections = []\<rparr>))"

section \<open>The most severe level\<close>

text \<open>What the roll-up means by worst, on the levels of a set of opinions.\<close>

definition worst_level :: "string set \<Rightarrow> string option" where
  "worst_level levels =
     (if ''critical'' \<in> levels then Some ''critical''
      else if ''warn'' \<in> levels then Some ''warn''
      else if ''info'' \<in> levels then Some ''info'' else None)"

definition rank_level :: "nat \<Rightarrow> string option" where
  "rank_level rank = (if rank = 0 then None else Some (level_name rank))"

lemma level_rank_le: "level_rank level \<le> 3"
  by (simp add: level_rank_def)

lemma worst_rank_max: "worst_rank ranks = Max (insert 0 (set ranks))"
proof -
  have "fold max ranks a = Max (insert a (set ranks))" for a :: nat
    using Max.set_eq_fold [of a ranks] by simp
  then show ?thesis by (simp add: worst_rank_def)
qed

lemma worst_rank_Cons: "worst_rank (x # xs) = max x (worst_rank xs)"
proof -
  have "Max (insert x (insert 0 (set xs))) = max x (Max (insert 0 (set xs)))"
    by (rule Max_insert) auto
  then show ?thesis unfolding worst_rank_max by (simp only: list.set insert_commute)
qed

lemma rank_iff:
  "level_rank level = 1 \<longleftrightarrow> level = ''info''" "level_rank level = 2 \<longleftrightarrow> level = ''warn''"
  "level_rank level = 3 \<longleftrightarrow> level = ''critical''"
  by (simp_all add: level_rank_def)

lemma worst_level_ranks:
  "worst_level levels =
     (if 3 \<in> level_rank ` levels then Some (level_name 3)
      else if 2 \<in> level_rank ` levels then Some (level_name 2)
      else if 1 \<in> level_rank ` levels then Some (level_name 1) else None)"
proof -
  have "n \<in> level_rank ` levels \<longleftrightarrow> (\<exists>l \<in> levels. level_rank l = n)" for n by auto
  then show ?thesis by (simp add: worst_level_def rank_iff level_name_def del: One_nat_def)
qed

lemma rank_level_Max:
  assumes "finite ranks" and "\<forall>r \<in> ranks. r \<le> 3"
  shows "rank_level (Max (insert 0 ranks)) =
     (if 3 \<in> ranks then Some (level_name 3) else if 2 \<in> ranks then Some (level_name 2)
      else if 1 \<in> ranks then Some (level_name 1) else None)"
proof -
  define m where "m = Max (insert 0 ranks)"
  have mem: "m \<in> insert 0 ranks" unfolding m_def by (rule Max_in) (use assms(1) in auto)
  have le: "r \<le> m" if "r \<in> ranks" for r using that assms(1) by (simp add: m_def)
  have "m = 0 \<or> m = 1 \<or> m = 2 \<or> m = 3" using mem assms(2) by auto
  then show ?thesis
    unfolding m_def [symmetric] rank_level_def using mem le [of 1] le [of 2] le [of 3] by auto
qed

lemma worst_level_rank:
  "rank_level (worst_rank (map level_rank levels)) = worst_level (set levels)"
  unfolding worst_rank_max worst_level_ranks using level_rank_le by (simp add: rank_level_Max)

text \<open>What the opinions say of one object.\<close>

definition levels_of :: "opinion list \<Rightarrow> string \<Rightarrow> string set" where
  "levels_of ops k = op_level ` {op \<in> set ops. object_key op = k}"

text \<open>
  What an entry says of a judgement: unjudged, with the reason and no worst member; or judged,
  each object counted at its most severe level, the worst that of them all or a null.
\<close>

definition entry_accounts :: "judgement \<Rightarrow> status_entry \<Rightarrow> bool" where
  "entry_accounts j e =
     (case j of
        JudgeError \<Rightarrow> False
      | Unjudged why \<Rightarrow> \<not> se_judged e \<and> se_worst e = NoMember \<and> se_reason e = Some why
      | Judged ops \<Rightarrow>
          se_judged e \<and>
          se_worst e = (case worst_level (op_level ` set ops) of None \<Rightarrow> NullMember | Some l \<Rightarrow> Level l) \<and>
          se_attention e = card {k. worst_level (levels_of ops k) \<noteq> None} \<and>
          (\<forall>l. count_of (se_counts e) l = card {k. worst_level (levels_of ops k) = Some l}))"

lemma count_of_mput [simp]: "count_of (mput k n m) x = (if x = k then n else count_of m x)"
  by (simp add: count_of_def)

lemma mok_per_object: "mok (per_object ops)"
proof -
  have "mok m \<Longrightarrow> mok (fold (\<lambda>op m. if count_of m (object_key op) < level_rank (op_level op)
                  then mput (object_key op) (level_rank (op_level op)) m else m) ops m)" for m
    by (induction ops arbitrary: m) auto
  then show ?thesis by (simp add: per_object_def)
qed

lemma per_object_snoc:
  "per_object (ops @ [op]) =
     (if count_of (per_object ops) (object_key op) < level_rank (op_level op)
      then mput (object_key op) (level_rank (op_level op)) (per_object ops) else per_object ops)"
  by (simp add: per_object_def)

lemma per_object_positive: "mget (per_object ops) k = Some n \<Longrightarrow> 0 < n"
proof (induction ops rule: rev_induct)
  case Nil
  then show ?case by (simp add: per_object_def)
next
  case (snoc op ops)
  then show ?case by (auto simp: per_object_snoc split: if_splits)
qed

lemma count_per_object:
  "count_of (per_object ops) k = worst_rank (map level_rank (map op_level (filter (\<lambda>op. object_key op = k) ops)))"
proof (induction ops rule: rev_induct)
  case Nil
  then show ?case by (simp add: per_object_def worst_rank_def count_of_def)
next
  case (snoc op ops)
  have step: "worst_rank (xs @ [x]) = max x (worst_rank xs)" for xs x
    by (simp add: worst_rank_def)
  show ?case
    by (cases "k = object_key op") (use snoc in \<open>auto simp: per_object_snoc step max_def\<close>)
qed

lemma rank_of_object: "rank_level (count_of (per_object ops) k) = worst_level (levels_of ops k)"
  unfolding count_per_object worst_level_rank by (simp add: levels_of_def)

lemma per_object_entries: "(k, n) \<in> set (per_object ops) \<longleftrightarrow> 0 < n \<and> count_of (per_object ops) k = n"
proof -
  have "(k, n) \<in> set (per_object ops) \<longleftrightarrow> mget (per_object ops) k = Some n"
    using mok_distinct [OF mok_per_object] by simp
  then show ?thesis
    using per_object_positive [of ops k] by (auto simp: count_of_def split: option.splits)
qed

lemma level_name_rank: "0 < n \<Longrightarrow> rank_level n = Some (level_name n)"
  by (simp add: rank_level_def)

lemma per_object_filter:
  "length (filter (\<lambda>n. P (level_name n)) (map snd (per_object ops))) =
   card {k. \<exists>l. worst_level (levels_of ops k) = Some l \<and> P l}"
proof -
  have d: "distinct (map fst (filter (\<lambda>p. P (level_name (snd p))) (per_object ops)))"
    using mok_distinct [OF mok_per_object] by (rule distinct_map_filter)
  have "fst ` set (filter (\<lambda>p. P (level_name (snd p))) (per_object ops)) =
      {k. \<exists>l. worst_level (levels_of ops k) = Some l \<and> P l}" (is "?l = ?r")
  proof (rule set_eqI)
    fix k
    have "k \<in> ?l \<longleftrightarrow> (\<exists>n. (k, n) \<in> set (per_object ops) \<and> P (level_name n))" by force
    also have "\<dots> \<longleftrightarrow> 0 < count_of (per_object ops) k \<and> P (level_name (count_of (per_object ops) k))"
      by (auto simp: per_object_entries)
    also have "\<dots> \<longleftrightarrow> k \<in> ?r"
      unfolding mem_Collect_eq rank_of_object [symmetric] by (auto simp: rank_level_def)
    finally show "k \<in> ?l \<longleftrightarrow> k \<in> ?r" .
  qed
  then have "card {k. \<exists>l. worst_level (levels_of ops k) = Some l \<and> P l} =
      length (filter (\<lambda>p. P (level_name (snd p))) (per_object ops))"
    using distinct_card [OF d] by simp
  then show ?thesis by (simp add: filter_map comp_def)
qed

lemma count_tally: "count_of (tally ranks) l = length (filter (\<lambda>n. level_name n = l) ranks)"
proof (induction ranks rule: rev_induct)
  case Nil
  then show ?case by (simp add: tally_def count_of_def)
next
  case (snoc n ranks)
  then show ?case by (auto simp: tally_def)
qed

lemma worst_per_object:
  "worst_rank (map snd (per_object ops)) = worst_rank (map level_rank (map op_level ops))"
proof (induction ops rule: rev_induct)
  case Nil
  then show ?case by (simp add: per_object_def)
next
  case (snoc op ops)
  have below: "n \<le> worst_rank ns" if "n \<in> set ns" for n ns
    using that by (simp add: worst_rank_max)
  have put: "worst_rank (map snd (mput k n m)) = max n (worst_rank (map snd m))"
    if "count_of m k < n" "mok m" for k n and m :: "nat gomap"
    using that
  proof (induction m)
    case Nil
    then show ?case by (simp add: worst_rank_max)
  next
    case (Cons p m)
    show ?case
    proof (cases "k = fst p")
      case True
      then show ?thesis using Cons.prems by (cases p) (simp add: worst_rank_Cons count_of_def max_def)
    next
      case False
      then have "count_of m k < n" "mok m" using Cons.prems by (auto simp: count_of_def mok_Cons split: option.splits)
      then show ?thesis using Cons.IH False by (cases p) (simp add: worst_rank_Cons max.left_commute)
    qed
  qed
  have "level_rank (op_level op) \<le> worst_rank (map snd (per_object ops))"
    if "\<not> count_of (per_object ops) (object_key op) < level_rank (op_level op)"
  proof (cases "level_rank (op_level op) = 0")
    case False
    then have "(object_key op, count_of (per_object ops) (object_key op)) \<in> set (per_object ops)"
      using that by (simp add: per_object_entries)
    then have "count_of (per_object ops) (object_key op) \<le> worst_rank (map snd (per_object ops))"
      by (intro below) force
    then show ?thesis using that by simp
  qed simp
  then show ?case
    using snoc put mok_per_object by (auto simp: per_object_snoc worst_rank_def max_def)
qed

section \<open>The roll-up, collection by collection\<close>

definition judged_ops :: "lib \<Rightarrow> db \<Rightarrow> collection_state \<Rightarrow> opinion list" where
  "judged_ops L d cs = (case judge_collection L d cs of Judged ops \<Rightarrow> ops | _ \<Rightarrow> [])"

definition entry_of :: "lib \<Rightarrow> db \<Rightarrow> collection_state \<Rightarrow> status_entry" where
  "entry_of L d cs =
     (case judge_collection L d cs of
        JudgeError \<Rightarrow> blank_entry cs
      | Unjudged reason \<Rightarrow> (blank_entry cs)\<lparr>se_reason := Some reason\<rparr>
      | Judged ops \<Rightarrow> judged_entry cs (map snd (per_object ops)))"

lemma roll_up_gives:
  assumes "roll_up L d states worst v = Some (worst', v')"
  shows "(\<forall>cs \<in> set states. judge_collection L d cs \<noteq> JudgeError) \<and>
    worst' = max worst (worst_rank (map level_rank (map op_level (concat (map (judged_ops L d) states))))) \<and>
    sv_unjudged v' = sv_unjudged v @ map cs_name (filter (\<lambda>cs. \<not> se_judged (entry_of L d cs)) states) \<and>
    sv_attention v' = sv_attention v + sum_list (map (\<lambda>cs. se_attention (entry_of L d cs)) states) \<and>
    sv_collections v' = fold (\<lambda>cs. mput (cs_name cs) (entry_of L d cs)) states (sv_collections v) \<and>
    sv_worst v' = sv_worst v \<and> sv_overdue v' = sv_overdue v"
  using assms
proof (induction states arbitrary: worst v)
  case (Cons cs states)
  have app: "worst_rank (xs @ ys) = max (worst_rank xs) (worst_rank ys)" for xs ys
    by (induction xs) (simp_all add: worst_rank_Cons max.assoc, simp add: worst_rank_def)
  show ?case
  proof (cases "judge_collection L d cs")
    case (Judged ops)
    note IH = Cons.IH [of "max worst (worst_rank (map snd (per_object ops)))"
      "v\<lparr>sv_attention := sv_attention v + length (per_object ops),
        sv_collections := mput (cs_name cs) (judged_entry cs (map snd (per_object ops))) (sv_collections v)\<rparr>"]
    show ?thesis
      using Cons.prems Judged IH
      by (simp add: Let_def judged_ops_def entry_of_def judged_entry_def worst_per_object app max.assoc
          del: map_map)
  qed (use Cons in \<open>auto simp: judged_ops_def entry_of_def blank_entry_def\<close>)
qed (simp add: worst_rank_def)

lemma roll_up_answers:
  "list_all (\<lambda>cs. judge_collection L d cs \<noteq> JudgeError) states \<Longrightarrow> roll_up L d states worst v \<noteq> None"
  by (induction states arbitrary: worst v) (auto simp: Let_def split: judgement.split)

lemma mget_fold_other: "k \<notin> f ` set xs \<Longrightarrow> mget (fold (\<lambda>x. mput (f x) (g x)) xs m) k = mget m k"
  by (induction xs arbitrary: m) auto

lemma mget_fold_put:
  "distinct (map f xs) \<Longrightarrow> x \<in> set xs \<Longrightarrow> mget (fold (\<lambda>x. mput (f x) (g x)) xs m) (f x) = Some (g x)"
proof (induction xs arbitrary: m)
  case (Cons y xs)
  then show ?case by (cases "x = y") (auto simp: mget_fold_other)
qed simp

lemma mok_fold_put: "mok m \<Longrightarrow> mok (fold (\<lambda>x. mput (f x) (g x)) xs m)"
  by (induction xs arbitrary: m) auto

lemma keys_fold_put: "set (mkeys (fold (\<lambda>x. mput (f x) (g x)) xs m)) = f ` set xs \<union> set (mkeys m)"
  by (induction xs arbitrary: m) (auto simp: keys_mput simp del: set_map)

lemma state_name [simp]: "cs_name (state_of_row d name r) = name"
  by (simp add: state_of_row_def Let_def)

lemma collection_names: "map cs_name (collections_of d) = mkeys (d_cols d)"
  by (simp add: collections_of_def comp_def case_prod_unfold)

lemma judged_entry_account:
  "judge_collection L d cs = Judged ops \<Longrightarrow>
   se_judged (entry_of L d cs) \<and>
   se_worst (entry_of L d cs) =
     (case worst_level (op_level ` set ops) of None \<Rightarrow> NullMember | Some l \<Rightarrow> Level l) \<and>
   se_attention (entry_of L d cs) = card {k. worst_level (levels_of ops k) \<noteq> None} \<and>
   (\<forall>l. count_of (se_counts (entry_of L d cs)) l = card {k. worst_level (levels_of ops k) = Some l})"
proof -
  assume J: "judge_collection L d cs = Judged ops"
  have w: "worst_level (op_level ` set ops) = rank_level (worst_rank (map snd (per_object ops)))"
    using worst_level_rank [of "map op_level ops"] by (simp add: worst_per_object del: map_map)
  have e: "entry_of L d cs = judged_entry cs (map snd (per_object ops))"
    by (simp add: entry_of_def J)
  have n: "length (map snd (per_object ops)) = card {k. worst_level (levels_of ops k) \<noteq> None}"
    using per_object_filter [of "\<lambda>_. True" ops] by simp
  have c: "count_of (tally (map snd (per_object ops))) l = card {k. worst_level (levels_of ops k) = Some l}" for l
    using per_object_filter [of "\<lambda>l'. l' = l" ops] by (simp add: count_tally)
  show ?thesis
    unfolding e w using n c by (simp add: judged_entry_def level_json_def rank_level_def)
qed

lemma entry_account:
  "judge_collection L d cs \<noteq> JudgeError \<Longrightarrow> entry_accounts (judge_collection L d cs) (entry_of L d cs)"
  using judged_entry_account [of L d cs]
  by (cases "judge_collection L d cs") (simp_all add: entry_accounts_def entry_of_def blank_entry_def)

section \<open>Properties\<close>

text \<open>
  Property C21. The attention surface accounts for every collection. Where the route answers, its
  map holds exactly the stored collections; those that could not be judged are listed, in
  order, with their reason and without a worst member; a judged one counts each object once, at
  its most severe level, its attention is the number of objects with an opinion, and its worst
  is the most severe level fired or an explicit null; and the totals are those of the judged
  collections together.
\<close>

theorem status_accounts_for_every_collection:
  assumes "status_route L d docs now boot = Some v" and "mok (d_cols d)"
  shows "mkeys (sv_collections v) = mkeys (d_cols d) \<and>
    sv_unjudged v = filter (\<lambda>name. \<not> se_judged (the (mget (sv_collections v) name))) (mkeys (d_cols d)) \<and>
    sv_attention v = sum_list (map (\<lambda>name. se_attention (the (mget (sv_collections v) name))) (mkeys (d_cols d))) \<and>
    sv_worst v = worst_level (\<Union>cs \<in> set (collections_of d). op_level ` set (judged_ops L d cs)) \<and>
    (\<forall>cs \<in> set (collections_of d).
       entry_accounts (judge_collection L d cs) (the (mget (sv_collections v) (cs_name cs))))"
proof -
  define states where "states = collections_of d"
  obtain worst w where roll: "roll_up L d states 0
           \<lparr>sv_worst = None, sv_overdue = overdue_names (freshness_map docs states now boot),
            sv_attention = 0, sv_unjudged = [], sv_collections = []\<rparr> = Some (worst, w)"
      and v: "v = (if 0 < worst then w\<lparr>sv_worst := Some (level_name worst)\<rparr> else w)"
    using assms(1) by (auto simp: status_route_def Let_def states_def)
  note r = roll_up_gives [OF roll, simplified]
  have cols: "sv_collections v = fold (\<lambda>cs. mput (cs_name cs) (entry_of L d cs)) states []"
    using r by (simp add: v)
  have names: "map cs_name states = mkeys (d_cols d)" by (simp add: states_def collection_names)
  have get: "the (mget (sv_collections v) (cs_name cs)) = entry_of L d cs" if "cs \<in> set states" for cs
    using that assms(2) by (simp add: cols names mok_distinct mget_fold_put)
  have keys: "mkeys (sv_collections v) = mkeys (d_cols d)"
  proof (rule strict_sorted_equal)
    show "sorted_wrt (<) (mkeys (sv_collections v))"
      using mok_fold_put [of "[]"] by (simp add: cols mok_def)
    show "sorted_wrt (<) (mkeys (d_cols d))" using assms(2) by (simp add: mok_def)
    show "set (mkeys (sv_collections v)) = set (mkeys (d_cols d))"
      using keys_fold_put [of cs_name "entry_of L d" states "[]"] by (simp add: cols set_map [symmetric] names del: set_map)
  qed
  have un: "sv_unjudged v = filter (\<lambda>name. \<not> se_judged (the (mget (sv_collections v) name))) (mkeys (d_cols d))"
    unfolding names [symmetric] filter_map using r get by (auto simp: v intro!: arg_cong [of _ _ "map cs_name"] filter_cong)
  have att: "sv_attention v = sum_list (map (\<lambda>name. se_attention (the (mget (sv_collections v) name))) (mkeys (d_cols d)))"
    unfolding names [symmetric] map_map using r get by (auto simp: v intro!: arg_cong [of _ _ sum_list] map_cong)
  have "rank_level worst = worst_level (\<Union>cs \<in> set states. op_level ` set (judged_ops L d cs))"
    using r worst_level_rank [of "map op_level (concat (map (judged_ops L d) states))"]
    by (simp add: image_UN)
  then have worst: "sv_worst v = worst_level (\<Union>cs \<in> set states. op_level ` set (judged_ops L d cs))"
    using r by (simp add: v rank_level_def split: if_splits)
  have each: "entry_accounts (judge_collection L d cs) (the (mget (sv_collections v) (cs_name cs)))"
    if "cs \<in> set states" for cs
    using r that by (simp add: get entry_account)
  show ?thesis
    by (intro conjI ballI keys un att worst [unfolded states_def] each [unfolded states_def])
qed


lemma freshness_map_fold:
  "freshness_map docs states now boot =
     fold (\<lambda>cs. mput (cs_name cs) (freshness_verdict cs (promise (declared_freshness_of docs) (cs_name cs)) now boot))
       (filter (\<lambda>cs. cs_generation cs \<noteq> 0 \<and> \<not> cs_stale cs) states) []"
proof -
  have "fold (\<lambda>cs m. if cs_generation cs = 0 \<or> cs_stale cs then m
        else mput (cs_name cs) (f cs) m) states m =
      fold (\<lambda>cs. mput (cs_name cs) (f cs)) (filter (\<lambda>cs. cs_generation cs \<noteq> 0 \<and> \<not> cs_stale cs) states) m"
    for f and m :: "verdict gomap"
    by (induction states arbitrary: m) auto
  then show ?thesis by (simp add: freshness_map_def Let_def)
qed

lemma freshness_map_get:
  assumes "distinct (map cs_name states)" and "cs \<in> set states"
  shows "mget (freshness_map docs states now boot) (cs_name cs) =
    (if cs_generation cs = 0 \<or> cs_stale cs then None
     else Some (freshness_verdict cs (promise (declared_freshness_of docs) (cs_name cs)) now boot))"
proof (cases "cs_generation cs = 0 \<or> cs_stale cs")
  case True
  have "cs_name cs \<notin> cs_name ` set (filter (\<lambda>cs. cs_generation cs \<noteq> 0 \<and> \<not> cs_stale cs) states)"
  proof
    assume "cs_name cs \<in> cs_name ` set (filter (\<lambda>cs. cs_generation cs \<noteq> 0 \<and> \<not> cs_stale cs) states)"
    then obtain x where "x \<in> set states" "cs_name x = cs_name cs" "cs_generation x \<noteq> 0 \<and> \<not> cs_stale x" by auto
    then show False using True assms inj_onD [of cs_name "set states" x cs] by (simp add: distinct_map)
  qed
  then show ?thesis using True unfolding freshness_map_fold by (subst mget_fold_other) auto
next
  case False
  then show ?thesis using assms unfolding freshness_map_fold
    by (subst mget_fold_put) (auto intro: distinct_map_filter)
qed

lemma freshness_map_ok: "mok (freshness_map docs states now boot)"
  unfolding freshness_map_fold by (rule mok_fold_put) simp

lemma overdue_names_set:
  assumes "mok m"
  shows "n \<in> set (overdue_names m) \<longleftrightarrow> (\<exists>g. mget m n = Some (Overdue g))"
proof -
  have "n \<in> set (overdue_names m) \<longleftrightarrow>
      (\<exists>x. (n, x) \<in> set m \<and> (case x of Overdue _ \<Rightarrow> True | _ \<Rightarrow> False))"
    by (force simp: overdue_names_def)
  also have "\<dots> \<longleftrightarrow> (\<exists>x. mget m n = Some x \<and> (case x of Overdue _ \<Rightarrow> True | _ \<Rightarrow> False))"
    using mok_distinct [OF assms] by simp
  also have "\<dots> \<longleftrightarrow> (\<exists>g. mget m n = Some (Overdue g))"
  proof (cases "mget m n")
    case (Some x)
    then show ?thesis by (cases x) auto
  qed simp
  finally show ?thesis .
qed

lemma collections_rows:
  "set (collections_route d docs (\<lambda>_. now) boot) =
     collection_view_of (freshness_map docs (collections_of d) now boot) now boot ` set (collections_of d)"
  "map cv_name (collections_route d docs (\<lambda>_. now) boot) = mkeys (d_cols d)"
proof -
  have rows: "collections_route d docs (\<lambda>_. now) boot =
      map (collection_view_of (freshness_map docs (collections_of d) now boot) now boot) (collections_of d)"
    unfolding collections_route_def Let_def
    by (rule nth_equalityI) auto
  show "set (collections_route d docs (\<lambda>_. now) boot) =
     collection_view_of (freshness_map docs (collections_of d) now boot) now boot ` set (collections_of d)"
    by (simp add: rows)
  have "cv_name (collection_view_of m t boot cs) = cs_name cs" for m t cs
    by (simp add: collection_view_of_def age_or_marker_def Let_def split: option.split)
  then show "map cv_name (collections_route d docs (\<lambda>_. now) boot) = mkeys (d_cols d)"
    by (simp add: rows comp_def flip: collection_names)
qed

lemma view_names:
  "cv_freshness (collection_view_of m now boot cs) = mget m (cs_name cs)"
  "cv_name (collection_view_of m now boot cs) = cs_name cs"
  by (simp_all add: collection_view_of_def age_or_marker_def Let_def split: option.split)

lemma overdue_rows_agree:
  assumes "status_route L d docs now boot = Some v" and "mok (d_cols d)"
  shows "sv_overdue v = map cv_name (filter (\<lambda>row. \<exists>g. cv_freshness row = Some (Overdue g))
      (collections_route d docs (\<lambda>_. now) boot))"
proof -
  define states where "states = collections_of d"
  define m where "m = freshness_map docs states now boot"
  have dist: "distinct (map cs_name states)"
    using assms(2) by (simp add: states_def collection_names mok_distinct)
  have fresh: "cv_freshness (collection_view_of m now boot cs) = mget m (cs_name cs)"
    and name: "cv_name (collection_view_of m now boot cs) = cs_name cs" for cs
    by (simp_all add: collection_view_of_def age_or_marker_def Let_def split: option.split)
  have got: "mget m (cs_name cs) = (if cs_generation cs = 0 \<or> cs_stale cs then None
     else Some (freshness_verdict cs (promise (declared_freshness_of docs) (cs_name cs)) now boot))"
    if "cs \<in> set states" for cs
    unfolding m_def using dist that by (rule freshness_map_get)
  let ?rows = "collections_route d docs (\<lambda>_. now) boot"
  have row_set: "set ?rows = collection_view_of m now boot ` set states"
    unfolding states_def m_def by (rule collections_rows(1))
  have overdue_set: "set (map cv_name (filter (\<lambda>row. \<exists>g. cv_freshness row = Some (Overdue g)) ?rows)) =
      cs_name ` {cs \<in> set states. \<exists>g. mget m (cs_name cs) = Some (Overdue g)}"
    unfolding set_map set_filter row_set by (force simp: fresh name)
  have mkeys_m: "set (mkeys m) \<subseteq> cs_name ` set states"
    unfolding m_def freshness_map_fold keys_fold_put by auto
  show "sv_overdue v = map cv_name (filter (\<lambda>row. \<exists>g. cv_freshness row = Some (Overdue g)) ?rows)"
  proof (rule sorted_distinct_set_unique)
    have v: "sv_overdue v = overdue_names m"
      using assms(1) roll_up_gives [of L d states 0]
      by (auto simp: status_route_def Let_def states_def m_def split: if_splits)
    show "sorted (sv_overdue v)" by (simp add: v overdue_names_def)
    show "distinct (sv_overdue v)"
      using mok_distinct [OF freshness_map_ok]
      by (simp add: v overdue_names_def m_def distinct_map_filter)
    have "sorted_wrt (<) (map cv_name ?rows)" using assms(2) by (simp add: collections_rows mok_def)
    then have "sorted_wrt (<) (map cv_name (filter P ?rows))" for P
      by (simp add: sorted_wrt_map sorted_wrt_filter)
    then show "sorted (map cv_name (filter (\<lambda>row. \<exists>g. cv_freshness row = Some (Overdue g)) ?rows))"
      and "distinct (map cv_name (filter (\<lambda>row. \<exists>g. cv_freshness row = Some (Overdue g)) ?rows))"
      using strict_sorted_iff by blast+
    show "set (sv_overdue v) = set (map cv_name (filter (\<lambda>row. \<exists>g. cv_freshness row = Some (Overdue g)) ?rows))"
    proof (rule set_eqI)
      fix n
      have "n \<in> set (sv_overdue v) \<longleftrightarrow> (\<exists>g. mget m n = Some (Overdue g))"
        unfolding v by (rule overdue_names_set) (simp add: m_def freshness_map_ok)
      also have "\<dots> \<longleftrightarrow> n \<in> set (map cv_name (filter (\<lambda>row. \<exists>g. cv_freshness row = Some (Overdue g)) ?rows))"
      proof
        assume "\<exists>g. mget m n = Some (Overdue g)"
        moreover from this have "n \<in> set (mkeys m)" by (simp only: mget_in_keys) auto
        then obtain cs where "cs \<in> set states" "n = cs_name cs" using mkeys_m by blast
        ultimately show "n \<in> set (map cv_name (filter (\<lambda>row. \<exists>g. cv_freshness row = Some (Overdue g)) ?rows))"
          unfolding overdue_set by blast
      qed (unfold overdue_set, blast)
      finally show "n \<in> set (sv_overdue v) \<longleftrightarrow>
          n \<in> set (map cv_name (filter (\<lambda>row. \<exists>g. cv_freshness row = Some (Overdue g)) ?rows))" .
    qed
  qed
qed

lemma current_row_checked:
  assumes "mok (d_cols d)" and "row \<in> set (collections_route d docs (\<lambda>_. now) boot)"
    and cur: "cv_freshness row = Some Current"
  shows "0 < cv_generation row \<and> \<not> cv_stale row \<and> \<not> cv_cross_boot row \<and> \<not> cv_mismatch row \<and>
       (\<exists>age. cv_age row = Some age \<and> 0 \<le> age \<and>
          age \<le> 2 * duration_seconds (promise (declared_freshness_of docs) (cv_name row)))"
proof -
  define states where "states = collections_of d"
  define m where "m = freshness_map docs states now boot"
  have dist: "distinct (map cs_name states)"
    using assms(1) by (simp add: states_def collection_names mok_distinct)
  obtain cs where cs: "cs \<in> set states" and row: "row = collection_view_of m now boot cs"
    using assms(2) unfolding collections_rows states_def m_def by blast
  have name: "cv_name row = cs_name cs" by (simp add: row view_names)
  have "mget m (cs_name cs) = Some Current" using cur by (simp add: row view_names)
  then have applied: "0 < cs_generation cs" "\<not> cs_stale cs"
    and verdict: "freshness_verdict cs (promise (declared_freshness_of docs) (cs_name cs)) now boot = Current"
    using freshness_map_get [OF dist cs, of docs now boot] by (auto simp: m_def split: if_splits)
  then obtain oldest where "cs_oldest cs = Some oldest" "\<not> skewed cs" "equal_fold_ptr (cs_boot cs) boot"
    "0 \<le> f64_sub now oldest"
    "f64_sub now oldest \<le> 2 * duration_seconds (promise (declared_freshness_of docs) (cs_name cs))"
    by (auto simp: freshness_verdict_def Let_def split: if_splits option.splits)
  then show ?thesis
    using applied unfolding name by (auto simp: row collection_view_of_def age_or_marker_def Let_def)
qed

text \<open>
  Property C26. No surface hides a broken promise, and none claims one is kept that it cannot
  check. At one clock reading the roll-up lists as overdue exactly the collections whose row
  says overdue, and a row that says current was applied, is not stale, carries neither marker
  and states its age, which lies within twice the declared promise.
\<close>

theorem freshness_surfaces_agree:
  assumes "status_route L d docs now boot = Some v" and "mok (d_cols d)"
  shows "sv_overdue v = map cv_name (filter (\<lambda>row. \<exists>g. cv_freshness row = Some (Overdue g))
      (collections_route d docs (\<lambda>_. now) boot)) \<and>
    (\<forall>row \<in> set (collections_route d docs (\<lambda>_. now) boot). cv_freshness row = Some Current \<longrightarrow>
       0 < cv_generation row \<and> \<not> cv_stale row \<and> \<not> cv_cross_boot row \<and> \<not> cv_mismatch row \<and>
       (\<exists>age. cv_age row = Some age \<and> 0 \<le> age \<and>
          age \<le> 2 * duration_seconds (promise (declared_freshness_of docs) (cv_name row))))"
  by (rule conjI [OF overdue_rows_agree [OF assms]], intro ballI impI, rule current_row_checked [OF assms(2)])

section \<open>A host to judge\<close>

text \<open>One collection with a rule table and a failing object, one without a declaration.\<close>

definition units_document :: string where
  \<open>units_document = ''{"collector":"units","collections":[{"name":"units","freshness":"30s","facts":{"State":{}},'' @
     ''"rules":[{"key":"failed","level":"critical","when":{"fact":"State","equals":"failed"},'' @
     ''"cites":["State"]}]}]}''\<close>

definition unit_row :: "nat \<Rightarrow> string \<Rightarrow> string \<Rightarrow> obj_row" where
  "unit_row n name state =
     \<lparr>o_collection = ''units'', o_scope = [], o_id = mint_id ''units'' name, o_name = name, o_type = [],
      o_facts = JObj [(''State'', JStr state)], o_names = None, o_absent = [], o_at = Fin 100, o_seq = n\<rparr>"

definition units_db :: db where
  "units_db = empty_db\<lparr>
     d_cols := [(''mounts'', fresh_row []),
       (''units'', (fresh_row ''d'')\<lparr>c_applied := 1, c_boot := Some ''b''\<rparr>)],
     d_decls := [(''d'', units_document)],
     d_objs := [unit_row 0 ''a'' ''failed'', unit_row 1 ''b'' ''active'']\<rparr>"

definition units_status :: "rat \<Rightarrow> status_view" where
  "units_status now = the (status_route demo_lib units_db [units_document] now ''b'')"

lemma units_answered: "status_route demo_lib units_db [units_document] now ''b'' \<noteq> None"
proof -
  have "list_all (\<lambda>cs. judge_collection demo_lib units_db cs \<noteq> JudgeError) (collections_of units_db)" by code_simp
  then have "roll_up demo_lib units_db (collections_of units_db) worst v \<noteq> None" for worst v
    by (rule roll_up_answers)
  then show ?thesis by (auto simp: status_route_def Let_def)
qed

lemma units_answer:
  "status_route demo_lib units_db [units_document] now ''b'' = Some (units_status now)"
  using units_answered [of now] by (simp add: units_status_def)

lemma units_ok: "mok (d_cols units_db)"
  by (simp add: units_db_def mok_def)

lemma status_accounts_for_every_collection_witness:
  "sv_worst (units_status 120) = Some ''critical'' \<and> mkeys (sv_collections (units_status 120)) = [''mounts'', ''units'']"
proof -
  have ops: "map (\<lambda>cs. map op_level (judged_ops demo_lib units_db cs)) (collections_of units_db) = [[], [''critical'']]"
    by code_simp
  have "(\<Union>cs \<in> set (collections_of units_db). op_level ` set (judged_ops demo_lib units_db cs)) =
      \<Union> (set ` set (map (\<lambda>cs. map op_level (judged_ops demo_lib units_db cs)) (collections_of units_db)))"
    by simp
  then have levels: "(\<Union>cs \<in> set (collections_of units_db). op_level ` set (judged_ops demo_lib units_db cs)) = {''critical''}"
    by (simp only: ops) simp
  have keys: "mkeys (d_cols units_db) = [''mounts'', ''units'']" by (simp add: units_db_def)
  show ?thesis
    using status_accounts_for_every_collection [OF units_answer [of 120] units_ok]
    unfolding levels keys by (simp add: worst_level_def)
qed

lemma freshness_surfaces_agree_witness:
  "sv_overdue (units_status 200) = [''units''] \<and>
   map cv_freshness (collections_route units_db [units_document] (\<lambda>_. 120) ''b'') = [None, Some Current]"
proof
  have "map cv_name (filter (\<lambda>row. \<exists>g. cv_freshness row = Some (Overdue g))
      (collections_route units_db [units_document] (\<lambda>_. 200) ''b'')) = [''units'']"
  proof -
    have "map (\<lambda>row. (cv_name row, cv_freshness row)) (collections_route units_db [units_document] (\<lambda>_. 200) ''b'') =
      [(''mounts'', None), (''units'', Some (Overdue (Aged 100 30000000000)))]" by code_simp
    then show ?thesis by auto
  qed
  with freshness_surfaces_agree [OF units_answer [of 200] units_ok]
  show "sv_overdue (units_status 200) = [''units'']" by argo
  show "map cv_freshness (collections_route units_db [units_document] (\<lambda>_. 120) ''b'') = [None, Some Current]"
    by code_simp
qed

end
