(* ===== verification/Hub.thy ===== *)
theory Hub
  imports Status
begin

text \<open>
  The outbound half: the checkpoint (go/internal/collate/checkpoint.go), the session around it
  and the link across reconnections (go/internal/collate/dial.go, \<open>hubLoop\<close> and
  \<open>hubTLS\<close> of go/internal/collate/run.go). A stream is the list of records that reached the
  connection; \<open>room\<close> is how many it takes before a write fails. The store is read several
  times while a checkpoint is written and acquisitions run meanwhile: \<open>d\<close> is the store
  at the first read, \<open>rows_at\<close> and \<open>decl_at\<close> what it holds when a collection's objects and
  its declaration are read.
\<close>

section \<open>Records\<close>

record history_gap =
  hg_from :: rat
  hg_to :: rat

record manifest_entry =
  me_collection :: string
  me_generation :: nat
  me_freshness :: string
  me_stale_reason :: "string option"
  me_objects :: nat

record state_record =
  cr_collection :: string
  cr_generation :: nat
  cr_objects :: "object_view list"
  cr_opinions :: "opinion list option"

datatype session_record =
    DeclarationRecord string string
  | Manifest string string string "manifest_entry list" "string list"
  | StateRecord string state_record
  | Terminal string nat "history_gap option"

datatype checkpoint_error =
    EmptyId | EmptyHost | NoClockDomain | NothingToCheckpoint | UndeclaredCollection string
  | UnreadableDeclaration string | WriteFailed

type_synonym 'a written = "session_record list \<times> (checkpoint_error + 'a)"

definition encode :: "nat \<Rightarrow> session_record list \<Rightarrow> session_record \<Rightarrow> (session_record list) option" where
  "encode room out r = (if length out < room then Some (out @ [r]) else None)"

section \<open>The checkpoint\<close>

text \<open>One entry per collection, and each digest once in the order first met.\<close>

definition entry_for :: "collection_state \<Rightarrow> manifest_entry" where
  "entry_for cs =
     \<lparr>me_collection = cs_name cs, me_generation = cs_generation cs,
      me_freshness = (if cs_stale cs then ''stale'' else ''current''),
      me_stale_reason = (if cs_stale cs then cs_stale_reason cs else None),
      me_objects = cs_count cs\<rparr>"

fun manifest_of ::
  "collection_state list \<Rightarrow> manifest_entry list \<Rightarrow> string list \<Rightarrow>
   checkpoint_error + (manifest_entry list \<times> string list)"
where
  "manifest_of [] entries decls = Inr (entries, decls)"
| "manifest_of (cs # states) entries decls =
     (case cs_declaration cs of
        None \<Rightarrow> Inl (UndeclaredCollection (cs_name cs))
      | Some digest \<Rightarrow>
          manifest_of states (entries @ [entry_for cs])
            (if digest \<in> set decls then decls else decls @ [digest]))"

definition judge_view :: "lib \<Rightarrow> rule list \<Rightarrow> object_view \<Rightarrow> opinion list" where
  "judge_view L rules v =
     (case val_map (ov_facts v) of
        None \<Rightarrow> []
      | Some facts \<Rightarrow> judge_shaped L rules (ov_id v) (ov_instance v) (ov_type v) facts)"

definition state_record_of ::
  "lib \<Rightarrow> db \<Rightarrow> db \<Rightarrow> collection_state \<Rightarrow> checkpoint_error + state_record"
where
  "state_record_of L rows_db decl_db cs =
     (let name = cs_name cs; document = declaration_for name decl_db in
      case secret_facts document name of
        None \<Rightarrow> Inl (UnreadableDeclaration name)
      | Some secrets \<Rightarrow>
     (let objects = map (\<lambda>r. view_of (r, served_facts secrets r)) (objects_of name rows_db) in
      case rule_table document name of
        None \<Rightarrow> Inl (UnreadableDeclaration name)
      | Some rules \<Rightarrow>
          Inr \<lparr>cr_collection = name, cr_generation = cs_generation cs, cr_objects = objects,
               cr_opinions = map_option (\<lambda>rs. concat (map (judge_view L rs) objects)) rules\<rparr>))"

fun write_states ::
  "lib \<Rightarrow> nat \<Rightarrow> (string \<Rightarrow> db) \<Rightarrow> (string \<Rightarrow> db) \<Rightarrow> string \<Rightarrow> collection_state list \<Rightarrow> nat \<Rightarrow>
   session_record list \<Rightarrow> nat written"
where
  "write_states L room rows_at decl_at cid [] sent out = (out, Inr sent)"
| "write_states L room rows_at decl_at cid (cs # states) sent out =
     (if cs_generation cs = 0 then write_states L room rows_at decl_at cid states sent out
      else case state_record_of L (rows_at (cs_name cs)) (decl_at (cs_name cs)) cs of
        Inl e \<Rightarrow> (out, Inl e)
      | Inr r \<Rightarrow>
          (case encode room out (StateRecord cid r) of
             None \<Rightarrow> (out, Inl WriteFailed)
           | Some out' \<Rightarrow> write_states L room rows_at decl_at cid states (Suc sent) out'))"

definition write_checkpoint ::
  "lib \<Rightarrow> nat \<Rightarrow> db \<Rightarrow> (string \<Rightarrow> db) \<Rightarrow> (string \<Rightarrow> db) \<Rightarrow> string \<Rightarrow> string \<Rightarrow> string \<Rightarrow>
   history_gap option \<Rightarrow> session_record list \<Rightarrow> unit written"
where
  "write_checkpoint L room d rows_at decl_at cid host boot gap out =
     (if trim_space cid = [] then (out, Inl EmptyId)
      else if trim_space host = [] then (out, Inl EmptyHost)
      else if boot = [] \<or> boot = nil_uuid then (out, Inl NoClockDomain)
      else if collections_of d = [] then (out, Inl NothingToCheckpoint)
      else case manifest_of (collections_of d) [] [] of
        Inl e \<Rightarrow> (out, Inl e)
      | Inr (entries, decls) \<Rightarrow>
     (case encode room out (Manifest cid host boot entries decls) of
        None \<Rightarrow> (out, Inl WriteFailed)
      | Some out1 \<Rightarrow>
     (case write_states L room rows_at decl_at cid (collections_of d) 0 out1 of
        (out2, Inl e) \<Rightarrow> (out2, Inl e)
      | (out2, Inr sent) \<Rightarrow>
     (case encode room out2 (Terminal cid sent gap) of
        None \<Rightarrow> (out2, Inl WriteFailed)
      | Some out3 \<Rightarrow> (out3, Inr ())))))"

section \<open>The session\<close>

datatype session_result =
    Sent | SentShort "string list" | NoDeclarationRead "string list" | DeclarationUnwritten string
  | CheckpointFailed checkpoint_error

text \<open>
  A document that is no JSON cannot be embedded in its record. \<open>declare c\<close> is what the
  collector \<open>c\<close> answers, \<open>None\<close> where it does not.
\<close>

fun write_declarations ::
  "lib \<Rightarrow> nat \<Rightarrow> (string \<Rightarrow> string option) \<Rightarrow> string list \<Rightarrow> session_record list \<Rightarrow> string list \<Rightarrow>
   session_record list \<times> (string + string list)"
where
  "write_declarations L room declare [] out failed = (out, Inr failed)"
| "write_declarations L room declare (c # cs) out failed =
     (case declare c of
        None \<Rightarrow> write_declarations L room declare cs out (failed @ [c])
      | Some raw \<Rightarrow>
          (if json_unmarshal raw = None then (out, Inl c)
           else case encode room out (DeclarationRecord (content_hash (sha256 L) raw) raw) of
             None \<Rightarrow> (out, Inl c)
           | Some out' \<Rightarrow> write_declarations L room declare cs out' failed))"

definition write_session ::
  "lib \<Rightarrow> nat \<Rightarrow> db \<Rightarrow> (string \<Rightarrow> db) \<Rightarrow> (string \<Rightarrow> db) \<Rightarrow> (string \<Rightarrow> string option) \<Rightarrow> string list \<Rightarrow>
   string \<Rightarrow> string \<Rightarrow> string \<Rightarrow> history_gap option \<Rightarrow> session_record list \<times> session_result"
where
  "write_session L room d rows_at decl_at declare collectors cid host boot gap =
     (case write_declarations L room declare (sort collectors) [] [] of
        (out, Inl c) \<Rightarrow> (out, DeclarationUnwritten c)
      | (out, Inr failed) \<Rightarrow>
          (if out = [] then (out, NoDeclarationRead failed)
           else case write_checkpoint L room d rows_at decl_at cid host boot gap out of
             (out', Inl e) \<Rightarrow> (out', CheckpointFailed e)
           | (out', Inr _) \<Rightarrow> (out', if failed = [] then Sent else SentShort failed)))"

section \<open>The link\<close>

record hub_link =
  hl_last :: rat
  hl_connected :: bool

definition new_link :: hub_link where
  "new_link = \<lparr>hl_last = 0, hl_connected = False\<rparr>"

definition link_gap :: "hub_link \<Rightarrow> rat \<Rightarrow> history_gap option" where
  "link_gap l now =
     (if hl_last l = 0 then None
      else if now < hl_last l then None
      else Some \<lparr>hg_from = hl_last l, hg_to = now\<rparr>)"

definition link_opened :: "rat \<Rightarrow> hub_link \<Rightarrow> hub_link" where
  "link_opened now l = l\<lparr>hl_connected := True\<rparr>"

definition link_closed :: "rat \<Rightarrow> hub_link \<Rightarrow> hub_link" where
  "link_closed now l = l\<lparr>hl_connected := False, hl_last := now\<rparr>"

text \<open>
  The loop as the rounds it makes: the clock when a round starts and when its session has
  ended, whatever became of the session. The result is the gap each round states.
\<close>

fun hub_rounds :: "hub_link \<Rightarrow> (rat \<times> rat) list \<Rightarrow> history_gap option list" where
  "hub_rounds l [] = []"
| "hub_rounds l ((now, ended) # rounds) =
     link_gap l now # hub_rounds (link_closed ended (link_opened now l)) rounds"

text \<open>Transport security: what is asked for by the environment.\<close>

datatype hub_tls = PlainText | MutualIdentity string string string | TlsRefused

definition hub_tls_of :: "string \<Rightarrow> string \<Rightarrow> string \<Rightarrow> string \<Rightarrow> hub_tls" where
  "hub_tls_of insecure cert key ca =
     (if insecure \<noteq> [] then PlainText
      else if cert = [] \<or> key = [] \<or> ca = [] then TlsRefused
      else MutualIdentity cert key ca)"

datatype dial = NotConfigured | HostUnnamed | TlsMissing | Dial hub_tls "history_gap option"

definition dial_hub_once :: "string \<Rightarrow> string \<Rightarrow> hub_tls \<Rightarrow> dial" where
  "dial_hub_once addr host tls =
     (if addr = [] then NotConfigured
      else if host = [] then HostUnnamed
      else if tls = TlsRefused then TlsMissing
      else Dial tls None)"

section \<open>What a checkpoint holds\<close>

lemma manifest_of_gives:
  "manifest_of states entries decls = Inr (entries', decls') \<Longrightarrow>
     entries' = entries @ map entry_for states \<and> set decls \<subseteq> set decls' \<and>
     (\<forall>cs \<in> set states. \<exists>digest \<in> set decls'. cs_declaration cs = Some digest) \<and>
     (distinct decls \<longrightarrow> distinct decls')"
proof (induction states entries decls rule: manifest_of.induct)
  case (2 cs states entries decls)
  then show ?case by (fastforce split: option.splits if_splits)
qed simp

definition state_records :: "lib \<Rightarrow> (string \<Rightarrow> db) \<Rightarrow> (string \<Rightarrow> db) \<Rightarrow> collection_state list \<Rightarrow> state_record list \<Rightarrow> bool" where
  "state_records L rows_at decl_at states rs =
     list_all2 (\<lambda>cs r. state_record_of L (rows_at (cs_name cs)) (decl_at (cs_name cs)) cs = Inr r)
       (filter (\<lambda>cs. cs_generation cs \<noteq> 0) states) rs"

lemma write_states_gives:
  "write_states L room rows_at decl_at cid states sent out = (out', res) \<Longrightarrow>
     \<exists>rs. out' = out @ map (StateRecord cid) rs \<and>
       (\<forall>n. res = Inr n \<longrightarrow> n = sent + length rs \<and> state_records L rows_at decl_at states rs)"
proof (induction L room rows_at decl_at cid states sent out rule: write_states.induct)
  case (1 L room rows_at decl_at cid sent out)
  then show ?case by (intro exI [of _ "[]"]) (auto simp: state_records_def)
next
  case (2 L room rows_at decl_at cid cs states sent out)
  show ?case
  proof (cases "cs_generation cs = 0")
    case True
    then show ?thesis using 2(1,3) by (simp add: state_records_def)
  next
    case False
    show ?thesis
    proof (cases "state_record_of L (rows_at (cs_name cs)) (decl_at (cs_name cs)) cs")
      case (Inl e)
      then show ?thesis using 2(3) False by (intro exI [of _ "[]"]) auto
    next
      case (Inr r)
      show ?thesis
      proof (cases "encode room out (StateRecord cid r)")
        case None
        then show ?thesis using 2(3) False Inr by (intro exI [of _ "[]"]) auto
      next
        case (Some out1)
        then have "write_states L room rows_at decl_at cid states (Suc sent) out1 = (out', res)"
          using 2(3) False Inr by simp
        from 2(2) [OF False Inr Some this] obtain rs where
          "out' = out1 @ map (StateRecord cid) rs"
          "\<forall>n. res = Inr n \<longrightarrow> n = Suc sent + length rs \<and> state_records L rows_at decl_at states rs" by blast
        then show ?thesis using Some False Inr
          by (intro exI [of _ "r # rs"]) (auto simp: encode_def state_records_def split: if_splits)
      qed
    qed
  qed
qed

definition is_terminal :: "session_record \<Rightarrow> bool" where
  "is_terminal r = (case r of Terminal _ _ _ \<Rightarrow> True | _ \<Rightarrow> False)"


lemma state_record_fields:
  "state_record_of L rows_db decl_db cs = Inr r \<Longrightarrow>
     cr_collection r = cs_name cs \<and> cr_generation r = cs_generation cs \<and>
     (\<exists>secrets. secret_facts (declaration_for (cs_name cs) decl_db) (cs_name cs) = Some secrets \<and>
        cr_objects r = map (\<lambda>o'. view_of (o', served_facts secrets o')) (objects_of (cs_name cs) rows_db))"
  by (auto simp: state_record_of_def Let_def split: option.splits)

lemma state_records_fields:
  "state_records L rows_at decl_at states rs \<Longrightarrow>
     map (\<lambda>r. (cr_collection r, cr_generation r)) rs =
       map (\<lambda>e. (me_collection e, me_generation e)) (filter (\<lambda>e. 0 < me_generation e) (map entry_for states)) \<and>
     (\<forall>r \<in> set rs. \<exists>cs. state_record_of L (rows_at (cs_name cs)) (decl_at (cs_name cs)) cs = Inr r)"
proof -
  assume "state_records L rows_at decl_at states rs"
  then have all: "list_all2 (\<lambda>cs r. state_record_of L (rows_at (cs_name cs)) (decl_at (cs_name cs)) cs = Inr r)
       (filter (\<lambda>cs. cs_generation cs \<noteq> 0) states) rs" by (simp add: state_records_def)
  have "filter (\<lambda>e. 0 < me_generation e) (map entry_for states) = map entry_for (filter (\<lambda>cs. cs_generation cs \<noteq> 0) states)"
    by (simp add: filter_map comp_def entry_for_def)
  moreover have "map (\<lambda>r. (cr_collection r, cr_generation r)) rs =
      map (\<lambda>cs. (cs_name cs, cs_generation cs)) (filter (\<lambda>cs. cs_generation cs \<noteq> 0) states)"
    using all by (induction rule: list_all2_induct) (auto dest: state_record_fields)
  moreover have "\<forall>r \<in> set rs. \<exists>cs. state_record_of L (rows_at (cs_name cs)) (decl_at (cs_name cs)) cs = Inr r"
    using all by (induction rule: list_all2_induct) auto
  ultimately show ?thesis by (simp add: comp_def entry_for_def)
qed

lemma count_is_objects: "cs \<in> set (collections_of d) \<Longrightarrow> cs_count cs = length (objects_of (cs_name cs) d)"
  by (auto simp: collections_of_def state_of_row_def objects_of_def Let_def)

lemma state_records_counts:
  assumes "state_records L (\<lambda>_. d) decl_at states rs" and "set states \<subseteq> set (collections_of d)"
  shows "map (\<lambda>r. length (cr_objects r)) rs = map me_objects (filter (\<lambda>e. 0 < me_generation e) (map entry_for states))"
proof -
  have all: "list_all2 (\<lambda>cs r. state_record_of L d (decl_at (cs_name cs)) cs = Inr r)
       (filter (\<lambda>cs. cs_generation cs \<noteq> 0) states) rs" using assms(1) by (simp add: state_records_def)
  have "list_all2 (\<lambda>cs r. length (cr_objects r) = cs_count cs) (filter (\<lambda>cs. cs_generation cs \<noteq> 0) states) rs"
    using all by (rule list.rel_mono_strong) (use assms(2) state_record_fields count_is_objects in fastforce)
  then have "map (\<lambda>r. length (cr_objects r)) rs = map cs_count (filter (\<lambda>cs. cs_generation cs \<noteq> 0) states)"
    by (induction rule: list_all2_induct) auto
  then show ?thesis by (simp add: filter_map comp_def entry_for_def)
qed

lemma write_checkpoint_cases:
  assumes "write_checkpoint L room d rows_at decl_at cid host boot gap before = (out, res)"
  obtains e body where "res = Inl e" "out = before @ body" "\<forall>r \<in> set body. \<not> is_terminal r"
  | entries decls rs where "res = Inr ()" "manifest_of (collections_of d) [] [] = Inr (entries, decls)"
      "state_records L rows_at decl_at (collections_of d) rs"
      "out = before @ Manifest cid host boot entries decls # map (StateRecord cid) rs @ [Terminal cid (length rs) gap]"
proof (cases "trim_space cid = [] \<or> trim_space host = [] \<or> boot = [] \<or> boot = nil_uuid \<or> collections_of d = []")
  case True
  then show thesis using assms that(1) [of _ "[]"] by (auto simp: write_checkpoint_def split: if_splits)
next
  case False
  show thesis
  proof (cases "manifest_of (collections_of d) [] []")
    case (Inl e)
    then show thesis using assms False that(1) [of e "[]"] by (simp add: write_checkpoint_def)
  next
    case manifest: (Inr p)
    obtain entries decls where p: "p = (entries, decls)" by (cases p)
    let ?m = "Manifest cid host boot entries decls"
    show thesis
    proof (cases "encode room before ?m")
      case None
      then show thesis using assms False manifest p that(1) [of WriteFailed "[]"] by (simp add: write_checkpoint_def)
    next
      case (Some out1)
      obtain out2 res2 where ws: "write_states L room rows_at decl_at cid (collections_of d) 0 out1 = (out2, res2)"
        by (cases "write_states L room rows_at decl_at cid (collections_of d) 0 out1")
      obtain rs where out2: "out2 = before @ ?m # map (StateRecord cid) rs"
        and rs: "\<forall>n. res2 = Inr n \<longrightarrow> n = length rs \<and> state_records L rows_at decl_at (collections_of d) rs"
        using write_states_gives [OF ws] Some by (auto simp: encode_def split: if_splits)
      have open_body: "\<forall>r \<in> set (?m # map (StateRecord cid) rs). \<not> is_terminal r" by (auto simp: is_terminal_def)
      have result: "(out, res) = (case res2 of Inl e \<Rightarrow> (out2, Inl e) | Inr sent \<Rightarrow>
          (case encode room out2 (Terminal cid sent gap) of None \<Rightarrow> (out2, Inl WriteFailed) | Some out3 \<Rightarrow> (out3, Inr ())))"
        using assms False manifest p Some ws by (simp add: write_checkpoint_def split: sum.split)
      show thesis
      proof (cases "\<exists>n. res2 = Inr n \<and> length out2 < room")
        case True
        then obtain n where n: "res2 = Inr n" "length out2 < room" by blast
        then have "out = out2 @ [Terminal cid n gap]" "res = Inr ()" using result by (simp_all add: encode_def)
        then show thesis
          using rs n(1) manifest p by (intro that(2) [of entries decls rs]) (simp_all add: out2)
      next
        case False
        then obtain e where "out = out2" "res = Inl e"
        proof (cases res2)
          case (Inr n)
          then show thesis using result False that by (simp add: encode_def)
        qed (use result that in simp)
        then show thesis using that(1) [of e, OF _ _ open_body] out2 by simp
      qed
    qed
  qed
qed

section \<open>Properties\<close>

text \<open>
  Property C22. A checkpoint is complete or has no end. Whatever is written, a terminal record
  closes the stream only when the checkpoint succeeded; then one manifest opens it and names
  every stored collection with a digest for its declaration, each digest once; exactly the
  collections that were ever applied follow, in the manifest's order and at its generation; the
  terminal counts them; no object carries a fact its declaration keeps secret; and while the
  store does not change, each state holds as many objects as the manifest says.
\<close>

theorem checkpoint_complete_or_unfinished:
  assumes "write_checkpoint L room d rows_at decl_at cid host boot gap before = (out, res)"
  shows "\<exists>body. out = before @ body \<and>
    (case res of
       Inl _ \<Rightarrow> \<forall>r \<in> set body. \<not> is_terminal r
     | Inr _ \<Rightarrow> \<exists>entries decls records.
         body = Manifest cid host boot entries decls # map (StateRecord cid) records @ [Terminal cid (length records) gap] \<and>
         map me_collection entries = mkeys (d_cols d) \<and>
         distinct decls \<and> (\<forall>cs \<in> set (collections_of d). \<exists>digest \<in> set decls. cs_declaration cs = Some digest) \<and>
         map (\<lambda>r. (cr_collection r, cr_generation r)) records =
           map (\<lambda>e. (me_collection e, me_generation e)) (filter (\<lambda>e. 0 < me_generation e) entries) \<and>
         (\<forall>r \<in> set records. \<exists>secrets.
            secret_facts (declaration_for (cr_collection r) (decl_at (cr_collection r))) (cr_collection r) = Some secrets \<and>
            (\<forall>v \<in> set (cr_objects r). \<forall>secret \<in> set secrets. mget (fact_members (ov_facts v)) secret = None)) \<and>
         (rows_at = (\<lambda>_. d) \<longrightarrow>
            map (\<lambda>r. length (cr_objects r)) records = map me_objects (filter (\<lambda>e. 0 < me_generation e) entries)))"
  using assms
proof (cases rule: write_checkpoint_cases)
  case (1 e body)
  then show ?thesis by (intro exI [of _ body]) simp
next
  case (2 entries decls rs)
  note m = manifest_of_gives [OF 2(2), simplified] and fields = state_records_fields [OF 2(3)]
  have names: "map me_collection entries = mkeys (d_cols d)"
    using m collection_names [of d] by (simp add: entry_for_def comp_def)
  have secret: "\<exists>secrets. secret_facts (declaration_for (cr_collection r) (decl_at (cr_collection r))) (cr_collection r) = Some secrets \<and>
      (\<forall>v \<in> set (cr_objects r). \<forall>secret \<in> set secrets. mget (fact_members (ov_facts v)) secret = None)"
    if "r \<in> set rs" for r
  proof -
    obtain cs where "state_record_of L (rows_at (cs_name cs)) (decl_at (cs_name cs)) cs = Inr r"
      using fields \<open>r \<in> set rs\<close> by blast
    from state_record_fields [OF this] show ?thesis by (auto simp: view_of_def withheld)
  qed
  have counts: "map (\<lambda>r. length (cr_objects r)) rs = map me_objects (filter (\<lambda>e. 0 < me_generation e) entries)"
    if "rows_at = (\<lambda>_. d)"
    using state_records_counts [OF 2(3) [unfolded that]] m by simp
  show ?thesis
    unfolding 2(1) sum.case
    by (rule exI [of _ "Manifest cid host boot entries decls # map (StateRecord cid) rs @ [Terminal cid (length rs) gap]"],
        intro conjI, simp add: 2(4), rule exI [of _ entries], rule exI [of _ decls], rule exI [of _ rs])
       (use m fields names secret counts in simp)
qed


text \<open>A store whose collection with a secret has been applied once.\<close>

definition hub_db :: db where
  "hub_db = (keys_db ''x'')\<lparr>d_cols := [(''keys'', (fresh_row ''d'')\<lparr>c_applied := 1\<rparr>)]\<rparr>"

lemma checkpoint_complete_or_unfinished_witness:
  "\<exists>entries decls records.
     write_checkpoint demo_lib 9 hub_db (\<lambda>_. hub_db) (\<lambda>_. hub_db) ''c'' ''h'' ''b'' None [] =
       (Manifest ''c'' ''h'' ''b'' entries decls # map (StateRecord ''c'') records @ [Terminal ''c'' (length records) None], Inr ()) \<and>
     map me_collection entries = [''keys''] \<and>
     map (\<lambda>r. length (cr_objects r)) records = map me_objects (filter (\<lambda>e. 0 < me_generation e) entries)"
proof -
  let ?w = "write_checkpoint demo_lib 9 hub_db (\<lambda>_. hub_db) (\<lambda>_. hub_db) ''c'' ''h'' ''b'' None []"
  have res: "snd ?w = Inr ()" by code_simp
  have keys: "mkeys (d_cols hub_db) = [''keys'']" by (simp add: hub_db_def)
  have split: "?w = (fst ?w, snd ?w)" by simp
  from checkpoint_complete_or_unfinished [OF split] obtain entries decls records where
    "fst ?w = Manifest ''c'' ''h'' ''b'' entries decls # map (StateRecord ''c'') records @ [Terminal ''c'' (length records) None]"
    "map me_collection entries = mkeys (d_cols hub_db)"
    "map (\<lambda>r. length (cr_objects r)) records = map me_objects (filter (\<lambda>e. 0 < me_generation e) entries)"
    unfolding res sum.case by auto
  then show ?thesis using res keys split by (intro exI conjI) (auto intro: prod_eqI)
qed

section \<open>One judgement at both tiers\<close>

lemma mof_map_snd: "mof (map (\<lambda>(k, v). (k, g v)) kvs) = map (\<lambda>(k, v). (k, g v)) (mof kvs)"
proof (rule mok_ext)
  show "mok (map (\<lambda>(k, v). (k, g v)) (mof kvs))"
    using mok_map_snd [of "\<lambda>_. g" "mof kvs"] by simp
  fix k
  have "map_of (rev (map (\<lambda>(k, v). (k, g v)) kvs)) k = map_option g (map_of (rev kvs) k)"
    using mget_map_snd [of "\<lambda>_. g" "rev kvs" k] by (simp add: rev_map)
  then show "mget (mof (map (\<lambda>(k, v). (k, g v)) kvs)) k = mget (map (\<lambda>(k, v). (k, g v)) (mof kvs)) k"
    using mget_map_snd [of "\<lambda>_. g" "mof kvs" k] by (simp add: mget_mof)
qed simp

lemma val_map_obj:
  "val_map (JObj kvs) = (if None \<in> (to_val \<circ> snd) ` set kvs then None
     else Some (map (\<lambda>(k, v). (k, the (to_val v))) (mof kvs)))"
proof -
  have "(\<lambda>(k, v). (k, the v)) \<circ> (\<lambda>(k, v). (k, to_val v)) = (\<lambda>(k :: string, v). (k, the (to_val v)))"
    by auto
  then show ?thesis
    by (auto simp: val_map_def Let_def image_image case_prod_unfold comp_def
        mof_map_snd [of "\<lambda>v. the (to_val v)", unfolded case_prod_unfold])
qed

lemma val_map_without_secrets:
  assumes "val_map j = Some facts"
  shows "val_map (without_secrets j secrets) = Some (filter (\<lambda>p. fst p \<notin> set secrets) facts)"
proof (cases j)
  case (JObj kvs)
  have ok: "None \<notin> (to_val \<circ> snd) ` set kvs" and facts: "facts = map (\<lambda>(k, v). (k, the (to_val v))) (mof kvs)"
    using assms unfolding JObj val_map_obj by (simp_all split: if_splits)
  let ?kept = "filter (\<lambda>p. fst p \<notin> set secrets) (mof kvs)"
  have shown: "filter (\<lambda>p. fst p \<notin> set secrets) facts = map (\<lambda>(k, v). (k, the (to_val v))) ?kept"
    by (simp add: facts filter_map comp_def case_prod_unfold)
  show ?thesis
  proof (cases "\<exists>name \<in> set (mkeys (mof kvs)). name \<in> set secrets")
    case True
    have "mok ?kept" by (rule mok_filter) simp
    moreover have "None \<notin> (to_val \<circ> snd) ` set ?kept" using ok set_mof [of kvs] by auto
    ultimately have "val_map (JObj ?kept) = Some (map (\<lambda>(k, v). (k, the (to_val v))) ?kept)"
      unfolding val_map_obj by (simp add: mof_mok)
    then show ?thesis using True by (simp add: JObj without_secrets_def raw_map_def shown)
  next
    case False
    then have "?kept = mof kvs" by (intro filter_True) auto
    then show ?thesis using False assms shown by (simp add: JObj without_secrets_def raw_map_def facts)
  qed
qed (use assms in \<open>auto simp: val_map_def without_secrets_def raw_map_def mof_def\<close>)

lemma judge_view_row:
  assumes "val_map (o_facts r) \<noteq> None"
  shows "judge_view L rules (view_of (r, served_facts secrets r)) = judge_row L rules secrets r"
proof -
  obtain facts where f: "val_map (o_facts r) = Some facts" using assms by blast
  have "val_map (served_facts secrets r) = Some (filter (\<lambda>p. fst p \<notin> set secrets) facts)"
    using val_map_without_secrets [OF f, of secrets] f by (simp add: served_facts_def)
  then show ?thesis by (simp add: judge_view_def judge_row_def view_of_def f)
qed

text \<open>
  Property C23. The hub is told what the host's own surface says. For a collection that was
  applied and whose facts decode, the opinions in its checkpoint record are exactly those the
  attention surface counts, and the record has no opinions member exactly when the surface
  calls the collection unjudged; secrets being withheld from the text of the facts at one tier
  and from the decoded facts at the other makes no difference.
\<close>

theorem hub_and_host_judge_alike:
  assumes "state_record_of L d d cs = Inr r" and "cs_generation cs \<noteq> 0"
    and "\<forall>o' \<in> set (objects_of (cs_name cs) d). val_map (o_facts o') \<noteq> None"
  shows "cr_opinions r = (case judge_collection L d cs of Judged ops \<Rightarrow> Some ops | _ \<Rightarrow> None)"
proof -
  let ?doc = "declaration_for (cs_name cs) d"
  obtain secrets rules where s: "secret_facts ?doc (cs_name cs) = Some secrets"
    and t: "rule_table ?doc (cs_name cs) = Some rules"
    and r: "cr_opinions r = map_option (\<lambda>rs. concat (map (judge_view L rs)
        (map (\<lambda>r. view_of (r, served_facts secrets r)) (objects_of (cs_name cs) d)))) rules"
    using assms(1) by (auto simp: state_record_of_def Let_def split: option.splits)
  have same: "map (judge_view L rs) (map (\<lambda>r. view_of (r, served_facts secrets r)) (objects_of (cs_name cs) d)) =
      map (judge_row L rs secrets) (objects_of (cs_name cs) d)" for rs
    using assms(3) by (simp add: judge_view_row)
  have "json_unmarshal [] = None" by code_simp
  then have "rules = None" if "?doc = []"
    using t unfolding that by (simp add: rule_table_def rules_for_def declares_rules_def)
  then show ?thesis
    using s t r assms(2) unfolding same by (auto simp: judge_collection_def Let_def split: option.split)
qed


definition hub_units_db :: db where
  "hub_units_db = units_db\<lparr>d_cols := [(''units'', (fresh_row ''d'')\<lparr>c_applied := 1, c_boot := Some ''b''\<rparr>)]\<rparr>"

lemma hub_and_host_judge_alike_witness:
  "map op_key (judged_ops demo_lib hub_units_db (hd (collections_of hub_units_db))) = [''failed''] \<and>
   (\<exists>r. state_record_of demo_lib hub_units_db hub_units_db (hd (collections_of hub_units_db)) = Inr r \<and>
      cr_opinions r = Some (judged_ops demo_lib hub_units_db (hd (collections_of hub_units_db))))"
proof
  let ?cs = "hd (collections_of hub_units_db)"
  show keys: "map op_key (judged_ops demo_lib hub_units_db ?cs) = [''failed'']" by code_simp
  have "\<not> (case state_record_of demo_lib hub_units_db hub_units_db ?cs of Inl _ \<Rightarrow> True | Inr _ \<Rightarrow> False)"
    by code_simp
  then obtain r where r: "state_record_of demo_lib hub_units_db hub_units_db ?cs = Inr r"
    by (auto split: sum.splits)
  have "cs_generation ?cs \<noteq> 0" by code_simp
  moreover have "\<forall>o' \<in> set (objects_of (cs_name ?cs) hub_units_db). val_map (o_facts o') \<noteq> None" by code_simp
  ultimately have "cr_opinions r = (case judge_collection demo_lib hub_units_db ?cs of Judged ops \<Rightarrow> Some ops | _ \<Rightarrow> None)"
    by (rule hub_and_host_judge_alike [OF r])
  then show "\<exists>r. state_record_of demo_lib hub_units_db hub_units_db ?cs = Inr r \<and>
      cr_opinions r = Some (judged_ops demo_lib hub_units_db ?cs)"
    using r keys by (intro exI [of _ r]) (auto simp: judged_ops_def split: judgement.splits)
qed

section \<open>The gaps of a link\<close>

text \<open>
  On a clock that does not go back, the first session states no gap and each later one states
  the interval since the previous session ended, whether or not that session reached the hub.
\<close>

fun between :: "(rat \<times> rat) list \<Rightarrow> history_gap list" where
  "between (a # b # rounds) = \<lparr>hg_from = snd a, hg_to = fst b\<rparr> # between (b # rounds)"
| "between _ = []"

lemma gaps_after:
  "0 < hl_last l \<Longrightarrow> sorted_wrt (\<lambda>a b. snd a \<le> fst b) ((t, hl_last l) # rounds) \<Longrightarrow>
   \<forall>a \<in> set rounds. fst a \<le> snd a \<Longrightarrow>
   hub_rounds l rounds = map Some (between ((t, hl_last l) # rounds))"
proof (induction rounds arbitrary: l t)
  case (Cons a rounds)
  obtain now ended where a: "a = (now, ended)" by (cases a)
  have "hub_rounds (link_closed ended (link_opened now l)) rounds =
      map Some (between ((now, hl_last (link_closed ended (link_opened now l))) # rounds))"
    by (rule Cons.IH) (use Cons.prems a in \<open>auto simp: link_closed_def\<close>)
  then show ?case using Cons.prems a by (cases rounds) (auto simp: link_gap_def link_closed_def)
qed simp

lemma gaps_between_sessions:
  assumes "sorted_wrt (\<lambda>a b. snd a \<le> fst b) rounds" and "\<forall>a \<in> set rounds. 0 < fst a \<and> fst a \<le> snd a"
  shows "hub_rounds new_link rounds = (if rounds = [] then [] else None # map Some (between rounds))"
proof (cases rounds)
  case (Cons a rest)
  obtain now ended where a: "a = (now, ended)" by (cases a)
  have "hub_rounds (link_closed ended (link_opened now new_link)) rest = map Some (between ((now, ended) # rest))"
    using gaps_after [of "link_closed ended (link_opened now new_link)" now rest] assms Cons a
    by (auto simp: link_closed_def)
  then show ?thesis by (simp add: Cons a link_gap_def new_link_def)
qed simp

end
