(* ===== verification/HideGroups.thy ===== *)
theory HideGroups
  imports Status
begin

text \<open>
  What the renderer reads from a declaration (go/internal/collate/declared.go, the declared fact
  of go/internal/collate/widgets.go), the hide groups that narrow a default view
  (go/internal/collate/hide_groups.go) and the verdict that exempts a row from them
  (\<open>worstPerObject\<close> of go/internal/collate/collection_page.go). An error of a document is
  \<open>None\<close>. A group's markup is text as the page carries it.
\<close>

section \<open>The declared rendering\<close>

record fact_decl =
  fd_type :: string
  fd_unit :: string
  fd_temperament :: string
  fd_kind :: string
  fd_labels :: "string list"
  fd_denominator :: string
  fd_bound :: string
  fd_sentence :: string

record render =
  rd_answer :: "string list"
  rd_facts :: "fact_decl gomap"
  rd_question :: string
  rd_prefix :: string

definition blank_decl :: fact_decl where
  "blank_decl = \<lparr>fd_type = [], fd_unit = [], fd_temperament = [], fd_kind = [], fd_labels = [],
     fd_denominator = [], fd_bound = [], fd_sentence = []\<rparr>"

definition decode_fact_decl :: "json \<Rightarrow> fact_decl option" where
  "decode_fact_decl j =
     Option.bind (struct_of j) (\<lambda>kvs.
     Option.bind (text_field kvs ''type'') (\<lambda>ty.
     Option.bind (text_field kvs ''unit'') (\<lambda>unit'.
     Option.bind (text_field kvs ''temperament'') (\<lambda>temper.
     Option.bind (text_field kvs ''kind'') (\<lambda>kind.
     Option.bind (texts_field kvs ''values'') (\<lambda>_.
     Option.bind (texts_field kvs ''labels'') (\<lambda>labels.
     Option.bind (text_field kvs ''denominator'') (\<lambda>denom.
     Option.bind (text_field kvs ''bound'') (\<lambda>bound.
     Option.bind (text_field kvs ''sentence'') (\<lambda>sentence.
       Some \<lparr>fd_type = ty, fd_unit = unit', fd_temperament = temper, fd_kind = kind,
             fd_labels = labels, fd_denominator = denom, fd_bound = bound, fd_sentence = sentence\<rparr>))))))))))"

definition decode_render :: "json \<Rightarrow> (string \<times> render) option" where
  "decode_render j =
     Option.bind (struct_of j) (\<lambda>kvs.
     Option.bind (text_field kvs ''name'') (\<lambda>name.
     Option.bind (texts_field kvs ''answer'') (\<lambda>answer.
     Option.bind (text_field kvs ''question'') (\<lambda>question.
     Option.bind (text_field kvs ''prefix'') (\<lambda>pfx.
     Option.bind (Option.bind (map_field kvs ''facts'')
         (mapO (\<lambda>(k, spec). map_option (\<lambda>d. (k, d)) (decode_fact_decl spec)))) (\<lambda>facts.
       Some (name, \<lparr>rd_answer = answer, rd_facts = facts, rd_question = question, rd_prefix = pfx\<rparr>)))))))"

text \<open>The collections of a document, each decoded; \<open>None\<close> is an unreadable document.\<close>

definition document_collections :: "(json \<Rightarrow> 'c option) \<Rightarrow> string \<Rightarrow> 'c list option" where
  "document_collections dec document =
     Option.bind (json_unmarshal document) (\<lambda>j.
     Option.bind (struct_of j) (\<lambda>kvs.
     Option.bind (list_field kvs ''collections'') (mapO dec)))"

definition render_for :: "string \<Rightarrow> string \<Rightarrow> render option option" where
  "render_for document collection =
     map_option (\<lambda>cols. map_option snd (find (\<lambda>c. fst c = collection) cols))
       (document_collections decode_render document)"

section \<open>Groups\<close>

record hide_group =
  gr_key :: string
  gr_label :: string
  gr_when :: "json option"
  gr_type :: string

definition decode_hide_group :: "json \<Rightarrow> hide_group option" where
  "decode_hide_group j =
     Option.bind (struct_of j) (\<lambda>kvs.
     Option.bind (text_field kvs ''key'') (\<lambda>key.
     Option.bind (text_field kvs ''label'') (\<lambda>label.
     Option.bind (text_field kvs ''object_type'') (\<lambda>ty.
       Some \<lparr>gr_key = key, gr_label = label, gr_when = struct_get kvs ''when'', gr_type = ty\<rparr>))))"

definition decode_hide_groups :: "json \<Rightarrow> (string \<times> hide_group list) option" where
  "decode_hide_groups j =
     Option.bind (struct_of j) (\<lambda>kvs.
     Option.bind (text_field kvs ''name'') (\<lambda>name.
     Option.bind (Option.bind (list_field kvs ''hide_groups'') (mapO decode_hide_group)) (\<lambda>groups.
       Some (name, groups))))"

definition hide_groups_for :: "string \<Rightarrow> string \<Rightarrow> hide_group list option" where
  "hide_groups_for document collection =
     map_option (\<lambda>cols. case find (\<lambda>c. fst c = collection) cols of None \<Rightarrow> [] | Some c \<Rightarrow> snd c)
       (document_collections decode_hide_groups document)"

definition holds_row :: "lib \<Rightarrow> hide_group \<Rightarrow> val gomap \<Rightarrow> string \<Rightarrow> bool" where
  "holds_row L grp facts object_type =
     (\<not> (gr_type grp \<noteq> [] \<and> gr_type grp \<noteq> object_type) \<and>
      (case gr_when grp of None \<Rightarrow> False | Some cond \<Rightarrow> match L cond facts = Some True))"

text \<open>The empty key is a row that stays on the page.\<close>

definition assign_typed :: "lib \<Rightarrow> hide_group list \<Rightarrow> val gomap \<Rightarrow> string \<Rightarrow> string \<Rightarrow> string" where
  "assign_typed L groups facts object_type worst =
     (if worst = ''critical'' then []
      else case find (\<lambda>grp. holds_row L grp facts object_type) groups of
        None \<Rightarrow> []
      | Some grp \<Rightarrow> gr_key grp)"

record group_count =
  gc_key :: string
  gc_label :: string
  gc_count :: nat

definition held_by :: "string list \<Rightarrow> nat gomap" where
  "held_by assigned =
     fold (\<lambda>key m. if key \<noteq> [] then mput key (Suc (count_of m key)) m else m) assigned []"

definition chips :: "hide_group list \<Rightarrow> string list \<Rightarrow> group_count list" where
  "chips groups assigned =
     (let held = held_by assigned in
      List.map_filter (\<lambda>grp.
        if 0 < count_of held (gr_key grp)
        then Some \<lparr>gc_key = gr_key grp, gc_label = gr_label grp, gc_count = count_of held (gr_key grp)\<rparr>
        else None) groups)"

section \<open>The controls\<close>

text \<open>\<open>html.EscapeString\<close>.\<close>

definition esc_char :: "char \<Rightarrow> string" where
  "esc_char c =
     (if c = CHR 0x26 then ''&amp;''
      else if c = CHR 0x27 then ''&#39;''
      else if c = CHR 0x3C then ''&lt;''
      else if c = CHR 0x3E then ''&gt;''
      else if c = CHR 0x22 then ''&#34;''
      else [c])"

definition esc :: "string \<Rightarrow> string" where
  "esc s = concat (map esc_char s)"

definition ident_char :: "char \<Rightarrow> bool" where
  "ident_char c =
     (97 \<le> byte c \<and> byte c \<le> 122 \<or> 65 \<le> byte c \<and> byte c \<le> 90 \<or> 48 \<le> byte c \<and> byte c \<le> 57 \<or>
      c = CHR ''-'' \<or> c = CHR ''_'')"

text \<open>One dash per rune that is no identifier character; a byte of no valid sequence is a rune.\<close>

function css_ident :: "string \<Rightarrow> string" where
  "css_ident [] = []"
| "css_ident (c # s) =
     (if ident_char c then c # css_ident s
      else CHR ''-'' # css_ident (if byte c < 128 then s else drop (utf8_len (c # s) - 1) s))"
  by pat_completeness auto
termination
  by (relation "measure length") auto

definition reveal_id :: "string \<Rightarrow> string" where
  "reveal_id key = ''reveal-'' @ key"

text \<open>The selectors of one chip's rule: the checkbox it listens to and the rows it displays.\<close>

definition reveal_rule :: "group_count \<Rightarrow> string \<times> string" where
  "reveal_rule chip = (css_ident (reveal_id (gc_key chip)), css_ident (gc_key chip))"

definition rule_text :: "string \<times> string \<Rightarrow> string" where
  "rule_text rule =
     ''#'' @ fst rule @ '':checked ~ .scroll tr[data-group='' @ [CHR 0x22] @ snd rule @ [CHR 0x22] @
     '']{display:table-row}''"

definition quoted :: "string \<Rightarrow> string" where
  "quoted s = [CHR 0x22] @ s @ [CHR 0x22]"

definition chip_text :: "group_count \<Rightarrow> string" where
  "chip_text chip =
     (let box = esc (reveal_id (gc_key chip)) in
      ''<input type='' @ quoted ''checkbox'' @ '' id='' @ quoted box @ '' class='' @ quoted ''reveal'' @ ''>'' @
      ''<label for='' @ quoted box @ '' class='' @ quoted ''chip hide-chip'' @ ''>'' @ esc (gc_label chip) @
      '' <span class='' @ quoted ''count'' @ ''>'' @ nat_str (gc_count chip) @ ''</span></label>'')"

definition hide_controls :: "group_count list \<Rightarrow> string" where
  "hide_controls cs =
     (if cs = [] then []
      else ''<div class='' @ quoted ''hide-groups'' @ ''>'' @ concat (map chip_text cs) @ ''</div>'' @
        ''<style>tr[data-group]{display:none}'' @
        concat (sort (map (rule_text \<circ> reveal_rule) cs)) @ ''</style>'')"

text \<open>
  What the rules of the style sheet name: some rule listens to the box of a chip and selects the
  rows of a group. Its combinator asks for more, that the table be a later sibling of the box,
  which it is not: the boxes stand inside the division of the chips.
\<close>

definition rule_names :: "group_count list \<Rightarrow> group_count \<Rightarrow> string \<Rightarrow> bool" where
  "rule_names cs chip key =
     (\<exists>rule \<in> set (map reveal_rule cs). fst rule = reveal_id (gc_key chip) \<and> snd rule = key)"

section \<open>The verdict of a row\<close>

definition unjudged_word :: string where
  "unjudged_word = ''unjudged''"

text \<open>A level that is none of the three has the rank of the worst.\<close>

definition display_rank :: "string \<Rightarrow> nat" where
  "display_rank level = (if level = ''warn'' then 1 else if level = ''info'' then 2 else 0)"

definition note_worst :: "opinion \<Rightarrow> string \<Rightarrow> string gomap \<Rightarrow> string gomap" where
  "note_worst op row_id m =
     (case mget m row_id of
        None \<Rightarrow> mput row_id (op_level op) m
      | Some held \<Rightarrow>
          if display_rank (op_level op) < display_rank held then mput row_id (op_level op) m else m)"

definition worst_per_object :: "lib \<Rightarrow> string \<Rightarrow> string \<Rightarrow> obj_row list \<Rightarrow> string gomap" where
  "worst_per_object L document collection rows =
     (case rule_table document collection of
        Some (Some rules) \<Rightarrow>
          (let secrets = (case secret_facts document collection of None \<Rightarrow> [] | Some s \<Rightarrow> s) in
           fold (\<lambda>r m. fold (\<lambda>op. note_worst op (o_id r)) (judge_row L rules secrets r) m) rows [])
      | _ \<Rightarrow> fold (\<lambda>r. mput (o_id r) unjudged_word) rows [])"

definition worst_of :: "string gomap \<Rightarrow> string \<Rightarrow> string" where
  "worst_of m row_id = (case mget m row_id of None \<Rightarrow> [] | Some level \<Rightarrow> level)"

text \<open>The group of every row, from the facts as stored.\<close>

definition page_facts :: "obj_row \<Rightarrow> val gomap" where
  "page_facts r = (case val_map (o_facts r) of None \<Rightarrow> [] | Some facts \<Rightarrow> facts)"

definition assigned_groups :: "lib \<Rightarrow> hide_group list \<Rightarrow> string gomap \<Rightarrow> obj_row list \<Rightarrow> string list" where
  "assigned_groups L groups worst rows =
     map (\<lambda>r. assign_typed L groups (page_facts r) (o_type r) (worst_of worst (o_id r))) rows"

section \<open>Lemmas\<close>

lemma css_ident_id: "\<forall>c \<in> set s. ident_char c \<Longrightarrow> css_ident s = s"
  by (induction s) simp_all

lemma reveal_id_inj [simp]: "reveal_id a = reveal_id b \<longleftrightarrow> a = b"
  by (simp add: reveal_id_def)

lemma reveal_id_ident: "\<forall>c \<in> set key. ident_char c \<Longrightarrow> css_ident (reveal_id key) = reveal_id key"
proof (rule css_ident_id)
  assume "\<forall>c \<in> set key. ident_char c"
  moreover have "list_all ident_char ''reveal-''" by code_simp
  ultimately show "\<forall>c \<in> set (reveal_id key). ident_char c" by (simp add: reveal_id_def list_all_iff)
qed

lemma count_held: "count_of (held_by assigned) key = (if key = [] then 0 else count_list assigned key)"
proof (induction assigned rule: rev_induct)
  case Nil
  then show ?case by (simp add: held_by_def count_of_def)
next
  case (snoc k assigned)
  then show ?case by (auto simp: held_by_def)
qed

lemma chips_of: "chip \<in> set (chips groups assigned) \<longleftrightarrow>
    (\<exists>grp \<in> set groups. gr_key grp \<noteq> [] \<and> gr_key grp \<in> set assigned \<and>
      chip = \<lparr>gc_key = gr_key grp, gc_label = gr_label grp, gc_count = count_list assigned (gr_key grp)\<rparr>)"
proof -
  have pos: "0 < count_list assigned key \<longleftrightarrow> key \<in> set assigned" for key
    using count_list_0_iff [of assigned key] by (metis neq0_conv)
  show ?thesis
    unfolding chips_def Let_def in_map_filter count_held using pos by (auto split: if_splits)
qed

lemma find_in: "find P xs = Some x \<Longrightarrow> x \<in> set xs"
  by (auto simp: find_Some_iff)

lemma assigned_from:
  assumes "key \<in> set (assigned_groups L groups worst rows)" and "key \<noteq> []"
  shows "\<exists>grp \<in> set groups. gr_key grp = key"
proof -
  obtain r where "assign_typed L groups (page_facts r) (o_type r) (worst_of worst (o_id r)) = key"
    using assms(1) by (auto simp: assigned_groups_def)
  then obtain grp where "find (\<lambda>grp. holds_row L grp (page_facts r) (o_type r)) groups = Some grp" "gr_key grp = key"
    using assms(2) by (auto simp: assign_typed_def split: if_splits option.splits)
  then show ?thesis using find_in by metis
qed

lemma critical_stays: "mget m x = Some ''critical'' \<Longrightarrow> mget (note_worst op r m) x = Some ''critical''"
  by (auto simp: note_worst_def display_rank_def split: option.split)

lemma critical_stays_fold:
  "mget m x = Some ''critical'' \<Longrightarrow> mget (fold (\<lambda>op. note_worst op r) ops m) x = Some ''critical''"
  by (induction ops arbitrary: m) (simp_all add: critical_stays)

definition levels_known :: "string gomap \<Rightarrow> bool" where
  "levels_known m = (\<forall>x l. mget m x = Some l \<longrightarrow> l \<in> {''info'', ''warn'', ''critical''})"

lemma note_known:
  "levels_known m \<Longrightarrow> op_level op \<in> {''info'', ''warn'', ''critical''} \<Longrightarrow> levels_known (note_worst op r m)"
  by (auto simp: levels_known_def note_worst_def split: option.split)

lemma note_known_fold:
  "levels_known m \<Longrightarrow> \<forall>op \<in> set ops. op_level op \<in> {''info'', ''warn'', ''critical''} \<Longrightarrow>
   levels_known (fold (\<lambda>op. note_worst op r) ops m)"
  by (induction ops arbitrary: m) (simp_all add: note_known)

lemma critical_noted:
  "levels_known m \<Longrightarrow> op_level op = ''critical'' \<Longrightarrow> mget (note_worst op r m) r = Some ''critical''"
  by (force simp: levels_known_def note_worst_def display_rank_def split: option.split)

lemma critical_noted_fold:
  "levels_known m \<Longrightarrow> \<forall>op \<in> set ops. op_level op \<in> {''info'', ''warn'', ''critical''} \<Longrightarrow>
   op \<in> set ops \<Longrightarrow> op_level op = ''critical'' \<Longrightarrow> mget (fold (\<lambda>op. note_worst op r) ops m) r = Some ''critical''"
proof (induction ops arbitrary: m)
  case (Cons o' ops)
  show ?case
  proof (cases "op = o'")
    case True
    then show ?thesis using Cons.prems critical_stays_fold [OF critical_noted] by simp
  next
    case False
    then show ?thesis using Cons note_known by simp
  qed
qed simp

lemma judge_row_levels: "op \<in> set (judge_row L rules secrets r) \<Longrightarrow> \<exists>rule \<in> set rules. op_level op = ru_level rule"
  by (auto simp: judge_row_def judge_shaped_def opinion_of_def split: option.splits)

text \<open>A critical opinion of an accepted table of known levels is the verdict of its row.\<close>

lemma critical_is_worst:
  assumes "rule_table document collection = Some (Some rules)"
    and "secret_facts document collection = Some secrets"
    and levels: "\<forall>rule \<in> set rules. ru_level rule \<in> {''info'', ''warn'', ''critical''}"
    and "r \<in> set rows" and op: "op \<in> set (judge_row L rules secrets r)" "op_level op = ''critical''"
  shows "worst_of (worst_per_object L document collection rows) (o_id r) = ''critical''"
proof -
  let ?note = "\<lambda>r m. fold (\<lambda>op. note_worst op (o_id r)) (judge_row L rules secrets r) m"
  have known: "\<forall>op \<in> set (judge_row L rules secrets r). op_level op \<in> {''info'', ''warn'', ''critical''}" for r
    using judge_row_levels levels by metis
  have stays: "mget (fold ?note rs m) x = Some ''critical''" if "mget m x = Some ''critical''" for rs m x
    using that by (induction rs arbitrary: m) (simp_all add: critical_stays_fold)
  have "mget (fold ?note rs m) (o_id r) = Some ''critical''" if "r \<in> set rs" "levels_known m" for rs m
    using that
  proof (induction rs arbitrary: m)
    case (Cons r' rs)
    show ?case
    proof (cases "r = r'")
      case True
      then have "mget (?note r' m) (o_id r) = Some ''critical''"
        using critical_noted_fold [OF Cons.prems(2) known op] by simp
      then show ?thesis by (simp add: stays)
    next
      case False
      then show ?thesis using Cons note_known_fold [OF Cons.prems(2) known] by simp
    qed
  qed simp
  moreover have "levels_known []" by (simp add: levels_known_def)
  ultimately show ?thesis using assms by (simp add: worst_per_object_def worst_of_def)
qed

end
