(* ===== verification/CollectionPage.thy ===== *)
theory CollectionPage
  imports Nesting HideGroups
begin

text \<open>
  The page of one collection (go/internal/collate/collection_page.go): which of its situations a
  collection is in, the order its rows are drawn in, the groups that hide some of them, the
  controls that narrow them with their links and counts, the state of every cell and the mark
  of every row. The prose of a panel stands as a constructor; links are text. The order
  \<open>sort.SliceStable\<close> gives is an argument of the model, a function of the comparison and the
  list.
\<close>

section \<open>Links\<close>

definition unreserved :: "char \<Rightarrow> bool" where
  "unreserved c =
     (97 \<le> byte c \<and> byte c \<le> 122 \<or> 65 \<le> byte c \<and> byte c \<le> 90 \<or> 48 \<le> byte c \<and> byte c \<le> 57 \<or>
      c \<in> set ''-_.~'')"

definition upper_hex :: "nat \<Rightarrow> char" where
  "upper_hex n = (if n < 10 then char_of (48 + n) else char_of (55 + n))"

definition percent :: "char \<Rightarrow> string" where
  "percent c = [CHR ''%'', upper_hex (byte c div 16), upper_hex (byte c mod 16)]"

text \<open>\<open>url.QueryEscape\<close> and \<open>url.PathEscape\<close>.\<close>

definition query_escape :: "string \<Rightarrow> string" where
  "query_escape s = concat (map (\<lambda>c. if unreserved c then [c] else if c = CHR '' '' then ''+'' else percent c) s)"

definition path_escape :: "string \<Rightarrow> string" where
  "path_escape s = concat (map (\<lambda>c. if unreserved c \<or> c \<in> set ''$&+=:@'' then [c] else percent c) s)"

definition collection_query :: "string \<Rightarrow> string list \<Rightarrow> string" where
  "collection_query collection params =
     (let kept = filter (\<lambda>p. p \<noteq> []) params; base = ''/collections/'' @ path_escape collection in
      if kept = [] then base else base @ ''?'' @ join_with ''&'' kept)"

definition facet_param :: "string \<Rightarrow> string" where
  "facet_param facet = (if facet = [] then [] else ''facet='' @ query_escape facet)"

definition sort_param :: "string \<Rightarrow> string" where
  "sort_param sort_by = (if sort_by = [] then [] else ''sort='' @ query_escape sort_by)"

definition attention_param :: "string \<Rightarrow> string" where
  "attention_param level = (if level = [] then [] else ''attention='' @ query_escape level)"

definition collection_href :: "string \<Rightarrow> string" where
  "collection_href collection = ''/collections/'' @ esc (path_escape collection)"

definition object_href :: "string \<Rightarrow> string \<Rightarrow> string" where
  "object_href collection object =
     collection_href collection @ ''/object?name='' @ esc (query_escape object)"

section \<open>Values as text\<close>

text \<open>Two decimals, ties to even, with the sign of the number.\<close>

definition two_digits :: "nat \<Rightarrow> string" where
  "two_digits n = (if n < 10 then ''0'' @ nat_str n else nat_str n)"

definition fixed2 :: "rat \<Rightarrow> string" where
  "fixed2 q =
     (let (n, d) = quotient_of \<bar>q\<bar>; h = nat (div_even (n * 100) d) in
      (if q < 0 then ''-'' else []) @ nat_str (h div 100) @ ''.'' @ two_digits (h mod 100))"

definition trim_right :: "char \<Rightarrow> string \<Rightarrow> string" where
  "trim_right c s = rev (dropWhile (\<lambda>x. x = c) (rev s))"

text \<open>Outside the range of \<open>int64\<close> the conversion gives the smallest one, as on amd64.\<close>

definition trim_num :: "rat \<Rightarrow> string" where
  "trim_num q =
     (if q \<in> \<int> \<and> of_int int64_min \<le> q \<and> q \<le> of_int int64_max then int_str \<lfloor>q\<rfloor>
      else trim_right (CHR ''.'') (trim_right (CHR ''0'') (fixed2 q)))"

definition number_of :: "val \<Rightarrow> rat option" where
  "number_of v = (case v of VNum x \<Rightarrow> Some (f64_val x) | _ \<Rightarrow> None)"

definition scalar :: "lib \<Rightarrow> val \<Rightarrow> string" where
  "scalar L v =
     (case v of
        VNull \<Rightarrow> []
      | VStr s \<Rightarrow> s
      | VNum x \<Rightarrow> trim_num (f64_val x)
      | VBool b \<Rightarrow> (if b then ''true'' else ''false'')
      | _ \<Rightarrow> val_text (fmt_float L) v)"

section \<open>Order\<close>

definition sort_value :: "obj_row list \<Rightarrow> string \<Rightarrow> nat \<Rightarrow> val option" where
  "sort_value rows sort_by i =
     (case mget (page_facts (rows ! i)) sort_by of Some VNull \<Rightarrow> None | v \<Rightarrow> v)"

text \<open>The comparison of two rows as the code makes it.\<close>

definition row_less :: "lib \<Rightarrow> obj_row list \<Rightarrow> string \<Rightarrow> bool \<Rightarrow> nat \<Rightarrow> nat \<Rightarrow> bool" where
  "row_less L rows sort_by descending i j =
     (case sort_value rows sort_by i of
        None \<Rightarrow> False
      | Some x \<Rightarrow>
          (case sort_value rows sort_by j of
             None \<Rightarrow> True
           | Some y \<Rightarrow>
               (let less = (case (number_of x, number_of y) of
                   (Some a, Some b) \<Rightarrow> a < b
                 | _ \<Rightarrow> scalar L x < scalar L y)
                in if descending then \<not> less else less)))"

type_synonym sorter = "(nat \<Rightarrow> nat \<Rightarrow> bool) \<Rightarrow> nat list \<Rightarrow> nat list"

text \<open>Each row with the depth it is drawn at, and whether a cycle was found.\<close>

definition display_order ::
  "lib \<Rightarrow> sorter \<Rightarrow> obj_row list \<Rightarrow> string gomap \<times> string \<Rightarrow> string \<Rightarrow> string \<Rightarrow> bool \<Rightarrow>
   (nat \<times> nat) list \<times> bool"
where
  "display_order L slice_stable rows nesting sort_by facet descending =
     (let flat = map (\<lambda>i. (i, 0)) in
      if sort_by \<noteq> [] then (flat (slice_stable (row_less L rows sort_by descending) [0..<length rows]), False)
      else if facet = [] \<and> snd nesting \<noteq> [] \<and> fst nesting \<noteq> [] then nest rows (fst nesting)
      else (flat [0..<length rows], False))"

section \<open>Narrowing\<close>

record control =
  ct_href :: string
  ct_label :: string
  ct_count :: nat
  ct_current :: bool

definition level_holds :: "string \<Rightarrow> string \<Rightarrow> bool" where
  "level_holds level verdict =
     (if level = ''critical'' then verdict = ''critical''
      else if level = ''warn'' then verdict \<in> {''critical'', ''warn''}
      else if level = ''info'' then verdict \<in> {''critical'', ''warn'', ''info''}
      else False)"

definition attention_controls ::
  "string \<Rightarrow> string list \<Rightarrow> string \<Rightarrow> string \<Rightarrow> string \<Rightarrow> control list"
where
  "attention_controls collection verdicts chosen facet sort_by =
     (let held = (\<lambda>level. length (filter (level_holds level) verdicts));
          link = (\<lambda>level. collection_query collection [attention_param level, facet_param facet, sort_param sort_by])
      in if held ''info'' = 0 \<and> chosen = [] then []
         else \<lparr>ct_href = link [], ct_label = ''everything'', ct_count = length verdicts, ct_current = (chosen = [])\<rparr> #
           map (\<lambda>level. \<lparr>ct_href = link level,
               ct_label = (if level = ''critical'' then ''critical'' else level @ '' or worse''),
               ct_count = held level, ct_current = (chosen = level)\<rparr>)
             (filter (\<lambda>level. held level \<noteq> 0) [''critical'', ''warn'', ''info'']))"

definition keep_attention :: "string \<Rightarrow> string \<Rightarrow> bool" where
  "keep_attention attention verdict = (attention = [] \<or> level_holds attention verdict)"

definition facet_controls :: "string \<Rightarrow> string list \<Rightarrow> string \<Rightarrow> string \<Rightarrow> control list" where
  "facet_controls collection kinds chosen sort_by =
     (let types = sort (remdups (filter (\<lambda>k. k \<noteq> []) kinds));
          keep = (\<lambda>facet. collection_query collection [facet_param facet, sort_param sort_by])
      in if length types < 2 \<and> chosen = [] then []
         else \<lparr>ct_href = keep [], ct_label = ''all'', ct_count = length kinds, ct_current = (chosen = [])\<rparr> #
           map (\<lambda>kind. \<lparr>ct_href = keep kind, ct_label = kind, ct_count = count_list kinds kind,
             ct_current = (chosen = kind)\<rparr>) types)"

section \<open>Columns and cells\<close>

definition columns_of :: "render option \<Rightarrow> obj_row list \<Rightarrow> string list" where
  "columns_of rd rows =
     (let declared = (case rd of None \<Rightarrow> [] | Some r \<Rightarrow> rd_answer r) in
      if declared \<noteq> [] then declared
      else sort (remdups (concat (map (\<lambda>r. mkeys (page_facts r)) rows))))"

record column_head =
  ch_title :: "string option"
  ch_type :: string
  ch_direction :: "bool option"
  ch_href :: string
  ch_name :: string

text \<open>Unsorted, ascending, descending, unsorted: the target a click asks for.\<close>

definition column_head_of :: "string \<Rightarrow> render option \<Rightarrow> string \<Rightarrow> bool \<Rightarrow> string \<Rightarrow> string \<Rightarrow> column_head" where
  "column_head_of collection rd sort_by descending facet name =
     (let decl = (case rd of None \<Rightarrow> None | Some r \<Rightarrow> mget (rd_facts r) name);
          current = (name = sort_by);
          target = (if current \<and> descending then []
                    else if current then ''sort='' @ name @ ''&dir=desc''
                    else ''sort='' @ name)
      in \<lparr>ch_title = (case decl of None \<Rightarrow> None | Some f \<Rightarrow> if fd_sentence f = [] then None else Some (fd_sentence f)),
          ch_type = (case decl of None \<Rightarrow> [] | Some f \<Rightarrow> fd_type f),
          ch_direction = (if current then Some descending else None),
          ch_href = esc (collection_query collection [target, facet_param facet]), ch_name = name\<rparr>)"

datatype cell = Unobservable string | Absent | Undeclared val | Unstated | Shown fact_decl val

text \<open>What could not be read of an object; a fact recorded twice is the later row.\<close>

definition could_not :: "unobs_row list \<Rightarrow> string \<Rightarrow> string \<Rightarrow> unobs_row option" where
  "could_not unobs object fname = find (\<lambda>u. u_object u = object \<and> u_fact u = fname) (rev unobs)"

definition why_not :: "unobs_row \<Rightarrow> string" where
  "why_not u =
     (let detail = (if u_detail u = [] then u_reason u else u_detail u) in
      if detail = [] then ''could not be read'' else detail)"

definition value_cell :: "fact_decl \<Rightarrow> val option \<Rightarrow> cell" where
  "value_cell decl v = (case v of None \<Rightarrow> Unstated | Some VNull \<Rightarrow> Unstated | Some x \<Rightarrow> Shown decl x)"

definition cell_for :: "render option \<Rightarrow> string \<Rightarrow> val gomap \<Rightarrow> string list \<Rightarrow> unobs_row option \<Rightarrow> cell" where
  "cell_for rd name facts absent could =
     (case could of
        Some u \<Rightarrow> Unobservable (why_not u)
      | None \<Rightarrow>
          if name \<in> set absent then Absent
          else (let plain = (case mget facts name of None \<Rightarrow> Absent | Some v \<Rightarrow> Undeclared v) in
            case rd of
              None \<Rightarrow> plain
            | Some r \<Rightarrow> (case mget (rd_facts r) name of None \<Rightarrow> plain | Some decl \<Rightarrow> value_cell decl (mget facts name))))"

section \<open>Marks\<close>

datatype mark = Fired string | UnjudgedMark | Clean | PartlyClean "string list"

definition undecidable_at_row_density :: "rule list \<Rightarrow> render option \<Rightarrow> string list" where
  "undecidable_at_row_density rules rd =
     (case rd of
        None \<Rightarrow> []
      | Some r \<Rightarrow>
          if rd_answer r = [] then []
          else map ru_key (filter (\<lambda>rule.
            case ru_when rule of None \<Rightarrow> False
            | Some cond \<Rightarrow> \<exists>fname \<in> set (condition_facts cond). fname \<notin> set (rd_answer r)) rules))"

definition severity_mark_with :: "string \<Rightarrow> string list \<Rightarrow> mark" where
  "severity_mark_with level undecided =
     (if level \<in> {''critical'', ''warn'', ''info''} then Fired level
      else if level = unjudged_word then UnjudgedMark
      else if undecided = [] then Clean
      else PartlyClean undecided)"

section \<open>What the table says beneath itself\<close>

definition uniformly_unstated :: "string list \<Rightarrow> render option \<Rightarrow> obj_row list \<Rightarrow> unobs_row list \<Rightarrow> string list" where
  "uniformly_unstated columns rd rows unobs =
     (case rd of
        None \<Rightarrow> []
      | Some r \<Rightarrow>
          if rows = [] then []
          else filter (\<lambda>name. mget (rd_facts r) name \<noteq> None \<and>
            \<not> (\<exists>row \<in> set rows. mget (page_facts row) name \<noteq> None \<or> name \<in> set (o_absent row) \<or>
                 could_not unobs (o_id row) name \<noteq> None)) columns)"

definition declaration_mismatch :: "render option \<Rightarrow> obj_row list \<Rightarrow> bool" where
  "declaration_mismatch rd rows =
     (case rd of
        None \<Rightarrow> False
      | Some r \<Rightarrow>
          rd_answer r \<noteq> [] \<and> rows \<noteq> [] \<and>
          (let carried = concat (map (\<lambda>row. mkeys (page_facts row)) rows) in
           carried \<noteq> [] \<and> (\<forall>name \<in> set carried. mget (rd_facts r) name = None)))"

datatype tree_note = NoTree | SortedNoTree | NarrowedNoTree | NestedBy string

datatype column_note = NoNote | Mismatch | UnstatedColumns "string list"

datatype empty_note = RowsShown | EmptyFacet string | AllHeld

section \<open>The table\<close>

record table_row =
  tr_index :: nat
  tr_group :: string
  tr_depth :: nat
  tr_level :: "nat option"
  tr_mark :: mark
  tr_href :: string
  tr_name :: string
  tr_scope :: string
  tr_cells :: "cell list"

record table_page =
  tb_tree :: tree_note
  tb_cyclic :: bool
  tb_attention :: "control list"
  tb_facets :: "control list"
  tb_filter :: bool
  tb_chips :: "group_count list"
  tb_heads :: "column_head list"
  tb_rows :: "table_row list"
  tb_columns :: column_note
  tb_empty :: empty_note

definition table_row_of ::
  "string \<Rightarrow> render option \<Rightarrow> unobs_row list \<Rightarrow> string gomap \<Rightarrow> string list \<Rightarrow> string list \<Rightarrow> bool \<Rightarrow>
   obj_row list \<Rightarrow> string list \<Rightarrow> nat \<times> nat \<Rightarrow> table_row"
where
  "table_row_of collection rd unobs worst undecided columns tree rows assigned p =
     (case p of (i, d) \<Rightarrow>
       (let row = rows ! i in
        \<lparr>tr_index = i, tr_group = assigned ! i, tr_depth = d,
         tr_level = (if 0 < d then Some (Suc d) else if tree then Some 1 else None),
         tr_mark = severity_mark_with (worst_of worst (o_id row)) undecided,
         tr_href = object_href collection (o_name row), tr_name = o_name row, tr_scope = o_scope row,
         tr_cells = map (\<lambda>name. cell_for rd name (page_facts row) (o_absent row) (could_not unobs (o_id row) name)) columns\<rparr>))"

definition objects_table ::
  "lib \<Rightarrow> sorter \<Rightarrow> string \<Rightarrow> render option \<Rightarrow> obj_row list \<Rightarrow> unobs_row list \<Rightarrow> hide_group list \<Rightarrow>
   string gomap \<Rightarrow> string gomap \<times> string \<Rightarrow> string \<Rightarrow> string \<Rightarrow> string \<Rightarrow> bool \<Rightarrow> string list \<Rightarrow> table_page"
where
  "objects_table L slice_stable collection rd rows unobs groups worst nesting sort_by facet attention descending undecided =
     (let columns = columns_of rd rows;
          assigned = assigned_groups L groups worst rows;
          (order, cyclic) = display_order L slice_stable rows nesting sort_by facet descending;
          nested = (snd nesting \<noteq> [] \<and> fst nesting \<noteq> []);
          verdict = (\<lambda>p. worst_of worst (o_id (rows ! fst p)));
          judged = filter (\<lambda>p. keep_attention attention (verdict p)) order;
          shown = (if facet = [] then judged else filter (\<lambda>p. o_type (rows ! fst p) = facet) judged);
          unstated = uniformly_unstated columns rd rows unobs
      in \<lparr>tb_tree = (if \<not> nested then NoTree else if sort_by \<noteq> [] then SortedNoTree
                     else if facet \<noteq> [] then NarrowedNoTree else NestedBy (snd nesting)),
          tb_cyclic = cyclic,
          tb_attention = attention_controls collection (map verdict order) attention facet sort_by,
          tb_facets = facet_controls collection (map (\<lambda>p. o_type (rows ! fst p)) judged) facet sort_by,
          tb_filter = (12 < length shown),
          tb_chips = chips groups assigned,
          tb_heads = map (column_head_of collection rd sort_by descending facet) columns,
          tb_rows = map (table_row_of collection rd unobs worst undecided columns
                      (nested \<and> sort_by = [] \<and> facet = []) rows assigned) shown,
          tb_columns = (if declaration_mismatch rd rows then Mismatch
                        else if unstated \<noteq> [] then UnstatedColumns unstated else NoNote),
          tb_empty = (if shown \<noteq> [] then RowsShown else if facet \<noteq> [] then EmptyFacet facet else AllHeld)\<rparr>)"


section \<open>The situations of a collection\<close>

datatype decline_sentence = NotOnThisHost | Refused | NoReading | NotReadable | Unexplained

datatype stands = NothingSaid | NothingEverApplied | LastReadingBelow | EmptyReading

datatype freshness_note =
    OverdueBanner overdue_ground | StaleBanner "string option" | SkewBanner | NoAge | AnotherBoot | OldestReading rat
  | ImpossibleStamps

datatype panel =
    DeclinePanel string decline_sentence string stands string
  | NeverReadPanel | NothingHere | NothingToFallBackOn | Freshness freshness_note | Table table_page

definition decline_says :: "string \<Rightarrow> decline_sentence" where
  "decline_says reason =
     (if reason = ''absent'' then NotOnThisHost
      else if reason = ''unauthorised'' then Refused
      else if reason = ''unavailable'' then NoReading
      else if reason = ''unsupported'' then NotReadable
      else Unexplained)"

definition decline_panel :: "decline_view \<Rightarrow> bool \<Rightarrow> nat \<Rightarrow> panel" where
  "decline_panel dv ever_applied rows =
     DeclinePanel (dv_reason dv) (decline_says (dv_reason dv)) (dv_detail dv)
       (if dv_reason dv = ''absent'' then NothingSaid
        else if \<not> ever_applied then NothingEverApplied
        else if 0 < rows then LastReadingBelow
        else EmptyReading)
       (dv_at dv)"

text \<open>\<open>now\<close> is the clock when the note is written, after the verdict.\<close>

definition freshness_note_of :: "collection_state \<Rightarrow> verdict option \<Rightarrow> rat \<Rightarrow> string \<Rightarrow> freshness_note" where
  "freshness_note_of cs fv now boot =
     (case fv of
        Some (Overdue ground) \<Rightarrow> OverdueBanner ground
      | _ \<Rightarrow>
          if cs_stale cs then StaleBanner (cs_stale_reason cs)
          else if skewed cs then SkewBanner
          else (case cs_oldest cs of
             None \<Rightarrow> NoAge
           | Some oldest \<Rightarrow>
               if \<not> equal_fold_ptr (cs_boot cs) boot then AnotherBoot
               else if 0 \<le> f64_sub now oldest then OldestReading (f64_sub now oldest)
               else ImpossibleStamps))"

text \<open>\<open>None\<close> is an error of the handler; a page has the question it answers and its panels.\<close>

datatype page_reply = NotFound | PageError | PageOf string "panel list"

definition table_of ::
  "lib \<Rightarrow> sorter \<Rightarrow> db \<Rightarrow> string \<Rightarrow> render option \<Rightarrow> hide_group list \<Rightarrow> string \<Rightarrow> string \<Rightarrow> string \<Rightarrow> bool \<Rightarrow> table_page"
where
  "table_of L slice_stable d name rd groups sort_by facet attention descending =
     (let document = declaration_for name d; rows = objects_of name d;
          undecided = (case rule_table document name of
             Some (Some rules) \<Rightarrow> undecidable_at_row_density rules rd | _ \<Rightarrow> [])
      in objects_table L slice_stable name rd rows (unobservables_of name d) groups
           (worst_per_object L document name rows) (parents_from name d) sort_by facet attention descending undecided)"

definition collection_page ::
  "lib \<Rightarrow> sorter \<Rightarrow> db \<Rightarrow> string list \<Rightarrow> rat \<Rightarrow> rat \<Rightarrow> string \<Rightarrow> string \<Rightarrow> string \<Rightarrow> string \<Rightarrow> string \<Rightarrow> string \<Rightarrow>
   page_reply"
where
  "collection_page L slice_stable d docs now later boot name sort_by facet attention dir =
     (case mget (d_cols d) name of
        None \<Rightarrow> NotFound
      | Some row \<Rightarrow>
     (let cs = state_of_row d name row; document = declaration_for name d; rows = objects_of name d in
      case render_for document name of
        None \<Rightarrow> PageError
      | Some rd \<Rightarrow>
     (let question = (case rd of None \<Rightarrow> [] | Some r \<Rightarrow> rd_question r);
          declined = (case cs_decline cs of None \<Rightarrow> [] | Some dv \<Rightarrow>
             if dv_reason dv = [] then [] else [decline_panel dv (0 < cs_generation cs) (length rows)])
      in if cs_generation cs = 0 then
           PageOf question (if declined = [] then [NeverReadPanel] else declined)
         else if rows = [] then
           PageOf question (if declined = [] then [NothingHere] else declined @ [NothingToFallBackOn])
         else case hide_groups_for document name of
           None \<Rightarrow> PageError
         | Some groups \<Rightarrow>
             PageOf question (declined @
               [Freshness (freshness_note_of cs (mget (freshness_map docs (collections_of d) now boot) name) later boot),
                Table (table_of L slice_stable d name rd groups sort_by facet attention (dir = ''desc''))]))))"

section \<open>Lemmas\<close>

lemma display_order_complete:
  assumes "\<And>less xs. mset (slice_stable less xs) = mset xs"
  shows "mset (map fst (fst (display_order L slice_stable rows nesting sort_by facet descending))) = mset [0..<length rows]"
proof -
  have flat: "map fst (map (\<lambda>i. (i, 0 :: nat)) xs) = xs" for xs :: "nat list" by (simp add: comp_def)
  show ?thesis
    using nest_rows [of rows "fst nesting"] assms
    by (simp add: display_order_def Let_def flat del: map_map mset_map mset_upt)
qed

lemma table_groups:
  "map tr_group (map (table_row_of c rd u w un cols tree rows assigned) ps) = map (\<lambda>p. assigned ! fst p) ps"
  "map tr_index (map (table_row_of c rd u w un cols tree rows assigned) ps) = map fst ps"
  by (simp_all add: table_row_of_def Let_def case_prod_unfold)


lemma table_chips:
  "tb_chips (objects_table L slice_stable c rd rows unobs groups worst nesting sort_by facet attention descending un) =
     chips groups (assigned_groups L groups worst rows)"
  by (simp add: objects_table_def Let_def split: prod.split)

lemma table_rows:
  fixes L c rd rows unobs groups worst nesting sort_by descending un
  assumes "\<And>less xs. mset (slice_stable less xs) = mset xs"
  defines "t \<equiv> objects_table L slice_stable c rd rows unobs groups worst nesting sort_by [] [] descending un"
  shows "mset (map tr_index (tb_rows t)) = mset [0..<length rows]"
    and "mset (map tr_group (tb_rows t)) = mset (assigned_groups L groups worst rows)"
    and "row \<in> set (tb_rows t) \<Longrightarrow> tr_group row = assigned_groups L groups worst rows ! tr_index row"
proof -
  obtain order cyclic where o: "display_order L slice_stable rows nesting sort_by [] descending = (order, cyclic)"
    by (cases "display_order L slice_stable rows nesting sort_by [] descending")
  have all: "mset (map fst order) = mset [0..<length rows]"
    using display_order_complete [where slice_stable = slice_stable and L = L and rows = rows and nesting = nesting
        and sort_by = sort_by and facet = "[]" and descending = descending] assms(1) by (simp add: o del: mset_map mset_upt)
  have rows: "tb_rows t = map (table_row_of c rd unobs worst un (columns_of rd rows)
      (snd nesting \<noteq> [] \<and> fst nesting \<noteq> [] \<and> sort_by = []) rows (assigned_groups L groups worst rows)) order"
    by (simp add: t_def objects_table_def Let_def o keep_attention_def)
  show "mset (map tr_index (tb_rows t)) = mset [0..<length rows]"
    unfolding rows table_groups by (rule all)
  have "mset (map (\<lambda>p. assigned_groups L groups worst rows ! fst p) order) =
      image_mset ((!) (assigned_groups L groups worst rows)) (mset (map fst order))"
    by (simp add: image_mset.compositionality comp_def)
  also have "\<dots> = mset (map ((!) (assigned_groups L groups worst rows)) [0..<length rows])"
    unfolding all by simp
  also have "\<dots> = mset (assigned_groups L groups worst rows)"
    using map_nth [of "assigned_groups L groups worst rows"] by (simp add: assigned_groups_def)
  finally show "mset (map tr_group (tb_rows t)) = mset (assigned_groups L groups worst rows)"
    unfolding rows table_groups .
  show "row \<in> set (tb_rows t) \<Longrightarrow> tr_group row = assigned_groups L groups worst rows ! tr_index row"
    by (auto simp: rows table_row_of_def Let_def)
qed

lemma chips_name_own:
  assumes "\<forall>grp \<in> set groups. \<forall>c \<in> set (gr_key grp). ident_char c" and "chip \<in> set (chips groups assigned)"
  shows "rule_names (chips groups assigned) chip key \<longleftrightarrow> key = gc_key chip"
proof -
  have ident: "\<forall>c \<in> set (gc_key chip). ident_char c" if "chip \<in> set (chips groups assigned)" for chip
    using that assms(1) by (auto simp: chips_of)
  show ?thesis
  proof
    assume "rule_names (chips groups assigned) chip key"
    then obtain chip' where c: "chip' \<in> set (chips groups assigned)"
      "css_ident (reveal_id (gc_key chip')) = reveal_id (gc_key chip)" "css_ident (gc_key chip') = key"
      by (auto simp: rule_names_def reveal_rule_def)
    then show "key = gc_key chip"
      using reveal_id_ident [OF ident [OF c(1)]] css_ident_id [OF ident [OF c(1)]] by simp
  next
    assume "key = gc_key chip"
    then show "rule_names (chips groups assigned) chip key"
      using assms(2) reveal_id_ident [OF ident [OF assms(2)]] css_ident_id [OF ident [OF assms(2)]]
      by (auto simp: rule_names_def reveal_rule_def intro!: bexI [of _ chip])
  qed
qed

lemma assigned_not_critical:
  assumes "rule_table document name = Some (Some rules)" "secret_facts document name = Some secrets"
    and "\<forall>rule \<in> set rules. ru_level rule \<in> {''info'', ''warn'', ''critical''}"
    and "i < length rows" and "assigned_groups L groups (worst_per_object L document name rows) rows ! i \<noteq> []"
    and "op \<in> set (judge_row L rules secrets (rows ! i))"
  shows "op_level op \<noteq> ''critical''"
proof
  assume "op_level op = ''critical''"
  then have "worst_of (worst_per_object L document name rows) (o_id (rows ! i)) = ''critical''"
    using critical_is_worst [OF assms(1-3) _ assms(6)] assms(4) by simp
  then show False using assms(4,5) by (simp add: assigned_groups_def assign_typed_def)
qed

lemma assigned_chip:
  assumes "key \<in> set (assigned_groups L groups worst rows)" and "key \<noteq> []"
  shows "\<exists>chip \<in> set (chips groups (assigned_groups L groups worst rows)). gc_key chip = key \<and>
     gc_count chip = count_list (assigned_groups L groups worst rows) key"
proof -
  obtain grp where "grp \<in> set groups" "gr_key grp = key" using assigned_from [OF assms] by blast
  then have "\<lparr>gc_key = key, gc_label = gr_label grp, gc_count = count_list (assigned_groups L groups worst rows) key\<rparr>
      \<in> set (chips groups (assigned_groups L groups worst rows))"
    using assms unfolding chips_of by metis
  then show ?thesis by force
qed

section \<open>Properties\<close>

text \<open>
  Property C20. The default view of a collection carries every stored object. Whatever order is
  asked for (declared, nested or sorted), the table not narrowed by a link has one row for each
  stored object. A row that a group claims has a chip on the page that names its group, with the
  number of rows on the page the group claims; and where the rule table and the secrets of the
  declaration can be read and the rules have the three levels of the contract, no such row
  carries a critical opinion. Whether a chip displays the rows again is the browser's to decide
  and is not stated.
\<close>

theorem default_view_carries_every_row:
  fixes d name
  defines "document \<equiv> declaration_for name d" and "rows \<equiv> objects_of name d"
  assumes perm: "\<And>less xs. mset (slice_stable less xs) = mset xs"
  shows "let t = table_of L slice_stable d name rd groups sort_by [] [] descending in
    mset (map tr_index (tb_rows t)) = mset [0..<length rows] \<and>
    (\<forall>row \<in> set (tb_rows t). tr_group row \<noteq> [] \<longrightarrow>
       (\<exists>chip \<in> set (tb_chips t). gc_key chip = tr_group row \<and>
          gc_count chip = count_list (map tr_group (tb_rows t)) (tr_group row))) \<and>
    (\<forall>rules secrets.
       rule_table document name = Some (Some rules) \<and> secret_facts document name = Some secrets \<and>
       (\<forall>rule \<in> set rules. ru_level rule \<in> {''info'', ''warn'', ''critical''}) \<longrightarrow>
       (\<forall>row \<in> set (tb_rows t). tr_group row \<noteq> [] \<longrightarrow>
          (\<forall>op \<in> set (judge_row L rules secrets (rows ! tr_index row)). op_level op \<noteq> ''critical'')))"
proof -
  define worst where "worst = worst_per_object L document name rows"
  define assigned where "assigned = assigned_groups L groups worst rows"
  define t where "t = table_of L slice_stable d name rd groups sort_by [] [] descending"
  obtain un where t: "t = objects_table L slice_stable name rd rows (unobservables_of name d) groups worst
      (parents_from name d) sort_by [] [] descending un"
    by (simp add: t_def table_of_def Let_def worst_def document_def rows_def)
  have chips: "tb_chips t = chips groups assigned" by (simp add: t table_chips assigned_def)
  note got = table_rows [where slice_stable = slice_stable and L = L and c = name and rd = rd and rows = rows and groups = groups
      and unobs = "unobservables_of name d" and worst = worst and nesting = "parents_from name d"
      and sort_by = sort_by and descending = descending and un = un, OF perm, folded t assigned_def]
  have index: "tr_index row < length rows" if "row \<in> set (tb_rows t)" for row
    using that mset_eq_setD [OF got(1)] by fastforce
  have count: "count_list (map tr_group (tb_rows t)) k = count_list assigned k" for k
    unfolding count_mset [symmetric] got(2) ..
  have counted: "\<exists>chip \<in> set (tb_chips t). gc_key chip = tr_group row \<and>
      gc_count chip = count_list (map tr_group (tb_rows t)) (tr_group row)"
    if row: "row \<in> set (tb_rows t)" and "tr_group row \<noteq> []" for row
  proof -
    have "tr_group row \<in> set assigned"
      using got(3) [OF row] index [OF row] by (simp add: assigned_def assigned_groups_def)
    then show ?thesis unfolding count chips assigned_def using that(2) by (rule assigned_chip)
  qed
  have calm: "\<forall>op \<in> set (judge_row L rules secrets (rows ! tr_index row)). op_level op \<noteq> ''critical''"
    if table: "rule_table document name = Some (Some rules)" "secret_facts document name = Some secrets"
      and levels: "\<forall>rule \<in> set rules. ru_level rule \<in> {''info'', ''warn'', ''critical''}"
      and row: "row \<in> set (tb_rows t)" "tr_group row \<noteq> []" for rules secrets row
  proof -
    have "assigned_groups L groups (worst_per_object L document name rows) rows ! tr_index row \<noteq> []"
      using got(3) [OF row(1)] row(2) by (simp add: assigned_def worst_def)
    from assigned_not_critical [OF table levels index [OF row(1)] this] show ?thesis by blast
  qed
  show ?thesis
    unfolding t_def [symmetric] Let_def using got(1) counted calm by (intro conjI ballI impI allI) blast+
qed

section \<open>A page\<close>

text \<open>Insertion from the right, as \<open>SliceStable\<close> sorts a short slice.\<close>

fun place :: "(nat \<Rightarrow> nat \<Rightarrow> bool) \<Rightarrow> nat \<Rightarrow> nat list \<Rightarrow> nat list" where
  "place lt x [] = [x]"
| "place lt x (y # ys) = (if lt x y then x # y # ys else y # place lt x ys)"

definition short_stable :: sorter where
  "short_stable lt xs = rev (fold (\<lambda>x ys. place (\<lambda>a b. \<not> lt a b) x ys) xs [])"

lemma short_stable_perm: "mset (short_stable lt xs) = mset xs"
proof -
  have place: "mset (place l x ys) = add_mset x (mset ys)" for l x ys
    by (induction ys) auto
  have "mset (fold (\<lambda>x ys. place (\<lambda>a b. \<not> lt a b) x ys) xs ys) = mset xs + mset ys" for ys
    by (induction xs arbitrary: ys) (simp_all add: place)
  then show ?thesis by (simp add: short_stable_def)
qed

definition page_document :: string where
  \<open>page_document = ''{"collections":[{"name":"units","answer":["State"],"facts":{"State":{"type":"enum"}},'' @
     ''"hide_groups":[{"key":"quiet","label":"Quiet","when":{"fact":"State","present":true}}],'' @
     ''"rules":[{"key":"failed","level":"critical","when":{"fact":"State","equals":"failed"},'' @
     ''"cites":["State"]}]}]}''\<close>

definition page_db :: db where
  "page_db = units_db\<lparr>d_decls := [(''d'', page_document)]\<rparr>"

definition page_groups :: "hide_group list" where
  "page_groups = the (hide_groups_for page_document ''units'')"

definition page_table :: table_page where
  "page_table = table_of demo_lib short_stable page_db ''units'' (the (render_for page_document ''units''))
     page_groups ''State'' [] [] False"

lemma default_view_carries_every_row_witness:
  "mset (map tr_index (tb_rows page_table)) = {#0, 1#} \<and>
   map (\<lambda>row. (tr_index row, tr_group row)) (tb_rows page_table) = [(1, ''quiet''), (0, [])]"
proof (rule conjI)
  have held: "length (objects_of ''units'' page_db) = 2"
    by (simp add: page_db_def units_db_def unit_row_def objects_of_def)
  have "mset (map tr_index (tb_rows page_table)) = mset [0..<length (objects_of ''units'' page_db)]"
    using default_view_carries_every_row [where slice_stable = short_stable and L = demo_lib and d = page_db
        and name = "''units''" and rd = "the (render_for page_document ''units'')" and groups = page_groups
        and sort_by = "''State''" and descending = False, OF short_stable_perm]
    unfolding page_table_def Let_def by blast
  moreover have "mset [0..<2] = {#0, 1 :: nat#}" by (simp add: upt_rec)
  ultimately show "mset (map tr_index (tb_rows page_table)) = {#0, 1#}" unfolding held by simp
  show "map (\<lambda>row. (tr_index row, tr_group row)) (tb_rows page_table) = [(1, ''quiet''), (0, [])]"
    by code_simp
qed

end
