(* ===== verification/Refinement.thy ===== *)
theory Refinement
  imports Authority
begin

text \<open>
  What the store promises, apart from its tables. The authority is a state of a few functions:
  how many generations a collection was issued, which one is applied and with what content, what
  each scope holds, why a collection last declined, which batches were acknowledged, what was
  refused. Every operation of store.go is an abstract step on it, and every sequence of
  operations on the tables gives the replies, and ends in the state, of the abstract one.
\<close>

section \<open>The abstract authority\<close>

record authority =
  au_issued :: "string \<Rightarrow> nat"
  au_applied :: "string \<Rightarrow> nat"
  au_hash :: "string \<Rightarrow> string option"
  au_objects :: "string \<Rightarrow> string \<Rightarrow> sobject list"
  au_stale :: "string \<Rightarrow> bool"
  au_decline :: "string \<Rightarrow> decline_view"
  au_declared :: "string \<Rightarrow> string option"
  au_documents :: "string \<Rightarrow> string option"
  au_acks :: "string \<Rightarrow> (nat gomap \<times> string) option"
  au_audit :: "rejection list"

text \<open>The operations a client of the store calls, and what it is answered.\<close>

datatype store_op =
    Issue "string list" string
  | Commit string string string nat string string "sobject list" "unobserved list"
  | MarkStale string string string string
  | MarkAbsent string string string
  | Cost string f64
  | Skew string int
  | Declare string string
  | Reject string string string
  | Judge string "nat gomap" string
  | Ack string "nat gomap" string
  | Assert string string "assertion list" "relation_type gomap" resolve_fun inverse_fun
  | Upgrade resolve_fun
  | Keep snapshot
  | Prune string
  | ReadScope string string
  | ReadDecline string
  | ReadDeclaration string
  | ReadHolds string string
  | ReadAcked string

datatype reply =
    Failed store_error
  | Issued "string \<Rightarrow> nat option"
  | Outcome outcome
  | Judged ack_outcome
  | Objects "sobject list"
  | Decline decline_view
  | Text string
  | Yes bool
  | Done

definition no_authority :: authority where
  "no_authority = \<lparr>au_issued = (\<lambda>_. 0), au_applied = (\<lambda>_. 0), au_hash = (\<lambda>_. None),
     au_objects = (\<lambda>_ _. []), au_stale = (\<lambda>_. False),
     au_decline = (\<lambda>_. \<lparr>dv_reason = [], dv_detail = [], dv_at = []\<rparr>), au_declared = (\<lambda>_. None),
     au_documents = (\<lambda>_. None), au_acks = (\<lambda>_. None), au_audit = []\<rparr>"

text \<open>
  Issuing is all or nothing: each name gets as many generations as it is named, unless one of
  them would pass 64 bits.
\<close>

definition spec_issue :: "string list \<Rightarrow> string \<Rightarrow> authority \<Rightarrow> reply \<times> authority" where
  "spec_issue names decl a =
     (let after = (\<lambda>n. au_issued a n + count_list names n) in
      if list_ex (\<lambda>n. int64_max < int (after n)) names then (Failed GenerationOverflow, a)
      else (Issued (\<lambda>n. if n \<in> set names then Some (after n) else None),
            a\<lparr>au_issued := after,
              au_declared := (\<lambda>n. if n \<in> set names then Some decl else au_declared a n)\<rparr>))"

text \<open>A commit takes effect when its generation was issued and is above the applied one.\<close>

definition spec_commit ::
  "lib \<Rightarrow> string \<Rightarrow> string \<Rightarrow> string \<Rightarrow> nat \<Rightarrow> string \<Rightarrow> string \<Rightarrow> sobject list \<Rightarrow> unobserved list
   \<Rightarrow> authority \<Rightarrow> reply \<times> authority"
where
  "spec_commit L wall c scope gen bat boot obs unobs a =
     (let refuse = (\<lambda>out. (Outcome out, a\<lparr>au_audit := au_audit a @
            [\<lparr>rj_collection = c, rj_batch = bat, rj_reason = outcome_text out\<rparr>]\<rparr>)) in
      if boot = [] then (Failed NoBootId, a)
      else if au_issued a c = 0 then (Failed NoGenerationRow, a)
      else if au_issued a c < gen then (Failed NeverIssued, a)
      else if gen < au_applied a c then refuse RefusedBelow
      else if gen = au_applied a c then
        (if au_hash a c = Some (hash_objects L obs) then (Outcome NoopIdentical, a)
         else refuse ReusedDifferent)
      else if \<not> admissible obs unobs then (Failed DuplicateKey, a)
      else (Outcome Applied,
            a\<lparr>au_applied := (au_applied a)(c := gen),
              au_hash := (au_hash a)(c := Some (hash_objects L obs)),
              au_objects := (au_objects a)(c := (au_objects a c)(scope := obs)),
              au_stale := (au_stale a)(c := False),
              au_decline := (au_decline a)(c := \<lparr>dv_reason = [], dv_detail = [], dv_at = []\<rparr>)\<rparr>))"

definition spec_decline :: "string \<Rightarrow> decline_view \<Rightarrow> bool \<Rightarrow> authority \<Rightarrow> authority" where
  "spec_decline c why stale a =
     (if au_issued a c = 0 then a
      else a\<lparr>au_decline := (au_decline a)(c := why),
             au_stale := (au_stale a)(c := stale \<or> au_stale a c)\<rparr>)"

definition spec_judge :: "string \<Rightarrow> nat gomap \<Rightarrow> string \<Rightarrow> authority \<Rightarrow> reply \<times> authority" where
  "spec_judge bat gens hash a =
     (if au_acks a bat = None then (Judged AckNew, a)
      else if au_acks a bat = Some (gens, hash) then (Judged AckRetry, a)
      else (Judged AckReused, a\<lparr>au_audit := au_audit a @
             [\<lparr>rj_collection = [], rj_batch = bat, rj_reason = ''batch-id-reused''\<rparr>]\<rparr>))"

definition spec_declaration :: "string \<Rightarrow> authority \<Rightarrow> string" where
  "spec_declaration c a = null_text (Option.bind (au_declared a c) (au_documents a))"

definition spec_holds :: "string \<Rightarrow> string \<Rightarrow> authority \<Rightarrow> bool" where
  "spec_holds c name a = (\<exists>scope. name \<in> so_name ` set (au_objects a c scope))"

text \<open>Edges and the record of readings are kept beside the authority: their steps leave it alone.\<close>

fun spec_step :: "lib \<Rightarrow> store_op \<Rightarrow> authority \<Rightarrow> reply \<times> authority" where
  "spec_step L (Issue names decl) a = spec_issue names decl a"
| "spec_step L (Commit wall c scope gen bat boot obs unobs) a =
     spec_commit L wall c scope gen bat boot obs unobs a"
| "spec_step L (MarkStale wall c why detail) a =
     (Done, spec_decline c \<lparr>dv_reason = why, dv_detail = detail, dv_at = wall\<rparr> True a)"
| "spec_step L (MarkAbsent wall c detail) a =
     (Done, spec_decline c \<lparr>dv_reason = ''absent'', dv_detail = detail, dv_at = wall\<rparr> False a)"
| "spec_step L (Cost c cpu) a = (Done, a)"
| "spec_step L (Skew c k) a = (Done, a)"
| "spec_step L (Declare digest doc) a =
     (Done, if au_documents a digest = None
            then a\<lparr>au_documents := (au_documents a)(digest := Some doc)\<rparr> else a)"
| "spec_step L (Reject c bat why) a =
     (Done, a\<lparr>au_audit := au_audit a @ [\<lparr>rj_collection = c, rj_batch = bat, rj_reason = why\<rparr>]\<rparr>)"
| "spec_step L (Judge bat gens hash) a = spec_judge bat gens hash a"
| "spec_step L (Ack bat gens hash) a =
     (Done, if au_acks a bat = None then a\<lparr>au_acks := (au_acks a)(bat := Some (gens, hash))\<rparr> else a)"
| "spec_step L (Assert c scope asserts types res inv') a = (Done, a)"
| "spec_step L (Upgrade res) a = (Done, a)"
| "spec_step L (Keep sn) a = (Done, a)"
| "spec_step L (Prune before) a = (Done, a)"
| "spec_step L (ReadScope c scope) a = (Objects (au_objects a c scope), a)"
| "spec_step L (ReadDecline c) a = (Decline (au_decline a c), a)"
| "spec_step L (ReadDeclaration c) a = (Text (spec_declaration c a), a)"
| "spec_step L (ReadHolds c name) a = (Yes (spec_holds c name a), a)"
| "spec_step L (ReadAcked bat) a = (Yes (au_acks a bat \<noteq> None), a)"

section \<open>The steps of the tables\<close>

definition sobject_at :: "obj_row \<Rightarrow> sobject" where
  "sobject_at r = \<lparr>so_id = o_id r, so_name = o_name r, so_type = o_type r, so_facts = o_facts r,
     so_names = o_names r, so_absent = o_absent r, so_at = o_at r\<rparr>"

fun store_step :: "lib \<Rightarrow> store_op \<Rightarrow> db \<Rightarrow> reply \<times> db" where
  "store_step L (Issue names decl) d =
     (case issue_generations names decl d of
        (Inl e, d') \<Rightarrow> (Failed e, d') | (Inr issued, d') \<Rightarrow> (Issued (mget issued), d'))"
| "store_step L (Commit wall c scope gen bat boot obs unobs) d =
     (case apply_commit_with L wall c scope gen bat boot obs unobs d of
        (Inl e, d') \<Rightarrow> (Failed e, d') | (Inr out, d') \<Rightarrow> (Outcome out, d'))"
| "store_step L (MarkStale wall c why detail) d = (Done, mark_stale_with wall c why detail d)"
| "store_step L (MarkAbsent wall c detail) d = (Done, record_absent wall c detail d)"
| "store_step L (Cost c cpu) d = (Done, record_cost c cpu d)"
| "store_step L (Skew c k) d = (Done, record_timens_skew c k d)"
| "store_step L (Declare digest doc) d = (Done, record_declaration digest doc d)"
| "store_step L (Reject c bat why) d = (Done, add_rejection c bat why d)"
| "store_step L (Judge bat gens hash) d =
     (case judge_acked bat gens hash d of (out, d') \<Rightarrow> (Judged out, d'))"
| "store_step L (Ack bat gens hash) d = (Done, record_ack bat gens hash d)"
| "store_step L (Assert c scope asserts types res inv') d =
     (Done, snd (apply_assertions L c scope asserts types (Some res) (Some inv') d))"
| "store_step L (Upgrade res) d = (Done, snd (upgrade_unresolved res d))"
| "store_step L (Keep sn) d = (Done, snd (record_snapshot sn d))"
| "store_step L (Prune before) d = (Done, snd (prune_snapshots before d))"
| "store_step L (ReadScope c scope) d = (Objects (map sobject_at (objects_in_scope c scope d)), d)"
| "store_step L (ReadDecline c) d = (Decline (decline_for c d), d)"
| "store_step L (ReadDeclaration c) d = (Text (declaration_for c d), d)"
| "store_step L (ReadHolds c name) d = (Yes (holds_object c name d), d)"
| "store_step L (ReadAcked bat) d = (Yes (acked bat d), d)"

section \<open>A refinement mapping\<close>

text \<open>The replies to a sequence of operations, and the state after it.\<close>

fun replies :: "('op \<Rightarrow> 's \<Rightarrow> 'r \<times> 's) \<Rightarrow> 'op list \<Rightarrow> 's \<Rightarrow> 'r list \<times> 's" where
  "replies step [] s = ([], s)"
| "replies step (x # xs) s =
     (let (r, s') = step x s; (rs, s'') = replies step xs s' in (r # rs, s''))"

locale refinement_mapping =
  fixes cstep :: "'op \<Rightarrow> 's \<Rightarrow> 'r \<times> 's"
    and astep :: "'op \<Rightarrow> 'a \<Rightarrow> 'r \<times> 'a"
    and abs :: "'s \<Rightarrow> 'a"
    and sound :: "'s \<Rightarrow> bool"
  assumes step_refines: "sound s \<Longrightarrow> astep x (abs s) = map_prod id abs (cstep x s)"
    and step_sound: "sound s \<Longrightarrow> sound (snd (cstep x s))"
begin

lemma replies_refine:
  "sound s \<Longrightarrow> replies astep xs (abs s) = map_prod id abs (replies cstep xs s)"
proof (induction xs arbitrary: s)
  case (Cons x xs)
  obtain r s' where x: "cstep x s = (r, s')" by fastforce
  then have "sound s'" using step_sound [OF Cons.prems, of x] by simp
  from Cons.IH [OF this] x show ?case
    by (cases "replies cstep xs s'") (simp add: step_refines [OF Cons.prems])
qed simp

lemma replies_sound: "sound s \<Longrightarrow> sound (snd (replies cstep xs s))"
proof (induction xs arbitrary: s)
  case (Cons x xs)
  obtain r s' where x: "cstep x s = (r, s')" by fastforce
  then have "sound s'" using step_sound [OF Cons.prems, of x] by simp
  from Cons.IH [OF this] x show ?case by (cases "replies cstep xs s'") simp
qed simp

end

section \<open>The abstraction of the tables\<close>

text \<open>A collection without a row reads as one that was issued nothing.\<close>

definition blank_row :: col_row where
  "blank_row = (fresh_row [])\<lparr>c_issued := 0, c_declaration := None\<rparr>"

definition row_at :: "col_row gomap \<Rightarrow> string \<Rightarrow> col_row" where
  "row_at cols n = (case mget cols n of None \<Rightarrow> blank_row | Some r \<Rightarrow> r)"

definition decline_at :: "col_row \<Rightarrow> decline_view" where
  "decline_at r = \<lparr>dv_reason = null_text (c_decline_reason r),
     dv_detail = null_text (c_decline_detail r), dv_at = null_text (c_declined_at r)\<rparr>"

definition authority_of :: "db \<Rightarrow> authority" where
  "authority_of d =
     \<lparr>au_issued = (\<lambda>c. c_issued (row_at (d_cols d) c)), au_applied = (\<lambda>c. c_applied (row_at (d_cols d) c)),
      au_hash = (\<lambda>c. c_hash (row_at (d_cols d) c)),
      au_objects = (\<lambda>c scope. map sobject_at (objects_in_scope c scope d)),
      au_stale = (\<lambda>c. c_stale (row_at (d_cols d) c)),
      au_decline = (\<lambda>c. decline_at (row_at (d_cols d) c)),
      au_declared = (\<lambda>c. c_declaration (row_at (d_cols d) c)), au_documents = mget (d_decls d),
      au_acks = mget (d_acks d), au_audit = d_rejs d\<rparr>"

definition rows_issued :: "col_row gomap \<Rightarrow> bool" where
  "rows_issued cols = (\<forall>n. case mget cols n of None \<Rightarrow> True | Some r \<Rightarrow> 0 < c_issued r)"


section \<open>Lemmas on the abstraction\<close>

lemma row_at_mput [simp]: "row_at (mput n r cols) m = (if m = n then r else row_at cols m)"
  by (simp add: row_at_def)

lemma row_at_eq: "mget cols n = Some r \<Longrightarrow> row_at cols n = r"
  by (simp add: row_at_def)

lemma rows_issued_unknown:
  "rows_issued cols \<Longrightarrow> c_issued (row_at cols n) = 0 \<longleftrightarrow> mget cols n = None"
  by (auto simp: rows_issued_def row_at_def blank_row_def split: option.splits dest: spec [of _ n])

lemma rows_issued_put: "rows_issued cols \<Longrightarrow> 0 < c_issued r \<Longrightarrow> rows_issued (mput n r cols)"
  by (simp add: rows_issued_def)

lemma issue_row_at:
  "issue_row cols decl n =
     (if int64_max < int (Suc (c_issued (row_at cols n))) then None
      else Some ((row_at cols n)\<lparr>c_issued := Suc (c_issued (row_at cols n)), c_declaration := Some decl\<rparr>))"
  by (auto simp: issue_row_def row_at_def blank_row_def fresh_row_def int64_max_def split: option.split)

text \<open>The loop over the names, without the order of its steps.\<close>

definition issued_row :: "string list \<Rightarrow> string \<Rightarrow> string \<Rightarrow> col_row \<Rightarrow> col_row" where
  "issued_row names decl n r =
     (if n \<in> set names then r\<lparr>c_issued := c_issued r + count_list names n, c_declaration := Some decl\<rparr>
      else r)"

definition overflows :: "string list \<Rightarrow> col_row gomap \<Rightarrow> bool" where
  "overflows names cols =
     list_ex (\<lambda>n. int64_max < int (c_issued (row_at cols n) + count_list names n)) names"

lemma overflows_Cons:
  "overflows (a # names) cols \<longleftrightarrow>
    int64_max < int (Suc (c_issued (row_at cols a))) \<or>
    overflows names (mput a ((row_at cols a)\<lparr>c_issued := Suc (c_issued (row_at cols a)),
      c_declaration := g\<rparr>) cols)"
  (is "_ \<longleftrightarrow> _ \<or> overflows names ?cols")
proof -
  have same: "c_issued (row_at cols x) + count_list (a # names) x =
    c_issued (row_at ?cols x) + count_list names x" for x by simp
  have "overflows (a # names) cols \<longleftrightarrow>
      int64_max < int (Suc (c_issued (row_at cols a) + count_list names a)) \<or> overflows names ?cols"
    unfolding overflows_def same by (simp add: add.assoc)
  moreover have "int64_max < int (Suc (c_issued (row_at cols a))) \<or> overflows names ?cols"
    if "int64_max < int (Suc (c_issued (row_at cols a) + count_list names a))"
  proof (cases "a \<in> set names")
    case True
    then show ?thesis using that by (auto simp: overflows_def list_ex_iff intro!: bexI [of _ a])
  next
    case False
    then show ?thesis using that by (simp add: count_notin)
  qed
  ultimately show ?thesis by auto
qed

lemma issue_loop_overflow: "issue_loop cols decl names issued = None \<longleftrightarrow> overflows names cols"
proof (induction names arbitrary: cols issued)
  case Nil
  show ?case by (simp add: overflows_def)
next
  case (Cons a names)
  show ?case
    by (simp add: issue_row_at overflows_Cons [where g = "Some decl"] Cons.IH)
qed

lemma issue_loop_rows:
  "issue_loop cols decl names issued = Some (cols', issued') \<Longrightarrow>
   row_at cols' n = issued_row names decl n (row_at cols n) \<and>
   mget issued' n = (if n \<in> set names then Some (c_issued (row_at cols' n)) else mget issued n) \<and>
   (rows_issued cols \<longrightarrow> rows_issued cols')"
proof (induction names arbitrary: cols issued)
  case (Cons a names)
  let ?r = "(row_at cols a)\<lparr>c_issued := Suc (c_issued (row_at cols a)), c_declaration := Some decl\<rparr>"
  have "issue_loop (mput a ?r cols) decl names (mput a (c_issued ?r) issued) = Some (cols', issued')"
    using Cons.prems by (simp add: issue_row_at split: if_splits)
  from Cons.IH [OF this] show ?case
    by (auto simp: issued_row_def rows_issued_put count_notin)
qed (simp add: issued_row_def)


lemma issue_refines:
  assumes "rows_issued (d_cols d)"
  shows "spec_issue names decl (authority_of d) = map_prod id authority_of (store_step L (Issue names decl) d)"
    and "rows_issued (d_cols (snd (issue_generations names decl d)))"
proof -
  have over: "list_ex (\<lambda>n. int64_max < int (au_issued (authority_of d) n + count_list names n)) names \<longleftrightarrow>
      overflows names (d_cols d)"
    by (simp add: overflows_def authority_of_def)
  have "spec_issue names decl (authority_of d) = map_prod id authority_of (store_step L (Issue names decl) d) \<and>
    rows_issued (d_cols (snd (issue_generations names decl d)))"
  proof (cases "issue_loop (d_cols d) decl names []")
    case None
    moreover from None have "overflows names (d_cols d)" by (simp add: issue_loop_overflow)
    ultimately show ?thesis using assms over by (simp add: spec_issue_def issue_generations_def)
  next
    case (Some p)
    then obtain cols' iss where l: "issue_loop (d_cols d) decl names [] = Some (cols', iss)" by (cases p) auto
    then have "\<not> overflows names (d_cols d)" using issue_loop_overflow [of "d_cols d" decl names "[]"] by simp
    moreover have "row_at cols' n = issued_row names decl n (row_at (d_cols d) n)"
      and "mget iss n = (if n \<in> set names then Some (c_issued (row_at cols' n)) else None)"
      and "rows_issued cols'" for n
      using issue_loop_rows [OF l, of n] assms by auto
    ultimately show ?thesis
      using over l
      by (auto simp: spec_issue_def Let_def issue_generations_def authority_of_def issued_row_def fun_eq_iff
          objects_in_scope_def decline_at_def count_notin)
  qed
  then show "spec_issue names decl (authority_of d) = map_prod id authority_of (store_step L (Issue names decl) d)"
    and "rows_issued (d_cols (snd (issue_generations names decl d)))" by auto
qed

lemma sobject_at_row [simp]: "sobject_at (obj_row_of c s n ob) = ob"
  by (simp add: sobject_at_def obj_row_of_def)

lemma applied_objects_at:
  "map sobject_at (objects_in_scope c' s' (applied_db L wall c s gen boot obs unobs r d)) =
   (if c' = c \<and> s' = s then obs else map sobject_at (objects_in_scope c' s' d))"
proof (cases "c' = c \<and> s' = s")
  case True
  have "map sobject_at (apply_rows c s obs) = obs"
    by (rule nth_equalityI) (simp_all add: apply_rows_nth)
  with True show ?thesis by (simp add: applied_objects)
next
  case False
  then show ?thesis by (auto simp: applied_other_objects)
qed

lemma authority_of_reject:
  "authority_of (add_rejection c b w d) = (authority_of d)\<lparr>au_audit := d_rejs d @
     [\<lparr>rj_collection = c, rj_batch = b, rj_reason = w\<rparr>]\<rparr>"
  by (simp add: authority_of_def add_rejection_def objects_in_scope_def)

lemma authority_of_applied:
  assumes "mget (d_cols d) c = Some r"
  shows "authority_of (applied_db L wall c scope gen boot obs unobs r d) =
    (let a = authority_of d in
     a\<lparr>au_applied := (au_applied a)(c := gen), au_hash := (au_hash a)(c := Some (hash_objects L obs)),
       au_objects := (au_objects a)(c := (au_objects a c)(scope := obs)),
       au_stale := (au_stale a)(c := False),
       au_decline := (au_decline a)(c := \<lparr>dv_reason = [], dv_detail = [], dv_at = []\<rparr>)\<rparr>)"
proof -
  have cols: "row_at (d_cols (applied_db L wall c scope gen boot obs unobs r d)) n =
      (if n = c then applied_row gen wall (hash_objects L obs) boot r else row_at (d_cols d) n)" for n
    by (simp add: applied_db_def)
  have rest: "d_decls (applied_db L wall c scope gen boot obs unobs r d) = d_decls d"
      "d_acks (applied_db L wall c scope gen boot obs unobs r d) = d_acks d"
      "d_rejs (applied_db L wall c scope gen boot obs unobs r d) = d_rejs d"
    by (simp_all add: applied_db_def)
  show ?thesis
    unfolding authority_of_def cols rest applied_objects_at Let_def
    by (auto simp: fun_eq_iff applied_row_def row_at_eq [OF assms] decline_at_def null_text_def)
qed

lemma commit_refines:
  assumes "rows_issued (d_cols d)"
  shows "spec_commit L wall c scope gen bat boot obs unobs (authority_of d) =
    map_prod id authority_of (store_step L (Commit wall c scope gen bat boot obs unobs) d)"
proof (cases "mget (d_cols d) c")
  case None
  then have "au_issued (authority_of d) c = 0"
    by (simp add: authority_of_def row_at_def blank_row_def)
  with None show ?thesis by (simp add: spec_commit_def apply_commit_cases)
next
  case (Some r)
  then have "0 < c_issued r" using assms rows_issued_unknown [OF assms, of c] by (simp add: row_at_eq)
  moreover have "au_issued (authority_of d) c = c_issued r" "au_applied (authority_of d) c = c_applied r"
      "au_hash (authority_of d) c = c_hash r" "au_audit (authority_of d) = d_rejs d"
    using Some by (simp_all add: authority_of_def row_at_eq)
  ultimately show ?thesis
    using Some authority_of_applied [OF Some]
    by (simp add: spec_commit_def Let_def apply_commit_cases authority_of_reject)
qed

lemma commit_issued:
  "rows_issued (d_cols d) \<Longrightarrow>
   rows_issued (d_cols (snd (apply_commit_with L wall c scope gen bat boot obs unobs d)))"
  by (auto simp: apply_commit_cases applied_db_def add_rejection_def applied_row_def rows_issued_unknown
      intro!: rows_issued_put dest: rows_issued_unknown [THEN iffD1] split: option.split)

lemma update_row_at:
  "row_at (d_cols (update_row c f d)) n =
   (if n = c \<and> mget (d_cols d) c \<noteq> None then f (row_at (d_cols d) c) else row_at (d_cols d) n)"
  by (auto simp: update_row_def row_at_def split: option.split)

lemma update_objects: "objects_in_scope c' s (update_row c f d) = objects_in_scope c' s d"
  by (simp add: objects_in_scope_def update_same)

lemma decline_refines:
  assumes "rows_issued (d_cols d)"
    and "\<And>r. c_issued (f r) = c_issued r \<and> c_applied (f r) = c_applied r \<and> c_hash (f r) = c_hash r \<and>
        c_declaration (f r) = c_declaration r \<and> decline_at (f r) = why \<and> c_stale (f r) = (stale \<or> c_stale r)"
  shows "spec_decline c why stale (authority_of d) = authority_of (update_row c f d)"
  using rows_issued_unknown [OF assms(1), of c] assms(2)
  by (auto simp: spec_decline_def authority_of_def update_row_at update_objects update_same fun_eq_iff)

lemma quiet_refines:
  assumes "\<And>r. c_issued (f r) = c_issued r \<and> c_applied (f r) = c_applied r \<and> c_hash (f r) = c_hash r \<and>
        c_declaration (f r) = c_declaration r \<and> decline_at (f r) = decline_at r \<and> c_stale (f r) = c_stale r"
  shows "authority_of (update_row c f d) = authority_of d"
  using assms by (auto simp: authority_of_def update_row_at update_objects update_same fun_eq_iff)

lemma authority_of_cong:
  "d_cols d' = d_cols d \<Longrightarrow> d_objs d' = d_objs d \<Longrightarrow> d_decls d' = d_decls d \<Longrightarrow> d_acks d' = d_acks d \<Longrightarrow>
   d_rejs d' = d_rejs d \<Longrightarrow> authority_of d' = authority_of d"
  by (simp add: authority_of_def objects_in_scope_def)


lemma update_issued:
  "(\<And>r. c_issued (f r) = c_issued r) \<Longrightarrow> rows_issued (d_cols d) \<Longrightarrow> rows_issued (d_cols (update_row c f d))"
  by (auto simp: update_row_def rows_issued_def split: option.splits)

lemma assertions_authority:
  "d_cols (snd (apply_assertions L c s asserts types res inv' d)) = d_cols d"
  "authority_of (snd (apply_assertions L c s asserts types res inv' d)) = authority_of d"
  by (auto simp: apply_assertions_def intro!: authority_of_cong split: sum.split option.split)

lemma snapshot_authority:
  "d_cols (snd (record_snapshot sn d)) = d_cols d"
  "authority_of (snd (record_snapshot sn d)) = authority_of d"
  by (auto simp: record_snapshot_def intro!: authority_of_cong split: option.split)

lemma upgrade_authority:
  "d_cols (snd (upgrade_unresolved res d)) = d_cols d"
  "authority_of (snd (upgrade_unresolved res d)) = authority_of d"
  by (auto simp: upgrade_db intro!: authority_of_cong)

lemma prune_authority:
  "d_cols (snd (prune_snapshots before d)) = d_cols d"
  "authority_of (snd (prune_snapshots before d)) = authority_of d"
  by (auto simp: prune_snapshots_def Let_def intro!: authority_of_cong)

lemma judge_refines:
  "spec_judge bat gens hash (authority_of d) = map_prod id authority_of (store_step L (Judge bat gens hash) d)"
proof -
  have "au_acks (authority_of d) bat = mget (d_acks d) bat" "au_audit (authority_of d) = d_rejs d"
    by (simp_all add: authority_of_def)
  then show ?thesis
    by (auto simp: spec_judge_def judge_acked_def authority_of_reject split: option.split)
qed

lemma ack_refines:
  "snd (spec_step L (Ack bat gens hash) (authority_of d)) = authority_of (record_ack bat gens hash d)"
  by (auto simp: record_ack_def authority_of_def objects_in_scope_def fun_eq_iff)

lemma declare_refines:
  "snd (spec_step L (Declare digest doc) (authority_of d)) = authority_of (record_declaration digest doc d)"
  by (auto simp: record_declaration_def authority_of_def objects_in_scope_def fun_eq_iff)

lemma declaration_refines: "spec_declaration c (authority_of d) = declaration_for c d"
  by (auto simp: spec_declaration_def declaration_for_def authority_of_def row_at_def blank_row_def
      null_text_def split: option.split)

lemma decline_read_refines: "au_decline (authority_of d) c = decline_for c d"
  by (auto simp: authority_of_def decline_at_def decline_for_def row_at_def blank_row_def fresh_row_def
      null_text_def split: option.split)

lemma holds_refines: "spec_holds c name (authority_of d) = holds_object c name d"
  by (auto simp: spec_holds_def holds_object_def authority_of_def objects_in_scope_def sobject_at_def image_iff)

interpretation store_refinement: refinement_mapping "store_step L" "spec_step L" authority_of
  "\<lambda>d. rows_issued (d_cols d)" for L
proof
  fix d :: db and x :: store_op
  assume ok: "rows_issued (d_cols d)"
  show "spec_step L x (authority_of d) = map_prod id authority_of (store_step L x d)"
  proof (cases x)
    case (MarkStale wall c why detail)
    then show ?thesis
      by (simp add: mark_stale_with_def)
         (rule decline_refines [OF ok], simp add: decline_at_def null_text_def)
  next
    case (MarkAbsent wall c detail)
    then show ?thesis
      by (simp add: record_absent_def)
         (rule decline_refines [OF ok], simp add: decline_at_def null_text_def)
  next
    case (Issue names decl)
    then show ?thesis using issue_refines(1) [OF ok] by simp
  next
    case (Commit wall c scope gen bat boot obs unobs)
    then show ?thesis using commit_refines [OF ok] by simp
  next
    case (Declare digest doc)
    then show ?thesis using declare_refines [of L digest doc d] by simp
  next
    case (Ack bat gens hash)
    then show ?thesis using ack_refines [of L bat gens hash d] by simp
  next
    case (Judge bat gens hash)
    then show ?thesis using judge_refines by simp
  next
    case (Reject c bat why)
    then show ?thesis by (simp add: authority_of_reject) (simp add: authority_of_def)
  next
    case (ReadScope c s)
    then show ?thesis by (simp add: authority_of_def)
  next
    case (ReadAcked b)
    then show ?thesis by (simp add: authority_of_def acked_def)
  qed (simp_all add: record_cost_def record_timens_skew_def quiet_refines decline_at_def assertions_authority
      upgrade_authority snapshot_authority prune_authority declaration_refines decline_read_refines holds_refines)
  show "rows_issued (d_cols (snd (store_step L x d)))"
  proof (cases x)
    case (Issue names decl)
    then show ?thesis using issue_refines(2) [OF ok, of names decl] by (auto split: prod.split sum.split)
  next
    case (Commit wall c scope gen bat boot obs unobs)
    then show ?thesis
      using commit_issued [OF ok, of L wall c scope gen bat boot obs unobs] by (auto split: prod.split sum.split)
  qed (use ok in \<open>simp_all add: mark_stale_with_def record_absent_def record_cost_def record_timens_skew_def
      update_issued assertions_authority upgrade_authority snapshot_authority prune_authority
      record_declaration_def add_rejection_def judge_acked_def record_ack_def split: prod.split option.split\<close>)
qed

section \<open>Property\<close>

text \<open>
  Property C4. The store is the authority it promises to be. Any sequence of its operations,
  issuing, committing, declining, acknowledging, reading and the rest, in any order and with any
  arguments, gives from an empty database the replies that the abstract authority gives, in which
  issuing is one indivisible step, a commit takes effect exactly when its generation was issued
  and is above the applied one, and edges and past readings have no part; and the database it
  leaves stands for the state the authority is in.
\<close>

theorem store_refines_authority:
  "replies (spec_step L) ops no_authority = map_prod id authority_of (replies (store_step L) ops empty_db)"
proof -
  have "no_authority = authority_of empty_db"
    by (simp add: no_authority_def authority_of_def empty_db_def row_at_def blank_row_def fresh_row_def
        decline_at_def null_text_def objects_in_scope_def fun_eq_iff)
  moreover have "rows_issued (d_cols empty_db)"
    by (simp add: rows_issued_def empty_db_def)
  ultimately show ?thesis using store_refinement.replies_refine [of empty_db L ops] by simp
qed

end
