(* ===== verification/Collector.thy ===== *)
theory Collector
  imports JsonText Client Store
begin

text \<open>
  A collector, from its request line to its last byte: se-collect-unbound, the one whose whole
  work is in its own sources. The request line (main.go), the derivation of the daemon's row
  from the two documents of the resolver (daemon.go, facts.go), the stream it answers a collect
  with (collect.go), the two reverse verbs (verbs.go), and its live and its replayed source
  (source.go). The operating system is the record \<open>source\<close>: what a reading of the resolver
  gave, the clock, the boot id, the minted batch id. What goes to standard error is not
  modelled, and standard output takes what is written.
\<close>

section \<open>Standard library\<close>

record golib = lib +
  fmt_g :: "f64 \<Rightarrow> string"

text \<open>\<open>strings.Fields\<close>.\<close>

function fields_from :: "string \<Rightarrow> string \<Rightarrow> string list" where
  "fields_from word [] = (if word = [] then [] else [word])"
| "fields_from word (c # s) =
     (case find (\<lambda>p. is_prefix p (c # s)) space_seqs of
        Some p \<Rightarrow> (if word = [] then [] else [word]) @ fields_from [] (drop (length p - 1) s)
      | None \<Rightarrow> fields_from (word @ [c]) s)"
  by pat_completeness auto
termination
  by (relation "measure (\<lambda>(word, s). length s)") auto

definition go_fields :: "string \<Rightarrow> string list" where
  "go_fields s = fields_from [] s"

definition cut_last :: "char \<Rightarrow> string \<Rightarrow> (string \<times> string) option" where
  "cut_last c s = map_option (\<lambda>(a, b). (rev b, rev a)) (cut_at c (rev s))"

text \<open>\<open>strconv.ParseUint(s, 10, 64)\<close>.\<close>

definition parse_uint64 :: "string \<Rightarrow> nat option" where
  "parse_uint64 s =
     (if s = [] \<or> \<not> list_all is_digit s \<or> 2 ^ 64 \<le> dec_val s then None else Some (dec_val s))"

text \<open>
  \<open>strconv.ParseFloat(s, 64)\<close>: a decimal or a hexadecimal literal with underscores between
  digits, rounded to the nearest value. An error, an infinity and a NaN are all \<open>None\<close>, as the
  one caller treats them.
\<close>

definition hex_letter :: "char \<Rightarrow> bool" where
  "hex_letter c = (97 \<le> byte (lower_char c) \<and> byte (lower_char c) \<le> 102)"

fun mantissa :: "bool \<Rightarrow> bool \<Rightarrow> string \<Rightarrow> string \<times> nat \<times> string" where
  "mantissa hex dot [] = ([], 0, [])"
| "mantissa hex dot (c # s) =
     (if c = CHR ''_'' then mantissa hex dot s
      else if c = CHR ''.'' then (if dot then ([], 0, c # s) else mantissa hex True s)
      else if is_digit c \<or> hex \<and> hex_letter c then
        (case mantissa hex dot s of (ds, n, r) \<Rightarrow> (c # ds, if dot then Suc n else n, r))
      else ([], 0, c # s))"

definition hex_digits_val :: "string \<Rightarrow> nat" where
  "hex_digits_val s = fold (\<lambda>c n. 16 * n + the (hex_val c)) s 0"

text \<open>The exponent: its value, or nothing where it is malformed or something follows it.\<close>

definition float_exponent :: "bool \<Rightarrow> string \<Rightarrow> int option" where
  "float_exponent hex s = (case s of
       [] \<Rightarrow> if hex then None else Some 0
     | c # t \<Rightarrow>
         if lower_char c \<noteq> (if hex then CHR ''p'' else CHR ''e'') then None
         else (let neg = (t \<noteq> [] \<and> hd t = CHR ''-'');
                   u = (if t \<noteq> [] \<and> (hd t = CHR ''-'' \<or> hd t = CHR ''+'') then tl t else t);
                   e = fold (\<lambda>c e. if c = CHR ''_'' then e else if e < 10000 then e * 10 + digit_val c else e) u 0
               in if u = [] \<or> \<not> is_digit (hd u) \<or> \<not> list_all (\<lambda>c. is_digit c \<or> c = CHR ''_'') u then None
                  else Some (if neg then - int e else int e)))"

definition drop_sign :: "string \<Rightarrow> string" where
  "drop_sign s = (if s \<noteq> [] \<and> (hd s = CHR ''-'' \<or> hd s = CHR ''+'') then tl s else s)"

text \<open>\<open>underscoreOK\<close>: the state is the kind of the last byte, a digit, an underscore or another.\<close>

fun underscores_from :: "bool \<Rightarrow> char \<Rightarrow> string \<Rightarrow> bool" where
  "underscores_from hex i [] = (i \<noteq> CHR ''_'')"
| "underscores_from hex i (c # s) =
     (if is_digit c \<or> hex \<and> hex_letter c then underscores_from hex CHR ''0'' s
      else if c = CHR ''_'' then i = CHR ''0'' \<and> underscores_from hex CHR ''_'' s
      else i \<noteq> CHR ''_'' \<and> underscores_from hex CHR ''!'' s)"

definition underscores_ok :: "string \<Rightarrow> bool" where
  "underscores_ok s =
     (case drop_sign s of
        a # b # t \<Rightarrow>
          if a = CHR ''0'' \<and> lower_char b \<in> {CHR ''b'', CHR ''o'', CHR ''x''}
          then underscores_from (lower_char b = CHR ''x'') CHR ''0'' t
          else underscores_from False CHR ''!'' (a # b # t)
      | t \<Rightarrow> underscores_from False CHR ''!'' t)"

definition go_parse_float :: "string \<Rightarrow> f64 option" where
  "go_parse_float s =
     (let neg = (s \<noteq> [] \<and> hd s = CHR ''-'');
          body = drop_sign s;
          hex = (2 < length body \<and> hd body = CHR ''0'' \<and> lower_char (body ! 1) = CHR ''x'');
          (ds, n, r) = mantissa hex False (if hex then drop 2 body else body);
          m = int (if hex then hex_digits_val ds else dec_val ds)
      in if ds = [] then None
         else case float_exponent hex r of
           None \<Rightarrow> None
         | Some e \<Rightarrow>
             if CHR ''_'' \<in> set s \<and> \<not> underscores_ok s then None
             else (let b = (if hex then 2 else 10); x = e - (if hex then 4 else 1) * int n;
                       v = (if 0 \<le> x then round64 (m * b ^ nat x) 1 else round64 m (b ^ nat (- x)))
                   in map_option (\<lambda>v. if neg then (if v = 0 then NegZero else Fin (- v)) else Fin v) v))"

section \<open>The request line (main.go)\<close>

datatype exit_status = ExitOK | ExitRuntime | ExitRequest

definition request_bound :: nat where
  "request_bound = 64 * 1024"

text \<open>One line, its newline included, of at most the bound.\<close>

definition request_line :: "string \<Rightarrow> string option" where
  "request_line stdin =
     (let seen = take (request_bound + 1) stdin;
          line = takeWhile (\<lambda>c. c \<noteq> CHR 0x0A) seen @ (if CHR 0x0A \<in> set seen then [CHR 0x0A] else [])
      in if request_bound < length line then None else Some line)"

fun parse_tokens :: "string list \<Rightarrow> string list \<Rightarrow> nat gomap \<Rightarrow> (string list \<times> nat gomap) option" where
  "parse_tokens [] order generations = Some (order, generations)"
| "parse_tokens (token # tokens) order generations =
     (case cut_last CHR '':'' token of
        None \<Rightarrow> None
      | Some (name, digits) \<Rightarrow>
          if name = [] \<or> digits = [] then None
          else case parse_uint64 digits of
            None \<Rightarrow> None
          | Some generation \<Rightarrow>
              if \<not> collection_name name then None
              else if mget generations name \<noteq> None then None
              else parse_tokens tokens (order @ [name]) (mput name generation generations))"

definition parse_collect :: "string list \<Rightarrow> (string list \<times> nat gomap) option" where
  "parse_collect tokens = (if tokens = [] then None else parse_tokens tokens [] [])"

section \<open>The facts of a row (facts.go)\<close>

text \<open>The names in the order they were first given, each with the token it travels as.\<close>

type_synonym fact_row = "(string \<times> string) list"

fun set_fact :: "string \<Rightarrow> string \<Rightarrow> fact_row \<Rightarrow> fact_row" where
  "set_fact name token [] = [(name, token)]"
| "set_fact name token ((k, t) # row) =
     (if k = name then (k, token) # row else (k, t) # set_fact name token row)"

definition literal_byte :: "char \<Rightarrow> string" where
  "literal_byte c =
     (if c = CHR 0x22 then [CHR 0x5C, CHR 0x22]
      else if c = CHR 0x5C then [CHR 0x5C, CHR 0x5C]
      else if c = CHR 0x0A then [CHR 0x5C, CHR ''n'']
      else if c = CHR 0x0D then [CHR 0x5C, CHR ''r'']
      else if c = CHR 0x09 then [CHR 0x5C, CHR ''t'']
      else if byte c < 32 then
        [CHR 0x5C, CHR ''u'', CHR ''0'', CHR ''0'', hex_digit (byte c div 16), hex_digit (byte c mod 16)]
      else [c])"

definition literal_chars :: "string \<Rightarrow> string" where
  "literal_chars s = concat (map literal_byte s)"

definition json_literal :: "string \<Rightarrow> string" where
  "json_literal s = CHR 0x22 # literal_chars s @ [CHR 0x22]"

definition row_text :: "fact_row \<Rightarrow> string" where
  "row_text row = object_text (map (\<lambda>(k, t). (literal_chars k, t)) row)"

section \<open>The daemon's row (daemon.go)\<close>

definition counters :: "string gomap" where
  "counters = mof
     [(''total.num.queries'', ''NumQueries''), (''total.num.cachehits'', ''CacheHits''),
      (''total.num.cachemiss'', ''CacheMiss''), (''total.num.prefetch'', ''Prefetches''),
      (''total.requestlist.current.all'', ''RequestListCurrent''),
      (''total.recursion.time.avg'', ''RecursionTimeAvgSeconds'')]"

definition integer_token :: "string \<Rightarrow> bool" where
  "integer_token s = (drop_sign s \<noteq> [] \<and> list_all is_digit (drop_sign s))"

definition big_int :: "string \<Rightarrow> int" where
  "big_int s = (if s \<noteq> [] \<and> hd s = CHR ''-'' then - int (dec_val (drop_sign s)) else int (dec_val (drop_sign s)))"

definition number_token :: "golib \<Rightarrow> string \<Rightarrow> string option" where
  "number_token L s =
     (if integer_token s then Some (int_str (big_int s))
      else case go_parse_float s of
        None \<Rightarrow> None
      | Some value \<Rightarrow> if json_number s then Some s else Some (fmt_g L value))"

definition is_ascii_digits :: "string \<Rightarrow> bool" where
  "is_ascii_digits s = (s \<noteq> [] \<and> list_all is_digit s)"

definition status_line :: "golib \<Rightarrow> string \<Rightarrow> fact_row \<Rightarrow> fact_row" where
  "status_line L line row =
     (let (k, v) = (case cut_at CHR '':'' line of Some kv \<Rightarrow> kv | None \<Rightarrow> (line, []));
          key = trim_space k; val = trim_space v
      in if key = ''version'' \<and> val \<noteq> [] then set_fact ''Version'' (json_literal val) row
         else if key = ''uptime'' then
           (case go_fields val of
              [] \<Rightarrow> row
            | f # _ \<Rightarrow>
                if is_ascii_digits f then
                  (case number_token L f of None \<Rightarrow> row | Some token \<Rightarrow> set_fact ''Uptime'' token row)
                else row)
         else row)"

definition parse_status :: "golib \<Rightarrow> string \<Rightarrow> fact_row \<Rightarrow> fact_row" where
  "parse_status L text row = fold (status_line L) (split_on CHR 0x0A text) row"

definition stats_line :: "golib \<Rightarrow> string \<Rightarrow> fact_row \<Rightarrow> fact_row" where
  "stats_line L line row =
     (case cut_at CHR ''='' line of
        None \<Rightarrow> row
      | Some (k, v) \<Rightarrow>
          (case mget counters (trim_space k) of
             None \<Rightarrow> row
           | Some label \<Rightarrow>
               (case number_token L (trim_space v) of
                  None \<Rightarrow> row
                | Some token \<Rightarrow> set_fact label token row)))"

definition parse_stats :: "golib \<Rightarrow> string \<Rightarrow> fact_row \<Rightarrow> fact_row" where
  "parse_stats L text row = fold (stats_line L) (split_on CHR 0x0A text) row"

definition daemon_row :: "golib \<Rightarrow> string \<Rightarrow> string \<Rightarrow> fact_row" where
  "daemon_row L status stats = parse_stats L stats (parse_status L status [])"

section \<open>The acquisition seam (source.go)\<close>

text \<open>What a reading of the resolver gave: both documents, a decline, or no answer at all.\<close>

datatype acquisition = Got string string | Declined string string | NotRun

record source =
  sr_boot :: "string option"
  sr_timens :: int
  sr_batch :: "string option"
  sr_document :: string
  sr_daemon :: acquisition
  sr_stamp :: "nat \<Rightarrow> f64"
  sr_costs :: "f64 \<times> f64"

definition declaration_digest :: "golib \<Rightarrow> source \<Rightarrow> string" where
  "declaration_digest L src = ''sha256:'' @ sha256 L (sr_document src)"

definition decline_no_socket :: acquisition where
  "decline_no_socket = Declined ''unavailable'' ''no unbound control socket configured for this process''"

definition decline_socket_refused :: acquisition where
  "decline_socket_refused = Declined ''unauthorised''
     ''the unbound control socket exists and this collector may not open it; the deployment grants the socket's group (the NixOS module's grantUnboundAccess supplies that membership)''"

definition decline_socket_silent :: acquisition where
  "decline_socket_silent = Declined ''unavailable''
     ''the unbound control socket exists and did not answer the status command''"

text \<open>One connection: it fails, in one of the ways told apart, or answers bytes until it is closed.\<close>

datatype connection = NoSuchFile | NoPermission | Broken | Answers string

definition reply_bound :: nat where
  "reply_bound = 2 ^ 20"

definition control_command :: "connection \<Rightarrow> acquisition + string" where
  "control_command conn = (case conn of
       NoSuchFile \<Rightarrow> Inl decline_no_socket
     | NoPermission \<Rightarrow> Inl decline_socket_refused
     | Broken \<Rightarrow> Inl decline_socket_silent
     | Answers text \<Rightarrow>
         if reply_bound < length text then Inl NotRun
         else if is_prefix ''error'' text then Inl decline_socket_silent
         else Inr text)"

text \<open>\<open>connect\<close> is the connection that a command line gets; the clock may not be readable.\<close>

definition live_daemon :: "string \<Rightarrow> f64 option \<Rightarrow> (string \<Rightarrow> connection) \<Rightarrow> acquisition" where
  "live_daemon socket clock connect =
     (if socket = [] then decline_no_socket
      else if clock = None then NotRun
      else case control_command (connect (''UBCT1 status'' @ newline)) of
        Inl bad \<Rightarrow> bad
      | Inr status \<Rightarrow>
          (case control_command (connect (''UBCT1 stats_noreset'' @ newline)) of
             Inl bad \<Rightarrow> bad
           | Inr stats \<Rightarrow> Got status stats))"

definition live_source ::
  "string \<Rightarrow> f64 option \<Rightarrow> (string \<Rightarrow> connection) \<Rightarrow> string option \<Rightarrow> string option \<Rightarrow> int
   \<Rightarrow> string \<Rightarrow> f64 \<times> f64 \<Rightarrow> source"
where
  "live_source socket clock connect boot_file minted timens document costs =
     \<lparr>sr_boot = map_option trim_space boot_file, sr_timens = timens, sr_batch = minted,
      sr_document = document, sr_daemon = live_daemon socket clock connect,
      sr_stamp = (\<lambda>_. case clock of Some stamp \<Rightarrow> stamp | None \<Rightarrow> Fin 0), sr_costs = costs\<rparr>"

text \<open>A file of the replay directory.\<close>

datatype replay_file = Missing | Unreadable | Holds string

definition replay_daemon :: "(string \<Rightarrow> replay_file) \<Rightarrow> acquisition" where
  "replay_daemon dir =
     (case (dir ''status.txt'', dir ''stats_noreset.txt'') of
        (Missing, Missing) \<Rightarrow> decline_no_socket
      | (Holds status, Holds stats) \<Rightarrow> Got status stats
      | _ \<Rightarrow> NotRun)"

definition replay_boot :: "(string \<Rightarrow> replay_file) \<Rightarrow> string option" where
  "replay_boot dir = (case dir ''boot_id'' of
       Missing \<Rightarrow> Some ''5e000000-0000-4000-8000-000000000001''
     | Unreadable \<Rightarrow> None
     | Holds raw \<Rightarrow> Some (trim_space raw))"

text \<open>
  \<open>float64(int64((1.0+0.001*float64(i))*1000+0.5)) / 1000\<close>: each operation rounds, the
  conversion truncates.
\<close>

definition f64_near0 :: "rat \<Rightarrow> rat" where
  "f64_near0 q = (case f64_round q of Some v \<Rightarrow> v | None \<Rightarrow> 0)"

definition replay_stamp :: "nat \<Rightarrow> f64" where
  "replay_stamp i =
     (let thousandth = f64_near0 (1 / 1000);
          sum = f64_near0 (1 + f64_near0 (thousandth * of_nat i));
          scaled = f64_near0 (f64_near0 (sum * 1000) + 1 / 2)
      in Fin (f64_near0 (of_int \<lfloor>scaled\<rfloor> / 1000)))"

definition replay_source :: "(string \<Rightarrow> replay_file) \<Rightarrow> string \<Rightarrow> source" where
  "replay_source dir document =
     \<lparr>sr_boot = replay_boot dir, sr_timens = 0, sr_batch = Some ''replay'', sr_document = document,
      sr_daemon = replay_daemon dir, sr_stamp = replay_stamp, sr_costs = (Fin (1 / 2), Fin 1)\<rparr>"

section \<open>The stream (collect.go)\<close>

text \<open>
  \<open>json.Encoder\<close> on a raw message: what is not JSON is an error, and the white space
  outside strings is left out.
\<close>

fun compact_out :: "string \<Rightarrow> string" and compact_in :: "string \<Rightarrow> string" where
  "compact_out [] = []"
| "compact_out (c # s) =
     (if c = CHR 0x22 then c # compact_in s
      else if is_ws c then compact_out s else c # compact_out s)"
| "compact_in [] = []"
| "compact_in (c # s) =
     (if c = CHR 0x5C then (case s of [] \<Rightarrow> [c] | d # s' \<Rightarrow> c # d # compact_in s')
      else if c = CHR 0x22 then c # compact_out s
      else c # compact_in s)"

definition raw_message :: "string \<Rightarrow> string option" where
  "raw_message t = (if json_unmarshal t = None then None else Some (compact_out t))"

record emitter =
  em_out :: string
  em_err :: bool

definition emit :: "string option \<Rightarrow> emitter \<Rightarrow> emitter" where
  "emit text e =
     (if em_err e then e
      else case text of
        None \<Rightarrow> e\<lparr>em_err := True\<rparr>
      | Some t \<Rightarrow> e\<lparr>em_out := em_out e @ t @ newline\<rparr>)"

definition begin_record :: "golib \<Rightarrow> source \<Rightarrow> string \<Rightarrow> string \<Rightarrow> nat gomap \<Rightarrow> string option" where
  "begin_record L src boot bat generations =
     Some (object_text
       [(''record'', plain_str ''begin''), (''request'', plain_str bat), (''batch'', plain_str bat),
        (''declaration'', plain_str (declaration_digest L src)), (''boot_id'', plain_str boot),
        (''timens'', int_str (sr_timens src)), (''instance'', ''null''),
        (''generations'', object_text (map (\<lambda>(k, g). (plain_chars k, nat_str g)) generations))])"

definition object_record :: "golib \<Rightarrow> string \<Rightarrow> string \<Rightarrow> string \<Rightarrow> string \<Rightarrow> f64 \<Rightarrow> string option" where
  "object_record L collection name ty facts stamp =
     map_option (\<lambda>raw. object_text
       ([(''record'', plain_str ''object''), (''collection'', plain_str collection),
         (''name'', plain_str name)] @
        (if ty = [] then [] else [(''type'', plain_str ty)]) @
        [(''facts'', raw), (''at'', fmt_float L stamp)])) (raw_message facts)"

definition decline_record :: "string \<Rightarrow> string \<Rightarrow> string \<Rightarrow> string option" where
  "decline_record collection why detail =
     Some (object_text
       [(''record'', plain_str ''decline''), (''collection'', plain_str collection),
        (''reason'', plain_str why), (''detail'', plain_str detail)])"

definition commit_record :: "string \<Rightarrow> nat \<Rightarrow> nat \<Rightarrow> string option" where
  "commit_record collection generation objects =
     Some (object_text
       [(''record'', plain_str ''commit''), (''collection'', plain_str collection),
        (''generation'', nat_str generation), (''objects'', nat_str objects),
        (''assertions'', nat_str 0), (''unobservable'', nat_str 0)])"

definition end_record :: "golib \<Rightarrow> string \<Rightarrow> f64 \<times> f64 \<Rightarrow> string option" where
  "end_record L bat costs =
     Some (object_text
       [(''record'', plain_str ''end''), (''request'', plain_str bat), (''batch'', plain_str bat),
        (''cpu_ms'', fmt_float L (fst costs)), (''wall_ms'', fmt_float L (snd costs))])"

text \<open>One collection: \<open>None\<close> is the failure that ends the run.\<close>

definition collect_daemon ::
  "golib \<Rightarrow> source \<Rightarrow> string \<Rightarrow> nat \<Rightarrow> emitter \<times> nat \<Rightarrow> (emitter \<times> nat) option"
where
  "collect_daemon L src collection generation = (\<lambda>(out, objects).
     case sr_daemon src of
       Declined why detail \<Rightarrow>
         (let out1 = emit (decline_record collection why detail) out
          in Some (if why = ''absent'' then emit (commit_record collection generation 0) out1 else out1, objects))
     | NotRun \<Rightarrow> None
     | Got status stats \<Rightarrow>
         (let out1 = emit (object_record L collection ''unbound'' ''unbound-daemon''
                             (row_text (daemon_row L status stats)) (sr_stamp src objects)) out
          in Some (emit (commit_record collection generation 1) out1, Suc objects)))"

fun collect_each ::
  "golib \<Rightarrow> source \<Rightarrow> nat gomap \<Rightarrow> string list \<Rightarrow> emitter \<times> nat \<Rightarrow> exit_status \<times> emitter"
where
  "collect_each L src generations [] st = (ExitOK, fst st)"
| "collect_each L src generations (collection # order) st =
     (if collection \<noteq> ''daemon'' then
        collect_each L src generations order
          (emit (decline_record collection ''unsupported'' ''this collector serves daemon only'') (fst st), snd st)
      else
        (case collect_daemon L src collection
                (case mget generations collection of Some g \<Rightarrow> g | None \<Rightarrow> 0) st of
           None \<Rightarrow> (ExitRuntime, fst st)
         | Some st' \<Rightarrow> collect_each L src generations order st'))"

definition collect_run ::
  "golib \<Rightarrow> source \<Rightarrow> string list \<Rightarrow> nat gomap \<Rightarrow> exit_status \<times> string"
where
  "collect_run L src order generations =
     (case sr_boot src of None \<Rightarrow> (ExitRuntime, []) | Some boot \<Rightarrow>
     (case sr_batch src of None \<Rightarrow> (ExitRuntime, []) | Some bat \<Rightarrow>
     (case collect_each L src generations order
             (emit (begin_record L src boot bat generations) \<lparr>em_out = [], em_err = False\<rparr>, 0) of
        (ExitOK, out) \<Rightarrow>
          (let out1 = emit (end_record L bat (sr_costs src)) out
           in (if em_err out1 then ExitRuntime else ExitOK, em_out out1))
      | (code, out) \<Rightarrow> (code, em_out out))))"

section \<open>The reverse verbs (verbs.go)\<close>

definition evidence_verb_bytes :: nat where
  "evidence_verb_bytes = 1048576"

definition verb_end_record :: "string \<Rightarrow> bool \<Rightarrow> string option" where
  "verb_end_record verb truncated =
     Some (object_text [(''record'', plain_str ''verb_end''), (''verb'', plain_str verb),
       (''truncated'', if truncated then ''true'' else ''false'')])"

definition verb_exit :: "emitter \<Rightarrow> exit_status \<times> string" where
  "verb_exit out = (if em_err out then ExitRuntime else ExitOK, em_out out)"

definition verb_decline :: "emitter \<Rightarrow> string \<Rightarrow> string \<Rightarrow> string \<Rightarrow> string \<Rightarrow> exit_status \<times> string" where
  "verb_decline out verb collection why detail =
     verb_exit (emit (verb_end_record verb False) (emit (decline_record collection why detail) out))"

definition empty_emitter :: emitter where
  "empty_emitter = \<lparr>em_out = [], em_err = False\<rparr>"

text \<open>The gate both verbs pass: the collection, the reading, the name.\<close>

definition verb_reading ::
  "source \<Rightarrow> string \<Rightarrow> string \<Rightarrow> string \<Rightarrow> exit_status \<times> string + string \<times> string"
where
  "verb_reading src verb collection name =
     (if collection \<noteq> ''daemon'' then
        Inl (verb_decline empty_emitter verb collection ''unsupported'' ''this collector serves daemon only'')
      else case sr_daemon src of
        Declined why detail \<Rightarrow> Inl (verb_decline empty_emitter verb ''daemon'' why detail)
      | NotRun \<Rightarrow> Inl (ExitRuntime, [])
      | Got status stats \<Rightarrow>
          if name \<noteq> ''unbound'' then
            Inl (verb_decline empty_emitter verb collection ''unavailable''
                   ''this collector publishes no object of that name in this collection'')
          else Inr (status, stats))"

definition serve_object :: "golib \<Rightarrow> source \<Rightarrow> string \<Rightarrow> string \<Rightarrow> exit_status \<times> string" where
  "serve_object L src collection name =
     (case verb_reading src ''object'' collection name of
        Inl answer \<Rightarrow> answer
      | Inr (status, stats) \<Rightarrow>
          verb_exit (emit (verb_end_record ''object'' False)
            (emit (object_record L collection ''unbound'' ''unbound-daemon''
                     (row_text (daemon_row L status stats)) (sr_stamp src 0)) empty_emitter)))"

definition evidence_document_record :: "golib \<Rightarrow> string \<Rightarrow> bool \<Rightarrow> string option" where
  "evidence_document_record L canonical truncated =
     Some (object_text
       [(''record'', plain_str ''evidence_document''), (''media_type'', plain_str ''application/json''),
        (''digest'', plain_str (''sha256:'' @ sha256 L canonical)), (''canon'', plain_str ''jcs/1''),
        (''bytes'', nat_str (length canonical)),
        (''truncated'', if truncated then ''true'' else ''false'')])"

definition serve_evidence :: "golib \<Rightarrow> source \<Rightarrow> string \<Rightarrow> string \<Rightarrow> exit_status \<times> string" where
  "serve_evidence L src collection name =
     (case verb_reading src ''evidence'' collection name of
        Inl answer \<Rightarrow> answer
      | Inr (status, stats) \<Rightarrow>
          (let whole = json_enc (JObj [(''stats_noreset'', JStr stats), (''status'', JStr status)]);
               truncated = evidence_verb_bytes < length whole;
               canonical = (if truncated then take evidence_verb_bytes whole else whole);
               out = emit (evidence_document_record L canonical truncated) empty_emitter;
               out1 = (if em_err out then out else out\<lparr>em_out := em_out out @ canonical @ newline\<rparr>)
           in verb_exit (emit (verb_end_record ''evidence'' truncated) out1)))"

definition probe :: "source \<Rightarrow> string" where
  "probe src =
     (let (verdict, why) = (case sr_daemon src of
            Got status stats \<Rightarrow> (''yes'', ''the unbound control socket answers'')
          | Declined why detail \<Rightarrow> (''no'', detail)
          | NotRun \<Rightarrow> (''no'', ''the control socket could not be read''))
      in object_text [(''verdict'', plain_str verdict), (''reason'', plain_str why)] @ newline)"

section \<open>A run (main.go)\<close>

definition collector_run :: "golib \<Rightarrow> source \<Rightarrow> string \<Rightarrow> exit_status \<times> string" where
  "collector_run L src stdin =
     (case request_line stdin of
        None \<Rightarrow> (ExitRequest, [])
      | Some line \<Rightarrow>
          (case go_fields line of
             [] \<Rightarrow> (ExitRequest, [])
           | verb # args \<Rightarrow>
               if verb = ''declare'' then
                 (if args \<noteq> [] then (ExitRequest, []) else (ExitOK, sr_document src))
               else if verb = ''probe'' then
                 (if args \<noteq> [] then (ExitRequest, []) else (ExitOK, probe src))
               else if verb = ''collect'' then
                 (case parse_collect args of
                    None \<Rightarrow> (ExitRequest, [])
                  | Some (order, generations) \<Rightarrow> collect_run L src order generations)
               else if verb = ''object'' \<or> verb = ''evidence'' then
                 (case args of
                    [collection, token] \<Rightarrow>
                      if verb = ''object'' then serve_object L src collection (decode_name_token token)
                      else serve_evidence L src collection (decode_name_token token)
                  | _ \<Rightarrow> (ExitRequest, []))
               else (ExitRequest, [])))"

end
