(* ===== verification/DaemonRow.thy ===== *)
theory DaemonRow
  imports Collector
begin

text \<open>
  The row the resolver's collector derives: every token it writes is JSON on one line, each fact
  has the shape its declaration gives it, and a counter is the last record of its own name.
\<close>

section \<open>What the collector writes is JSON\<close>

lemma ascii_valid: "list_all (\<lambda>c. byte c < 128) s \<Longrightarrow> valid_utf8 s"
  by (induction s) (simp_all add: valid_utf8.simps)

lemma literal_high: "takeWhile high (literal_chars s @ CHR 0x22 # r) = takeWhile high s"
  by (induction s) (auto simp: literal_chars_def literal_byte_def)

lemma literal_chars_append: "literal_chars (s @ t) = literal_chars s @ literal_chars t"
  by (simp add: literal_chars_def)

lemma literal_of_high: "\<forall>x \<in> set s. high x \<Longrightarrow> literal_chars s = s"
  by (induction s) (auto simp: literal_chars_def literal_byte_def)

lemma literal_byte_ascii: "spelled t s \<Longrightarrow> byte c < 128 \<Longrightarrow> spelled (literal_byte c @ t) (c # s)"
proof -
  assume t: "spelled t s" and c: "byte c < 128"
  have control: "spelled (CHR 0x5C # CHR ''u'' # CHR ''0'' # CHR ''0'' # hex_digit (byte c div 16) #
      hex_digit (byte c mod 16) # t) (c # s)"
    using spelled_escape [OF t, of "CHR ''u'' # CHR ''0'' # CHR ''0'' #
        [hex_digit (byte c div 16), hex_digit (byte c mod 16)]" "[c]"] c
    by (simp add: escape_control)
  define S where "S = {CHR 0x22, CHR 0x5C, CHR 0x0A, CHR 0x0D, CHR 0x09}"
  show ?thesis
  proof (cases "c \<in> S")
    case True
    then have "\<exists>x. literal_byte c = [CHR 0x5C, x] \<and> (\<forall>r. json_escape (x # r) = Some ([c], 1))"
      unfolding S_def by (elim insertE) (simp_all add: literal_byte_def escape_short)
    then show ?thesis using spelled_short [OF t] by auto
  next
    case False
    then show ?thesis
      using control spelled_plain [OF t, of c] c by (simp add: literal_byte_def S_def)
  qed
qed

lemma literal_spelled: "spelled (literal_chars s) (utf8_fix s)"
proof (induction s rule: utf8_fix.induct)
  case 1
  show ?case by (simp add: literal_chars_def utf8_fix.simps spelled_Nil)
next
  case (2 c s)
  have Cons: "literal_chars (c # s) = literal_byte c @ literal_chars s" by (simp add: literal_chars_def)
  show ?case
  proof (cases "byte c < 128")
    case True
    then show ?thesis using 2(2) [OF refl] by (simp add: Cons utf8_fix_ascii literal_byte_ascii)
  next
    case c: False
    then have lit: "literal_byte c = [c]" by (auto simp: literal_byte_def)
    show ?thesis
    proof (cases "utf8_len (c # s)")
      case 0
      have "\<forall>r. utf8_len (c # literal_chars s @ CHR 0x22 # r) = 0"
        using utf8_len_high [OF literal_high, of c s] 0 by simp
      then show ?thesis
        using 2(1) [OF refl 0] spelled_stray [of "literal_chars s" "utf8_fix s" c] c 0 Cons lit
        by (simp add: utf8_fix.simps)
    next
      case (Suc k)
      have "literal_chars (take k s) = take k s"
        using utf8_len_tail_high [OF _ Suc] c by (intro literal_of_high) auto
      then have "literal_chars s = take k s @ literal_chars (drop k s)"
        by (metis append_take_drop_id literal_chars_append)
      moreover have "utf8_len (c # take k s) = Suc (length (take k s))"
        using utf8_len_multi [of c s] Suc by simp
      moreover have "spelled (literal_chars (drop k s)) (utf8_fix (drop k s))"
        using 2(2) [OF refl] Suc by simp
      ultimately show ?thesis
        using spelled_multi [of "literal_chars (drop k s)" "utf8_fix (drop k s)" c "take k s"] c Suc Cons lit
        by (simp add: utf8_fix.simps)
    qed
  qed
qed

lemma literal_printable: "printable (literal_chars s)"
proof -
  have "printable (literal_byte c)" for c
    using of_char_mod_256 [of c, where 'a = nat] by (auto simp: literal_byte_def hex_digit_def)
  then show ?thesis by (induction s) (auto simp: literal_chars_def)
qed

text \<open>Compacting leaves a text as it is when the text has no white space outside its strings.\<close>

definition compacted :: "string \<Rightarrow> bool" where
  "compacted t = (\<forall>r. compact_out (t @ r) = t @ compact_out r)"

lemma hex_digit_plain:
  assumes "n < 16"
  shows "hex_digit n \<noteq> CHR 0x22" and "hex_digit n \<noteq> CHR 0x5C"
proof -
  have "\<forall>n \<in> set [0..<16]. hex_digit n \<noteq> CHR 0x22 \<and> hex_digit n \<noteq> CHR 0x5C" by code_simp
  then show "hex_digit n \<noteq> CHR 0x22" and "hex_digit n \<noteq> CHR 0x5C" using assms by auto
qed

lemma compact_in_byte: "compact_in (literal_byte c @ r) = literal_byte c @ compact_in r"
proof -
  have nibbles: "byte c div 16 < 16" "byte c mod 16 < 16"
    using of_char_mod_256 [of c, where 'a = nat] by (simp_all add: less_mult_imp_div_less)
  define S where "S = {CHR 0x22, CHR 0x5C, CHR 0x0A, CHR 0x0D, CHR 0x09}"
  show ?thesis
  proof (cases "c \<in> S")
    case True
    then have "\<exists>x. literal_byte c = [CHR 0x5C, x]"
      unfolding S_def by (elim insertE) (simp_all add: literal_byte_def)
    then show ?thesis by auto
  next
    case False
    then have "literal_byte c = (if byte c < 32 then
        [CHR 0x5C, CHR ''u'', CHR ''0'', CHR ''0'', hex_digit (byte c div 16), hex_digit (byte c mod 16)] else [c])"
      and "c \<noteq> CHR 0x22" "c \<noteq> CHR 0x5C"
      by (simp_all add: literal_byte_def S_def)
    then show ?thesis by (simp add: hex_digit_plain [OF nibbles(1)] hex_digit_plain [OF nibbles(2)])
  qed
qed

lemma compact_in_literal: "compact_in (literal_chars s @ CHR 0x22 # r) = literal_chars s @ CHR 0x22 # compact_out r"
  by (induction s) (simp_all add: literal_chars_def compact_in_byte)

lemma compacted_literal: "compacted (json_literal s)"
  by (simp add: compacted_def json_literal_def compact_in_literal)

lemma compacted_plain: "printable t \<Longrightarrow> CHR 0x22 \<notin> set t \<Longrightarrow> CHR 0x20 \<notin> set t \<Longrightarrow> compacted t"
proof (induction t)
  case (Cons c t)
  then have "\<not> is_ws c" "c \<noteq> CHR 0x22" by (auto simp: is_ws_def)
  with Cons show ?case by (simp add: compacted_def)
qed (simp add: compacted_def)

lemma compacted_append: "compacted s \<Longrightarrow> compacted t \<Longrightarrow> compacted (s @ t)"
  by (simp add: compacted_def)

lemma compacted_join: "list_all compacted ts \<Longrightarrow> compacted (join_with '','' ts)"
proof (induction ts)
  case (Cons t ts)
  then show ?case by (cases ts) (auto simp: compacted_def)
qed (simp add: compacted_def)


section \<open>The tokens of a row\<close>

text \<open>A key that is written as it is.\<close>

definition plain_key :: "string \<Rightarrow> bool" where
  "plain_key k = list_all (\<lambda>c. 32 \<le> byte c \<and> byte c < 128 \<and> c \<noteq> CHR 0x22 \<and> c \<noteq> CHR 0x5C) k"

lemma plain_key_spelled: "plain_key k \<Longrightarrow> spelled k k \<and> printable k"
  unfolding plain_key_def by (induction k) (auto intro: spelled.intros)

definition token_ok :: "string \<Rightarrow> bool" where
  "token_ok t = (json_number t \<or> (\<exists>s. t = json_literal s))"

text \<open>The value a token spells.\<close>

definition token_value :: "string \<Rightarrow> json" where
  "token_value t = (case json_unmarshal t of Some j \<Rightarrow> j | None \<Rightarrow> JNull)"

lemma token_value_number: "json_number n \<Longrightarrow> token_value n = JNum n"
  by (simp add: token_value_def reads_as_unmarshal [OF reads_as_number])

lemma token_value_literal: "token_value (json_literal s) = JStr (utf8_fix s)"
  by (simp add: token_value_def json_literal_def reads_as_unmarshal [OF reads_as_string [OF literal_spelled]])

lemma token_reads: "token_ok t \<Longrightarrow> reads_as d t (token_value t)"
  by (metis token_ok_def token_value_number token_value_literal reads_as_number reads_as_string literal_spelled
      json_literal_def)

lemma token_printable: "token_ok t \<Longrightarrow> printable t"
  using json_number_printable by (auto simp: token_ok_def json_literal_def literal_printable)

lemma token_compacted: "token_ok t \<Longrightarrow> compacted t"
proof -
  have "compacted t" if "json_number t"
  proof (rule compacted_plain)
    show "printable t" "CHR 0x22 \<notin> set t" "CHR 0x20 \<notin> set t"
      using that json_number_bytes [OF that] json_number_printable by (auto simp: list_all_iff)
  qed
  then show "token_ok t \<Longrightarrow> ?thesis" by (auto simp: token_ok_def compacted_literal)
qed

lemma token_value_plain: "token_ok t \<Longrightarrow> norm (token_value t) = token_value t \<and> \<not> has_null (token_value t)"
  by (auto simp: token_ok_def token_value_number token_value_literal)

definition tokens_ok :: "fact_row \<Rightarrow> bool" where
  "tokens_ok row = (\<forall>(k, t) \<in> set row. plain_key k \<and> token_ok t)"

lemma set_fact_ok: "tokens_ok row \<Longrightarrow> plain_key k \<Longrightarrow> token_ok t \<Longrightarrow> tokens_ok (set_fact k t row)"
  by (induction k t row rule: set_fact.induct) (auto simp: tokens_ok_def)

lemma number_token_ok:
  assumes "\<forall>x. json_number (fmt_g L x)" and "number_token L s = Some t"
  shows "json_number t"
  using assms by (auto simp: number_token_def json_number_int_str split: if_splits option.splits)

lemma fold_row_ok:
  assumes "\<And>l row. tokens_ok row \<Longrightarrow> tokens_ok (step l row)" and "tokens_ok row"
  shows "tokens_ok (fold step ls row)"
  using assms by (induction ls arbitrary: row) auto

lemma daemon_row_ok: "\<forall>x. json_number (fmt_g L x) \<Longrightarrow> tokens_ok (daemon_row L status stats)"
proof -
  assume g: "\<forall>x. json_number (fmt_g L x)"
  have num: "token_ok t" if "number_token L s = Some t" for s t
    using number_token_ok [OF g that] by (simp add: token_ok_def)
  have lit: "token_ok (json_literal s)" for s by (auto simp: token_ok_def)
  have "list_all (\<lambda>p. plain_key (snd p)) counters" and keys: "plain_key ''Version''" "plain_key ''Uptime''"
    by code_simp+
  then have label: "plain_key label" if "mget counters k = Some label" for k label
    using that by (auto simp: list_all_iff dest!: map_of_SomeD)
  have "tokens_ok (status_line L l row)" if "tokens_ok row" for l row
    using that by (auto simp: status_line_def Let_def num lit keys split: option.split prod.split list.split intro!: set_fact_ok)
  moreover have "tokens_ok (stats_line L l row)" if "tokens_ok row" for l row
    using that by (auto simp: stats_line_def num label split: option.split prod.split intro!: set_fact_ok)
  moreover have "tokens_ok []" by (simp add: tokens_ok_def)
  ultimately show ?thesis
    unfolding daemon_row_def parse_stats_def parse_status_def by (blast intro: fold_row_ok)
qed

section \<open>What the facts are\<close>

lemma map_of_set_fact [simp]: "map_of (set_fact k t row) = (map_of row)(k \<mapsto> t)"
  by (induction k t row rule: set_fact.induct) auto

lemma set_fact_keys: "distinct (map fst row) \<Longrightarrow> distinct (map fst (set_fact k t row))"
proof (induction k t row rule: set_fact.induct)
  case (2 name token k t row)
  have "fst ` set (set_fact name token row) = insert name (fst ` set row)"
    by (induction name token row rule: set_fact.induct) auto
  then show ?case using 2 by auto
qed simp

lemma fold_stays: "(\<And>x s. P s \<Longrightarrow> P (f x s)) \<Longrightarrow> P s \<Longrightarrow> P (fold f xs s)"
  by (induction xs arbitrary: s) auto

text \<open>The shape of each fact: a text, a natural number, a number.\<close>

definition fact_shape :: "string \<Rightarrow> string \<Rightarrow> bool" where
  "fact_shape name token =
     (if name = ''Version'' then \<exists>s. s \<noteq> [] \<and> token = json_literal s
      else if name = ''Uptime'' then \<exists>n. token = nat_str n
      else name \<in> snd ` set counters \<and> json_number token)"

lemma fact_shapes:
  "s \<noteq> [] \<Longrightarrow> fact_shape ''Version'' (json_literal s)"
  "fact_shape ''Uptime'' (nat_str n)"
  "label \<noteq> ''Version'' \<and> label \<noteq> ''Uptime'' \<and> label \<in> snd ` set counters \<Longrightarrow> json_number t \<Longrightarrow> fact_shape label t"
  by (auto simp: fact_shape_def)

definition row_shape :: "fact_row \<Rightarrow> bool" where
  "row_shape row = (distinct (map fst row) \<and> (\<forall>name token. map_of row name = Some token \<longrightarrow> fact_shape name token))"

lemma set_fact_shape: "row_shape row \<Longrightarrow> fact_shape k t \<Longrightarrow> row_shape (set_fact k t row)"
  by (auto simp: row_shape_def set_fact_keys)

lemma digits_token: "is_ascii_digits s \<Longrightarrow> number_token L s = Some (nat_str (dec_val s))"
proof -
  assume s: "is_ascii_digits s"
  then obtain c r where cr: "s = c # r" by (cases s) (auto simp: is_ascii_digits_def)
  then have "is_digit c" using s by (simp add: is_ascii_digits_def)
  then have c: "c \<noteq> CHR ''-''" "c \<noteq> CHR ''+''" by (auto simp: is_digit_def)
  then have "integer_token s" "big_int s = int (dec_val s)"
    using s cr by (auto simp: integer_token_def drop_sign_def big_int_def is_ascii_digits_def)
  then show ?thesis by (simp add: number_token_def int_str_def)
qed

text \<open>What a line of the status document can do to the row.\<close>

lemma status_line_cases:
  obtains "status_line L l row = row"
  | s where "s \<noteq> []" and "status_line L l row = set_fact ''Version'' (json_literal s) row"
  | n where "status_line L l row = set_fact ''Uptime'' (nat_str n) row"
proof -
  obtain k v where kv: "(case cut_at CHR '':'' l of Some kv \<Rightarrow> kv | None \<Rightarrow> (l, [])) = (k, v)"
    by (rule prod.exhaust)
  define key val where "key = trim_space k" and "val = trim_space v"
  have line: "status_line L l row =
      (if key = ''version'' \<and> val \<noteq> [] then set_fact ''Version'' (json_literal val) row
       else if key = ''uptime'' then
         (case go_fields val of
            [] \<Rightarrow> row
          | f # _ \<Rightarrow> if is_ascii_digits f then set_fact ''Uptime'' (nat_str (dec_val f)) row else row)
       else row)"
    unfolding status_line_def kv Let_def prod.case key_def [symmetric] val_def [symmetric]
    by (intro if_cong list.case_cong refl) (simp_all only: digits_token option.case)
  have "key = ''version'' \<and> val \<noteq> [] \<or> status_line L l row = row \<or>
      key = ''uptime'' \<and> (\<exists>f fs. go_fields val = f # fs \<and> is_ascii_digits f)"
    by (cases "go_fields val") (simp_all add: line)
  then consider (version) "key = ''version''" "val \<noteq> []"
    | (uptime) f fs where "key = ''uptime''" "go_fields val = f # fs" "is_ascii_digits f"
    | (rest) "status_line L l row = row"
    by blast
  then show thesis
  proof cases
    case version
    with that(2) show thesis unfolding line by simp
  next
    case uptime
    have "status_line L l row = set_fact ''Uptime'' (nat_str (dec_val f)) row"
      unfolding line using uptime by simp
    with that(3) show thesis .
  qed (rule that(1))
qed

lemma counter_label: "mget counters k = Some label \<Longrightarrow> label \<noteq> ''Version'' \<and> label \<noteq> ''Uptime'' \<and> label \<in> snd ` set counters"
proof -
  assume k: "mget counters k = Some label"
  have "\<forall>l \<in> snd ` set counters. l \<noteq> ''Version'' \<and> l \<noteq> ''Uptime''" by code_simp
  moreover have "label \<in> snd ` set counters" using map_of_SomeD [OF k] by force
  ultimately show ?thesis by blast
qed

lemma counters_inj: "mget counters k = Some label \<Longrightarrow> mget counters k' = Some label \<Longrightarrow> k = k'"
proof -
  assume "mget counters k = Some label" "mget counters k' = Some label"
  then have "(k, label) \<in> set counters" "(k', label) \<in> set counters" by (auto dest: map_of_SomeD)
  moreover have "distinct (map snd counters)" by code_simp
  ultimately show ?thesis by (metis distinct_map in_set_conv_nth inj_onD prod.inject snd_conv)
qed

text \<open>
  Property C19. The row has each fact at most once and no fact its declaration does not name:
  Version is a non-empty text, Uptime a natural number, every counter a JSON number. What could
  not be read is left out; nothing is ever null. A counter declared as an integer is a number
  and no more: the spelling 3.5 is kept as it is.
\<close>

theorem daemon_row_typed:
  assumes "\<forall>x. json_number (fmt_g L x)"
  shows "distinct (map fst (daemon_row L status stats)) \<and>
    (\<forall>(name, token) \<in> set (daemon_row L status stats).
       if name = ''Version'' then \<exists>s. s \<noteq> [] \<and> token = json_literal s
       else if name = ''Uptime'' then \<exists>n. token = nat_str n
       else name \<in> snd ` set counters \<and> json_number token)"
proof -
  have "row_shape (status_line L l row)" if "row_shape row" for l row
    by (rule status_line_cases [of L l row]) (use that in \<open>simp_all add: set_fact_shape fact_shapes\<close>)
  moreover have "row_shape (stats_line L l row)" if "row_shape row" for l row
    unfolding stats_line_def
    by (simp add: that set_fact_shape fact_shapes(3) counter_label number_token_ok [OF assms] split: option.split prod.split)
  moreover have "row_shape []" by (simp add: row_shape_def)
  ultimately have "row_shape (daemon_row L status stats)"
    unfolding daemon_row_def parse_stats_def parse_status_def by (intro fold_stays [where P = row_shape])
  then have "distinct (map fst (daemon_row L status stats))"
    and "\<forall>(name, token) \<in> set (daemon_row L status stats). fact_shape name token"
    by (auto simp: row_shape_def)
  then show ?thesis unfolding fact_shape_def by (rule conjI)
qed

lemma daemon_row_typed_witness:
  "(let L = \<lparr>sha256 = (\<lambda>s. ''00''), fmt_float = (\<lambda>x. ''0''), fmt_g = (\<lambda>x. ''0'')\<rparr> :: golib;
        row = daemon_row L ''uptime: 12 seconds'' (''total.num.queries=+07'' @ newline @ ''total.num.cachehits=3.5'')
    in distinct (map fst row) \<and> row = [(''Uptime'', ''12''), (''NumQueries'', ''7''), (''CacheHits'', ''3.5'')])"
proof -
  let ?L = "\<lparr>sha256 = (\<lambda>s. ''00''), fmt_float = (\<lambda>x. ''0''), fmt_g = (\<lambda>x. ''0'')\<rparr> :: golib"
  let ?stats = "''total.num.queries=+07'' @ newline @ ''total.num.cachehits=3.5''"
  have g: "json_number ''0''" by code_simp
  have "distinct (map fst (daemon_row ?L ''uptime: 12 seconds'' ?stats))"
    by (rule daemon_row_typed [THEN conjunct1]) (simp add: g)
  moreover have "daemon_row ?L ''uptime: 12 seconds'' ?stats =
      [(''Uptime'', ''12''), (''NumQueries'', ''7''), (''CacheHits'', ''3.5'')]"
    by code_simp
  ultimately show ?thesis by (simp only: Let_def simp_thms)
qed

text \<open>The number a line of the statistics gives the record of a name, if it is one.\<close>

definition record_number :: "golib \<Rightarrow> string \<Rightarrow> string \<Rightarrow> string option" where
  "record_number L k line = (case cut_at CHR ''='' line of
       None \<Rightarrow> None
     | Some (a, v) \<Rightarrow> if trim_space a = k then number_token L (trim_space v) else None)"

lemma stats_line_at:
  assumes "mget counters k = Some label"
  shows "map_of (stats_line L l row) label =
    (case record_number L k l of None \<Rightarrow> map_of row label | Some t \<Rightarrow> Some t)"
  using assms counters_inj by (auto simp: stats_line_def record_number_def split: option.split prod.split)

text \<open>
  A counter of the row is the number of the last line whose whole name is the
  counter's record and whose value is a number: the lines of single threads never count, and a
  line that cannot be read does not displace one that could.
\<close>

theorem counter_is_last_total_record:
  assumes "mget counters k = Some label"
  shows "map_of (daemon_row L status stats) label =
    (case rev (List.map_filter (record_number L k) (split_on CHR 0x0A stats)) of
       [] \<Rightarrow> None
     | token # _ \<Rightarrow> Some token)"
proof -
  have "map_of (parse_status L status []) label = None"
  proof -
    have other: "label \<noteq> ''Version''" "label \<noteq> ''Uptime''" using counter_label [OF assms] by blast+
    have "map_of (status_line L l row) label = map_of row label" for l row
      by (rule status_line_cases [of L l row]) (use other in simp_all)
    then show ?thesis
      unfolding parse_status_def by (intro fold_stays [where P = "\<lambda>row. map_of row label = None"]) simp_all
  qed
  moreover have "map_of (fold (stats_line L) ls row) label =
      (case rev (List.map_filter (record_number L k) ls) of [] \<Rightarrow> map_of row label | t # _ \<Rightarrow> Some t)" for ls row
    by (induction ls rule: rev_induct)
       (auto simp: stats_line_at [OF assms] map_filter_def split: option.split)
  ultimately show ?thesis by (simp add: daemon_row_def parse_stats_def split: list.split)
qed

lemma counter_is_last_total_record_witness:
  "map_of (daemon_row \<lparr>sha256 = (\<lambda>s. ''00''), fmt_float = (\<lambda>x. ''0''), fmt_g = (\<lambda>x. ''0'')\<rparr> []
     (''thread0.num.queries=3'' @ newline @ ''total.num.queries=5'' @ newline @ ''total.num.queries=x''))
     ''NumQueries'' = Some ''5''"
proof -
  have "mget counters ''total.num.queries'' = Some ''NumQueries''"
    "rev (List.map_filter (record_number \<lparr>sha256 = (\<lambda>s. ''00''), fmt_float = (\<lambda>x. ''0''), fmt_g = (\<lambda>x. ''0'')\<rparr>
       ''total.num.queries'') (split_on CHR 0x0A (''thread0.num.queries=3'' @ newline @ ''total.num.queries=5'' @
       newline @ ''total.num.queries=x''))) = [''5'']"
    by code_simp+
  then show ?thesis by (simp only: counter_is_last_total_record list.case)
qed

end
