(* ===== verification/Conversation.thy ===== *)
theory Conversation
  imports DaemonRow Acquire
begin

text \<open>
  The two ends of the wire, composed: what the collector of \<open>Collector\<close> writes is read by the
  collator of \<open>Batch\<close> and \<open>Client\<close>, and what the collator asks is understood by the
  collector.
\<close>

section \<open>Records\<close>

text \<open>A text that reads as a value wherever \<open>n\<close> more levels may be opened, on one line.\<close>

definition spells :: "int \<Rightarrow> string \<Rightarrow> json \<Rightarrow> bool" where
  "spells n t j = ((\<forall>d. d + n \<le> max_depth \<longrightarrow> reads_as d t j) \<and> printable t)"

lemma spells_mono: "spells m t j \<Longrightarrow> m \<le> n \<Longrightarrow> spells n t j"
  by (simp add: spells_def)

lemma spells_string: "spells 0 (plain_str s) (JStr (utf8_fix s))"
  using reads_as_string [OF plain_writer.w_spelled]
  by (simp add: spells_def plain_str_def plain_writer.w_printable)

lemma spells_number: "json_number n \<Longrightarrow> spells 0 n (JNum n)"
  by (simp add: spells_def reads_as_number json_number_printable)

lemma spells_literal: "spells 0 ''null'' JNull" "spells 0 ''true'' (JBool True)" "spells 0 ''false'' (JBool False)"
  by (simp_all add: spells_def reads_as_literal)

lemma spells_token: "token_ok t \<Longrightarrow> spells 0 t (token_value t)"
  by (simp add: spells_def token_reads token_printable)

definition spells_member :: "int \<Rightarrow> string \<times> string \<Rightarrow> string \<times> json \<Rightarrow> bool" where
  "spells_member n kt kv = (spelled (fst kt) (fst kv) \<and> printable (fst kt) \<and> spells n (snd kt) (snd kv))"

lemma spells_object:
  assumes "list_all2 (spells_member n) kts kvs" and "0 \<le> n"
  shows "spells (n + 1) (object_text kts) (JObj kvs)"
proof -
  have "reads_as d (object_text kts) (JObj kvs)" if "d + (n + 1) \<le> max_depth" for d
  proof (rule reads_as_object)
    show "list_all2 (reads_member (d + 1)) kts kvs"
      using assms(1) that
      by (auto elim!: list_all2_mono simp: spells_member_def reads_member_def spells_def)
    show "d < max_depth" using that assms(2) by simp
  qed
  moreover have "\<forall>kt \<in> set kts. printable (member_text kt)"
    using assms(1)
    by (induction rule: list_all2_induct) (auto simp: member_text_def spells_member_def spells_def)
  then have "printable (object_text kts)"
  proof -
    have "printable (join_with '','' ts)" if "list_all printable ts" for ts
      using that
    proof (induction ts)
      case (Cons t ts)
      then show ?case by (cases ts) auto
    qed simp
    then show ?thesis
      using \<open>\<forall>kt \<in> set kts. printable (member_text kt)\<close> by (simp add: object_text_def list_all_iff)
  qed
  ultimately show ?thesis by (simp add: spells_def)
qed

lemma decode_spelled:
  assumes "spells n t (JObj kvs)" and "n \<le> max_depth"
  shows "decode_record t = Some (mof (map (\<lambda>(k, v). (k, norm v)) kvs))"
proof -
  have "reads_as 0 t (JObj kvs)" using assms by (simp add: spells_def)
  from reads_asD [OF this, of "2 * length t + 2" "[]"] show ?thesis
    by (simp add: decode_record_def json_read_def more_input_def skip_ws_def)
qed

lemma record_spells:
  assumes "list_all (\<lambda>(k, t, j). plain_key k) ks" and "\<forall>(k, t, j) \<in> set ks. spells 2 t j"
  shows "spells 3 (object_text (map (\<lambda>(k, t, j). (k, t)) ks)) (JObj (map (\<lambda>(k, t, j). (k, j)) ks))"
proof -
  have "list_all2 (spells_member 2) (map (\<lambda>(k, t, j). (k, t)) ks) (map (\<lambda>(k, t, j). (k, j)) ks)"
    using assms plain_key_spelled
    by (auto simp: list_all2_map1 list_all2_map2 list_all_iff spells_member_def intro!: list.rel_refl_strong)
  from spells_object [OF this] show ?thesis by simp
qed

lemma record_decode:
  assumes "list_all (\<lambda>(k, t, j). plain_key k) ks" and "\<forall>(k, t, j) \<in> set ks. spells 2 t j"
  shows "decode_record (object_text (map (\<lambda>(k, t, j). (k, t)) ks)) = Some (mof (map (\<lambda>(k, t, j). (k, norm j)) ks))"
  using decode_spelled [OF record_spells [OF assms]]
  by (simp add: max_depth_def comp_def case_prod_unfold)


section \<open>The row as a raw message\<close>

definition row_value :: "fact_row \<Rightarrow> (string \<times> json) list" where
  "row_value row = map (\<lambda>(k, t). (k, token_value t)) row"

lemma literal_plain: "plain_key k \<Longrightarrow> literal_chars k = k"
  unfolding plain_key_def by (induction k) (auto simp: literal_chars_def literal_byte_def)

lemma row_spells: "tokens_ok row \<Longrightarrow> spells 1 (row_text row) (JObj (row_value row))"
proof -
  assume ok: "tokens_ok row"
  have "list_all2 (spells_member 0) (map (\<lambda>(k, t). (literal_chars k, t)) row) (row_value row)"
    using ok plain_key_spelled
    by (auto simp: row_value_def list_all2_map1 list_all2_map2 spells_member_def tokens_ok_def literal_plain
        spells_token intro!: list.rel_refl_strong)
  from spells_object [OF this] show ?thesis by (simp add: row_text_def)
qed

lemma row_compacted: "tokens_ok row \<Longrightarrow> compacted (row_text row)"
proof -
  assume ok: "tokens_ok row"
  have mark: "compacted ''{''" "compacted ''}''" "compacted '':''"
    by (rule compacted_plain; simp)+
  have "compacted (member_text (literal_chars k, t))" if "(k, t) \<in> set row" for k t
  proof -
    have "compacted t" using ok that by (auto simp: tokens_ok_def token_compacted)
    then have "compacted (json_literal k @ '':'' @ t)"
      by (intro compacted_append compacted_literal mark)
    then show ?thesis by (simp add: member_text_def json_literal_def)
  qed
  then have "list_all compacted (map (member_text \<circ> (\<lambda>(k, t). (literal_chars k, t))) row)"
    by (auto simp: list_all_iff)
  from compacted_join [OF this] show ?thesis
    unfolding row_text_def object_text_def map_map by (intro compacted_append mark)
qed

lemma row_raw: "tokens_ok row \<Longrightarrow> raw_message (row_text row) = Some (row_text row)"
proof -
  assume ok: "tokens_ok row"
  have "reads_as 0 (row_text row) (JObj (row_value row))"
    using row_spells [OF ok] by (simp add: spells_def max_depth_def)
  then have "json_unmarshal (row_text row) \<noteq> None" by (simp add: reads_as_unmarshal)
  moreover have "compact_out (row_text row) = row_text row"
    using row_compacted [OF ok] by (metis append_Nil2 compact_out.simps(1) compacted_def)
  ultimately show ?thesis by (simp add: raw_message_def)
qed

lemma row_value_plain:
  "tokens_ok row \<Longrightarrow> norm (JObj (row_value row)) = JObj (mof (row_value row)) \<and>
   (\<forall>p \<in> set (mof (row_value row)). \<not> has_null (snd p))"
proof -
  assume ok: "tokens_ok row"
  have "map (\<lambda>(k, v). (k, norm v)) (row_value row) = row_value row"
    using ok token_value_plain by (auto simp: row_value_def tokens_ok_def comp_def case_prod_unfold)
  moreover have "\<not> has_null (snd p)" if "p \<in> set (mof (row_value row))" for p
    using that set_mof [of "row_value row"] ok token_value_plain
    by (fastforce simp: row_value_def tokens_ok_def)
  ultimately show ?thesis by auto
qed

section \<open>Members of a decoded record\<close>

lemma fields_mof:
  "set required \<subseteq> fst ` set kvs \<Longrightarrow> fst ` set kvs \<subseteq> set (''record'' # required @ optional) \<Longrightarrow>
   Wire.fields (mof kvs) required optional = Inr ()"
proof -
  assume req: "set required \<subseteq> fst ` set kvs" and keys: "fst ` set kvs \<subseteq> set (''record'' # required @ optional)"
  have "mget (mof kvs) f \<noteq> None" if "f \<in> set required" for f
    using req that unfolding mget_in_keys [symmetric] keys_mof by blast
  moreover have "\<not> (\<exists>f \<in> set (mkeys (mof kvs)). f \<notin> set (''record'' # required @ optional))"
    using keys unfolding keys_mof by blast
  ultimately show ?thesis unfolding Wire.fields_def by auto
qed
section \<open>Lines\<close>

definition framed :: "string \<Rightarrow> bool" where
  "framed t = (printable t \<and> (\<exists>x. t = ''{'' @ x @ ''}''))"

definition lines_of :: "string list \<Rightarrow> string" where
  "lines_of ts = concat (map (\<lambda>t. t @ newline) ts)"

lemma lines_of_simps [simp]: "lines_of [] = []" "lines_of (t # ts) = t @ newline @ lines_of ts"
  "lines_of (ts @ us) = lines_of ts @ lines_of us"
  by (simp_all add: lines_of_def)

lemma strip_none: "find (\<lambda>p. p \<noteq> [] \<and> is_prefix p s) sps = None \<Longrightarrow> strip_seqs sps s = s"
  by (subst strip_seqs.simps) simp

lemma framed_trim: "framed t \<Longrightarrow> trim_space t = t \<and> t \<noteq> []"
proof -
  assume "framed t"
  then obtain x where t: "t = CHR ''{'' # x @ ''}''" by (auto simp: framed_def)
  have "find (\<lambda>p. p \<noteq> [] \<and> is_prefix p (CHR ''{'' # s)) space_seqs = None" for s
    by (simp add: space_seqs_def)
  then have "strip_seqs space_seqs t = t" by (simp add: t strip_none)
  moreover have "find (\<lambda>p. p \<noteq> [] \<and> is_prefix p (CHR ''}'' # s)) (map rev space_seqs) = None" for s
    by (simp add: space_seqs_def)
  then have "strip_seqs (map rev space_seqs) (rev t) = rev t" by (simp add: t strip_none)
  ultimately show ?thesis by (simp add: trim_space_def t)
qed

lemma split_lines_of: "list_all framed ts \<Longrightarrow> split_lines (lines_of ts) = ts"
proof (induction ts)
  case Nil
  have "trim_space [] = []" by code_simp
  then show ?case by (simp add: split_lines_def)
next
  case (Cons t ts)
  then have "CHR 0x0A \<notin> set t" "trim_space t = t" "t \<noteq> []" "split_lines (lines_of ts) = ts"
    using printable_newline framed_trim by (auto simp: framed_def)
  then show ?case by (simp add: split_lines_def newline_def split_on_append)
qed

lemma spelled_framed: "spells n (object_text kts) j \<Longrightarrow> framed (object_text kts)"
  by (simp add: spells_def framed_def object_text_def)

lemma run_lines_append:
  "run_lines issued ps (ts @ us) = bindR (run_lines issued ps ts) (\<lambda>ps'. run_lines issued ps' us)"
  by (induction ts arbitrary: ps) (auto simp: bindR_def split: sum.split)

lemma emit_Some: "\<not> em_err e \<Longrightarrow> emit (Some t) e = e\<lparr>em_out := em_out e @ t @ newline\<rparr>"
  by (simp add: emit_def)

text \<open>Every record is one line.\<close>

lemma record_framed:
  "list_all (\<lambda>(k, t, j). plain_key k) ks \<Longrightarrow> \<forall>(k, t, j) \<in> set ks. spells 2 t j \<Longrightarrow>
   framed (object_text (map (\<lambda>(k, t, j). (k, t)) ks))"
  by (rule spelled_framed [OF record_spells])


lemma mget_members [simp]: "mget (mof (kvs @ [(k, v)])) x = (if x = k then Some v else mget (mof kvs) x)"
  by (simp add: mof_def)

lemma collection_name_valid: "collection_name c \<Longrightarrow> valid_utf8 c \<and> c \<noteq> []"
  by (rule conjI, rule ascii_valid)
     (auto simp: collection_name_def is_lower_def is_digit_def list_all_iff split: list.splits dest!: bspec)

lemma spells_text: "valid_utf8 s \<Longrightarrow> spells 2 (plain_str s) (JStr s)"
  using spells_mono [OF spells_string [of s]] by (simp add: utf8_fix_valid)

lemma spells_nat: "spells 2 (nat_str n) (JNum (nat_str n))"
  by (rule spells_mono [OF spells_number [OF json_number_nat_str]]) simp

definition float_reads :: "golib \<Rightarrow> f64 \<Rightarrow> bool" where
  "float_reads L x = (json_number (fmt_float L x) \<and> parse_float (fmt_float L x) = Some x)"

lemma spells_float: "float_reads L x \<Longrightarrow> spells 2 (fmt_float L x) (JNum (fmt_float L x))"
  using spells_mono [OF spells_number] by (simp add: float_reads_def)

lemma reasons_valid: "why \<in> set decline_reasons \<Longrightarrow> valid_utf8 why"
proof -
  have "list_all valid_utf8 decline_reasons" by code_simp
  then show "why \<in> set decline_reasons \<Longrightarrow> ?thesis" by (simp add: list_all_iff)
qed

lemma decline_line:
  assumes "collection_name c" and "mget issued c \<noteq> None" and "why \<in> set decline_reasons" and "valid_utf8 detail"
    and "ps_begin ps \<noteq> None" and "ps_end ps = None" and "mget (ps_cols ps) c = None"
    and "decline_record c why detail = Some t"
  shows "framed t \<and> on_line issued ps t =
    Inr (put_stream c (empty_stream\<lparr>st_decline := Some \<lparr>de_collection = c, de_reason = why, de_detail = detail\<rparr>\<rparr>) ps)"
proof -
  let ?ks = "[(''record'', plain_str ''decline'', JStr ''decline''), (''collection'', plain_str c, JStr c),
    (''reason'', plain_str why, JStr why), (''detail'', plain_str detail, JStr detail)]"
  let ?m = "mof [(''record'', JStr ''decline''), (''collection'', JStr c), (''reason'', JStr why), (''detail'', JStr detail)]"
  have keys: "list_all (\<lambda>(k, t, j). plain_key k) ?ks" by (simp add: plain_key_def)
  have "valid_utf8 ''decline''" by code_simp
  then have spell: "\<forall>(k, t, j) \<in> set ?ks. spells 2 t j"
    using spells_text collection_name_valid [OF assms(1)] assms(4) reasons_valid [OF assms(3)] by auto
  have t: "t = object_text (map (\<lambda>(k, t, j). (k, t)) ?ks)" using assms(8) by (simp add: decline_record_def)
  have "framed t" unfolding t by (rule record_framed [OF keys spell])
  moreover have "decode_record t = Some ?m" unfolding t record_decode [OF keys spell] by simp
  moreover have "mget ?m x = map_of [(''record'', JStr ''decline''), (''collection'', JStr c), (''reason'', JStr why), (''detail'', JStr detail)] x" for x
    by (simp add: mget_mof)
  moreover have "Wire.fields ?m [''collection'', ''reason''] [''detail''] = Inr ()"
    by (rule fields_mof) auto
  ultimately show ?thesis
    using assms collection_name_valid [OF assms(1)]
    by (simp add: on_line_def someR_def on_record_def str_member_def on_decline_def parse_decline_def
        known_collection_def identity_def parse_detail_def bindR_def guardR_def open_stream_def
        empty_stream_def Let_def)
qed

lemma commit_line:
  assumes "collection_name c" and "mget issued c = Some g" and "int g \<le> int64_max"
    and "ps_begin ps \<noteq> None" and "ps_end ps = None"
    and "(case mget (ps_cols ps) c of Some cs \<Rightarrow> cs | None \<Rightarrow> empty_stream) = cs" and "st_commit cs = None"
    and "int n \<le> int64_max" and "commit_record c g n = Some t"
  shows "framed t \<and> on_line issued ps t =
    Inr (put_stream c (cs\<lparr>st_commit := Some \<lparr>cm_collection = c, cm_generation = g, cm_objects = n,
           cm_assertions = 0, cm_unobservable = 0, cm_cpu = Fin (- 1)\<rparr>\<rparr>) ps)"
proof -
  let ?ks = "[(''record'', plain_str ''commit'', JStr ''commit''), (''collection'', plain_str c, JStr c),
    (''generation'', nat_str g, JNum (nat_str g)), (''objects'', nat_str n, JNum (nat_str n)),
    (''assertions'', nat_str 0, JNum (nat_str 0)), (''unobservable'', nat_str 0, JNum (nat_str 0))]"
  let ?kvs = "[(''record'', JStr ''commit''), (''collection'', JStr c), (''generation'', JNum (nat_str g)),
    (''objects'', JNum (nat_str n)), (''assertions'', JNum (nat_str 0)), (''unobservable'', JNum (nat_str 0))]"
  have keys: "list_all (\<lambda>(k, t, j). plain_key k) ?ks" by (simp add: plain_key_def)
  have "valid_utf8 ''commit''" by code_simp
  then have spell: "\<forall>(k, t, j) \<in> set ?ks. spells 2 t j"
    using spells_text collection_name_valid [OF assms(1)] spells_nat by auto
  have t: "t = object_text (map (\<lambda>(k, t, j). (k, t)) ?ks)" using assms(9) by (simp add: commit_record_def)
  have "framed t" unfolding t by (rule record_framed [OF keys spell])
  moreover have "decode_record t = Some (mof ?kvs)" unfolding t record_decode [OF keys spell] by simp
  moreover have "mget (mof ?kvs) x = map_of ?kvs x" for x
    by (simp add: mget_mof)
  moreover have "Wire.fields (mof ?kvs) [''collection'', ''generation'', ''objects'', ''assertions'', ''unobservable''] [''cpu_ms''] = Inr ()"
    by (rule fields_mof) auto
  moreover have "parse_int64 (nat_str 0) = Some 0"
    using parse_int64_nat_str [of 0] by (simp add: int64_max_def)
  ultimately show ?thesis
    using assms collection_name_valid [OF assms(1)] parse_int64_nat_str [of g] parse_int64_nat_str [of n]
    by (simp add: on_line_def someR_def on_record_def str_member_def on_commit_def parse_commit_def
        known_collection_def identity_def num_member_def count_def measured_member_def
        bindR_def guardR_def open_stream_def Let_def)
qed

lemma object_line:
  assumes "collection_name c" and "mget issued c \<noteq> None" and "valid_utf8 name" and "name \<noteq> []"
    and "collection_name ty" and "tokens_ok row" and "float_reads L stamp"
    and "0 < f64_val stamp" and "f64_val stamp \<le> 1000000000"
    and "ps_begin ps \<noteq> None" and "ps_end ps = None" and "mget (ps_cols ps) c = None"
    and "mget (ps_last ps) c = None" and "mget (ps_seen ps) c = None"
    and "object_record L c name ty (row_text row) stamp = Some t"
  shows "framed t \<and> on_line issued ps t =
    Inr ((put_stream c (empty_stream\<lparr>st_objects := [\<lparr>ob_collection = c, ob_name = name, ob_type = ty,
            ob_facts = JObj (mof (row_value row)), ob_names = None, ob_absent = [], ob_evidence = None,
            ob_at = stamp\<rparr>]\<rparr>) ps)
      \<lparr>ps_last := mput c stamp (ps_last ps), ps_seen := mput c [name] (ps_seen ps)\<rparr>)"
proof -
  have ty: "ty \<noteq> []" "valid_utf8 ty" using collection_name_valid [OF assms(5)] by auto
  let ?ks = "[(''record'', plain_str ''object'', JStr ''object''), (''collection'', plain_str c, JStr c),
    (''name'', plain_str name, JStr name), (''type'', plain_str ty, JStr ty),
    (''facts'', row_text row, JObj (row_value row)), (''at'', fmt_float L stamp, JNum (fmt_float L stamp))]"
  let ?kvs = "[(''record'', JStr ''object''), (''collection'', JStr c), (''name'', JStr name), (''type'', JStr ty),
    (''facts'', norm (JObj (row_value row))), (''at'', JNum (fmt_float L stamp))]"
  have keys: "list_all (\<lambda>(k, t, j). plain_key k) ?ks" by (simp add: plain_key_def)
  have facts: "norm (JObj (row_value row)) = JObj (mof (row_value row))"
    and null: "find_null (JObj (mof (row_value row))) ''facts'' = []"
    using row_value_plain [OF assms(6)] find_null_Nil(1) [of "''facts''" "JObj (mof (row_value row))"]
    by (auto simp del: norm.simps find_null.simps)
  have "spells 2 (row_text row) (JObj (row_value row))"
    using spells_mono [OF row_spells [OF assms(6)]] by simp
  moreover have "valid_utf8 ''object''" by code_simp
  ultimately have spell: "\<forall>(k, t, j) \<in> set ?ks. spells 2 t j"
    using spells_text collection_name_valid [OF assms(1)] assms(3) ty spells_float [OF assms(7)] by auto
  have t: "t = object_text (map (\<lambda>(k, t, j). (k, t)) ?ks)"
    using assms(15) ty row_raw [OF assms(6)] by (simp add: object_record_def)
  have "framed t" unfolding t by (rule record_framed [OF keys spell])
  moreover have "decode_record t = Some (mof ?kvs)" unfolding t record_decode [OF keys spell] by simp
  moreover have "mget (mof ?kvs) x = map_of ?kvs x" for x
    by (simp add: mget_mof del: norm.simps)
  moreover have "Wire.fields (mof ?kvs) [''collection'', ''name'', ''facts'', ''at''] [''type'', ''names'', ''absent'', ''evidence''] = Inr ()"
    by (rule fields_mof) auto
  ultimately show ?thesis
    using assms collection_name_valid [OF assms(1)] null
    by (simp add: on_line_def someR_def on_record_def str_member_def on_object_def parse_object_def
        known_collection_def identity_def num_member_def obj_member_def parse_type_def parse_absent_def
        parse_at_def facts float_reads_def
        bindR_def guardR_def open_stream_def open_emitting_def empty_stream_def seen_names_def Let_def
        del: find_null.simps norm.simps)
qed

lemma end_line:
  assumes "valid_utf8 bat" and "bat \<noteq> []" and "float_reads L cpu" and "float_reads L wall"
    and "0 \<le> f64_val cpu" and "0 \<le> f64_val wall"
    and "ps_begin ps \<noteq> None" and "ps_end ps = None" and "end_record L bat (cpu, wall) = Some t"
  shows "framed t \<and> on_line issued ps t =
    Inr (ps\<lparr>ps_end := Some \<lparr>en_request = bat, en_batch = bat, en_cpu = cpu, en_wall = wall\<rparr>\<rparr>)"
proof -
  let ?ks = "[(''record'', plain_str ''end'', JStr ''end''), (''request'', plain_str bat, JStr bat),
    (''batch'', plain_str bat, JStr bat), (''cpu_ms'', fmt_float L cpu, JNum (fmt_float L cpu)),
    (''wall_ms'', fmt_float L wall, JNum (fmt_float L wall))]"
  let ?kvs = "[(''record'', JStr ''end''), (''request'', JStr bat), (''batch'', JStr bat),
    (''cpu_ms'', JNum (fmt_float L cpu)), (''wall_ms'', JNum (fmt_float L wall))]"
  have keys: "list_all (\<lambda>(k, t, j). plain_key k) ?ks" by (simp add: plain_key_def)
  have "valid_utf8 ''end''" by code_simp
  then have spell: "\<forall>(k, t, j) \<in> set ?ks. spells 2 t j"
    using spells_text assms(1) spells_float [OF assms(3)] spells_float [OF assms(4)] by auto
  have t: "t = object_text (map (\<lambda>(k, t, j). (k, t)) ?ks)" using assms(9) by (simp add: end_record_def)
  have "framed t" unfolding t by (rule record_framed [OF keys spell])
  moreover have "decode_record t = Some (mof ?kvs)" unfolding t record_decode [OF keys spell] by simp
  moreover have "mget (mof ?kvs) x = map_of ?kvs x" for x
    by (simp add: mget_mof)
  moreover have "Wire.fields (mof ?kvs) [''request'', ''batch''] [''cpu_ms'', ''wall_ms''] = Inr ()"
    by (rule fields_mof) auto
  ultimately show ?thesis
    using assms
    by (simp add: on_line_def someR_def on_record_def str_member_def on_end_def parse_end_def identity_def
        measured_member_def check_measured_def float_reads_def bindR_def)
qed


section \<open>The record a stream opens with\<close>

lemma in_split_on: "x \<in> set s \<Longrightarrow> x = c \<or> (\<exists>p \<in> set (split_on c s). x \<in> set p)"
proof (induction s)
  case (Cons y s)
  then show ?case by (cases "split_on c s") auto
qed simp

lemma uuid_valid: "uuid_shaped s \<Longrightarrow> valid_utf8 s \<and> s \<noteq> []"
proof
  assume u: "uuid_shaped s"
  have hex: "byte x < 128" if "is_hex x" for x
    using that by (auto simp: is_hex_def hex_val_def is_digit_def split: if_splits)
  have "byte x < 128" if "x \<in> set s" for x
  proof (cases "x = CHR ''-''")
    case False
    then obtain p where "p \<in> set (split_on CHR ''-'' s)" "x \<in> set p"
      using in_split_on [of x s "CHR ''-''"] \<open>x \<in> set s\<close> by blast
    then have "is_hex x" using u by (auto simp: uuid_shaped_def Let_def list_all_iff)
    then show ?thesis by (rule hex)
  qed simp
  then show "valid_utf8 s" by (auto intro!: ascii_valid simp: list_all_iff)
  show "s \<noteq> []" using u by (auto simp: uuid_shaped_def)
qed

definition issued_ok :: "nat gomap \<Rightarrow> bool" where
  "issued_ok issued = (mok issued \<and> (\<forall>(c, g) \<in> set issued. collection_name c \<and> int g \<le> int64_max))"

lemma generations_spell:
  assumes "issued_ok issued"
  shows "spells 2 (object_text (map (\<lambda>(k, g). (plain_chars k, nat_str g)) issued))
    (JObj (map (\<lambda>(k, g). (k, JNum (nat_str g))) issued))"
proof -
  have k: "spelled (plain_chars k) k" if "(k, g) \<in> set issued" for k g
    using assms that plain_writer.w_spelled [of k] collection_name_valid [of k]
    by (auto simp: issued_ok_def utf8_fix_valid)
  have "list_all2 (spells_member 0) (map (\<lambda>(k, g). (plain_chars k, nat_str g)) issued)
     (map (\<lambda>(k, g). (k, JNum (nat_str g))) issued)"
    using k plain_writer.w_printable spells_number [OF json_number_nat_str]
    by (auto simp: list_all2_map1 list_all2_map2 spells_member_def intro!: list.rel_refl_strong)
  from spells_mono [OF spells_object [OF this]] show ?thesis by simp
qed

lemma generations_norm:
  "mok issued \<Longrightarrow> norm (JObj (map (\<lambda>(k, g). (k, JNum (nat_str g))) issued)) =
     JObj (map (\<lambda>(k, g). (k, JNum (nat_str g))) issued)"
  by (intro norm_normal) (auto simp: mok_map_snd [of "\<lambda>k g. JNum (nat_str g)"])

lemma generations_parse:
  "issued_ok issued \<Longrightarrow> parse_generations (map (\<lambda>(k, g). (k, JNum (nat_str g))) issued) = Inr issued"
  unfolding parse_generations_def mapR_Inr_iff list_all2_map1
  by (rule list.rel_refl_strong) (auto simp: issued_ok_def parse_int64_nat_str)

lemma parse_int64_int_str:
  assumes "int64_min \<le> i" and "i \<le> int64_max"
  shows "parse_int64 (int_str i) = Some i"
proof (cases "i < 0")
  case True
  then show ?thesis
    using assms nat_str_digits [of "nat (- i)"] by (simp add: int_str_def parse_int64_def)
next
  case False
  then show ?thesis using assms parse_int64_nat_str [of "nat i"] by (simp add: int_str_def)
qed

lemma begin_line:
  assumes "issued_ok issued" and "valid_utf8 bat" and "bat \<noteq> []" and "uuid_shaped boot" and "\<not> equal_fold boot nil_uuid"
    and "valid_utf8 (declaration_digest L src)" and "int64_min \<le> sr_timens src" and "sr_timens src \<le> int64_max"
    and "ps_begin ps = None" and "ps_end ps = None" and "begin_record L src boot bat issued = Some t"
  shows "framed t \<and> on_line issued ps t = Inr (ps\<lparr>ps_begin := Some \<lparr>bg_request = bat, bg_batch = bat,
      bg_declaration = declaration_digest L src, bg_boot = boot, bg_timens = sr_timens src,
      bg_instance = None, bg_generations = issued\<rparr>\<rparr>)"
proof -
  let ?gens = "map (\<lambda>(k, g). (k, JNum (nat_str g))) issued"
  let ?ks = "[(''record'', plain_str ''begin'', JStr ''begin''), (''request'', plain_str bat, JStr bat),
    (''batch'', plain_str bat, JStr bat),
    (''declaration'', plain_str (declaration_digest L src), JStr (declaration_digest L src)),
    (''boot_id'', plain_str boot, JStr boot), (''timens'', int_str (sr_timens src), JNum (int_str (sr_timens src))),
    (''instance'', ''null'', JNull),
    (''generations'', object_text (map (\<lambda>(k, g). (plain_chars k, nat_str g)) issued), JObj ?gens)]"
  let ?kvs = "[(''record'', JStr ''begin''), (''request'', JStr bat), (''batch'', JStr bat),
    (''declaration'', JStr (declaration_digest L src)), (''boot_id'', JStr boot),
    (''timens'', JNum (int_str (sr_timens src))), (''instance'', JNull), (''generations'', JObj ?gens)]"
  have mok: "mok issued" using assms(1) by (simp add: issued_ok_def)
  have keys: "list_all (\<lambda>(k, t, j). plain_key k) ?ks" by (simp add: plain_key_def)
  have "valid_utf8 ''begin''" by code_simp
  moreover have "spells 2 (int_str (sr_timens src)) (JNum (int_str (sr_timens src)))"
    using spells_mono [OF spells_number [OF json_number_int_str]] by simp
  moreover have "spells 2 ''null'' JNull" using spells_mono [OF spells_literal(1)] by simp
  ultimately have spell: "\<forall>(k, t, j) \<in> set ?ks. spells 2 t j"
    using spells_text assms(2,6) uuid_valid [OF assms(4)] generations_spell [OF assms(1)] by auto
  have t: "t = object_text (map (\<lambda>(k, t, j). (k, t)) ?ks)" using assms(11) by (simp add: begin_record_def)
  have "framed t" unfolding t by (rule record_framed [OF keys spell])
  moreover have "decode_record t = Some (mof ?kvs)"
    unfolding t record_decode [OF keys spell] using generations_norm [OF mok] by (simp del: norm.simps(2))
  moreover have "mget (mof ?kvs) x = map_of ?kvs x" for x
    by (simp add: mget_mof)
  moreover have "Wire.fields (mof ?kvs) [''request'', ''batch'', ''declaration'', ''boot_id'', ''timens'', ''instance'', ''generations''] [] = Inr ()"
    by (rule fields_mof) auto
  moreover have "echo_ok issued issued" using mok by (simp add: echo_ok_eq)
  ultimately show ?thesis
    using assms uuid_valid [OF assms(4)] generations_parse [OF assms(1)] parse_int64_int_str [OF assms(7,8)]
    by (simp add: on_line_def someR_def on_record_def str_member_def on_begin_def parse_begin_def identity_def
        num_member_def obj_member_def declaration_digest_def bindR_def guardR_def)
qed


section \<open>The stream of a collect\<close>

text \<open>
  A source whose readings can travel: ids and digests are texts, clocks are in range and the
  text of a \<open>float64\<close> reads back, the wall clock has moved, and a decline gives a reason of the
  contract.
\<close>

definition source_ok :: "golib \<Rightarrow> source \<Rightarrow> bool" where
  "source_ok L src =
     ((case sr_boot src of Some boot \<Rightarrow> uuid_shaped boot \<and> \<not> equal_fold boot nil_uuid | None \<Rightarrow> False) \<and>
      (case sr_batch src of Some bat \<Rightarrow> bat \<noteq> [] \<and> valid_utf8 bat | None \<Rightarrow> False) \<and>
      valid_utf8 (declaration_digest L src) \<and> int64_min \<le> sr_timens src \<and> sr_timens src \<le> int64_max \<and>
      (\<forall>x. json_number (fmt_g L x)) \<and>
      float_reads L (sr_stamp src 0) \<and> 0 < f64_val (sr_stamp src 0) \<and> f64_val (sr_stamp src 0) \<le> 1000000000 \<and>
      float_reads L (fst (sr_costs src)) \<and> 0 \<le> f64_val (fst (sr_costs src)) \<and>
      float_reads L (snd (sr_costs src)) \<and> 0 < f64_val (snd (sr_costs src)) \<and>
      (case sr_daemon src of Declined why detail \<Rightarrow> why \<in> set decline_reasons \<and> valid_utf8 detail | _ \<Rightarrow> True))"

text \<open>What the collator is to understand of each collection it asked for.\<close>

definition daemon_object :: "golib \<Rightarrow> source \<Rightarrow> string \<Rightarrow> string \<Rightarrow> object_rec" where
  "daemon_object L src status stats =
     \<lparr>ob_collection = ''daemon'', ob_name = ''unbound'', ob_type = ''unbound-daemon'',
      ob_facts = JObj (mof (row_value (daemon_row L status stats))), ob_names = None, ob_absent = [],
      ob_evidence = None, ob_at = sr_stamp src 0\<rparr>"

definition closing :: "string \<Rightarrow> nat \<Rightarrow> nat \<Rightarrow> commit_rec" where
  "closing name g n = \<lparr>cm_collection = name, cm_generation = g, cm_objects = n, cm_assertions = 0,
     cm_unobservable = 0, cm_cpu = Fin (- 1)\<rparr>"

definition answered :: "golib \<Rightarrow> source \<Rightarrow> string \<Rightarrow> nat \<Rightarrow> stream" where
  "answered L src name g =
     (if name \<noteq> ''daemon'' then
        empty_stream\<lparr>st_decline := Some \<lparr>de_collection = name, de_reason = ''unsupported'',
          de_detail = ''this collector serves daemon only''\<rparr>\<rparr>
      else case sr_daemon src of
        Got status stats \<Rightarrow>
          empty_stream\<lparr>st_objects := [daemon_object L src status stats], st_commit := Some (closing name g 1)\<rparr>
      | Declined why detail \<Rightarrow>
          empty_stream\<lparr>st_decline := Some \<lparr>de_collection = name, de_reason = why, de_detail = detail\<rparr>,
            st_commit := (if why = ''absent'' then Some (closing name g 0) else None)\<rparr>
      | NotRun \<Rightarrow> empty_stream)"

text \<open>The parser's state between two collections.\<close>

definition fresh_for :: "pstate \<Rightarrow> string \<Rightarrow> bool" where
  "fresh_for ps name =
     (mget (ps_cols ps) name = None \<and> mget (ps_last ps) name = None \<and> mget (ps_seen ps) name = None)"

definition midway :: "pstate \<Rightarrow> bool" where
  "midway ps = (ps_begin ps \<noteq> None \<and> ps_end ps = None)"

lemma mput_twice [simp]: "mput k v (mput k u m) = mput k v m"
  by (induction m) auto

lemma daemon_accepted:
  assumes ok: "source_ok L src" and g: "mget issued ''daemon'' = Some g" "int g \<le> int64_max"
    and ps: "midway ps" "fresh_for ps ''daemon''" and e: "\<not> em_err e" and ran: "sr_daemon src \<noteq> NotRun"
  shows "\<exists>ts ps' n. collect_daemon L src ''daemon'' g (e, 0) = Some (e\<lparr>em_out := em_out e @ lines_of ts\<rparr>, n) \<and>
    list_all framed ts \<and> run_lines issued ps ts = Inr ps' \<and> midway ps' \<and> ps_begin ps' = ps_begin ps \<and>
    ps_cols ps' = mput ''daemon'' (answered L src ''daemon'' g) (ps_cols ps) \<and>
    (\<forall>x. x \<noteq> ''daemon'' \<longrightarrow> fresh_for ps x \<longrightarrow> fresh_for ps' x)"
proof -
  have name: "collection_name ''daemon''" by code_simp
  show ?thesis
  proof (cases "sr_daemon src")
    case (Declined why detail)
    then have d: "why \<in> set decline_reasons" "valid_utf8 detail" using ok by (auto simp: source_ok_def)
    obtain t where t: "decline_record ''daemon'' why detail = Some t" by (simp add: decline_record_def)
    let ?cs = "empty_stream\<lparr>st_decline := Some \<lparr>de_collection = ''daemon'', de_reason = why, de_detail = detail\<rparr>\<rparr>"
    have line: "framed t" "on_line issued ps t = Inr (put_stream ''daemon'' ?cs ps)"
      using decline_line [OF name _ d _ _ _ t, of issued ps] g ps by (auto simp: midway_def fresh_for_def)
    show ?thesis
    proof (cases "why = ''absent''")
      case False
      then show ?thesis
        using line t e ps Declined
        by (intro exI [of _ "[t]"] exI [of _ "put_stream ''daemon'' ?cs ps"] exI [of _ 0])
           (auto simp: collect_daemon_def emit_Some bindR_def midway_def answered_def fresh_for_def put_stream_def
             empty_stream_def)
    next
      case True
      obtain u where u: "commit_record ''daemon'' g 0 = Some u" by (simp add: commit_record_def)
      let ?ps = "put_stream ''daemon'' ?cs ps"
      have "framed u \<and> on_line issued ?ps u = Inr (put_stream ''daemon'' (?cs\<lparr>st_commit := Some (closing ''daemon'' g 0)\<rparr>) ?ps)"
        using commit_line [OF name g, of ?ps ?cs 0 u] u ps by (simp add: midway_def closing_def empty_stream_def int64_max_def)
      then show ?thesis
        using line t u e ps Declined True
        by (intro exI [of _ "[t, u]"] exI [of _ "put_stream ''daemon'' (?cs\<lparr>st_commit := Some (closing ''daemon'' g 0)\<rparr>) ?ps"] exI [of _ 0])
           (auto simp: collect_daemon_def emit_Some bindR_def midway_def answered_def fresh_for_def put_stream_def
             empty_stream_def)
    qed
  next
    case (Got status stats)
    let ?row = "daemon_row L status stats"
    have row: "tokens_ok ?row" using ok daemon_row_ok [of L status stats] by (simp add: source_ok_def)
    have ty: "collection_name ''unbound-daemon''" and nm: "valid_utf8 ''unbound''" by code_simp+
    obtain t where t: "object_record L ''daemon'' ''unbound'' ''unbound-daemon'' (row_text ?row) (sr_stamp src 0) = Some t"
      using row_raw [OF row] by (simp add: object_record_def)
    let ?cs = "empty_stream\<lparr>st_objects := [daemon_object L src status stats]\<rparr>"
    let ?ps = "(put_stream ''daemon'' ?cs ps)\<lparr>ps_last := mput ''daemon'' (sr_stamp src 0) (ps_last ps),
        ps_seen := mput ''daemon'' [''unbound''] (ps_seen ps)\<rparr>"
    have line: "framed t" "on_line issued ps t = Inr ?ps"
      using object_line [OF name _ nm _ ty row, of issued L "sr_stamp src 0" ps t] g ps ok t
      by (auto simp: midway_def fresh_for_def source_ok_def daemon_object_def)
    obtain u where u: "commit_record ''daemon'' g 1 = Some u" by (simp add: commit_record_def)
    have commit: "framed u \<and> on_line issued ?ps u = Inr (put_stream ''daemon'' (?cs\<lparr>st_commit := Some (closing ''daemon'' g 1)\<rparr>) ?ps)"
      using commit_line [OF name g, of ?ps ?cs 1 u] u ps
      by (simp add: midway_def closing_def empty_stream_def int64_max_def)
    show ?thesis
      using line commit t u e ps Got
      by (intro exI [of _ "[t, u]"] exI [of _ "put_stream ''daemon'' (?cs\<lparr>st_commit := Some (closing ''daemon'' g 1)\<rparr>) ?ps"] exI [of _ 1])
         (auto simp: collect_daemon_def emit_Some bindR_def midway_def answered_def fresh_for_def put_stream_def
           empty_stream_def)
  qed (use ran in simp)
qed


lemma other_accepted:
  assumes "collection_name name" and "mget issued name \<noteq> None" and "midway ps" and "fresh_for ps name"
    and "name \<noteq> ''daemon''"
  shows "\<exists>t. decline_record name ''unsupported'' ''this collector serves daemon only'' = Some t \<and> framed t \<and>
    on_line issued ps t = Inr (put_stream name (answered L src name g) ps)"
proof -
  have d: "''unsupported'' \<in> set decline_reasons" "valid_utf8 ''this collector serves daemon only''" by code_simp+
  obtain t where t: "decline_record name ''unsupported'' ''this collector serves daemon only'' = Some t"
    by (simp add: decline_record_def)
  show ?thesis
    using decline_line [OF assms(1,2) d _ _ _ t, of ps] assms(3,4,5) t
    by (auto simp: midway_def fresh_for_def answered_def)
qed

text \<open>The loop over the collections asked for, and where it stops.\<close>

definition cut_short :: "source \<Rightarrow> string list \<Rightarrow> bool" where
  "cut_short src order = (''daemon'' \<in> set order \<and> sr_daemon src = NotRun)"

lemma each_accepted:
  assumes "source_ok L src" and "issued_ok issued" and "distinct order" and "\<forall>x \<in> set order. mget issued x \<noteq> None"
    and "midway ps" and "\<forall>x \<in> set order. fresh_for ps x" and "\<not> em_err e" and "''daemon'' \<in> set order \<longrightarrow> n = 0"
  shows "\<exists>ts ps'. list_all framed ts \<and> run_lines issued ps ts = Inr ps' \<and> midway ps' \<and> ps_begin ps' = ps_begin ps \<and>
    collect_each L src issued order (e, n) =
      (if cut_short src order then ExitRuntime else ExitOK, e\<lparr>em_out := em_out e @ lines_of ts\<rparr>) \<and>
    (\<not> cut_short src order \<longrightarrow>
       ps_cols ps' = fold (\<lambda>x cols. mput x (answered L src x (the (mget issued x))) cols) order (ps_cols ps))"
  using assms(3-)
proof (induction order arbitrary: ps e n)
  case Nil
  show ?case
    using Nil.prems by (intro exI [of _ "[]"] exI [of _ ps]) (simp add: cut_short_def)
next
  case (Cons name order)
  obtain g where g: "mget issued name = Some g" using Cons.prems by auto
  then have nm: "collection_name name" "int g \<le> int64_max"
    using assms(2) by (auto simp: issued_ok_def dest!: map_of_SomeD)
  have IH: ?case
    if step: "list_all framed ts1" "run_lines issued ps ts1 = Inr ps1" "midway ps1" "ps_begin ps1 = ps_begin ps"
      "ps_cols ps1 = mput name (answered L src name g) (ps_cols ps)" "\<forall>x \<in> set order. fresh_for ps1 x"
      "collect_each L src issued (name # order) (e, n) =
         collect_each L src issued order (e\<lparr>em_out := em_out e @ lines_of ts1\<rparr>, n1)"
      "''daemon'' \<in> set order \<longrightarrow> n1 = 0" "cut_short src (name # order) = cut_short src order" for ts1 ps1 n1
  proof -
    obtain ts ps' where "list_all framed ts" "run_lines issued ps1 ts = Inr ps'" "midway ps'" "ps_begin ps' = ps_begin ps1"
      "collect_each L src issued order (e\<lparr>em_out := em_out e @ lines_of ts1\<rparr>, n1) =
         (if cut_short src order then ExitRuntime else ExitOK,
          (e\<lparr>em_out := em_out e @ lines_of ts1\<rparr>)\<lparr>em_out := em_out (e\<lparr>em_out := em_out e @ lines_of ts1\<rparr>) @ lines_of ts\<rparr>)"
      "\<not> cut_short src order \<longrightarrow> ps_cols ps' = fold (\<lambda>x cols. mput x (answered L src x (the (mget issued x))) cols) order (ps_cols ps1)"
      using Cons.IH [OF _ _ step(3,6) _ step(8), of "e\<lparr>em_out := em_out e @ lines_of ts1\<rparr>"] Cons.prems by auto
    then show ?case
      using step g by (intro exI [of _ "ts1 @ ts"] exI [of _ ps']) (simp add: run_lines_append bindR_def)
  qed
  show ?case
  proof (cases "name = ''daemon''")
    case False
    obtain t where t: "decline_record name ''unsupported'' ''this collector serves daemon only'' = Some t" "framed t"
      "on_line issued ps t = Inr (put_stream name (answered L src name g) ps)"
      using other_accepted [OF nm(1) _ Cons.prems(3) _ False, of issued L src g] g Cons.prems(4) by auto
    have "\<forall>x \<in> set order. fresh_for (put_stream name (answered L src name g) ps) x"
      using Cons.prems by (auto simp: fresh_for_def)
    then show ?thesis
      using t Cons.prems False
      by (intro IH [of "[t]" "put_stream name (answered L src name g) ps" n])
         (auto simp: bindR_def midway_def emit_Some cut_short_def)
  next
    case True
    show ?thesis
    proof (cases "sr_daemon src = NotRun")
      case stop: True
      then show ?thesis
        using True Cons.prems
        by (intro exI [of _ "[]"] exI [of _ ps]) (simp add: collect_daemon_def cut_short_def)
    next
      case ran: False
      obtain ts1 ps1 n1 where got: "collect_daemon L src ''daemon'' g (e, 0) = Some (e\<lparr>em_out := em_out e @ lines_of ts1\<rparr>, n1)"
        "list_all framed ts1" "run_lines issued ps ts1 = Inr ps1" "midway ps1" "ps_begin ps1 = ps_begin ps"
        "ps_cols ps1 = mput ''daemon'' (answered L src ''daemon'' g) (ps_cols ps)"
        and kept: "\<forall>x. x \<noteq> ''daemon'' \<longrightarrow> fresh_for ps x \<longrightarrow> fresh_for ps1 x"
        using daemon_accepted [OF assms(1), of issued g ps e] g nm True Cons.prems ran by auto
      have "\<forall>x \<in> set order. fresh_for ps1 x"
      proof
        fix x assume x: "x \<in> set order"
        then have "x \<noteq> ''daemon''" using Cons.prems(1) True by auto
        then show "fresh_for ps1 x" using kept Cons.prems(4) x by simp
      qed
      then show ?thesis
        using got True ran g Cons.prems by (intro IH [of ts1 ps1 n1]) (auto simp: cut_short_def)
    qed
  qed
qed

text \<open>The checks on the whole batch.\<close>

lemma answered_checks:
  "source_ok L src \<Longrightarrow> sr_daemon src \<noteq> NotRun \<or> name \<noteq> ''daemon'' \<Longrightarrow>
   check_decline (answered L src name g) = Inr () \<and> check_counts (answered L src name g) = Inr ()"
  by (auto simp: answered_def check_decline_def check_counts_def closing_def empty_stream_def guardR_def
      split: acquisition.split)

lemma check_streams_ok:
  "\<forall>(name, cs) \<in> set m. check_decline cs = Inr () \<and> check_counts cs = Inr () \<Longrightarrow>
   \<exists>any. check_streams m = Inr any"
  by (induction m rule: check_streams.induct) (auto simp: bindR_def)


text \<open>The batch the collator is to make of it.\<close>

definition understood :: "golib \<Rightarrow> source \<Rightarrow> (string \<Rightarrow> string) \<Rightarrow> string \<Rightarrow> nat gomap \<Rightarrow> batch" where
  "understood L src sha raw issued =
     \<lparr>b_begin = \<lparr>bg_request = the (sr_batch src), bg_batch = the (sr_batch src),
        bg_declaration = declaration_digest L src, bg_boot = the (sr_boot src), bg_timens = sr_timens src,
        bg_instance = None, bg_generations = issued\<rparr>,
      b_collections = map (\<lambda>(c, g). (c, answered L src c g)) issued,
      b_end = \<lparr>en_request = the (sr_batch src), en_batch = the (sr_batch src), en_cpu = fst (sr_costs src),
        en_wall = snd (sr_costs src)\<rparr>,
      b_hash = content_hash sha raw\<rparr>"

lemma fold_mput_answers:
  assumes "mok issued"
  shows "fold (\<lambda>x cols. mput x (f x (the (mget issued x))) cols) (mkeys issued) [] = map (\<lambda>(c, g). (c, f c g)) issued"
proof -
  have "fold (\<lambda>x cols. mput x (f x (the (mget issued x))) cols) (mkeys m) cols =
      fold (\<lambda>p cols. mput (fst p) (snd p) cols) (map (\<lambda>(c, g). (c, f c g)) m) cols"
    if "set m \<subseteq> set issued" for m cols
    using that
  proof (induction m arbitrary: cols)
    case (Cons p m)
    then have "mget issued (fst p) = Some (snd p)"
      using mok_distinct [OF assms] by (auto intro: map_of_is_SomeI)
    then show ?case using Cons by (cases p) simp
  qed simp
  from this [of issued "[]"] show ?thesis
    using mof_mok [of "map (\<lambda>(c, g). (c, f c g)) issued"] assms mok_map_snd [of f issued]
    by (simp add: mof_def)
qed

lemma stream_understood:
  assumes ok: "source_ok L src" and iss: "issued_ok issued"
  shows "\<exists>raw. collect_run L src (mkeys issued) issued =
      (if cut_short src (mkeys issued) then ExitRuntime else ExitOK, raw) \<and>
    parse_batch sha raw issued =
      (if cut_short src (mkeys issued) then Inl ''missing-end'' else Inr (understood L src sha raw issued))"
proof -
  obtain boot bat where b: "sr_boot src = Some boot" "sr_batch src = Some bat"
    using ok by (auto simp: source_ok_def split: option.splits)
  obtain cpu wall where c: "sr_costs src = (cpu, wall)" by (cases "sr_costs src")
  have mok: "mok issued" using iss by (simp add: issued_ok_def)
  obtain t where t: "begin_record L src boot bat issued = Some t" by (simp add: begin_record_def)
  let ?b = "b_begin (understood L src sha [] issued)"
  let ?ps0 = "pstate_init\<lparr>ps_begin := Some ?b\<rparr>"
  have open_line: "framed t \<and> on_line issued pstate_init t = Inr ?ps0"
    using begin_line [OF iss, of bat boot L src pstate_init t] ok b t
    by (simp add: source_ok_def pstate_init_def understood_def)
  let ?e0 = "\<lparr>em_out = t @ newline, em_err = False\<rparr>"
  obtain ts ps where each: "list_all framed ts" "run_lines issued ?ps0 ts = Inr ps" "midway ps" "ps_begin ps = Some ?b"
    "collect_each L src issued (mkeys issued) (?e0, 0) =
       (if cut_short src (mkeys issued) then ExitRuntime else ExitOK, ?e0\<lparr>em_out := em_out ?e0 @ lines_of ts\<rparr>)"
    "\<not> cut_short src (mkeys issued) \<longrightarrow>
       ps_cols ps = fold (\<lambda>x cols. mput x (answered L src x (the (mget issued x))) cols) (mkeys issued) []"
    using each_accepted [OF ok iss mok_distinct [OF mok], of ?ps0 ?e0 0]
    by (auto simp: midway_def fresh_for_def pstate_init_def mget_in_keys simp del: set_map)
  have start: "emit (begin_record L src boot bat issued) \<lparr>em_out = [], em_err = False\<rparr> = ?e0"
    by (simp add: t emit_Some)
  show ?thesis
  proof (cases "cut_short src (mkeys issued)")
    case True
    let ?raw = "lines_of (t # ts)"
    have "split_lines ?raw = t # ts" using open_line each(1) by (intro split_lines_of) simp
    then have "parse_batch sha ?raw issued = Inl ''missing-end''"
      using open_line each(2,3,4) by (auto simp: parse_batch_def Let_def bindR_def midway_def split: option.split)
    then show ?thesis
      using True each(5) b start by (intro exI [of _ ?raw]) (simp add: collect_run_def)
  next
    case False
    obtain u where u: "end_record L bat (cpu, wall) = Some u" by (simp add: end_record_def)
    let ?raw = "lines_of (t # ts @ [u])"
    let ?en = "b_end (understood L src sha [] issued)"
    have close: "framed u \<and> on_line issued ps u = Inr (ps\<lparr>ps_end := Some ?en\<rparr>)"
      using end_line [of bat L cpu wall ps u issued] ok b c u each(3)
      by (simp add: source_ok_def midway_def understood_def)
    have cols: "ps_cols ps = map (\<lambda>(c, g). (c, answered L src c g)) issued"
      using each(6) False fold_mput_answers [OF mok, of "answered L src"] by simp
    have "check_decline cs = Inr () \<and> check_counts cs = Inr ()" if stored: "(x, cs) \<in> set (ps_cols ps)" for x cs
    proof -
      obtain g where g: "(x, g) \<in> set issued" "cs = answered L src x g" using stored cols by auto
      then have "x \<in> set (mkeys issued)" by force
      then have "sr_daemon src \<noteq> NotRun \<or> x \<noteq> ''daemon''" using False by (auto simp: cut_short_def simp del: set_map)
      then show ?thesis using answered_checks [OF ok, of x g] g(2) by simp
    qed
    then obtain any where "check_streams (ps_cols ps) = Inr any"
      using check_streams_ok [of "ps_cols ps"] by auto
    then have "check_batch ?b (ps_cols ps) ?en = Inr ()"
      using ok c by (auto simp: check_batch_def bindR_def guardR_def understood_def source_ok_def)
    moreover have "split_lines ?raw = t # ts @ [u]" using open_line each(1) close by (intro split_lines_of) simp
    ultimately have "parse_batch sha ?raw issued = Inr (understood L src sha ?raw issued)"
      using open_line each(2,4) close cols
      by (simp add: parse_batch_def run_lines_append bindR_def understood_def)
    then show ?thesis
      using False each(5) b c u start by (intro exI [of _ ?raw]) (simp add: collect_run_def emit_Some)
  qed
qed

section \<open>The request of a collect\<close>

lemma graphic_no_space: "33 \<le> byte c \<Longrightarrow> byte c < 128 \<Longrightarrow> find (\<lambda>p. is_prefix p (c # s)) space_seqs = None"
proof -
  assume "33 \<le> byte c" "byte c < 128"
  then have "CHR 0x20 \<noteq> c" "CHR 0x09 \<noteq> c" "CHR 0x0A \<noteq> c" "CHR 0x0B \<noteq> c" "CHR 0x0C \<noteq> c" "CHR 0x0D \<noteq> c"
    "CHR 0xC2 \<noteq> c" "CHR 0xE1 \<noteq> c" "CHR 0xE2 \<noteq> c" "CHR 0xE3 \<noteq> c"
    by auto
  then show ?thesis by (simp add: space_seqs_def)
qed

abbreviation graphic :: "string \<Rightarrow> bool" where
  "graphic s \<equiv> list_all (\<lambda>c. 33 \<le> byte c \<and> byte c < 128) s"

lemma graphic_line: "graphic s \<Longrightarrow> CHR 0x0A \<notin> set s"
  by (induction s) auto

lemma fields_word: "graphic w \<Longrightarrow> fields_from word (w @ s) = fields_from (word @ w) s"
  by (induction w arbitrary: word) (auto simp: graphic_no_space)

lemma fields_space:
  "word \<noteq> [] \<Longrightarrow> fields_from word (CHR '' '' # s) = word # fields_from [] s"
  "word \<noteq> [] \<Longrightarrow> fields_from word [CHR 0x0A] = [word]"
  by (simp_all add: space_seqs_def)

lemma fields_words:
  "list_all (\<lambda>w. graphic w \<and> w \<noteq> []) ws \<Longrightarrow> word \<noteq> [] \<Longrightarrow>
   fields_from word (concat (map (\<lambda>w. '' '' @ w) ws) @ newline) = word # ws"
proof (induction ws arbitrary: word)
  case (Cons w ws)
  then have "fields_from [] (w @ concat (map (\<lambda>w. '' '' @ w) ws) @ newline) = w # ws"
    by (simp add: fields_word)
  then show ?case using Cons.prems by (simp add: fields_space del: fields_from.simps)
qed (simp add: newline_def fields_space del: fields_from.simps)

definition request_token :: "string \<times> nat \<Rightarrow> string" where
  "request_token = (\<lambda>(name, g). name @ '':'' @ nat_str g)"

lemma collection_name_graphic: "collection_name c \<Longrightarrow> graphic c"
  by (auto simp: collection_name_def is_lower_def is_digit_def list_all_iff split: list.splits dest!: bspec)

lemma nat_str_graphic: "graphic (nat_str n)"
  using nat_str_digits [of n] by (auto simp: list_all_iff is_digit_def)

lemma cut_token: "cut_last CHR '':'' (request_token (c, g)) = Some (c, nat_str g)"
proof -
  have "CHR '':'' \<notin> set (nat_str g)" using nat_str_digits [of g] by (auto simp: list_all_iff is_digit_def)
  then have "cut_at CHR '':'' (rev (request_token (c, g))) = Some (rev (nat_str g), rev c)"
    by (simp add: request_token_def cut_at_Some)
  then show ?thesis by (simp add: cut_last_def)
qed

lemma parse_tokens_issued:
  "mok (done' @ m) \<Longrightarrow> \<forall>(c, g) \<in> set m. collection_name c \<and> int g \<le> int64_max \<Longrightarrow>
   parse_tokens (map request_token m) (mkeys done') done' = Some (mkeys (done' @ m), done' @ m)"
proof (induction m arbitrary: done')
  case (Cons p m)
  obtain c g where p: "p = (c, g)" by (cases p)
  have "\<forall>k \<in> set (mkeys done'). k < c"
    using Cons.prems(1) by (auto simp: mok_def p sorted_wrt_append)
  then have "mget done' c = None" and "mput c g done' = done' @ [(c, g)]"
    by (auto simp: map_of_eq_None_iff) (induction done'; auto)
  moreover have "collection_name c" "c \<noteq> []" "parse_uint64 (nat_str g) = Some g"
    using Cons.prems(2) nat_str_digits [of g] by (auto simp: p parse_uint64_def collection_name_def int64_max_def)
  ultimately show ?case
    using Cons.IH [of "done' @ [(c, g)]"] Cons.prems by (simp add: p cut_token)
qed simp

lemma request_understood:
  assumes "issued_ok issued" and "issued \<noteq> []" and "length (collect_request issued @ newline) \<le> request_bound"
  shows "collector_run L src (collect_request issued @ newline) = collect_run L src (mkeys issued) issued"
proof -
  have req: "collect_request issued = ''collect'' @ concat (map (\<lambda>w. '' '' @ w) (map request_token issued))"
    by (simp add: collect_request_def request_token_def comp_def case_prod_unfold)
  have words: "list_all (\<lambda>w. graphic w \<and> w \<noteq> []) (map request_token issued)"
    using assms(1) collection_name_graphic nat_str_graphic
    by (auto simp: issued_ok_def request_token_def list_all_iff)
  have "CHR 0x0A \<notin> set (collect_request issued)"
  proof -
    have "CHR 0x0A \<notin> set w" if "w \<in> set (map request_token issued)" for w
      using words graphic_line that unfolding list_all_iff by blast
    then show ?thesis unfolding req by auto
  qed
  then have "takeWhile (\<lambda>c. c \<noteq> CHR 0x0A) (collect_request issued @ [CHR 0x0A]) = collect_request issued"
    by (subst takeWhile_append2) auto
  then have "request_line (collect_request issued @ newline) = Some (collect_request issued @ newline)"
    using assms(3) by (simp add: request_line_def newline_def Let_def)
  moreover have "go_fields (collect_request issued @ newline) = ''collect'' # map request_token issued"
    using fields_words [OF words, of "''collect''"] fields_word [of "''collect''" "[]"]
    by (simp add: go_fields_def req del: fields_from.simps)
  moreover have "parse_collect (map request_token issued) = Some (mkeys issued, issued)"
    using parse_tokens_issued [of "[]" issued] assms(1,2) by (simp add: parse_collect_def issued_ok_def)
  ultimately show ?thesis by (simp add: collector_run_def)
qed


section \<open>Properties\<close>

text \<open>
  Property C7. The collector and the collator understand each other. For any issued generations
  that fit the request line and any readings of the resolver, the collator that asks the
  collector gets, within its byte ceiling, a batch that says of each collection exactly what the
  collector found: the daemon's one row with every fact as derived, a decline with its reason,
  an absence that commits nothing, and a decline for a collection it does not serve; and when the
  reading failed, so that the collector stopped in the middle, the collator refuses the stream
  instead of taking what was cut off for an answer.
\<close>

theorem collector_answers_collator:
  assumes "source_ok L src" and "issued_ok issued" and "issued \<noteq> []"
    and "length (collect_request issued @ newline) \<le> request_bound"
    and "cl_socket cl = (\<lambda>request. Some (snd (collector_run L src request)))"
  shows "collect sha cl issued =
    (let raw = snd (collector_run L src (collect_request issued @ newline)) in
     if ceiling_of cl < int (length raw) then Inl (Violated ''byte-ceiling-exceeded'')
     else if ''daemon'' \<in> set (mkeys issued) \<and> sr_daemon src = NotRun then Inl (Violated ''missing-end'')
     else Inr \<lparr>b_begin = \<lparr>bg_request = the (sr_batch src), bg_batch = the (sr_batch src),
           bg_declaration = declaration_digest L src, bg_boot = the (sr_boot src), bg_timens = sr_timens src,
           bg_instance = None, bg_generations = issued\<rparr>,
         b_collections = map (\<lambda>(c, g). (c, answered L src c g)) issued,
         b_end = \<lparr>en_request = the (sr_batch src), en_batch = the (sr_batch src), en_cpu = fst (sr_costs src),
           en_wall = snd (sr_costs src)\<rparr>,
         b_hash = ''sha256:'' @ sha raw\<rparr>)"
proof -
  obtain raw where raw: "collect_run L src (mkeys issued) issued =
      (if cut_short src (mkeys issued) then ExitRuntime else ExitOK, raw)"
    "parse_batch sha raw issued =
      (if cut_short src (mkeys issued) then Inl ''missing-end'' else Inr (understood L src sha raw issued))"
    using stream_understood [OF assms(1,2)] by blast
  have "collector_run L src (collect_request issued @ newline) = collect_run L src (mkeys issued) issued"
    by (rule request_understood [OF assms(2,3,4)])
  moreover have "0 < ceiling_of cl" by (simp add: ceiling_of_def default_byte_ceiling_def)
  ultimately show ?thesis
    using raw assms(3,5)
    by (auto simp: collect_def exchange_def bindR_def Let_def min_def cut_short_def understood_def content_hash_def
        simp del: set_map)
qed

definition demo_golib :: golib where
  "demo_golib = \<lparr>sha256 = (\<lambda>s. ''00''), fmt_float = (\<lambda>x. if x = Fin 1 then ''1'' else ''0.5''), fmt_g = (\<lambda>x. ''0'')\<rparr>"

definition demo_stats :: string where
  "demo_stats = ''thread0.num.queries=3'' @ newline @ ''total.num.queries=07''"

definition demo_files :: "string \<Rightarrow> replay_file" where
  "demo_files name =
     (if name = ''status.txt'' then Holds ''uptime: 12 seconds''
      else if name = ''stats_noreset.txt'' then
        Holds demo_stats
      else Missing)"

definition demo_source :: source where
  "demo_source = replay_source demo_files ''{}''"

definition demo_asked :: "nat gomap" where
  "demo_asked = [(''cache'', 4), (''daemon'', 7)]"


definition demo_client :: client where
  "demo_client = \<lparr>cl_ceiling = 0, cl_socket = (\<lambda>request. Some (snd (collector_run demo_golib demo_source request)))\<rparr>"

lemma demo_source_ok: "source_ok demo_golib demo_source"
proof -
  have s: "sr_boot demo_source = Some ''5e000000-0000-4000-8000-000000000001''" "sr_batch demo_source = Some ''replay''"
    "sr_timens demo_source = 0" "sr_stamp demo_source 0 = Fin 1" "sr_costs demo_source = (Fin (1 / 2), Fin 1)"
    by code_simp+
  have got: "case sr_daemon demo_source of Got a b \<Rightarrow> True | _ \<Rightarrow> False" by code_simp
  have "uuid_shaped ''5e000000-0000-4000-8000-000000000001''"
    "\<not> equal_fold ''5e000000-0000-4000-8000-000000000001'' nil_uuid" "valid_utf8 ''replay''"
    "valid_utf8 (declaration_digest demo_golib demo_source)" "json_number ''0''" "json_number ''1''" "json_number ''0.5''"
    "parse_float ''1'' = Some (Fin 1)" "parse_float ''0.5'' = Some (Fin (1 / 2))"
    by code_simp+
  then show ?thesis
    using s got
    by (simp add: source_ok_def float_reads_def demo_golib_def int64_min_def int64_max_def split: acquisition.splits)
qed

text \<open>The stream of the example, record by record.\<close>

lemma demo_records:
  \<open>begin_record demo_golib demo_source ''5e000000-0000-4000-8000-000000000001'' ''replay'' demo_asked =
     Some ''{"record":"begin","request":"replay","batch":"replay","declaration":"sha256:00","boot_id":"5e000000-0000-4000-8000-000000000001","timens":0,"instance":null,"generations":{"cache":4,"daemon":7}}''\<close>
  \<open>decline_record ''cache'' ''unsupported'' ''this collector serves daemon only'' =
     Some ''{"record":"decline","collection":"cache","reason":"unsupported","detail":"this collector serves daemon only"}''\<close>
  \<open>object_record demo_golib ''daemon'' ''unbound'' ''unbound-daemon'' (row_text [(''Uptime'', ''12''), (''NumQueries'', ''7'')]) (Fin 1) =
     Some ''{"record":"object","collection":"daemon","name":"unbound","type":"unbound-daemon","facts":{"Uptime":12,"NumQueries":7},"at":1}''\<close>
  \<open>commit_record ''daemon'' 7 1 =
     Some ''{"record":"commit","collection":"daemon","generation":7,"objects":1,"assertions":0,"unobservable":0}''\<close>
  \<open>end_record demo_golib ''replay'' (Fin (1 / 2), Fin 1) =
     Some ''{"record":"end","request":"replay","batch":"replay","cpu_ms":0.5,"wall_ms":1}''\<close>
  by code_simp+

lemma demo_reading:
  "sr_daemon demo_source = Got ''uptime: 12 seconds'' demo_stats"
  by (simp add: demo_source_def replay_source_def replay_daemon_def demo_files_def)

lemma demo_row:
  "daemon_row demo_golib ''uptime: 12 seconds'' demo_stats =
   [(''Uptime'', ''12''), (''NumQueries'', ''7'')]"
  by code_simp

lemma demo_stamp: "sr_stamp demo_source 0 = Fin 1" "sr_costs demo_source = (Fin (1 / 2), Fin 1)"
  "sr_boot demo_source = Some ''5e000000-0000-4000-8000-000000000001''" "sr_batch demo_source = Some ''replay''"
  by code_simp+

lemma demo_length: "length (snd (collect_run demo_golib demo_source (mkeys demo_asked) demo_asked)) < 1000"
proof -
  have "length newline = 1" by (simp add: newline_def)
  then show ?thesis
    by (simp add: collect_run_def collect_daemon_def demo_reading demo_row demo_stamp
        demo_records [unfolded demo_asked_def] emit_def demo_asked_def Let_def del: One_nat_def)
qed

lemma collector_answers_collator_witness:
  "\<exists>b. collect (\<lambda>raw. ''11'') demo_client demo_asked = Inr b \<and>
     map fst (b_collections b) = [''cache'', ''daemon'']"
proof -
  have asked: "issued_ok demo_asked" "demo_asked \<noteq> []"
    by (auto simp: issued_ok_def demo_asked_def mok_def collection_name_def is_lower_def int64_max_def)
  have len: "length (collect_request demo_asked @ newline) \<le> request_bound" by code_simp
  have run: "collector_run demo_golib demo_source (collect_request demo_asked @ newline) =
      collect_run demo_golib demo_source (mkeys demo_asked) demo_asked"
    by (rule request_understood [OF asked len])
  have small: "\<not> ceiling_of demo_client < int (length (snd (collector_run demo_golib demo_source (collect_request demo_asked @ newline))))"
    using demo_length by (simp add: run ceiling_of_def demo_client_def default_byte_ceiling_def)
  have ran: "case sr_daemon demo_source of NotRun \<Rightarrow> False | _ \<Rightarrow> True" by code_simp
  have cl: "cl_socket demo_client = (\<lambda>request. Some (snd (collector_run demo_golib demo_source request)))"
    by (simp add: demo_client_def)
  show ?thesis
    using collector_answers_collator [OF demo_source_ok asked len cl, of "\<lambda>raw. ''11''"] small ran
    by (simp add: Let_def split: acquisition.splits) (simp_all add: demo_asked_def)
qed

end
