(* ===== verification/Serving.thy ===== *)
theory Serving
  imports Conversation Changes Query
begin

text \<open>
  The collator as a server (go/internal/collate/run.go, rest.go, hostguard.go): which collectors
  it was configured with and how it paces them, which of them a reverse request goes to, the
  routes of relations, of changes and of the three verbs, and the names the listener answers to.
  The prose of a refusal is not modelled, its code and its status are.
\<close>

section \<open>Start-up (run.go)\<close>

record collector_config =
  co_name :: string
  co_socket :: string

fun parse_entries :: "string list \<Rightarrow> string list \<Rightarrow> collector_config list option" where
  "parse_entries seen [] = Some []"
| "parse_entries seen (entry # entries) =
     (case cut_at CHR ''='' (trim_space entry) of
        None \<Rightarrow> None
      | Some (name, socket) \<Rightarrow>
          if name = [] \<or> socket = [] \<or> name \<in> set seen then None
          else map_option (\<lambda>cs. \<lparr>co_name = name, co_socket = socket\<rparr> # cs) (parse_entries (name # seen) entries))"

text \<open>The names are distinct, so every sorting by name gives the one order.\<close>

definition parse_collectors :: "string \<Rightarrow> collector_config list option" where
  "parse_collectors env =
     (if trim_space env = [] then Some []
      else map_option (sort_key co_name) (parse_entries [] (split_on CHR '','' env)))"

definition declared_name :: "json \<Rightarrow> string option" where
  "declared_name j = Option.bind (struct_of j) (\<lambda>kvs. text_field kvs ''name'')"

definition declared_names :: "string \<Rightarrow> string list" where
  "declared_names raw =
     (case json_unmarshal raw of None \<Rightarrow> [] | Some j \<Rightarrow>
     (case struct_of j of None \<Rightarrow> [] | Some kvs \<Rightarrow>
     (case Option.bind (list_field kvs ''collections'') (mapO declared_name) of
        None \<Rightarrow> []
      | Some names \<Rightarrow>
          sort (names @
            (case (case struct_get kvs ''lookups'' of None \<Rightarrow> Some [] | Some m \<Rightarrow> raw_map m) of
               None \<Rightarrow> []
             | Some lookups \<Rightarrow> mkeys lookups)))))"

text \<open>The collectors in the order of their names, each with the client of its socket.\<close>

definition reverse_from :: "client \<Rightarrow> client gomap \<Rightarrow> client gomap" where
  "reverse_from c reverse =
     (case declare_doc c of
        Inl e \<Rightarrow> reverse
      | Inr raw \<Rightarrow> fold (\<lambda>name. mput name c) (declared_names raw) reverse)"

definition reverse_for :: "client list \<Rightarrow> client gomap" where
  "reverse_for collectors = fold reverse_from collectors []"

definition retry_interval :: int where
  "retry_interval = 60 * 10 ^ 9"

definition tightest :: "int list \<Rightarrow> int" where
  "tightest promises = fold (\<lambda>d interval. if interval = 0 \<or> d < interval then d else interval) promises 0"

text \<open>\<open>order\<close> is the order in which Go walks the map of promises.\<close>

definition next_interval :: "(int list \<Rightarrow> int list) \<Rightarrow> client \<Rightarrow> int" where
  "next_interval order c =
     (case declare_doc c of
        Inl e \<Rightarrow> retry_interval
      | Inr raw \<Rightarrow>
          (case parse_declaration raw of
             None \<Rightarrow> retry_interval
           | Some (collector, cols, fresh) \<Rightarrow>
               (let interval = tightest (order (map snd fresh))
                in if interval \<le> 0 then retry_interval else interval)))"

section \<open>The reverse routes (rest.go)\<close>

datatype verb_reply =
    BadInput
  | NoCollectors
  | NoCollectorServes
  | RefusedVerb string
  | FailedVerb
  | Answered string

definition query_get :: "query \<Rightarrow> string \<Rightarrow> string" where
  "query_get q key = (case mget q key of None \<Rightarrow> [] | Some vs \<Rightarrow> first_value vs)"

definition verb_token :: "string \<Rightarrow> string \<Rightarrow> query \<Rightarrow> string" where
  "verb_token verb path q =
     (if verb = ''lookup'' then query_get q ''input''
      else if path = [] then query_get q ''object'' else path)"

text \<open>
  \<open>Reverse\<close> and a verb's route with what they dial: each exchange with a collector is told
  with the collector and the request it carried.
\<close>

type_synonym dialled = "client \<times> string"

definition reverse_run ::
  "client \<Rightarrow> string \<Rightarrow> string \<Rightarrow> string \<Rightarrow> bool gomap option \<Rightarrow> dialled list \<times> (client_error + string)"
where
  "reverse_run c verb collection token declared =
     (case requestable verb collection token declared of
        Inl e \<Rightarrow> ([], Inl e)
      | Inr _ \<Rightarrow>
          ([(c, reverse_request verb collection token)],
           bindR (exchange c (reverse_request verb collection token)) (\<lambda>raw.
             if raw = [] then Inl AnsweredNothing else Inr raw)))"

definition serve_verb_run ::
  "client gomap \<Rightarrow> string \<Rightarrow> string \<Rightarrow> string \<Rightarrow> query \<Rightarrow> db \<Rightarrow> dialled list \<times> verb_reply \<times> db"
where
  "serve_verb_run reverse verb name path q d =
     (let token = verb_token verb path q in
      if verb = ''lookup'' \<and> token = [] then ([], BadInput, d)
      else if reverse = [] then ([], NoCollectors, d)
      else case mget reverse name of
        None \<Rightarrow> ([], NoCollectorServes, d)
      | Some c \<Rightarrow>
          (case reverse_run c verb name token (Some [(name, True)]) of
             (dials, Inl (Refused why)) \<Rightarrow> (dials, RefusedVerb why, add_rejection name [] (''reverse-'' @ why) d)
           | (dials, Inl _) \<Rightarrow> (dials, FailedVerb, add_rejection name [] (''reverse-'' @ verb @ ''-failed'') d)
           | (dials, Inr raw) \<Rightarrow> (dials, Answered raw, d)))"

definition serve_verb ::
  "client gomap \<Rightarrow> string \<Rightarrow> string \<Rightarrow> string \<Rightarrow> query \<Rightarrow> db \<Rightarrow> verb_reply \<times> db"
where
  "serve_verb reverse verb name path q d = snd (serve_verb_run reverse verb name path q d)"

definition verb_status :: "verb_reply \<Rightarrow> nat" where
  "verb_status reply = (case reply of
       BadInput \<Rightarrow> 400 | NoCollectors \<Rightarrow> 200 | NoCollectorServes \<Rightarrow> 502 | RefusedVerb _ \<Rightarrow> 400
     | FailedVerb \<Rightarrow> 502 | Answered _ \<Rightarrow> 200)"

section \<open>Relations and changes (rest.go)\<close>

record relation_view =
  vw_id :: string
  vw_source :: string
  vw_type :: string
  vw_vantage :: string
  vw_observability :: observability
  vw_kind :: string
  vw_name :: string
  vw_resolved :: bool
  vw_target :: "string option"
  vw_facts :: "json option"

datatype 'a route_reply = UnknownCollection | Failure | Reply 'a

definition relation_view_of :: "rel_row \<Rightarrow> relation_view" where
  "relation_view_of r =
     \<lparr>vw_id = r_key r, vw_source = r_source_id r, vw_type = r_type r, vw_vantage = r_vantage r,
      vw_observability = r_obs r, vw_kind = r_target_kind r, vw_name = r_target_name r,
      vw_resolved = r_resolved r,
      vw_target = (if r_resolved r \<and> r_target_id r \<noteq> Some [] then r_target_id r else None),
      vw_facts = r_facts r\<rparr>"

definition relations_route :: "db \<Rightarrow> string \<Rightarrow> relation_view list route_reply" where
  "relations_route d name =
     (if \<not> has_collection name d then UnknownCollection
      else Reply (map relation_view_of (relations_of name d)))"

definition changes_route :: "lib \<Rightarrow> db \<Rightarrow> string \<Rightarrow> query \<Rightarrow> collection_changes route_reply" where
  "changes_route L d name q =
     (if \<not> has_collection name d then UnknownCollection
      else
        (let scope = query_get q ''instance'';
             asked = query_get q ''since'';
             since = (if asked = [] then record_begins name scope d else asked)
         in case changes_since L name scope since d of None \<Rightarrow> Failure | Some cc \<Rightarrow> Reply cc))"

section \<open>The names the listener answers to (hostguard.go)\<close>

text \<open>\<open>net.SplitHostPort\<close>, the host only.\<close>

definition split_host_port :: "string \<Rightarrow> string option" where
  "split_host_port s =
     (case cut_last CHR '':'' s of
        None \<Rightarrow> None
      | Some (before, port) \<Rightarrow>
          if s \<noteq> [] \<and> hd s = CHR ''['' then
            (case cut_at CHR '']'' s of
               None \<Rightarrow> None
             | Some (a, b) \<Rightarrow>
                 if length a + 1 = length before \<and> CHR ''['' \<notin> set (tl s) \<and> CHR '']'' \<notin> set b
                 then Some (tl a) else None)
          else if CHR '':'' \<in> set before \<or> CHR ''['' \<in> set s \<or> CHR '']'' \<in> set s then None
          else Some before)"

definition trim_brackets :: "string \<Rightarrow> string" where
  "trim_brackets s =
     (let bracket = (\<lambda>c. c = CHR ''['' \<or> c = CHR '']'')
      in rev (dropWhile bracket (rev (dropWhile bracket s))))"

text \<open>\<open>net.ParseIP\<close>: four decimal fields, or an IPv6 address without a zone.\<close>

definition ipv4_field :: "string \<Rightarrow> bool" where
  "ipv4_field f =
     (f \<noteq> [] \<and> list_all is_digit f \<and> (hd f = CHR ''0'' \<longrightarrow> length f = 1) \<and> dec_val f \<le> 255)"

definition ipv4 :: "string \<Rightarrow> bool" where
  "ipv4 s = (let fs = split_on CHR ''.'' s in length fs = 4 \<and> list_all ipv4_field fs)"

text \<open>
  The fields of an IPv6 address from byte \<open>i\<close> of the 16 on; \<open>e\<close> is whether a double colon was
  seen. A field is up to four hexadecimal digits, the last one may be an IPv4 address.
\<close>

definition hex_char :: "char \<Rightarrow> bool" where
  "hex_char c = (is_digit c \<or> 97 \<le> byte c \<and> byte c \<le> 102 \<or> 65 \<le> byte c \<and> byte c \<le> 70)"

function ipv6_fields :: "nat \<Rightarrow> bool \<Rightarrow> string \<Rightarrow> bool" where
  "ipv6_fields i e s =
     (if 16 \<le> i then s = [] \<and> \<not> e
      else
        (let f = takeWhile hex_char s; r = dropWhile hex_char s
         in if f = [] \<or> 4 < length f then False
            else case r of
              [] \<Rightarrow> if i + 2 = 16 then \<not> e else e
            | c # t \<Rightarrow>
                if c = CHR ''.'' then
                  (e \<or> i = 12) \<and> i + 4 \<le> 16 \<and> ipv4 s \<and> (if i + 4 = 16 then \<not> e else e)
                else if c \<noteq> CHR '':'' then False
                else case t of
                  [] \<Rightarrow> False
                | d # u \<Rightarrow>
                    if d = CHR '':'' then
                      (if e then False else if u = [] then i + 2 < 16 else ipv6_fields (i + 2) True u)
                    else ipv6_fields (i + 2) e t))"
  by pat_completeness auto
termination
proof (relation "measure (\<lambda>(i, e, s). length s)", simp, goal_cases)
  case (1 i e s f r c t d u)
  then have "dropWhile hex_char s = c # d # u" by simp
  then have "length (c # d # u) \<le> length s" by (metis length_dropWhile_le)
  then show ?case by simp
next
  case (2 i e s f r c t d u)
  then have "dropWhile hex_char s = c # t" by simp
  then have "length (c # t) \<le> length s" by (metis length_dropWhile_le)
  then show ?case by simp
qed

declare ipv6_fields.simps [simp del]

definition ipv6 :: "string \<Rightarrow> bool" where
  "ipv6 s =
     (CHR ''%'' \<notin> set s \<and>
      (if is_prefix ''::'' s then (drop 2 s = [] \<or> ipv6_fields 0 True (drop 2 s)) else ipv6_fields 0 False s))"

text \<open>The first dot or colon decides which of the two it is read as.\<close>

definition parse_ip :: "string \<Rightarrow> bool" where
  "parse_ip s = (case find (\<lambda>c. c = CHR ''.'' \<or> c = CHR '':'' \<or> c = CHR ''%'') s of
       Some c \<Rightarrow> if c = CHR ''.'' then ipv4 s else if c = CHR '':'' then ipv6 s else False
     | None \<Rightarrow> False)"

definition claimed_names :: "string \<Rightarrow> string list" where
  "claimed_names allowed =
     filter (\<lambda>name. name \<noteq> []) (map (\<lambda>name. to_lower (trim_space name)) (split_on CHR '','' allowed))"

definition host_allowed :: "string \<Rightarrow> string list \<Rightarrow> bool" where
  "host_allowed hostport claimed =
     (if hostport = [] then True
      else
        (let host = to_lower (trim_brackets (case split_host_port hostport of Some h \<Rightarrow> h | None \<Rightarrow> hostport))
         in host = ''localhost'' \<or> parse_ip host \<or> host \<in> set claimed))"

text \<open>The request goes on to the handler, or is answered 421.\<close>

definition host_guard :: "('r \<Rightarrow> 'a) \<Rightarrow> string \<Rightarrow> string \<Rightarrow> 'r \<Rightarrow> 'a option" where
  "host_guard handler allowed hostport request =
     (if host_allowed hostport (claimed_names allowed) then Some (handler request) else None)"


section \<open>Who is asked\<close>

definition declares :: "client \<Rightarrow> string \<Rightarrow> bool" where
  "declares c name = (case declare_doc c of Inl e \<Rightarrow> False | Inr raw \<Rightarrow> name \<in> set (declared_names raw))"

lemma mget_fold_same: "mget (fold (\<lambda>n. mput n c) ns m) name = (if name \<in> set ns then Some c else mget m name)"
  by (induction ns arbitrary: m) auto

lemma reverse_from_get: "mget (reverse_from c m) name = (if declares c name then Some c else mget m name)"
  by (simp add: reverse_from_def declares_def mget_fold_same split: sum.split)

lemma reverse_for_get: "mget (reverse_for cs) name = find (\<lambda>c. declares c name) (rev cs)"
  unfolding reverse_for_def by (induction cs rule: rev_induct) (simp_all add: reverse_from_get)

lemma find_split: "find P xs = Some x \<Longrightarrow> \<exists>a b. xs = a @ x # b \<and> P x \<and> (\<forall>y \<in> set a. \<not> P y)"
proof (induction xs)
  case (Cons y xs)
  show ?case
  proof (cases "P y")
    case False
    with Cons obtain a b where "xs = a @ x # b" "P x" "\<forall>y \<in> set a. \<not> P y" by auto
    then show ?thesis using False by (intro exI [of _ "y # a"] exI [of _ b]) simp
  qed (use Cons in \<open>intro exI [of _ "[]"] exI [of _ xs], simp\<close>)
qed simp

lemma find_free: "\<forall>y \<in> set a. \<not> P y \<Longrightarrow> P x \<Longrightarrow> find P (a @ x # b) = Some x"
  by (induction a) auto

lemma gomap_empty: "m = [] \<longleftrightarrow> (\<forall>x. mget m x = None)"
  by (cases m) (auto intro: exI [of _ "fst (hd m)"])

text \<open>The last collector by name that declares it: two may, and then the other one is never asked.\<close>

lemma reverse_for_last:
  "mget (reverse_for cs) name = Some c \<longleftrightarrow>
   (\<exists>before later. cs = before @ c # later \<and> declares c name \<and> (\<forall>x \<in> set later. \<not> declares x name))"
proof
  assume "mget (reverse_for cs) name = Some c"
  then obtain before later where "rev cs = before @ c # later" "declares c name" "\<forall>x \<in> set before. \<not> declares x name"
    unfolding reverse_for_get using find_split by metis
  then show "\<exists>before later. cs = before @ c # later \<and> declares c name \<and> (\<forall>x \<in> set later. \<not> declares x name)"
    by (intro exI [of _ "rev later"] exI [of _ "rev before"]) (simp add: rev_swap)
next
  assume "\<exists>before later. cs = before @ c # later \<and> declares c name \<and> (\<forall>x \<in> set later. \<not> declares x name)"
  then show "mget (reverse_for cs) name = Some c"
    unfolding reverse_for_get by (auto simp: find_free)
qed

lemma reverse_call_Inr:
  assumes "reverse_call c verb name token (Some [(name, True)]) = Inr raw"
  shows "cl_socket c (reverse_request verb name token @ newline) = Some raw \<and> raw \<noteq> []"
proof -
  obtain u where "requestable verb name token (Some [(name, True)]) = Inr u"
    and got: "exchange c (reverse_request verb name token) = Inr raw" and ne: "raw \<noteq> []"
    using assms unfolding reverse_call_def bindR_Inr_iff by (metis Inl_Inr_False Inr_inject)
  obtain response where r: "cl_socket c (reverse_request verb name token @ newline) = Some response"
    "take (nat (ceiling_of c + 1)) response = raw" "int (length raw) \<noteq> ceiling_of c + 1"
  proof (cases "cl_socket c (reverse_request verb name token @ newline)")
    case (Some response)
    show thesis
    proof (rule that [OF Some])
      show "take (nat (ceiling_of c + 1)) response = raw" "int (length raw) \<noteq> ceiling_of c + 1"
        using got Some by (simp_all add: exchange_def Let_def del: length_take split: if_split_asm)
    qed
  qed (use got in \<open>simp add: exchange_def\<close>)
  have "0 < ceiling_of c" by (simp add: ceiling_of_def default_byte_ceiling_def)
  then have "length raw \<noteq> nat (ceiling_of c + 1)" using r(3) by linarith
  moreover have "length raw = min (length response) (nat (ceiling_of c + 1))"
    unfolding r(2) [symmetric] length_take ..
  ultimately have "length response \<le> nat (ceiling_of c + 1)" by linarith
  then have "response = raw" using r(2) by (simp only: take_all)
  then show ?thesis using r(1) ne by simp
qed

lemma reverse_call_refused:
  "reverse_call c verb name token declared = Inl (Refused why) \<longleftrightarrow>
   requestable verb name token declared = Inl (Refused why)"
proof -
  have "exchange c r \<noteq> Inl (Refused why)" for r
    by (simp add: exchange_def Let_def split: option.split)
  moreover have "requestable verb name token declared = Inl e \<Longrightarrow> \<exists>w. e = Refused w" for e
    by (auto simp: requestable_def split: if_splits option.splits)
  ultimately show ?thesis
    by (cases "requestable verb name token declared"; cases "exchange c (reverse_request verb name token)")
       (auto simp: reverse_call_def bindR_def)
qed

lemma reverse_run_call:
  "reverse_run c verb name token declared =
     (case requestable verb name token declared of Inl e \<Rightarrow> [] | Inr _ \<Rightarrow> [(c, reverse_request verb name token)],
      reverse_call c verb name token declared)"
  by (simp add: reverse_run_def reverse_call_def bindR_def split: sum.split)

lemma serve_verb_eq:
  "serve_verb reverse verb name path q d =
     (let token = verb_token verb path q in
      if verb = ''lookup'' \<and> token = [] then (BadInput, d)
      else if reverse = [] then (NoCollectors, d)
      else case mget reverse name of
        None \<Rightarrow> (NoCollectorServes, d)
      | Some c \<Rightarrow>
          (case reverse_call c verb name token (Some [(name, True)]) of
             Inl (Refused why) \<Rightarrow> (RefusedVerb why, add_rejection name [] (''reverse-'' @ why) d)
           | Inl _ \<Rightarrow> (FailedVerb, add_rejection name [] (''reverse-'' @ verb @ ''-failed'') d)
           | Inr raw \<Rightarrow> (Answered raw, d)))"
  by (cases "mget reverse name"; cases "reverse_call (the (mget reverse name)) verb name (verb_token verb path q) (Some [(name, True)])")
    (auto simp: serve_verb_def serve_verb_run_def reverse_run_call Let_def split: client_error.split)

text \<open>
  Property C32. A reverse request dials one collector at most, and only one that declares the
  name it asks about: the last of them in the list of collectors, once, with this request. An
  answer is exactly the bytes that collector sent, and none of it is stored. When no
  collector declares the name the answer says so and nobody is dialled; a request that is refused
  was refused before any dial; a request that failed was put to that collector. A refusal
  and a failure each leave one rejection row and nothing else.
\<close>

theorem reverse_asks_who_declares:
  shows "case serve_verb_run (reverse_for cs) verb name path q d of
      (dials, Answered raw, d') \<Rightarrow>
        d' = d \<and> raw \<noteq> [] \<and>
        (\<exists>before c later. cs = before @ c # later \<and> declares c name \<and> list_all (\<lambda>x. \<not> declares x name) later \<and>
           dials = [(c, reverse_request verb name (verb_token verb path q))] \<and>
           cl_socket c (reverse_request verb name (verb_token verb path q) @ newline) = Some raw)
    | (dials, FailedVerb, d') \<Rightarrow>
        d' = add_rejection name [] (''reverse-'' @ verb @ ''-failed'') d \<and>
        (\<exists>before c later. cs = before @ c # later \<and> declares c name \<and> list_all (\<lambda>x. \<not> declares x name) later \<and>
           dials = [(c, reverse_request verb name (verb_token verb path q))])
    | (dials, RefusedVerb why, d') \<Rightarrow>
        dials = [] \<and> d' = add_rejection name [] (''reverse-'' @ why) d \<and>
        requestable verb name (verb_token verb path q) (Some [(name, True)]) = Inl (Refused why)
    | (dials, NoCollectorServes, d') \<Rightarrow>
        dials = [] \<and> d' = d \<and> list_all (\<lambda>c. \<not> declares c name) cs \<and> list_ex (\<lambda>c. \<exists>x. declares c x) cs
    | (dials, NoCollectors, d') \<Rightarrow> dials = [] \<and> d' = d \<and> list_all (\<lambda>c. \<forall>x. \<not> declares c x) cs
    | (dials, BadInput, d') \<Rightarrow> dials = [] \<and> d' = d \<and> verb = ''lookup'' \<and> query_get q ''input'' = []"
proof -
  have none: "reverse_for cs = [] \<longleftrightarrow> (\<forall>c \<in> set cs. \<forall>x. \<not> declares c x)"
    unfolding gomap_empty by (auto simp: reverse_for_get find_None_iff)
  have miss: "mget (reverse_for cs) name = None \<longleftrightarrow> (\<forall>c \<in> set cs. \<not> declares c name)"
    by (auto simp: reverse_for_get find_None_iff)
  consider (bad) "verb = ''lookup''" "verb_token verb path q = []"
    | (nobody) "\<not> (verb = ''lookup'' \<and> verb_token verb path q = [])" "reverse_for cs = []"
    | (miss) "\<not> (verb = ''lookup'' \<and> verb_token verb path q = [])" "reverse_for cs \<noteq> []" "mget (reverse_for cs) name = None"
    | (ask) c where "\<not> (verb = ''lookup'' \<and> verb_token verb path q = [])" "reverse_for cs \<noteq> []" "mget (reverse_for cs) name = Some c"
    by (cases "mget (reverse_for cs) name") blast+
  then show ?thesis
  proof cases
    case bad
    then have "serve_verb_run (reverse_for cs) verb name path q d = ([], BadInput, d)" by (simp add: serve_verb_run_def)
    then show ?thesis using bad by (simp add: verb_token_def)
  next
    case nobody
    then have "serve_verb_run (reverse_for cs) verb name path q d = ([], NoCollectors, d)"
      by (auto simp: serve_verb_run_def Let_def)
    then show ?thesis using none nobody(2) by (simp only: prod.case verb_reply.case list_all_iff list_ex_iff) blast
  next
    case nowhere: miss
    then have "serve_verb_run (reverse_for cs) verb name path q d = ([], NoCollectorServes, d)"
      by (auto simp: serve_verb_run_def Let_def)
    then show ?thesis using none miss nowhere(2,3) by (simp only: prod.case verb_reply.case list_all_iff list_ex_iff) blast
  next
    case ask
    let ?answer = "reverse_call c verb name (verb_token verb path q) (Some [(name, True)])"
    let ?dials = "case requestable verb name (verb_token verb path q) (Some [(name, True)]) of
        Inl e \<Rightarrow> [] | Inr _ \<Rightarrow> [(c, reverse_request verb name (verb_token verb path q))]"
    have asked: "serve_verb_run (reverse_for cs) verb name path q d = (?dials, case ?answer of
        Inl (Refused why) \<Rightarrow> (RefusedVerb why, add_rejection name [] (''reverse-'' @ why) d)
      | Inl _ \<Rightarrow> (FailedVerb, add_rejection name [] (''reverse-'' @ verb @ ''-failed'') d)
      | Inr raw \<Rightarrow> (Answered raw, d))"
      using ask by (simp add: serve_verb_run_def reverse_run_call Let_def split: sum.split client_error.split)
    note here = reverse_for_last [of cs name c]
    have open_dial: "?dials = [(c, reverse_request verb name (verb_token verb path q))]"
      if "\<forall>why. ?answer \<noteq> Inl (Refused why)"
      using that by (auto simp: reverse_call_refused requestable_def split: if_splits option.splits)
    show ?thesis
    proof (cases ?answer)
      case (Inl e)
      consider (refused) why where "e = Refused why" | (failed) "\<forall>why. e \<noteq> Refused why" by blast
      then show ?thesis
      proof cases
        case refused
        then have r: "?answer = Inl (Refused why)" using Inl by simp
        then have "requestable verb name (verb_token verb path q) (Some [(name, True)]) = Inl (Refused why)"
          by (simp only: reverse_call_refused)
        moreover from this have "serve_verb_run (reverse_for cs) verb name path q d =
            ([], RefusedVerb why, add_rejection name [] (''reverse-'' @ why) d)"
          unfolding asked r by simp
        ultimately show ?thesis by simp
      next
        case failed
        then have "serve_verb_run (reverse_for cs) verb name path q d =
            (?dials, FailedVerb, add_rejection name [] (''reverse-'' @ verb @ ''-failed'') d)"
          using Inl by (cases e) (simp_all add: asked)
        then show ?thesis
          using failed Inl open_dial ask(3) here
          by (simp only: prod.case verb_reply.case list_all_iff list_ex_iff sum.inject) blast
      qed
    next
      case (Inr raw)
      then have "serve_verb_run (reverse_for cs) verb name path q d = (?dials, Answered raw, d)" by (simp add: asked)
      then show ?thesis
        using reverse_call_Inr [OF Inr] Inr open_dial ask(3) here
        by (simp only: prod.case verb_reply.case list_all_iff list_ex_iff sum.distinct) blast
    qed
  qed
qed

section \<open>How often a collector is asked\<close>

lemma tightest_min:
  assumes "\<forall>d \<in> set (p # ps). 0 < d"
  shows "tightest (p # ps) = Min (set (p # ps))"
proof -
  have "fold (\<lambda>d interval. if interval = 0 \<or> d < interval then d else interval) ds i = fold min ds i"
    if "\<forall>d \<in> set ds. 0 < d" "0 < i" for ds :: "int list" and i
    using that by (induction ds arbitrary: i) (auto simp: min_def)
  then show ?thesis using assms unfolding Min.set_eq_fold by (simp add: tightest_def)
qed

text \<open>A promise of no time: what was walked before it is forgotten.\<close>

lemma tightest_zero:
  assumes "\<forall>d \<in> set before. 0 \<le> d" and "\<forall>d \<in> set after. 0 < d"
  shows "tightest (before @ 0 # after) = (if after = [] then 0 else Min (set after))"
proof -
  let ?step = "\<lambda>d interval. if interval = 0 \<or> d < interval then d else interval :: int"
  have "0 \<le> fold ?step ds i" if "\<forall>d \<in> set ds. 0 \<le> d" "0 \<le> i" for ds i
    using that by (induction ds arbitrary: i) auto
  from this [OF assms(1), of 0] have "tightest (before @ 0 # after) = fold ?step after 0"
    by (auto simp: tightest_def)
  also have "fold ?step after 0 = tightest after" by (simp add: tightest_def)
  also have "tightest after = (if after = [] then 0 else Min (set after))"
    using assms(2) tightest_min by (cases after) (simp_all add: tightest_def)
  finally show ?thesis .
qed

lemma tightest_negative:
  assumes "p \<in> set ds" and "p < 0"
  shows "tightest ds < 0"
proof -
  let ?step = "\<lambda>d interval. if interval = 0 \<or> d < interval then d else interval :: int"
  have keep: "fold ?step xs i < 0" if "i < 0" for xs i
    using that by (induction xs arbitrary: i) auto
  have "fold ?step xs i < 0" if "p \<in> set xs" for xs i
    using that assms(2)
  proof (induction xs arbitrary: i)
    case (Cons x xs)
    show ?case
    proof (cases "p = x")
      case True
      then have "?step x i < 0" using Cons.prems by auto
      then show ?thesis using keep by simp
    next
      case False
      then show ?thesis using Cons by simp
    qed
  qed simp
  then show ?thesis using assms(1) by (simp add: tightest_def)
qed

lemma pace_of:
  "t = (if e then 0 else m) \<Longrightarrow> (\<not> e \<Longrightarrow> 0 < m) \<Longrightarrow>
   (if t \<le> 0 then r else t) = (if e then r else (m :: int))"
  by auto

text \<open>
  Property C34. A collector is asked again after a positive time. It is a minute when the
  collector cannot be asked, its declaration cannot be read, it promises nothing, or a promise is
  negative (one that overflowed). When every promise is positive it is the tightest of them, in
  whatever order they are walked. A promise of no time at all, which the grammar accepts, is
  taken for none seen yet: the pace is then the tightest of the promises walked after the last
  such one, or a minute when none is, so it depends on the order.
\<close>

theorem pace_is_tightest_promise:
  assumes "\<And>ds. set (order ds) = set ds"
  shows "0 < next_interval order c \<and>
    (case declare_doc c of
       Inl e \<Rightarrow> next_interval order c = retry_interval
     | Inr raw \<Rightarrow>
         (case parse_declaration raw of
            None \<Rightarrow> next_interval order c = retry_interval
          | Some (collector, cols, fresh) \<Rightarrow>
              (fresh = [] \<or> (\<exists>p \<in> snd ` set fresh. p < 0) \<longrightarrow> next_interval order c = retry_interval) \<and>
              (fresh \<noteq> [] \<and> (\<forall>p \<in> snd ` set fresh. 0 < p) \<longrightarrow>
                 next_interval order c = Min (snd ` set fresh)) \<and>
              (\<forall>before after. order (map snd fresh) = before @ 0 # after \<and>
                 (\<forall>p \<in> set before. 0 \<le> p) \<and> (\<forall>p \<in> set after. 0 < p) \<longrightarrow>
                 next_interval order c = (if after = [] then retry_interval else Min (set after)))))"
proof -
  have "0 < next_interval order c"
    by (simp add: next_interval_def retry_interval_def Let_def split: sum.split option.split prod.split)
  moreover have "(fresh = [] \<or> (\<exists>p \<in> snd ` set fresh. p < 0) \<longrightarrow> next_interval order c = retry_interval) \<and>
      (fresh \<noteq> [] \<and> (\<forall>p \<in> snd ` set fresh. 0 < p) \<longrightarrow> next_interval order c = Min (snd ` set fresh)) \<and>
      (\<forall>before after. order (map snd fresh) = before @ 0 # after \<and>
         (\<forall>p \<in> set before. 0 \<le> p) \<and> (\<forall>p \<in> set after. 0 < p) \<longrightarrow>
         next_interval order c = (if after = [] then retry_interval else Min (set after)))"
    if held: "declare_doc c = Inr raw" "parse_declaration raw = Some (collector, cols, fresh)"
    for raw collector cols fresh
  proof -
    let ?ps = "order (map snd fresh)"
    have same: "set ?ps = snd ` set fresh" by (simp add: assms)
    have pace: "next_interval order c = (if tightest ?ps \<le> 0 then retry_interval else tightest ?ps)"
      using held by (simp add: next_interval_def Let_def)
    have least: "0 < Min A" if "finite A" "A \<noteq> {}" "\<forall>p \<in> A. 0 < p" for A :: "int set"
      using that by simp
    show ?thesis
    proof (intro conjI impI allI)
      assume "fresh = [] \<or> (\<exists>p \<in> snd ` set fresh. p < 0)"
      then have "?ps = [] \<or> tightest ?ps < 0"
        using tightest_negative [of _ ?ps] same by auto
      then show "next_interval order c = retry_interval" unfolding pace by (auto simp: tightest_def)
    next
      assume pos: "fresh \<noteq> [] \<and> (\<forall>p \<in> snd ` set fresh. 0 < p)"
      then obtain p ps where ps: "?ps = p # ps" using same by (cases ?ps) auto
      have "tightest ?ps = Min (snd ` set fresh)"
        using tightest_min [of p ps] pos unfolding ps [symmetric] same by blast
      moreover have "0 < Min (snd ` set fresh)" using pos by (intro least) auto
      ultimately show "next_interval order c = Min (snd ` set fresh)" unfolding pace by simp
    next
      fix before after
      assume o: "?ps = before @ 0 # after \<and> (\<forall>p \<in> set before. 0 \<le> p) \<and> (\<forall>p \<in> set after. 0 < p)"
      then have "tightest ?ps = (if after = [] then 0 else Min (set after))"
        using tightest_zero [of before after] by simp
      moreover have "0 < Min (set after)" if "after \<noteq> []" using o that by (intro least) auto
      ultimately show "next_interval order c = (if after = [] then retry_interval else Min (set after))"
        unfolding pace by (rule pace_of)
    qed
  qed
  ultimately show ?thesis
    by (simp add: next_interval_def split: sum.split option.split prod.split)
qed

text \<open>A collector of three collections, and one whose second collection promises no time.\<close>

definition pace_document :: "string \<Rightarrow> string" where
  \<open>pace_document second = ''{"collections":[{"name":"a","freshness":"5m"},{"name":"b","freshness":"'' @ second @
     ''"},{"name":"c","freshness":"2m"}]}''\<close>

definition pace_client :: "string \<Rightarrow> client" where
  "pace_client second = \<lparr>cl_ceiling = 0, cl_socket = (\<lambda>request. Some (pace_document second))\<rparr>"

lemma pace_is_tightest_promise_witness:
  "next_interval rev (pace_client ''30s'') = 30 * 10 ^ 9 \<and>
   next_interval rev (pace_client ''0s'') = 300 * 10 ^ 9 \<and> next_interval id (pace_client ''0s'') = 120 * 10 ^ 9"
proof -
  have d: "declare_doc (pace_client ''30s'') = Inr (pace_document ''30s'')"
    "declare_doc (pace_client ''0s'') = Inr (pace_document ''0s'')"
    by code_simp+
  have f: "map_option (\<lambda>(collector, cols, fresh). map snd fresh) (parse_declaration (pace_document ''30s'')) =
      Some [300 * 10 ^ 9, 30 * 10 ^ 9, 120 * 10 ^ 9]"
    "map_option (\<lambda>(collector, cols, fresh). map snd fresh) (parse_declaration (pace_document ''0s'')) =
      Some [300 * 10 ^ 9, 0, 120 * 10 ^ 9]"
    by code_simp+
  obtain who cols fresh where p: "parse_declaration (pace_document ''30s'') = Some (who, cols, fresh)"
      "map snd fresh = [300 * 10 ^ 9, 30 * 10 ^ 9, 120 * 10 ^ 9]"
    using f(1) by (auto split: prod.splits)
  obtain who' cols' fresh' where p': "parse_declaration (pace_document ''0s'') = Some (who', cols', fresh')"
      "map snd fresh' = [300 * 10 ^ 9, 0, 120 * 10 ^ 9]"
    using f(2) by (auto split: prod.splits)
  have s: "snd ` set fresh = {300 * 10 ^ 9, 30 * 10 ^ 9, 120 * 10 ^ 9}" "fresh \<noteq> []"
    using p(2) by (auto simp flip: set_map)
  have "next_interval rev (pace_client ''30s'') = Min (snd ` set fresh)"
  proof -
    have "\<forall>q \<in> snd ` set fresh. 0 < q" unfolding s by simp
    then show ?thesis
      using pace_is_tightest_promise [of rev "pace_client ''30s''", THEN conjunct2] s(2)
      unfolding d(1) sum.case p(1) option.case prod.case by simp
  qed
  moreover have "next_interval rev (pace_client ''0s'') = Min (set [300 * 10 ^ 9])"
    using pace_is_tightest_promise [of rev "pace_client ''0s''", THEN conjunct2,
        unfolded d(2) sum.case p'(1) option.case prod.case, THEN conjunct2, THEN conjunct2, THEN spec, THEN spec,
        of "[120 * 10 ^ 9]" "[300 * 10 ^ 9]"] p'(2)
    by simp
  moreover have "next_interval id (pace_client ''0s'') = Min (set [120 * 10 ^ 9])"
    using pace_is_tightest_promise [of id "pace_client ''0s''", THEN conjunct2,
        unfolded d(2) sum.case p'(1) option.case prod.case, THEN conjunct2, THEN conjunct2, THEN spec, THEN spec,
        of "[300 * 10 ^ 9]" "[120 * 10 ^ 9]"] p'(2)
    by simp
  ultimately show ?thesis unfolding s(1) by simp
qed

text \<open>With a promise of no time at all the order of the map decides the pace.\<close>

lemma zero_promise_order: "tightest [0, 5] = 5 \<and> tightest [5, 0] = 0"
  by (simp add: tightest_def)

section \<open>Host names\<close>

text \<open>A domain name: letters, digits, dashes and dots, at least one letter.\<close>

definition is_letter :: "char \<Rightarrow> bool" where
  "is_letter c = (97 \<le> byte (lower_char c) \<and> byte (lower_char c) \<le> 122)"

definition domain_name :: "string \<Rightarrow> bool" where
  "domain_name s =
     (list_all (\<lambda>c. is_letter c \<or> is_digit c \<or> c = CHR ''-'' \<or> c = CHR ''.'') s \<and> list_ex is_letter s)"

lemma cut_last_None: "c \<notin> set s \<Longrightarrow> cut_last c s = None"
  by (simp add: cut_last_def cut_at_None)

lemma cut_last_Some: "c \<notin> set b \<Longrightarrow> cut_last c (a @ c # b) = Some (a, b)"
  using cut_at_Some [of c "rev (a @ c # b)" "rev b" "rev a"] by (simp add: cut_last_def)

lemma domain_chars:
  assumes "domain_name s"
  shows "CHR '':'' \<notin> set s" "CHR ''['' \<notin> set s" "CHR '']'' \<notin> set s" "CHR ''%'' \<notin> set s" "s \<noteq> []"
  using assms by (auto simp: domain_name_def list_all_iff is_letter_def is_digit_def lower_char_def)

lemma trim_brackets_free:
  assumes "CHR ''['' \<notin> set s" "CHR '']'' \<notin> set s"
  shows "trim_brackets s = s"
proof -
  have "dropWhile (\<lambda>c. c = CHR ''['' \<or> c = CHR '']'') u = u" if "set u \<subseteq> set s" for u
    using assms that by (cases u) auto
  then show ?thesis by (simp add: trim_brackets_def)
qed

lemma find_hit: "find P s = Some c \<Longrightarrow> P c \<and> c \<in> set s"
  by (auto simp: find_Some_iff)

lemma ipv4_chars: "ipv4 s \<Longrightarrow> x \<in> set s \<Longrightarrow> x = CHR ''.'' \<or> is_digit x"
  using in_split_on [of x s "CHR ''.''"] by (auto simp: ipv4_def ipv4_field_def Let_def list_all_iff)

lemma domain_no_ip: "domain_name s \<Longrightarrow> \<not> parse_ip (to_lower s)"
proof
  assume s: "domain_name s" and ip: "parse_ip (to_lower s)"
  obtain x where x: "x \<in> set s" "is_letter x" using s by (auto simp: domain_name_def list_ex_iff)
  have low: "lower_char c \<noteq> CHR '':''" "lower_char c \<noteq> CHR ''%''" if "c \<in> set s" for c
    using that s by (auto simp: domain_name_def list_all_iff is_letter_def is_digit_def lower_char_def)
  obtain c where c: "find (\<lambda>c. c = CHR ''.'' \<or> c = CHR '':'' \<or> c = CHR ''%'') (to_lower s) = Some c"
    using ip by (auto simp: parse_ip_def split: option.splits)
  with find_hit [OF c] low have "c = CHR ''.''" by (auto simp: to_lower_def)
  with ip c have "ipv4 (to_lower s)" by (simp add: parse_ip_def)
  moreover have "lower_char x \<in> set (to_lower s)" using x by (simp add: to_lower_def)
  ultimately have "lower_char x = CHR ''.'' \<or> is_digit (lower_char x)" by (rule ipv4_chars)
  then show False using x by (auto simp: is_letter_def is_digit_def)
qed

lemma split_bare: "domain_name name \<Longrightarrow> split_host_port name = None"
  by (simp add: split_host_port_def cut_last_None domain_chars)

lemma split_with_port:
  assumes "domain_name name" and "list_all is_digit port"
  shows "split_host_port (name @ CHR '':'' # port) = Some name"
proof -
  have port: "CHR '':'' \<notin> set port" "CHR ''['' \<notin> set port" "CHR '']'' \<notin> set port"
    using assms(2) by (auto simp: list_all_iff is_digit_def)
  have "hd (name @ CHR '':'' # port) \<noteq> CHR ''[''"
    using domain_chars [OF assms(1)] by (cases name) auto
  then show ?thesis
    using port domain_chars [OF assms(1)] by (simp add: split_host_port_def cut_last_Some)
qed

lemma allowed_name:
  assumes "domain_name name" and "list_all is_digit port" and "hostport \<in> {name, name @ CHR '':'' # port}"
  shows "host_allowed hostport claimed = (to_lower name = ''localhost'' \<or> to_lower name \<in> set claimed)"
proof -
  have "(case split_host_port hostport of Some h \<Rightarrow> h | None \<Rightarrow> hostport) = name"
    using assms split_bare split_with_port by auto
  moreover have "hostport \<noteq> []" using assms domain_chars [OF assms(1)] by auto
  ultimately show ?thesis
    using domain_no_ip [OF assms(1)] trim_brackets_free [of name] domain_chars [OF assms(1)]
    by (simp add: host_allowed_def Let_def)
qed

text \<open>
  A request that names a host by a domain name, with or without a port, reaches the
  handler exactly when that name is localhost or one the deployment claimed, whatever the case
  and the white space it was claimed with: a rebound name is answered 421 and never the data.
\<close>

theorem rebound_name_refused:
  assumes "domain_name name" and "list_all is_digit port" and "hostport \<in> {name, name @ CHR '':'' # port}"
  shows "host_guard handler allowed hostport request =
    (if equal_fold name ''localhost'' \<or> (\<exists>claim \<in> set (split_on CHR '','' allowed). equal_fold name (trim_space claim))
     then Some (handler request) else None)"
proof -
  have "to_lower ''localhost'' = ''localhost''" by code_simp
  moreover have "to_lower name \<noteq> []" using domain_chars(5) [OF assms(1)] by (simp add: to_lower_def)
  then have "to_lower name \<in> set (claimed_names allowed) \<longleftrightarrow>
      (\<exists>claim \<in> set (split_on CHR '','' allowed). to_lower name = to_lower (trim_space claim))"
    by (auto simp: claimed_names_def)
  ultimately show ?thesis
    by (simp add: host_guard_def allowed_name [OF assms] equal_fold_def)
qed

lemma rebound_name_refused_witness:
  "host_guard (\<lambda>r. r) ''nas.lan , Media'' ''evil.example:8095'' (1::nat) = None \<and>
   host_guard (\<lambda>r. r) ''nas.lan , Media'' ''NAS.lan:8095'' (1::nat) = Some 1"
proof -
  have evil: "domain_name ''evil.example''" "list_all is_digit ''8095''"
    "\<not> (equal_fold ''evil.example'' ''localhost'' \<or>
        list_ex (\<lambda>claim. equal_fold ''evil.example'' (trim_space claim)) (split_on CHR '','' ''nas.lan , Media''))"
    by code_simp+
  have nas: "domain_name ''NAS.lan''"
    "list_ex (\<lambda>claim. equal_fold ''NAS.lan'' (trim_space claim)) (split_on CHR '','' ''nas.lan , Media'')"
    by code_simp+
  show ?thesis
    using rebound_name_refused [OF evil(1,2), of "''evil.example:8095''" "\<lambda>r. r" "''nas.lan , Media''" "1::nat"]
      rebound_name_refused [OF nas(1) evil(2), of "''NAS.lan:8095''" "\<lambda>r. r" "''nas.lan , Media''" "1::nat"]
      evil(3) nas(2)
    by (auto simp: list_ex_iff)
qed


section \<open>From the route to the collector and back\<close>

text \<open>A name that can be asked for as it is: printable ASCII, spaces and percents included.\<close>

definition askable :: "string \<Rightarrow> bool" where
  "askable s = (s \<noteq> [] \<and> list_all (\<lambda>c. 32 \<le> byte c \<and> byte c < 127) s)"

lemma encode_graphic: "askable s \<Longrightarrow> graphic (encode_name_token s) \<and> encode_name_token s \<noteq> []"
proof -
  assume s: "askable s"
  have ch: "graphic (encode_char c) \<and> encode_char c \<noteq> []" if "32 \<le> byte c" "byte c < 127" for c
  proof -
    have "c = CHR '' ''" if "byte c = 32"
    proof -
      have "c = char_of (byte c)" by simp
      also have "\<dots> = CHR '' ''" unfolding that by code_simp
      finally show ?thesis .
    qed
    then have "33 \<le> byte c" if "c \<noteq> CHR '' ''" using that \<open>32 \<le> byte c\<close> by (cases "byte c = 32") auto
    then show ?thesis using that by (auto simp: encode_char_def)
  qed
  obtain c r where "s = c # r" using s by (cases s) (auto simp: askable_def)
  then show ?thesis using s ch by (auto simp: encode_chars askable_def list_all_iff)
qed

lemma askable_words:
  assumes "graphic name" "name \<noteq> []" "askable token"
  shows "go_fields (reverse_request verb name token @ newline) =
    (if graphic verb \<and> verb \<noteq> [] then [verb, name, encode_name_token token]
     else go_fields (reverse_request verb name token @ newline))"
proof -
  have "fields_from verb (concat (map (\<lambda>w. '' '' @ w) [name, encode_name_token token]) @ newline) =
      [verb, name, encode_name_token token]" if "verb \<noteq> []"
    using assms encode_graphic [OF assms(3)] that by (intro fields_words) simp_all
  moreover have "fields_from [] (verb @ x) = fields_from verb x" if "graphic verb" for x
    using fields_word [OF that, of "[]"] by simp
  ultimately show ?thesis
    by (simp add: go_fields_def reverse_request_def del: fields_from.simps)
qed

text \<open>
  Property C33. The object and evidence routes reach the collector's own verbs with the name as
  it was asked for, whatever spaces, percents and slashes it has, and what the collector prints
  comes back byte for byte; an answer above the byte ceiling is refused whole.
\<close>

theorem verb_reaches_collector:
  assumes "verb \<in> {''object'', ''evidence''}" and "graphic name" and "name \<noteq> []" and "askable token"
    and "length (reverse_request verb name token @ newline) \<le> request_bound"
    and "mget reverse name = Some cl" and "cl_socket cl = (\<lambda>request. Some (snd (collector_run L src request)))"
  shows "serve_verb reverse verb name token q d =
    (let raw = snd (if verb = ''object'' then serve_object L src name token else serve_evidence L src name token) in
     if ceiling_of cl < int (length raw) \<or> raw = []
     then (FailedVerb, add_rejection name [] (''reverse-'' @ verb @ ''-failed'') d)
     else (Answered raw, d))"
proof -
  have token: "token \<noteq> []" "CHR 0x0A \<notin> set token" "CHR 0x0D \<notin> set token"
    using assms(4) by (auto simp: askable_def list_all_iff)
  have name: "CHR 0x0A \<notin> set name" "CHR 0x0D \<notin> set name" "CHR '' '' \<notin> set name"
    using assms(2) by (auto simp: list_all_iff)
  have ok: "requestable verb name token (Some [(name, True)]) = Inr ()"
    using assms(1,3) token name by (auto simp: requestable_def reverse_verbs_def)
  have verb: "graphic verb" "verb \<noteq> []" "CHR 0x0A \<notin> set verb" using assms(1) by auto
  let ?line = "reverse_request verb name token @ newline"
  have "CHR 0x0A \<notin> set (reverse_request verb name token)"
    using verb name token by (simp add: reverse_request_def encode_lines)
  then have "takeWhile (\<lambda>c. c \<noteq> CHR 0x0A) (reverse_request verb name token @ [CHR 0x0A]) = reverse_request verb name token"
    by (subst takeWhile_append2) auto
  then have "request_line ?line = Some ?line"
    using assms(5) by (simp add: request_line_def newline_def Let_def)
  moreover have "go_fields ?line = [verb, name, encode_name_token token]"
    using askable_words [OF assms(2,3,4), of verb] verb by simp
  ultimately have run: "collector_run L src ?line =
      (if verb = ''object'' then serve_object L src name token else serve_evidence L src name token)"
    using assms(1) by (auto simp: collector_run_def decode_encode)
  define raw where "raw = snd (collector_run L src ?line)"
  have ceiling: "0 < ceiling_of cl" by (simp add: ceiling_of_def default_byte_ceiling_def)
  have "exchange cl (reverse_request verb name token) =
      (if ceiling_of cl < int (length raw) then Inl (Violated ''byte-ceiling-exceeded'') else Inr raw)"
    using ceiling by (auto simp: exchange_def assms(7) raw_def [symmetric] Let_def min_def)
  then have "reverse_call cl verb name token (Some [(name, True)]) =
      (if ceiling_of cl < int (length raw) then Inl (Violated ''byte-ceiling-exceeded'')
       else if raw = [] then Inl AnsweredNothing else Inr raw)"
    by (simp add: reverse_call_def ok)
  moreover have "verb_token verb token q = token" using assms(1) token by (auto simp: verb_token_def)
  moreover have "reverse \<noteq> []" using assms(6) by auto
  moreover have "verb \<noteq> ''lookup''" using assms(1) by auto
  ultimately show ?thesis
    unfolding run [symmetric] raw_def [symmetric] Let_def
    by (simp add: serve_verb_eq Let_def assms(6))
qed

lemma verb_reaches_collector_witness:
  "serve_verb [(''daemon'', demo_client)] ''object'' ''daemon'' ''unbound 100%'' [] empty_db =
   (Answered (snd (serve_object demo_golib demo_source ''daemon'' ''unbound 100%'')), empty_db)"
proof -
  have "let raw = snd (serve_object demo_golib demo_source ''daemon'' ''unbound 100%'') in raw \<noteq> [] \<and> length raw < 1000"
    and "askable ''unbound 100%''" and "length (reverse_request ''object'' ''daemon'' ''unbound 100%'' @ newline) \<le> request_bound"
    by code_simp+
  moreover have "ceiling_of demo_client = 4194304" by (simp add: ceiling_of_def demo_client_def default_byte_ceiling_def)
  moreover have "cl_socket demo_client = (\<lambda>request. Some (snd (collector_run demo_golib demo_source request)))"
    by (simp add: demo_client_def)
  ultimately show ?thesis
    using verb_reaches_collector [of "''object''" "''daemon''" "''unbound 100%''" "[(''daemon'', demo_client)]" demo_client
        demo_golib demo_source "[]" empty_db]
    by (simp add: Let_def)
qed

text \<open>
  A name with a tab is one the collator sends and the collector takes for two: the route
  answers that the collector did not answer.
\<close>

lemma tab_in_a_name:
  assumes "mget reverse name = Some cl" and "cl_socket cl = (\<lambda>request. Some (snd (collector_run L src request)))"
    and "name = ''daemon''"
  shows "serve_verb reverse ''object'' name [CHR ''a'', CHR 0x09, CHR ''b''] q d =
    (FailedVerb, add_rejection name [] ''reverse-object-failed'' d)"
proof -
  have ok: "requestable ''object'' ''daemon'' [CHR ''a'', CHR 0x09, CHR ''b''] (Some [(''daemon'', True)]) = Inr ()"
    and fields: "(case request_line (reverse_request ''object'' ''daemon'' [CHR ''a'', CHR 0x09, CHR ''b''] @ newline) of
       Some line \<Rightarrow> go_fields line = [''object'', ''daemon'', ''a'', ''b''] | None \<Rightarrow> False)"
    by code_simp+
  obtain line where line: "request_line (reverse_request ''object'' ''daemon'' [CHR ''a'', CHR 0x09, CHR ''b''] @ newline) = Some line"
    "go_fields line = [''object'', ''daemon'', ''a'', ''b'']"
    using fields by (auto split: option.splits)
  have "collector_run L src (reverse_request ''object'' ''daemon'' [CHR ''a'', CHR 0x09, CHR ''b''] @ newline) = (ExitRequest, [])"
    by (simp add: collector_run_def line)
  then have "exchange cl (reverse_request ''object'' ''daemon'' [CHR ''a'', CHR 0x09, CHR ''b'']) = Inr []"
    by (simp add: exchange_def assms(2) Let_def ceiling_of_def default_byte_ceiling_def)
  then have "reverse_call cl ''object'' ''daemon'' [CHR ''a'', CHR 0x09, CHR ''b''] (Some [(''daemon'', True)]) = Inl AnsweredNothing"
    by (simp add: reverse_call_def ok)
  then show ?thesis
    using assms(1,3) by (auto simp: serve_verb_eq verb_token_def Let_def)
qed

end
