(* ===== verification/Html.thy ===== *)
theory Html
  imports CollectionPage
begin

text \<open>
  The markup of the pages, and what it may contain. \<open>elem\<close> writes one element as the templates of
  go/internal/collate do. \<open>safe_html\<close> reads a text the way a browser finds its tags and demands
  that they nest, that every one of them is an element of the pages with attributes of the pages,
  and that every link stays on the host; \<open>html\<close> is the same from inside, the rules by which the
  pages are put together.
\<close>

section \<open>Elements\<close>

type_synonym attributes = "(string \<times> string option) list"

definition attribute :: "string \<times> string option \<Rightarrow> string" where
  "attribute a = '' '' @ fst a @ (case snd a of None \<Rightarrow> [] | Some v \<Rightarrow> ''='' @ quoted v)"

definition elem :: "string \<Rightarrow> attributes \<Rightarrow> string \<Rightarrow> string" where
  "elem tag attrs body =
     ''<'' @ tag @ concat (map attribute attrs) @ ''>'' @ body @ ''</'' @ tag @ ''>''"

abbreviation cls :: "string \<Rightarrow> string \<times> string option" where
  "cls c \<equiv> (''class'', Some c)"

abbreviation href :: "string \<Rightarrow> string \<times> string option" where
  "href target \<equiv> (''href'', Some target)"

definition em_dash :: string where
  "em_dash = [CHR 0xE2, CHR 0x80, CHR 0x94]"

definition middle_dot :: string where
  "middle_dot = [CHR 0xC2, CHR 0xB7]"

section \<open>What a text may contain\<close>

definition page_tags :: "string list" where
  "page_tags =
     [''a'', ''dd'', ''details'', ''div'', ''dl'', ''dt'', ''footer'', ''h1'', ''h2'', ''li'', ''nav'', ''p'', ''section'',
      ''span'', ''summary'', ''table'', ''tbody'', ''td'', ''th'', ''thead'', ''time'', ''tr'', ''ul'']"

text \<open>A value that cannot end its attribute; a link within the host; a style without a function or a second declaration.\<close>

definition value_ok :: "string \<Rightarrow> bool" where
  "value_ok v = list_all (\<lambda>c. c \<noteq> CHR 0x22 \<and> c \<noteq> CHR ''<'' \<and> c \<noteq> CHR ''>'') v"

definition link_ok :: "string \<Rightarrow> bool" where
  "link_ok v = (v = ''/'' \<or> v = ''#main'' \<or> is_prefix ''/collections/'' v \<or> is_prefix ''/v1/collections/'' v)"

definition page_attributes :: "string list" where
  "page_attributes = [''class'', ''title'', ''datetime'', ''colspan'', ''aria-label'', ''aria-current'']"

definition attr_ok :: "string \<times> string option \<Rightarrow> bool" where
  "attr_ok a = (case a of
       (name, None) \<Rightarrow> name = ''open''
     | (name, Some v) \<Rightarrow> value_ok v \<and>
         (if name = ''href'' then link_ok v
          else if name = ''style'' then CHR ''('' \<notin> set v \<and> CHR '';'' \<notin> set v
          else name \<in> set page_attributes))"

text \<open>The text between an opening and the next closing bracket; \<open>None\<close> where the last is not closed.\<close>

function tags :: "string \<Rightarrow> string list option" where
  "tags s = (case dropWhile (\<lambda>c. c \<noteq> CHR ''<'') s of
       [] \<Rightarrow> Some []
     | _ # t \<Rightarrow>
         (case dropWhile (\<lambda>c. c \<noteq> CHR ''>'') t of
            [] \<Rightarrow> None
          | _ # r \<Rightarrow> map_option ((#) (takeWhile (\<lambda>c. c \<noteq> CHR ''>'') t)) (tags r)))"
  by pat_completeness auto
termination
proof (relation "measure length", simp, goal_cases)
  case (1 s x t y r)
  then have "dropWhile (\<lambda>c. c \<noteq> CHR ''<'') s = x # t" "dropWhile (\<lambda>c. c \<noteq> CHR ''>'') t = y # r" by simp_all
  then have "length (x # t) \<le> length s" "length (y # r) \<le> length t" by (metis length_dropWhile_le)+
  then show ?case by simp
qed

declare tags.simps [simp del]

text \<open>The attributes of a tag: names, with or without a value between double quotes.\<close>

function tag_attributes :: "string \<Rightarrow> attributes option" where
  "tag_attributes s =
     (if s = [] then Some []
      else if hd s \<noteq> CHR '' '' then None
      else
        (let name = takeWhile (\<lambda>c. c \<noteq> CHR ''='' \<and> c \<noteq> CHR '' '') (tl s);
             r = dropWhile (\<lambda>c. c \<noteq> CHR ''='' \<and> c \<noteq> CHR '' '') (tl s)
         in if r = [] \<or> hd r = CHR '' '' then map_option ((#) (name, None)) (tag_attributes r)
            else case tl r of
              [] \<Rightarrow> None
            | q # u \<Rightarrow>
                if q \<noteq> CHR 0x22 then None
                else case dropWhile (\<lambda>c. c \<noteq> CHR 0x22) u of
                  [] \<Rightarrow> None
                | _ # rest \<Rightarrow>
                    map_option ((#) (name, Some (takeWhile (\<lambda>c. c \<noteq> CHR 0x22) u))) (tag_attributes rest)))"
  by pat_completeness auto
termination
proof (relation "measure length", simp, goal_cases)
  case (1 s name r)
  then show ?case by (cases s) (simp_all add: length_dropWhile_le le_imp_less_Suc)
next
  case (2 s name r q u y rest)
  then have "dropWhile (\<lambda>c. c \<noteq> CHR ''='' \<and> c \<noteq> CHR '' '') (tl s) = r" "dropWhile (\<lambda>c. c \<noteq> CHR 0x22) u = y # rest"
    "tl r = q # u" by simp_all
  then have "length r \<le> length (tl s)" "length (y # rest) \<le> length u" "Suc (length u) \<le> length r"
    by (metis length_dropWhile_le, metis length_dropWhile_le, cases r, auto)
  then show ?case by (cases s) simp_all
qed

declare tag_attributes.simps [simp del]

definition opens :: "string \<Rightarrow> string option" where
  "opens t =
     (let name = takeWhile (\<lambda>c. c \<noteq> CHR '' '') t
      in case tag_attributes (dropWhile (\<lambda>c. c \<noteq> CHR '' '') t) of
        None \<Rightarrow> None
      | Some attrs \<Rightarrow> if name \<in> set page_tags \<and> list_all attr_ok attrs then Some name else None)"

fun nested_ok :: "string list \<Rightarrow> string list \<Rightarrow> bool" where
  "nested_ok open_tags [] = (open_tags = [])"
| "nested_ok open_tags (t # ts) =
     (if t \<noteq> [] \<and> hd t = CHR ''/'' then
        (case open_tags of [] \<Rightarrow> False | name # outer \<Rightarrow> name = tl t \<and> nested_ok outer ts)
      else case opens t of None \<Rightarrow> False | Some name \<Rightarrow> nested_ok (name # open_tags) ts)"

definition safe_html :: "string \<Rightarrow> bool" where
  "safe_html s = (case tags s of None \<Rightarrow> False | Some ts \<Rightarrow> nested_ok [] ts)"

section \<open>How it is put together\<close>

inductive html :: "string \<Rightarrow> bool" where
  html_Nil: "html []"
| html_Cons: "c \<noteq> CHR ''<'' \<Longrightarrow> c \<noteq> CHR ''>'' \<Longrightarrow> html s \<Longrightarrow> html (c # s)"
| html_elem: "tag \<in> set page_tags \<Longrightarrow> list_all attr_ok attrs \<Longrightarrow> html body \<Longrightarrow> html s \<Longrightarrow> html (elem tag attrs body @ s)"

lemma html_append: "html s \<Longrightarrow> html t \<Longrightarrow> html (s @ t)"
  by (induction rule: html.induct) (auto intro: html.intros)

lemma html_text: "list_all (\<lambda>c. c \<noteq> CHR ''<'' \<and> c \<noteq> CHR ''>'') s \<Longrightarrow> html s"
  by (induction s) (auto intro: html.intros)

lemma html_one: "tag \<in> set page_tags \<Longrightarrow> list_all attr_ok attrs \<Longrightarrow> html body \<Longrightarrow> html (elem tag attrs body)"
  using html_elem [of tag attrs body "[]"] by (simp add: html_Nil)

lemma html_concat: "(\<And>x. x \<in> set xs \<Longrightarrow> html x) \<Longrightarrow> html (concat xs)"
  by (induction xs) (simp_all add: html_Nil html_append)

lemma tags_text: "c \<noteq> CHR ''<'' \<Longrightarrow> tags (c # s) = tags s"
  by (subst tags.simps, subst (2) tags.simps) simp

lemma until:
  "c \<notin> set t \<Longrightarrow> dropWhile (\<lambda>x. x \<noteq> c) (t @ c # r) = c # r"
  "c \<notin> set t \<Longrightarrow> takeWhile (\<lambda>x. x \<noteq> c) (t @ c # r) = t"
  by (induction t) auto

lemma tags_tag:
  "CHR ''>'' \<notin> set t \<Longrightarrow> tags (CHR ''<'' # t @ CHR ''>'' # r) = map_option ((#) t) (tags r)"
  by (subst tags.simps) (simp add: until)

lemma attr_name: "attr_ok (name, v) \<Longrightarrow> list_all (\<lambda>c. c \<noteq> CHR ''='' \<and> c \<noteq> CHR '' '' \<and> c \<noteq> CHR ''>'') name \<and> name \<noteq> []"
proof -
  let ?names = "''open'' # ''href'' # ''style'' # page_attributes"
  assume "attr_ok (name, v)"
  then have "name \<in> set ?names" by (simp add: attr_ok_def split: option.splits if_splits)
  moreover have "list_all (\<lambda>name. list_all (\<lambda>c. c \<noteq> CHR ''='' \<and> c \<noteq> CHR '' '' \<and> c \<noteq> CHR ''>'') name \<and> name \<noteq> []) ?names"
    by code_simp
  ultimately show ?thesis unfolding list_all_iff by blast
qed

lemma name_until:
  "list_all (\<lambda>c. c \<noteq> CHR ''='' \<and> c \<noteq> CHR '' '' \<and> c \<noteq> CHR ''>'') name \<Longrightarrow> r = [] \<or> hd r = CHR ''='' \<or> hd r = CHR '' '' \<Longrightarrow>
   takeWhile (\<lambda>c. c \<noteq> CHR ''='' \<and> c \<noteq> CHR '' '') (name @ r) = name \<and>
   dropWhile (\<lambda>c. c \<noteq> CHR ''='' \<and> c \<noteq> CHR '' '') (name @ r) = r"
  by (induction name) (auto simp: takeWhile_eq_Nil_iff dropWhile_eq_self_iff)

lemma tag_attributes_space:
  "tag_attributes (CHR '' '' # s) =
     (let name = takeWhile (\<lambda>c. c \<noteq> CHR ''='' \<and> c \<noteq> CHR '' '') s;
          r = dropWhile (\<lambda>c. c \<noteq> CHR ''='' \<and> c \<noteq> CHR '' '') s
      in if r = [] \<or> hd r = CHR '' '' then map_option ((#) (name, None)) (tag_attributes r)
         else case tl r of
           [] \<Rightarrow> None
         | q # u \<Rightarrow>
             if q \<noteq> CHR 0x22 then None
             else case dropWhile (\<lambda>c. c \<noteq> CHR 0x22) u of
               [] \<Rightarrow> None
             | _ # rest \<Rightarrow>
                 map_option ((#) (name, Some (takeWhile (\<lambda>c. c \<noteq> CHR 0x22) u))) (tag_attributes rest))"
  by (subst tag_attributes.simps) (simp only: list.sel list.distinct if_False simp_thms)

lemma tag_attributes_written:
  "list_all attr_ok attrs \<Longrightarrow> tag_attributes (concat (map attribute attrs)) = Some attrs"
proof (induction attrs)
  case Nil
  then show ?case by (subst tag_attributes.simps) simp
next
  case (Cons a attrs)
  obtain name v where a: "a = (name, v)" by (cases a)
  define r where "r = concat (map attribute attrs)"
  have r: "r = [] \<or> hd r = CHR '' ''" by (cases attrs) (simp_all add: attribute_def r_def)
  have rest: "tag_attributes r = Some attrs" using Cons by (simp add: r_def)
  have name: "list_all (\<lambda>c. c \<noteq> CHR ''='' \<and> c \<noteq> CHR '' '' \<and> c \<noteq> CHR ''>'') name"
    using Cons.prems a attr_name by auto
  have "tag_attributes (attribute a @ r) = Some (a # attrs)"
  proof (cases v)
    case None
    have "attribute a @ r = CHR '' '' # name @ r" by (simp add: a None attribute_def)
    moreover have "tag_attributes (CHR '' '' # name @ r) = Some ((name, None) # attrs)"
    proof -
      have "takeWhile (\<lambda>c. c \<noteq> CHR ''='' \<and> c \<noteq> CHR '' '') (name @ r) = name"
        "dropWhile (\<lambda>c. c \<noteq> CHR ''='' \<and> c \<noteq> CHR '' '') (name @ r) = r"
        using name_until [OF name, of r] r by blast+
      then show ?thesis by (simp only: tag_attributes_space Let_def r rest if_True option.map)
    qed
    ultimately show ?thesis by (simp add: a None)
  next
    case (Some w)
    have w: "CHR 0x22 \<notin> set w" using Cons.prems by (auto simp: a Some attr_ok_def value_ok_def list_all_iff)
    have "attribute a @ r = CHR '' '' # name @ CHR ''='' # CHR 0x22 # w @ CHR 0x22 # r"
      by (simp add: a Some attribute_def quoted_def)
    moreover have "tag_attributes (CHR '' '' # name @ CHR ''='' # CHR 0x22 # w @ CHR 0x22 # r) = Some ((name, Some w) # attrs)"
      by (subst tag_attributes_space)
         (use name_until [OF name, of "CHR ''='' # CHR 0x22 # w @ CHR 0x22 # r"] rest until [OF w, of r] in \<open>simp add: Let_def\<close>)
    ultimately show ?thesis by (simp add: a Some)
  qed
  then show ?case by (simp add: r_def)
qed

lemma attribute_closed: "list_all attr_ok attrs \<Longrightarrow> CHR ''>'' \<notin> set (concat (map attribute attrs))"
proof (induction attrs)
  case (Cons a attrs)
  obtain name v where a: "a = (name, v)" by (cases a)
  have "CHR ''>'' \<notin> set name" using Cons.prems a attr_name [of name v] by (auto simp: list_all_iff)
  moreover have "CHR ''>'' \<notin> set (the v)" if "v \<noteq> None"
    using Cons.prems a that by (auto simp: attr_ok_def value_ok_def list_all_iff)
  ultimately show ?case using Cons by (auto simp: a attribute_def quoted_def split: option.splits)
qed simp

lemma page_tag: "tag \<in> set page_tags \<Longrightarrow> tag \<noteq> [] \<and> list_all (\<lambda>c. c \<noteq> CHR '' '' \<and> c \<noteq> CHR ''>'' \<and> c \<noteq> CHR ''/'') tag"
proof -
  have "list_all (\<lambda>tag. tag \<noteq> [] \<and> list_all (\<lambda>c. c \<noteq> CHR '' '' \<and> c \<noteq> CHR ''>'' \<and> c \<noteq> CHR ''/'') tag) page_tags" by code_simp
  then show "tag \<in> set page_tags \<Longrightarrow> ?thesis" by (auto simp: list_all_iff)
qed

lemma opens_written:
  assumes "tag \<in> set page_tags" and "list_all attr_ok attrs"
  shows "opens (tag @ concat (map attribute attrs)) = Some tag"
proof -
  let ?r = "concat (map attribute attrs)"
  have r: "?r = [] \<or> hd ?r = CHR '' ''" by (cases attrs) (simp_all add: attribute_def)
  have "takeWhile (\<lambda>c. c \<noteq> CHR '' '') (tag @ ?r) = tag \<and> dropWhile (\<lambda>c. c \<noteq> CHR '' '') (tag @ ?r) = ?r"
    using page_tag [OF assms(1)] r
    by (auto simp: list_all_iff takeWhile_append dropWhile_append takeWhile_eq_Nil_iff dropWhile_eq_self_iff
        dropWhile_eq_Nil_conv)
  then show ?thesis using assms by (simp add: opens_def tag_attributes_written)
qed

text \<open>What is put together by the rules is safe, wherever it stands.\<close>

lemma html_tags:
  "html s \<Longrightarrow> \<exists>ts. (\<forall>r. tags (s @ r) = map_option ((@) ts) (tags r)) \<and> (\<forall>st rest. nested_ok st (ts @ rest) = nested_ok st rest)"
proof (induction rule: html.induct)
  case html_Nil
  show ?case by (intro exI [of _ "[]"]) (simp add: option.map_id0 [unfolded id_def])
next
  case (html_Cons c s)
  then show ?case by (simp add: tags_text)
next
  case (html_elem tag attrs body s)
  from html_elem.IH(1) obtain ts where ts: "\<And>r. tags (body @ r) = map_option ((@) ts) (tags r)"
    "\<And>st rest. nested_ok st (ts @ rest) = nested_ok st rest" by blast
  from html_elem.IH(2) obtain us where us: "\<And>r. tags (s @ r) = map_option ((@) us) (tags r)"
    "\<And>st rest. nested_ok st (us @ rest) = nested_ok st rest" by blast
  let ?open = "tag @ concat (map attribute attrs)" and ?close = "CHR ''/'' # tag"
  have closed: "CHR ''>'' \<notin> set ?open" "CHR ''>'' \<notin> set ?close"
    using page_tag [OF html_elem.hyps(1)] attribute_closed [OF html_elem.hyps(2)] by (auto simp: list_all_iff)
  have written: "(elem tag attrs body @ s) @ r = CHR ''<'' # ?open @ CHR ''>'' # body @ CHR ''<'' # ?close @ CHR ''>'' # s @ r" for r
    by (simp add: elem_def)
  have "tags ((elem tag attrs body @ s) @ r) = map_option ((@) (?open # ts @ ?close # us)) (tags r)" for r
    unfolding written tags_tag [OF closed(1)] ts(1) tags_tag [OF closed(2)] us(1)
    by (cases "tags r") simp_all
  moreover have "nested_ok st ((?open # ts @ ?close # us) @ rest) = nested_ok st rest" for st rest
  proof -
    have "hd ?open \<noteq> CHR ''/''" "?open \<noteq> []"
      using page_tag [OF html_elem.hyps(1)] by (cases tag; simp)+
    then show ?thesis
      using opens_written [OF html_elem.hyps(1,2)] ts(2) us(2) by simp
  qed
  ultimately show ?case by blast
qed

lemma html_safe: "html s \<Longrightarrow> safe_html s"
proof -
  assume "html s"
  then obtain ts where "\<And>r. tags (s @ r) = map_option ((@) ts) (tags r)"
    "\<And>st rest. nested_ok st (ts @ rest) = nested_ok st rest"
    using html_tags by blast
  from this(1) [of "[]"] this(2) [of "[]" "[]"] show ?thesis
    by (simp add: safe_html_def tags.simps [of "[]"])
qed

section \<open>Escaped text\<close>

lemma esc_value: "value_ok (esc s)"
  by (induction s) (auto simp: esc_def value_ok_def esc_char_def)

lemma value_ok_simps [simp]:
  "value_ok []"
  "value_ok (c # s) = (c \<noteq> CHR 0x22 \<and> c \<noteq> CHR ''<'' \<and> c \<noteq> CHR ''>'' \<and> value_ok s)"
  "value_ok (s @ t) = (value_ok s \<and> value_ok t)"
  "value_ok (esc s)"
  using esc_value by (auto simp: value_ok_def)

lemma value_html: "value_ok s \<Longrightarrow> html s"
  by (rule html_text) (auto simp: value_ok_def list_all_iff)

end
