(* ===== verification/Widgets.thy ===== *)
theory Widgets
  imports Html
begin

text \<open>
  The markup of one fact (go/internal/collate/widgets.go, \<open>cellFor\<close> of collection_page.go) and of
  the marks beside a row. A cell is decided in \<open>CollectionPage\<close>; here it is written. The parameter
  \<open>object\<close> of the code is not read by it and left out.
\<close>

section \<open>Numbers\<close>

fun iec_scale :: "string list \<Rightarrow> rat \<Rightarrow> rat \<times> string" where
  "iec_scale [] n = (n, [])"
| "iec_scale [u] n = (n, u)"
| "iec_scale (u # v # us) n = (if 1024 \<le> n then iec_scale (v # us) (n / 1024) else (n, u))"

definition iec :: "rat \<Rightarrow> string \<Rightarrow> string" where
  "iec n suffix =
     (let (m, u) = iec_scale [[], ''Ki'', ''Mi'', ''Gi'', ''Ti'', ''Pi''] n in trim_num m @ '' '' @ u @ suffix)"

definition degree :: string where
  "degree = [CHR 0xC2, CHR 0xB0]"

definition formatted :: "string \<Rightarrow> rat \<Rightarrow> string" where
  "formatted unit n =
     (if unit = ''bytes'' then iec n ''B''
      else if unit = ''bytes_per_second'' then iec n ''B/s''
      else if unit = ''percent'' then trim_num n @ ''%''
      else if unit = ''celsius'' then trim_num n @ '' '' @ degree @ ''C''
      else if unit = ''seconds'' then trim_num n @ '' s''
      else if unit = ''microseconds'' then trim_num (f64_near (n / 1000000)) @ '' s''
      else trim_num n)"

text \<open>One decimal of a number that is not negative, ties to even.\<close>

definition fixed1 :: "rat \<Rightarrow> string" where
  "fixed1 q =
     (let (n, d) = quotient_of q; t = nat (div_even (n * 10) d) in nat_str (t div 10) @ ''.'' @ nat_str (t mod 10))"

section \<open>Widgets\<close>

text \<open>The rest of the row: the values of the other facts and their declarations.\<close>

record siblings =
  sb_values :: "val gomap"
  sb_decls :: "fact_decl gomap"

definition sibling_number :: "siblings \<Rightarrow> string \<Rightarrow> rat option" where
  "sibling_number sib name = (case mget (sb_values sib) name of None \<Rightarrow> None | Some v \<Rightarrow> number_of v)"

definition prose :: "lib \<Rightarrow> val \<Rightarrow> string" where
  "prose L v = elem ''span'' [cls ''prose''] (esc (scalar L v))"

definition boolean_html :: "lib \<Rightarrow> fact_decl \<Rightarrow> val \<Rightarrow> string" where
  "boolean_html L decl v = (case v of
       VBool on \<Rightarrow>
         (case fd_labels decl of
            [yes, no] \<Rightarrow> elem ''span'' [cls ''chip bool''] (esc (if on then yes else no))
          | _ \<Rightarrow> elem ''span'' [cls ''chip bool under-declared'',
                   (''title'', Some ''no labels declared for this boolean; the raw value is shown'')]
                 (if on then ''true'' else ''false''))
     | _ \<Rightarrow> prose L v)"

definition timestamp_html :: "lib \<Rightarrow> val \<Rightarrow> string" where
  "timestamp_html L v =
     (let t = esc (scalar L v)
      in elem ''time'' [cls ''stamp'', (''datetime'', Some t), (''title'', Some
           ''absolute only: this tier serves no relative age, because the clock domain a stamp belongs to is stated beside the table rather than assumed here'')] t)"

definition object_members :: "val \<Rightarrow> val gomap option" where
  "object_members v = (case v of VObj m \<Rightarrow> Some m | _ \<Rightarrow> None)"

text \<open>The members of every item, when each is an object and all have the names of the first.\<close>

definition uniform_keys :: "val list \<Rightarrow> string list option" where
  "uniform_keys items =
     (case mapO object_members items of
        None \<Rightarrow> None
      | Some [] \<Rightarrow> None
      | Some (m # ms) \<Rightarrow>
          if mkeys m \<noteq> [] \<and>
             list_all (\<lambda>x. join_with [CHR 0x00] (mkeys x) = join_with [CHR 0x00] (mkeys m)) ms
          then Some (mkeys m) else None)"

definition member_cell :: "lib \<Rightarrow> val \<Rightarrow> string \<Rightarrow> string" where
  "member_cell L item k =
     (case object_members item of
        None \<Rightarrow> []
      | Some m \<Rightarrow> (case mget m k of None \<Rightarrow> [] | Some v \<Rightarrow> scalar L v))"

definition nested_table :: "lib \<Rightarrow> string list \<Rightarrow> val list \<Rightarrow> string" where
  "nested_table L keys items =
     elem ''table'' [cls ''nested'']
       (elem ''thead'' [] (elem ''tr'' [] (concat (map (\<lambda>k. elem ''th'' [] (esc k)) keys))) @
        elem ''tbody'' [] (concat (map (\<lambda>item.
          elem ''tr'' [] (concat (map (\<lambda>k. elem ''td'' [] (esc (member_cell L item k))) keys))) items)))"

definition list_html :: "lib \<Rightarrow> val \<Rightarrow> string" where
  "list_html L v = (case v of
       VArr items \<Rightarrow>
         if items = [] then elem ''span'' [cls ''empty-list''] ''none''
         else (case uniform_keys items of
            Some keys \<Rightarrow> nested_table L keys items
          | None \<Rightarrow> elem ''span'' [cls ''chips'']
              (concat (map (\<lambda>item. elem ''span'' [cls ''chip item''] (esc (scalar L item))) items)))
     | _ \<Rightarrow> prose L v)"

definition nested_html :: "lib \<Rightarrow> val \<Rightarrow> string" where
  "nested_html L v = (case v of
       VObj m \<Rightarrow> elem ''dl'' [cls ''nested-object'']
         (concat (map (\<lambda>(k, x). elem ''dt'' [] (esc k) @ elem ''dd'' [] (esc (scalar L x))) m))
     | _ \<Rightarrow> prose L v)"

definition num_html :: "string \<Rightarrow> string" where
  "num_html figure = elem ''span'' [cls ''num''] figure"

definition proportion_html :: "fact_decl \<Rightarrow> string \<Rightarrow> siblings \<Rightarrow> string" where
  "proportion_html decl figure sib =
     (if fd_denominator decl = [] then num_html figure
      else case sibling_number sib (fd_denominator decl) of
        Some against \<Rightarrow>
          num_html figure @ '' '' @ elem ''span'' [cls ''of'']
            (''of '' @ esc (formatted (case mget (sb_decls sib) (fd_denominator decl) of
                                         None \<Rightarrow> [] | Some of_decl \<Rightarrow> fd_unit of_decl) against))
      | None \<Rightarrow>
          num_html figure @ '' '' @ elem ''span'' [cls ''of faint'']
            (''of '' @ esc (fd_denominator decl) @ '', not on this row''))"

definition bar_html :: "fact_decl \<Rightarrow> string \<Rightarrow> rat \<Rightarrow> siblings \<Rightarrow> string" where
  "bar_html decl figure n sib =
     (case sibling_number sib (fd_bound decl) of
        None \<Rightarrow> num_html figure
      | Some bound \<Rightarrow>
          if bound \<le> 0 then num_html figure
          else (let pct = f64_near (f64_near (n / bound) * 100);
                    fill = (if pct < 0 then 0 else if 100 < pct then 100 else pct)
                in num_html figure @
                   elem ''span'' [cls ''bar'', (''style'', Some (''--fill:'' @ fixed1 fill @ ''%'')),
                     (''title'', Some (''of '' @ esc (fd_bound decl)))] []))"

definition numeric_html :: "lib \<Rightarrow> fact_decl \<Rightarrow> val \<Rightarrow> siblings \<Rightarrow> string" where
  "numeric_html L decl v sib =
     (case number_of v of
        None \<Rightarrow> prose L v
      | Some n \<Rightarrow>
          (let figure = formatted (fd_unit decl) n
           in if fd_temperament decl = ''counter'' then
                elem ''span'' [cls ''num counter'', (''title'', Some
                  ''cumulative since the producer's own epoch; no rate is declared and this page does not compute one'')] figure
              else if fd_unit decl = ''percent'' \<or> fd_denominator decl \<noteq> [] then proportion_html decl figure sib
              else if fd_temperament decl = ''gauge'' \<and> fd_bound decl \<noteq> [] then bar_html decl figure n sib
              else num_html figure))"

definition widget :: "lib \<Rightarrow> fact_decl \<Rightarrow> val \<Rightarrow> siblings \<Rightarrow> string" where
  "widget L decl v sib =
     (let ty = fd_type decl
      in if ty = ''enum'' then elem ''span'' [cls ''chip enum''] (esc (scalar L v))
         else if ty = ''boolean'' then boolean_html L decl v
         else if ty = ''timestamp'' then timestamp_html L v
         else if ty = ''list'' then list_html L v
         else if ty = ''object'' then nested_html L v
         else if ty = ''integer'' \<or> ty = ''number'' then numeric_html L decl v sib
         else if ty = ''duration'' then num_html (esc (scalar L v))
         else prose L v)"

definition cell_html :: "lib \<Rightarrow> siblings \<Rightarrow> cell \<Rightarrow> string" where
  "cell_html L sib c = (case c of
       Absent \<Rightarrow> elem ''span'' [cls ''state-absent'', (''title'', Some ''looked; no such property'')] em_dash
     | Unobservable why \<Rightarrow> elem ''span'' [cls ''state-unobservable''] (''could not read: '' @ esc why)
     | Unstated \<Rightarrow> elem ''span'' [cls ''state-unstated'', (''title'', Some
         (''declared by the collector and neither sent nor declared absent '' @ em_dash @
          '' the producer has not said which''))] ''not stated''
     | Undeclared v \<Rightarrow> elem ''span'' [cls ''undeclared'', (''title'', Some
         ''no declaration describes this fact; shown raw'')] (esc (scalar L v))
     | Shown decl v \<Rightarrow>
         widget L decl v sib @
         (if fd_kind decl = ''declared''
          then '' '' @ elem ''span'' [cls ''mark-declared'', (''title'', Some ''declared, not observed'')] ''declared''
          else []))"

section \<open>Marks\<close>

definition chip :: "string \<Rightarrow> string \<Rightarrow> string" where
  "chip text kind = elem ''span'' [cls (''chip '' @ esc kind)] (esc text)"

definition scope_mark :: "string \<Rightarrow> string" where
  "scope_mark scope = (if scope = host_native then [] else '' '' @ elem ''span'' [cls ''chip instance''] (esc scope))"

definition mark_html :: "mark \<Rightarrow> string" where
  "mark_html m = (case m of
       Fired level \<Rightarrow> chip level level
     | UnjudgedMark \<Rightarrow> elem ''span'' [cls ''mark-unjudged'', (''title'', Some
         (''no rule table could be read for this collection, so nothing has judged this object '' @ em_dash @
          '' a statement about the declaration, not about the object''))] ''?''
     | Clean \<Rightarrow> elem ''span'' [cls ''mark-clean'', (''title'', Some
         ''every rule this collection declares was evaluated against this object and none fired'')] ''ok''
     | PartlyClean held \<Rightarrow> elem ''span'' [cls ''mark-clean partial'', (''title'', Some
         (''the rules that could be evaluated from this row ran, and none fired. '' @ nat_str (length held) @
          '' could not: '' @ esc (join_with '', '' held) @ '' '' @ em_dash @
          '' each tests a fact the producer keeps off the row, so it is undecidable here and is judged on the object page''))]
         ''ok*'')"

section \<open>Nothing a fact says can leave its place\<close>

lemma page_tags_in [simp]:
  "''a'' \<in> set page_tags" "''dd'' \<in> set page_tags" "''details'' \<in> set page_tags" "''div'' \<in> set page_tags"
  "''dl'' \<in> set page_tags" "''dt'' \<in> set page_tags" "''footer'' \<in> set page_tags" "''h1'' \<in> set page_tags"
  "''h2'' \<in> set page_tags" "''li'' \<in> set page_tags" "''nav'' \<in> set page_tags" "''p'' \<in> set page_tags"
  "''section'' \<in> set page_tags" "''span'' \<in> set page_tags" "''summary'' \<in> set page_tags"
  "''table'' \<in> set page_tags" "''tbody'' \<in> set page_tags" "''td'' \<in> set page_tags" "''th'' \<in> set page_tags"
  "''thead'' \<in> set page_tags" "''time'' \<in> set page_tags" "''tr'' \<in> set page_tags" "''ul'' \<in> set page_tags"
  by code_simp+

lemma attr_ok_simps [simp]:
  "attr_ok (''class'', Some v) = value_ok v"
  "attr_ok (''title'', Some v) = value_ok v"
  "attr_ok (''datetime'', Some v) = value_ok v"
  "attr_ok (''colspan'', Some v) = value_ok v"
  "attr_ok (''aria-label'', Some v) = value_ok v"
  "attr_ok (''aria-current'', Some v) = value_ok v"
  "attr_ok (''href'', Some v) = (value_ok v \<and> link_ok v)"
  "attr_ok (''style'', Some v) = (value_ok v \<and> CHR ''('' \<notin> set v \<and> CHR '';'' \<notin> set v)"
  "attr_ok (''open'', None)"
  by (simp_all add: attr_ok_def page_attributes_def)

lemma html_Cons_iff [simp]: "c \<noteq> CHR ''<'' \<Longrightarrow> c \<noteq> CHR ''>'' \<Longrightarrow> html (c # s) = html s"
  by (auto elim: html.cases simp: elem_def intro: html_Cons)

lemma html_rules [simp]:
  "html []"
  "html s \<Longrightarrow> html t \<Longrightarrow> html (s @ t)"
  "tag \<in> set page_tags \<Longrightarrow> list_all attr_ok attrs \<Longrightarrow> html body \<Longrightarrow> html (elem tag attrs body)"
  "html (esc s)"
  by (auto intro: html.intros html_append html_one value_html simp: esc_value)

lemma html_map_concat [simp]: "(\<And>x. x \<in> set xs \<Longrightarrow> html (f x)) \<Longrightarrow> html (concat (map f xs))"
  by (rule html_concat) auto

lemma value_ok_signs [simp]: "value_ok em_dash" "value_ok degree" "html em_dash" "html degree" "value_ok middle_dot" "html middle_dot"
  by (auto simp: em_dash_def degree_def middle_dot_def intro!: value_html)

lemma value_ok_digits [simp]: "value_ok (nat_str n)"
proof -
  have "list_all is_digit (nat_str n)" by (rule nat_str_digits)
  then show ?thesis by (auto simp: value_ok_def list_all_iff is_digit_def)
qed

text \<open>The text of a number: digits, a point, a sign.\<close>

definition figure_text :: "string \<Rightarrow> bool" where
  "figure_text s = list_all (\<lambda>c. is_digit c \<or> c \<in> {CHR ''.'', CHR ''-''}) s"

lemma figure_text_value: "figure_text s \<Longrightarrow> value_ok s"
  by (auto simp: figure_text_def value_ok_def list_all_iff is_digit_def)

lemma trim_num_value [simp]: "value_ok (trim_num q)"
proof -
  have nat: "figure_text (nat_str n)" for n
    using nat_str_digits [of n] by (auto simp: figure_text_def list_all_iff)
  have app: "figure_text (s @ t) = (figure_text s \<and> figure_text t)" for s t by (simp add: figure_text_def)
  have "figure_text (int_str i)" for i using nat by (auto simp: int_str_def figure_text_def)
  moreover have "figure_text (fixed2 q)"
    using nat unfolding fixed2_def two_digits_def by (auto simp: Let_def app split: prod.split) (auto simp: figure_text_def is_digit_def)
  moreover have "figure_text (trim_right c s)" if "figure_text s" for c s
    using that set_dropWhileD [of _ "\<lambda>x. x = c" "rev s"] by (auto simp: figure_text_def trim_right_def list_all_iff)
  ultimately show ?thesis by (auto simp: trim_num_def intro: figure_text_value)
qed

lemma fixed1_value [simp]: "value_ok (fixed1 q)" "CHR ''('' \<notin> set (fixed1 q)" "CHR '';'' \<notin> set (fixed1 q)"
proof -
  have digit: "is_digit c" if "c \<in> set (nat_str n)" for c n
    using nat_str_digits [of n] that by (auto simp: list_all_iff)
  have "figure_text (fixed1 q)"
    using digit by (auto simp: fixed1_def Let_def figure_text_def list_all_iff split: prod.split)
  then show "value_ok (fixed1 q)" "CHR ''('' \<notin> set (fixed1 q)" "CHR '';'' \<notin> set (fixed1 q)"
    using figure_text_value by (auto simp: figure_text_def list_all_iff is_digit_def)
qed

lemma iec_scale_value: "list_all value_ok us \<Longrightarrow> value_ok (snd (iec_scale us m))"
  by (induction us m rule: iec_scale.induct) simp_all

lemma iec_value [simp]: "value_ok s \<Longrightarrow> value_ok (iec n s)"
  using iec_scale_value [of "[[], ''Ki'', ''Mi'', ''Gi'', ''Ti'', ''Pi'']" n]
  by (cases "iec_scale [[], ''Ki'', ''Mi'', ''Gi'', ''Ti'', ''Pi''] n") (simp add: iec_def)

lemma formatted_value [simp]: "value_ok (formatted unit n)"
  by (simp add: formatted_def)

lemma formatted_html [simp]: "html (formatted unit n)"
  by (rule value_html) simp

lemma prose_html [simp]: "html (prose L v)"
  by (simp add: prose_def)

lemma num_html_html [simp]: "html figure \<Longrightarrow> html (num_html figure)"
  by (simp add: num_html_def)

lemma boolean_html_html [simp]: "html (boolean_html L decl v)"
  by (auto simp: boolean_html_def split: val.split list.split)

lemma timestamp_html_html [simp]: "html (timestamp_html L v)"
  by (simp add: timestamp_html_def Let_def)

lemma nested_table_html [simp]: "html (nested_table L keys items)"
  by (simp add: nested_table_def)

lemma list_html_html [simp]: "html (list_html L v)"
  by (auto simp: list_html_def split: val.split option.split)

lemma nested_html_html [simp]: "html (nested_html L v)"
  by (simp add: nested_html_def case_prod_unfold split: val.split)

lemma proportion_html_html [simp]: "html figure \<Longrightarrow> html (proportion_html decl figure sib)"
  by (auto simp: proportion_html_def split: option.split)

lemma bar_html_html [simp]: "html figure \<Longrightarrow> html (bar_html decl figure n sib)"
  by (auto simp: bar_html_def Let_def split: option.split)

lemma numeric_html_html [simp]: "html (numeric_html L decl v sib)"
  by (auto simp: numeric_html_def Let_def split: option.split)

lemma widget_html [simp]: "html (widget L decl v sib)"
  by (simp add: widget_def Let_def)

lemma cell_html_html [simp]: "html (cell_html L sib c)"
  by (cases c) (simp_all add: cell_html_def)

lemma chip_html [simp]: "html (chip t kind)"
  by (simp add: chip_def)

lemma scope_mark_html [simp]: "html (scope_mark scope)"
  by (simp add: scope_mark_def)

lemma mark_html_html [simp]: "html (mark_html m)"
  by (cases m) (auto simp: mark_html_def intro!: value_html)

end
