(* ===== verification/Directory.thy ===== *)
theory Directory
  imports Query Collate
begin

text \<open>
  What the host tells about itself from the declarations it holds: where an id opens and what a
  fact means (go/internal/collate/dictionary.go), the navigation rail's groups
  (go/internal/collate/nav.go), and the operator's own view documents
  (go/internal/collate/views.go). A directory is a parameter, as is the text of a parse error.
\<close>

section \<open>Declared collections (dictionary.go)\<close>

definition declared_of :: "db \<Rightarrow> string \<Rightarrow> declared_collection option" where
  "declared_of d name =
     (let document = declaration_for name d in
      if document = [] then None
      else case declared_document document of
        None \<Rightarrow> None
      | Some cols \<Rightarrow> find (\<lambda>c. dl_name c = name) cols)"

definition declared_collections :: "db \<Rightarrow> (string \<times> declared_collection option) list" where
  "declared_collections d = map (\<lambda>cs. (cs_name cs, declared_of d (cs_name cs))) (collections_of d)"

record capabilities =
  ca_collections :: "(string \<times> string gomap) list"
  ca_prefixes :: "(string \<times> string \<times> string) list"
  ca_ambiguous :: "string list gomap"

definition capability_entry :: "declared_collection option \<Rightarrow> string gomap" where
  "capability_entry decl = (case decl of
       None \<Rightarrow> []
     | Some c \<Rightarrow>
         (if dl_prefix c = [] then [] else [(''prefix'', dl_prefix c)]) @
         (if dl_question c = [] then [] else [(''question'', dl_question c)]))"

definition declared_prefixes :: "(string \<times> declared_collection option) list \<Rightarrow> (string \<times> string) list" where
  "declared_prefixes per = map (\<lambda>(name, decl). (name, case decl of None \<Rightarrow> [] | Some c \<Rightarrow> dl_prefix c)) per"

definition object_route :: "string \<Rightarrow> string" where
  "object_route collection = ''/v1/collections/'' @ collection @ ''/objects''"

definition capabilities_route :: "db \<Rightarrow> capabilities" where
  "capabilities_route d =
     (let per = declared_collections d;
          homes = map (\<lambda>(prefix, names). (prefix, sort names)) (claimants (declared_prefixes per))
      in \<lparr>ca_collections = map (\<lambda>(name, decl). (name, capability_entry decl)) per,
          ca_prefixes = List.map_filter (\<lambda>(prefix, names). case names of
              [name] \<Rightarrow> Some (prefix, name, object_route name) | _ \<Rightarrow> None) homes,
          ca_ambiguous = filter (\<lambda>(prefix, names). 1 < length names) homes\<rparr>)"

definition facts_route :: "db \<Rightarrow> (string \<times> json gomap) list" where
  "facts_route d =
     List.map_filter (\<lambda>(name, decl). case decl of
         None \<Rightarrow> None
       | Some c \<Rightarrow> if dl_facts c = [] then None else Some (name, dl_facts c))
       (declared_collections d)"

section \<open>The navigation rail (nav.go)\<close>

text \<open>The collector a collection was learned under, and its place in that collector's order.\<close>

definition learned_under :: "db \<Rightarrow> collection_state \<Rightarrow> string \<times> nat option" where
  "learned_under d cs = (case cs_declaration cs of
       None \<Rightarrow> ([], None)
     | Some digest \<Rightarrow>
         (case parse_declaration (case mget (declaration_documents d) digest of None \<Rightarrow> [] | Some doc \<Rightarrow> doc) of
            None \<Rightarrow> ([], None)
          | Some (collector, cols, _) \<Rightarrow>
              if collector = [] then ([], None)
              else (collector,
                map_option fst (find (\<lambda>(i, c). dc_name c = cs_name cs) (rev (enumerate 0 cols))))))"

text \<open>A declared collection goes before one that is not, by its place; the others by name.\<close>

definition rail_order :: "(string \<times> nat option) list \<Rightarrow> string list" where
  "rail_order members =
     map fst (sort_key (the \<circ> snd) (filter (\<lambda>m. snd m \<noteq> None) members)) @
     map fst (sort_key fst (filter (\<lambda>m. snd m = None) members))"

definition nav_groups :: "db \<Rightarrow> collection_state list \<Rightarrow> (string \<times> string list) list" where
  "nav_groups d states =
     (let learned = map (\<lambda>cs. (cs_name cs, learned_under d cs)) states
      in map (\<lambda>collector. (collector,
             rail_order (map (\<lambda>(name, c, place). (name, place)) (filter (\<lambda>(name, c, place). c = collector) learned))))
           (sort (remdups (map (\<lambda>(name, c, place). c) learned))))"

section \<open>The operator's views (views.go)\<close>

datatype view_defect =
    NotAnObject
  | MissingName
  | MissingTitle
  | BadHosts
  | NoPanels
  | PanelNotAnObject nat
  | PanelMissing nat string
  | FewStages nat
  | StageNotAnObject nat nat
  | StageMissing nat nat string
  | BadJoin nat nat

definition required_panel_members :: "string list" where
  "required_panel_members = [''key'', ''title'', ''subsystem'', ''collection'']"

definition required_stage_members :: "string list" where
  "required_stage_members = [''key'', ''title'', ''subsystem'', ''collection'']"

definition member_of :: "val gomap \<Rightarrow> string \<Rightarrow> val" where
  "member_of m f = (case mget m f of None \<Rightarrow> VNull | Some v \<Rightarrow> v)"

definition non_empty_string :: "val gomap \<Rightarrow> string \<Rightarrow> bool" where
  "non_empty_string m f = (case member_of m f of VStr s \<Rightarrow> s \<noteq> [] | _ \<Rightarrow> False)"

definition named_host :: "val \<Rightarrow> bool" where
  "named_host v = (case v of VStr s \<Rightarrow> s \<noteq> [] | _ \<Rightarrow> False)"

definition missing_member :: "val gomap \<Rightarrow> string list \<Rightarrow> string option" where
  "missing_member m fs = find (\<lambda>f. \<not> non_empty_string m f) fs"

definition join_ok :: "val \<Rightarrow> bool" where
  "join_ok j = (case j of
       VNull \<Rightarrow> True
     | VObj m \<Rightarrow> non_empty_string m ''fact'' \<and> non_empty_string m ''targetFact''
     | _ \<Rightarrow> False)"

fun stage_problem :: "nat \<Rightarrow> nat \<Rightarrow> val list \<Rightarrow> view_defect option" where
  "stage_problem index at_stage [] = None"
| "stage_problem index at_stage (raw # stages) =
     (case raw of
        VObj stage \<Rightarrow>
          (case missing_member stage required_stage_members of
             Some f \<Rightarrow> Some (StageMissing index at_stage f)
           | None \<Rightarrow>
               if \<not> join_ok (member_of stage ''join'') then Some (BadJoin index at_stage)
               else stage_problem index (Suc at_stage) stages)
      | _ \<Rightarrow> Some (StageNotAnObject index at_stage))"

definition panel_problem :: "nat \<Rightarrow> val \<Rightarrow> view_defect option" where
  "panel_problem index raw = (case raw of
       VObj panel \<Rightarrow>
         if member_of panel ''kind'' = VStr ''pipeline'' then
           (case missing_member panel [''key'', ''title''] of
              Some f \<Rightarrow> Some (PanelMissing index f)
            | None \<Rightarrow>
                (case member_of panel ''stages'' of
                   VArr stages \<Rightarrow>
                     if length stages < 2 then Some (FewStages index) else stage_problem index 0 stages
                 | _ \<Rightarrow> Some (FewStages index)))
         else map_option (PanelMissing index) (missing_member panel required_panel_members)
     | _ \<Rightarrow> Some (PanelNotAnObject index))"

fun panels_problem :: "nat \<Rightarrow> val list \<Rightarrow> view_defect option" where
  "panels_problem index [] = None"
| "panels_problem index (raw # panels) =
     (case panel_problem index raw of Some p \<Rightarrow> Some p | None \<Rightarrow> panels_problem (Suc index) panels)"

definition view_problem :: "val \<Rightarrow> view_defect option" where
  "view_problem document = (case document of
       VObj m \<Rightarrow>
         if \<not> non_empty_string m ''name'' then Some MissingName
         else if \<not> non_empty_string m ''title'' then Some MissingTitle
         else if (case member_of m ''hosts'' of
                    VNull \<Rightarrow> False
                  | VArr hosts \<Rightarrow> hosts = [] \<or> \<not> list_all named_host hosts
                  | _ \<Rightarrow> True) then Some BadHosts
         else (case member_of m ''panels'' of
                 VArr panels \<Rightarrow> if panels = [] then Some NoPanels else panels_problem 0 panels
               | _ \<Rightarrow> Some NoPanels)
     | _ \<Rightarrow> Some NotAnObject)"

datatype view_file = NotRead | Read string

datatype view_fault = NoDirectory | FileNotRead | FileNotJson | FileProblem view_defect

datatype views_directory = NotConfigured | NotADirectory string | Files "(string \<times> view_file) list"

record views_envelope =
  ve_views :: "val list"
  ve_errors :: "(string \<times> view_fault) list"

text \<open>A document: \<open>null\<close> leaves the map nil, which is no object.\<close>

definition read_view :: "string \<Rightarrow> val option" where
  "read_view raw = (case json_unmarshal raw of
       Some JNull \<Rightarrow> Some VNull
     | Some (JObj kvs) \<Rightarrow> to_val (JObj kvs)
     | _ \<Rightarrow> None)"

definition load_view :: "string \<times> view_file \<Rightarrow> views_envelope \<Rightarrow> views_envelope" where
  "load_view = (\<lambda>(name, content) env.
     let fault = (\<lambda>f. env\<lparr>ve_errors := ve_errors env @ [(name, f)]\<rparr>) in
     case content of
       NotRead \<Rightarrow> fault FileNotRead
     | Read raw \<Rightarrow>
         (case read_view raw of
            None \<Rightarrow> fault FileNotJson
          | Some document \<Rightarrow>
              (case view_problem document of
                 Some p \<Rightarrow> fault (FileProblem p)
               | None \<Rightarrow> env\<lparr>ve_views := ve_views env @ [document]\<rparr>)))"

definition load_views :: "views_directory \<Rightarrow> views_envelope" where
  "load_views directory =
     (let nothing = \<lparr>ve_views = [], ve_errors = []\<rparr>
      in case directory of
        NotConfigured \<Rightarrow> nothing
      | NotADirectory path \<Rightarrow> nothing\<lparr>ve_errors := [(path, NoDirectory)]\<rparr>
      | Files entries \<Rightarrow> fold load_view (sort_key fst entries) nothing)"


section \<open>Every collection has its place\<close>

lemma mset_rail_order: "mset (rail_order members) = mset (map fst members)"
proof -
  have "mset (rail_order members) =
      image_mset fst (filter_mset (\<lambda>m. snd m \<noteq> None) (mset members)) +
      image_mset fst (filter_mset (\<lambda>m. \<not> snd m \<noteq> None) (mset members))"
    by (simp add: rail_order_def)
  also have "\<dots> = image_mset fst (mset members)"
    by (simp only: image_mset_union [symmetric] multiset_partition [symmetric])
  finally show ?thesis by simp
qed

lemma mset_by_class:
  assumes "distinct cs" and "f ` set xs \<subseteq> set cs"
  shows "(\<Sum>c\<leftarrow>cs. mset (filter (\<lambda>x. f x = c) xs)) = mset xs"
  using assms(2)
proof (induction xs)
  case (Cons x xs)
  have "(\<Sum>c\<leftarrow>cs. if f x = c then {#x#} else {#}) = {#x#}"
    using Cons.prems assms(1) by (simp add: sum_list_distinct_conv_sum_set)
  moreover have "(\<Sum>c\<leftarrow>cs. mset (filter (\<lambda>y. f y = c) (x # xs))) =
      (\<Sum>c\<leftarrow>cs. (if f x = c then {#x#} else {#}) + mset (filter (\<lambda>y. f y = c) xs))"
    by (intro arg_cong [where f = sum_list] map_cong) auto
  ultimately show ?case using Cons by (simp add: sum_list_addf)
qed (simp add: sum_list_0)

text \<open>
  The navigation rail leaves nothing out: every collection the host knows stands in
  it exactly once, under the collector it was learned from, also one that was never read and one
  whose declaration cannot be read; the headings are in order and none is empty.
\<close>

theorem rail_shows_everything:
  shows "mset (concat (map snd (nav_groups d states))) = mset (map cs_name states) \<and>
    sorted_wrt (<) (map fst (nav_groups d states)) \<and>
    list_all (\<lambda>(collector, names). names \<noteq> [] \<and>
       mset names = mset (map cs_name (filter (\<lambda>cs. fst (learned_under d cs) = collector) states)))
      (nav_groups d states)"
proof -
  define learned where "learned = map (\<lambda>cs. (cs_name cs, learned_under d cs)) states"
  define heads where "heads = sort (remdups (map (\<lambda>(name, c, place). c) learned))"
  define members where "members = (\<lambda>collector. map (\<lambda>(name, c, place). (name, place)) (filter (\<lambda>(name, c, place). c = collector) learned))"
  have groups: "nav_groups d states = map (\<lambda>c. (c, rail_order (members c))) heads"
    by (simp add: nav_groups_def learned_def heads_def members_def Let_def)
  have member: "mset (rail_order (members c)) = mset (map cs_name (filter (\<lambda>cs. fst (learned_under d cs) = c) states))" for c
    unfolding mset_rail_order members_def learned_def
    by (simp add: filter_map comp_def case_prod_unfold)
  have heads: "distinct heads" "set heads = (fst \<circ> learned_under d) ` set states"
    by (auto simp: heads_def learned_def comp_def case_prod_unfold)
  have "mset (concat (map snd (nav_groups d states))) = (\<Sum>c\<leftarrow>heads. mset (rail_order (members c)))"
    unfolding groups by (simp add: mset_concat comp_def)
  also have "\<dots> = image_mset cs_name (\<Sum>c\<leftarrow>heads. mset (filter (\<lambda>cs. (fst \<circ> learned_under d) cs = c) states))"
    by (simp add: member comp_def) (induction heads, simp_all)
  also have "\<dots> = mset (map cs_name states)"
    using heads by (subst mset_by_class) simp_all
  finally have all: "mset (concat (map snd (nav_groups d states))) = mset (map cs_name states)" .
  have "sorted heads" by (simp add: heads_def)
  with heads(1) have "sorted_wrt (<) (map fst (nav_groups d states))"
    unfolding groups by (simp add: comp_def strict_sorted_iff)
  moreover have "rail_order (members c) \<noteq> []" if c: "c \<in> set heads" for c
  proof -
    obtain cs where "cs \<in> set states" "fst (learned_under d cs) = c" using c heads(2) by auto
    then have "mset (rail_order (members c)) \<noteq> {#}" unfolding member by (auto simp: filter_empty_conv)
    then show ?thesis by auto
  qed
  ultimately show ?thesis using all member unfolding groups by (auto simp: list_all_iff)
qed

section \<open>Where an id opens\<close>

text \<open>The stored collections whose declaration gives the prefix.\<close>

definition holders :: "db \<Rightarrow> string \<Rightarrow> string list" where
  "holders d p =
     filter (\<lambda>name. case declared_of d name of None \<Rightarrow> False | Some c \<Rightarrow> dl_prefix c = p \<and> p \<noteq> []) (mkeys (d_cols d))"

lemma declared_collections_eq: "declared_collections d = map (\<lambda>name. (name, declared_of d name)) (mkeys (d_cols d))"
  by (simp add: declared_collections_def collections_of_def state_of_row_def case_prod_unfold Let_def)

lemma claims_holders: "p \<noteq> [] \<Longrightarrow> claims p (declared_prefixes (declared_collections d)) = holders d p"
  unfolding claims_def declared_prefixes_def declared_collections_eq holders_def
  by (auto simp: filter_map comp_def case_prod_unfold intro!: arg_cong [where f = "map fst"] filter_cong split: option.split)

text \<open>
  What the host says of where an id opens is true. Every stored collection is
  listed; a prefix has a home exactly when one stored collection alone declares it, and the home
  is that collection's own route, which answers; a prefix that several declare is named with all
  of them and has no home.
\<close>

theorem prefixes_open_where_they_say:
  shows "map fst (ca_collections (capabilities_route d)) = mkeys (d_cols d) \<and>
    map_of (ca_prefixes (capabilities_route d)) p =
      (case holders d p of [name] \<Rightarrow> Some (name, object_route name) | _ \<Rightarrow> None) \<and>
    map_of (ca_ambiguous (capabilities_route d)) p =
      (if 1 < length (holders d p) then Some (sort (holders d p)) else None) \<and>
    list_all (\<lambda>name. objects_route d name q \<noteq> Unknown) (holders d p)"
proof -
  define cl where "cl = claimants (declared_prefixes (declared_collections d))"
  define homes where "homes = map (\<lambda>(prefix, names). (prefix, sort names)) cl"
  have dist: "distinct (map fst homes)"
    using mok_distinct [OF claimants_mok [of "declared_prefixes (declared_collections d)"]]
    by (simp add: homes_def cl_def comp_def case_prod_unfold)
  have "holders d [] = []" by (simp add: holders_def filter_empty_conv split: option.split)
  then have "map_of cl p = (if holders d p = [] then None else Some (holders d p))"
    using claimants_get [of "declared_prefixes (declared_collections d)" p]
    by (cases "p = []") (simp_all add: cl_def claims_holders)
  then have home: "map_of homes p = (if holders d p = [] then None else Some (sort (holders d p)))"
    unfolding homes_def map_of_map by simp
  have pick: "map_of (List.map_filter (\<lambda>(prefix, names). case names of [name] \<Rightarrow> Some (prefix, name, object_route name) | _ \<Rightarrow> None) m) p =
      (case map_of m p of Some [name] \<Rightarrow> Some (name, object_route name) | _ \<Rightarrow> None)" if "distinct (map fst m)" for m
    using that
  proof (induction m)
    case (Cons x m)
    have "map_of m (fst x) = None" using Cons.prems by (simp add: map_of_eq_None_iff)
    then show ?case using Cons
      by (cases x) (auto simp: List.map_filter_simps split: list.split option.split)
  qed (simp add: List.map_filter_simps)
  have many: "map_of (filter (\<lambda>(prefix, names). 1 < length names) m) p =
      (case map_of m p of Some names \<Rightarrow> if 1 < length names then Some names else None | None \<Rightarrow> None)"
    if "distinct (map fst m)" for m :: "string list gomap"
    using that
  proof (induction m)
    case (Cons x m)
    have "map_of m (fst x) = None" using Cons.prems by (simp add: map_of_eq_None_iff)
    then have "map_of (filter (\<lambda>(prefix, names). 1 < length names) m) (fst x) = None"
      by (auto simp: map_of_eq_None_iff)
    then show ?case using Cons by (cases x) auto
  qed simp
  have "ca_prefixes (capabilities_route d) = List.map_filter (\<lambda>(prefix, names). case names of [name] \<Rightarrow> Some (prefix, name, object_route name) | _ \<Rightarrow> None) homes"
    "ca_ambiguous (capabilities_route d) = filter (\<lambda>(prefix, names). 1 < length names) homes"
    "map fst (ca_collections (capabilities_route d)) = mkeys (d_cols d)"
    by (simp_all add: capabilities_route_def Let_def homes_def cl_def declared_collections_eq comp_def)
  moreover have "(case sort hs of [name] \<Rightarrow> Some (name, object_route name) | _ \<Rightarrow> None) =
      (case hs of [name] \<Rightarrow> Some (name, object_route name) | _ \<Rightarrow> None)" for hs
    by (cases hs rule: remdups_adj.cases) (auto split: list.split dest: arg_cong [where f = length])
  moreover have "objects_route d name q \<noteq> Unknown" if "name \<in> set (holders d p)" for name
  proof -
    have "has_collection name d" using that by (auto simp: holders_def has_collection_def map_of_eq_None_iff)
    then show ?thesis
      by (auto simp: objects_route_def page_of_def Let_def split: sum.split option.split prod.split if_splits)
  qed
  ultimately show ?thesis by (simp add: pick [OF dist] many [OF dist] home list_all_iff del: One_nat_def split: list.split)
qed


section \<open>Which views are served\<close>

definition stage_ok :: "val \<Rightarrow> bool" where
  "stage_ok v = (case v of
       VObj stage \<Rightarrow> list_all (non_empty_string stage) [''key'', ''title'', ''subsystem'', ''collection''] \<and>
         (case member_of stage ''join'' of
            VNull \<Rightarrow> True
          | VObj j \<Rightarrow> non_empty_string j ''fact'' \<and> non_empty_string j ''targetFact''
          | _ \<Rightarrow> False)
     | _ \<Rightarrow> False)"

definition panel_ok :: "val \<Rightarrow> bool" where
  "panel_ok v = (case v of
       VObj panel \<Rightarrow> non_empty_string panel ''key'' \<and> non_empty_string panel ''title'' \<and>
         (if member_of panel ''kind'' = VStr ''pipeline''
          then (case member_of panel ''stages'' of VArr stages \<Rightarrow> 2 \<le> length stages \<and> list_all stage_ok stages | _ \<Rightarrow> False)
          else non_empty_string panel ''subsystem'' \<and> non_empty_string panel ''collection'')
     | _ \<Rightarrow> False)"

text \<open>A view that names no host is for every host; one that names hosts names at least one.\<close>

definition view_ok :: "val \<Rightarrow> bool" where
  "view_ok v = (case v of
       VObj m \<Rightarrow> non_empty_string m ''name'' \<and> non_empty_string m ''title'' \<and>
         (case member_of m ''hosts'' of
            VNull \<Rightarrow> True | VArr hosts \<Rightarrow> hosts \<noteq> [] \<and> list_all named_host hosts | _ \<Rightarrow> False) \<and>
         (case member_of m ''panels'' of VArr panels \<Rightarrow> panels \<noteq> [] \<and> list_all panel_ok panels | _ \<Rightarrow> False)
     | _ \<Rightarrow> False)"

lemma missing_member_None: "missing_member m fs = None \<longleftrightarrow> list_all (non_empty_string m) fs"
  by (auto simp: missing_member_def find_None_iff list_all_iff)

lemma stage_problem_None: "stage_problem index i stages = None \<longleftrightarrow> list_all stage_ok stages"
proof (induction index i stages rule: stage_problem.induct)
  case (2 index i raw stages)
  show ?case
  proof (cases raw)
    case (VObj stage)
    have "join_ok (member_of stage ''join'') =
        (case member_of stage ''join'' of
            VNull \<Rightarrow> True
          | VObj j \<Rightarrow> non_empty_string j ''fact'' \<and> non_empty_string j ''targetFact''
          | _ \<Rightarrow> False)"
      by (simp add: join_ok_def)
    then show ?thesis
      using 2 VObj missing_member_None [of stage required_stage_members]
      by (cases "missing_member stage required_stage_members")
         (auto simp: stage_ok_def required_stage_members_def)
  qed (simp_all add: stage_ok_def)
qed simp

lemma panel_problem_None: "panel_problem index raw = None \<longleftrightarrow> panel_ok raw"
proof (cases raw)
  case (VObj panel)
  then show ?thesis
    using missing_member_None [of panel "[''key'', ''title'']"] missing_member_None [of panel required_panel_members]
    by (auto simp: panel_problem_def panel_ok_def required_panel_members_def stage_problem_None not_less
        split: option.split val.split)
qed (simp_all add: panel_problem_def panel_ok_def)

lemma panels_problem_None: "panels_problem index panels = None \<longleftrightarrow> list_all panel_ok panels"
proof (induction panels arbitrary: index)
  case (Cons p panels)
  then show ?case using panel_problem_None [of index p] by (auto split: option.split)
qed simp

lemma view_problem_None: "view_problem v = None \<longleftrightarrow> view_ok v"
  by (cases v) (auto simp: view_problem_def view_ok_def panels_problem_None split: val.split)

text \<open>What a file is served as.\<close>

definition served_view :: "view_file \<Rightarrow> val option" where
  "served_view file = (case file of
       NotRead \<Rightarrow> None
     | Read raw \<Rightarrow> (case read_view raw of Some v \<Rightarrow> if view_ok v then Some v else None | None \<Rightarrow> None))"

lemma load_view_eq:
  "ve_views (load_view (name, file) env) = ve_views env @ (case served_view file of None \<Rightarrow> [] | Some v \<Rightarrow> [v])"
  "map fst (ve_errors (load_view (name, file) env)) =
     map fst (ve_errors env) @ (case served_view file of None \<Rightarrow> [name] | Some v \<Rightarrow> [])"
  by (auto simp: load_view_def served_view_def Let_def view_problem_None [symmetric]
      split: view_file.split option.split)

text \<open>
  Every view document in the configured directory is either served, exactly as it
  was written and in the order of the file names, or named with a fault; it is served exactly
  when it is well formed, so a target list that is empty or malformed never makes a view one for
  every host, and a pipeline never loses a stage.
\<close>

theorem views_served_or_named:
  shows "ve_views (load_views (Files entries)) = List.map_filter (served_view \<circ> snd) (sort_key fst entries) \<and>
    map fst (ve_errors (load_views (Files entries))) =
      map fst (filter (\<lambda>entry. served_view (snd entry) = None) (sort_key fst entries))"
proof -
  have "ve_views (fold load_view es env) = ve_views env @ List.map_filter (served_view \<circ> snd) es \<and>
      map fst (ve_errors (fold load_view es env)) =
        map fst (ve_errors env) @ map fst (filter (\<lambda>entry. served_view (snd entry) = None) es)" for es env
    by (induction es arbitrary: env)
       (auto simp: load_view_eq List.map_filter_simps split_paired_all split: option.split)
  then show ?thesis by (simp add: load_views_def)
qed

end
