(* ===== verification/Edges.thy ===== *)
theory Edges
  imports Widgets Directory
begin

text \<open>
  The relations of an object as the page draws them (go/internal/collate/tree.go and
  \<open>relationsSection\<close> of object_page.go): whose objects a prefix names, the link to a far end, the
  groups an object's edges fall into and what is said of each, and the names of an object. The
  text the store keeps for an edge's facts is a parameter, the model holds them decoded; the order
  in which the declaration documents are read is one too, as Go does not fix it.
\<close>

section \<open>Whose objects a prefix names\<close>

definition prefixes_in :: "string \<Rightarrow> string gomap \<Rightarrow> string gomap" where
  "prefixes_in document prefixes =
     (case parse_declaration document of
        None \<Rightarrow> prefixes
      | Some (collector, cols, fresh) \<Rightarrow> fold (\<lambda>c. mput (dc_name c) (dc_prefix c)) cols prefixes)"

text \<open>The collection of every prefix that has one, and the claimants of every contested one.\<close>

definition collection_of_prefix :: "string list \<Rightarrow> string gomap \<times> string list gomap" where
  "collection_of_prefix docs =
     (case prefix_index_with_claimants (fold prefixes_in docs []) of
        (owner, contested, held) \<Rightarrow> (owner, filter (\<lambda>(prefix, names). prefix \<in> set contested) held))"

section \<open>The far end of an edge\<close>

definition link :: "string \<Rightarrow> string \<Rightarrow> string" where
  "link target words = elem ''a'' [href target] words"

definition faint :: "string \<Rightarrow> string" where
  "faint words = elem ''span'' [cls ''faint''] words"

type_synonym holding = "string \<Rightarrow> string \<Rightarrow> bool"

definition offered :: "holding \<Rightarrow> string list \<Rightarrow> string \<Rightarrow> string list" where
  "offered holds collections name = filter (\<lambda>c. holds c name) collections"

definition target_link :: "string gomap \<Rightarrow> string list gomap \<Rightarrow> holding \<Rightarrow> rel_row \<Rightarrow> string" where
  "target_link owner contested holds rel =
     (let name = esc (r_target_name rel);
          kind = r_target_kind rel;
          collections = (case mget contested kind of None \<Rightarrow> [] | Some names \<Rightarrow> names);
          links = map (\<lambda>c. link (object_href c (r_target_name rel)) (esc c)) (offered holds collections (r_target_name rel))
      in if collections \<noteq> [] then
           (if links = [] then
              name @ '' '' @ faint (''(the prefix '' @ esc kind @ '' is claimed by '' @
                esc (join_with '' and '' collections) @ '', and none of them holds this name)'')
            else
              name @ '' '' @ faint (''('' @ esc (nat_str (length collections) @ '' collections'') @
                '' describe this name '' @ em_dash @ '' '' @ join_with '', '' links @ '')''))
         else if \<not> r_resolved rel \<or> r_target_id rel = None \<or> r_target_id rel = Some [] then name
         else case mget owner kind of
             None \<Rightarrow> name @ '' '' @ faint (''(no collection on this host declares the prefix '' @ esc kind @ '')'')
           | Some collection \<Rightarrow> link (object_href collection (r_target_name rel)) name)"

definition relation_end :: "string gomap \<Rightarrow> string list gomap \<Rightarrow> holding \<Rightarrow> bool \<Rightarrow> rel_row \<Rightarrow> string" where
  "relation_end owner contested holds inbound rel =
     (if \<not> inbound then target_link owner contested holds rel
      else if r_collection rel = [] \<or> r_source_name rel = [] then esc (r_source_name rel)
      else link (object_href (r_collection rel) (r_source_name rel)) (esc (r_source_name rel)))"

section \<open>Groups\<close>

type_synonym edge_kind = "string \<times> observability \<times> string"

definition edge_key :: "rel_row \<Rightarrow> edge_kind" where
  "edge_key rel = (r_type rel, r_obs rel, r_vantage rel)"

fun state_rank :: "observability \<Rightarrow> nat" where
  "state_rank Contradicted = 0"
| "state_rank Asserted = 1"
| "state_rank Confirmed = 2"

text \<open>By state, then by type; equals stay as they were first seen.\<close>

definition group_order :: "rel_row list \<Rightarrow> edge_kind list" where
  "group_order rels =
     sort_key (\<lambda>(ty, obs, vantage). state_rank obs) (sort_key fst (rev (remdups (rev (map edge_key rels)))))"

definition edge_groups :: "rel_row list \<Rightarrow> (edge_kind \<times> rel_row list) list" where
  "edge_groups rels = map (\<lambda>k. (k, filter (\<lambda>rel. edge_key rel = k) rels)) (group_order rels)"

definition relation_words :: "observability \<Rightarrow> string \<Rightarrow> bool \<Rightarrow> string \<times> string" where
  "relation_words obs vantage inbound =
     (case obs of
        Confirmed \<Rightarrow> (''confirmed'', ''both ends read'')
      | Contradicted \<Rightarrow>
          (''contradicted'', ''the two ends disagree '' @ em_dash @ '' read from '' @ esc vantage)
      | Asserted \<Rightarrow>
          (''asserted'', (if inbound then ''this'' else ''the far'') @ '' end has never been read '' @ em_dash @
             '' claimed from '' @ esc vantage @ '' alone''))"

fun uniform_from :: "string \<Rightarrow> string list \<Rightarrow> string" where
  "uniform_from seen [] = seen"
| "uniform_from seen (w # ws) =
     (if seen = [] then uniform_from w ws else if seen \<noteq> w then [] else uniform_from seen ws)"

definition uniform_collection :: "bool \<Rightarrow> rel_row list \<Rightarrow> string" where
  "uniform_collection inbound grp =
     uniform_from [] (map (if inbound then r_collection else r_target_kind) grp)"

definition relation_bodies ::
  "(rel_row \<Rightarrow> string) \<Rightarrow> string gomap \<Rightarrow> string list gomap \<Rightarrow> holding \<Rightarrow> bool \<Rightarrow> rel_row list \<Rightarrow> string"
where
  "relation_bodies raw owner contested holds inbound grp =
     (if \<not> list_ex (\<lambda>rel. 2 < length (raw rel)) grp then
        elem ''div'' [cls ''chips rel-members'']
          (concat (map (\<lambda>rel. elem ''span'' [cls ''chip item''] (relation_end owner contested holds inbound rel)) grp))
      else
        elem ''div'' [cls ''scroll''] (elem ''table'' [cls ''nested'']
          (elem ''thead'' [] (elem ''tr'' [] (elem ''th'' [] ''end'' @ elem ''th'' [] ''facts'')) @
           elem ''tbody'' [] (concat (map (\<lambda>rel.
             elem ''tr'' [] (elem ''td'' [] (relation_end owner contested holds inbound rel) @
               elem ''td'' [cls ''faint''] (if 2 < length (raw rel) then esc (raw rel) else []))) grp)))))"

definition group_html ::
  "(rel_row \<Rightarrow> string) \<Rightarrow> string gomap \<Rightarrow> string list gomap \<Rightarrow> holding \<Rightarrow> bool \<Rightarrow> edge_kind \<times> rel_row list \<Rightarrow> string"
where
  "group_html raw owner contested holds inbound g =
     (case g of ((ty, obs, vantage), grp) \<Rightarrow>
       (let (state, words) = relation_words obs vantage inbound;
            whole = uniform_collection inbound grp
        in elem ''details'' ((if length grp \<le> 25 then [(''open'', None)] else []) @ [cls (''rel-group '' @ state)])
             (elem ''summary'' []
                (elem ''span'' [cls ''num''] (nat_str (length grp)) @ '' '' @
                 elem ''span'' [cls ''rel-type''] (esc ty) @
                 (if whole \<noteq> [] then '' in '' @ elem ''span'' [cls ''ident''] (esc whole) else []) @ '' '' @
                 elem ''span'' [cls ''rel-state''] words) @
              relation_bodies raw owner contested holds inbound grp)))"

definition relation_groups ::
  "(rel_row \<Rightarrow> string) \<Rightarrow> string gomap \<Rightarrow> string list gomap \<Rightarrow> holding \<Rightarrow> bool \<Rightarrow> rel_row list \<Rightarrow> string"
where
  "relation_groups raw owner contested holds inbound rels =
     (if rels = [] then []
      else elem ''p'' [cls ''dim'']
             (if inbound then ''Asserted about this object, from elsewhere:'' else ''This object asserts:'') @
           concat (map (group_html raw owner contested holds inbound) (edge_groups rels)))"

definition panel_html :: "bool \<Rightarrow> string \<Rightarrow> string \<Rightarrow> string" where
  "panel_html is_open title body =
     elem ''details'' ((if is_open then [(''open'', None)] else []) @ [cls ''panel''])
       (elem ''summary'' [] (elem ''h2'' [] title) @ body)"

text \<open>The edges of an object, both ways, whatever collection asserted them.\<close>

definition relations_section :: "(rel_row \<Rightarrow> string) \<Rightarrow> db \<Rightarrow> string list \<Rightarrow> obj_row \<Rightarrow> string" where
  "relations_section raw d docs row =
     (let (owner, contested) = collection_of_prefix docs;
          (out, into) = relations_touching (o_id row) (o_name row) d;
          holds = (\<lambda>collection name. holds_object collection name d)
      in if out = [] \<and> into = [] then
           panel_html False ''Relations'' (elem ''p'' [cls ''dim'']
             ''Nothing asserts an edge to or from this object. That is a statement about what the collectors declared, not about what the system does.'')
         else
           panel_html True ''Relations''
             (relation_groups raw owner contested holds False out @ relation_groups raw owner contested holds True into))"

section \<open>Names\<close>

definition name_families_of :: "json option \<Rightarrow> string list gomap" where
  "name_families_of names = (case names of
       Some (JObj kvs) \<Rightarrow>
         (case mapO (\<lambda>(family, v). map_option (Pair family) (case v of
              JArr xs \<Rightarrow> mapO text_of xs | JNull \<Rightarrow> Some [] | _ \<Rightarrow> None)) kvs of
            None \<Rightarrow> []
          | Some families \<Rightarrow> mof families)
     | _ \<Rightarrow> [])"

definition name_families :: "string list gomap \<Rightarrow> string" where
  "name_families families =
     (if families = [] then []
      else panel_html True ''Names''
        (elem ''p'' [cls ''dim''] ''Every name this collector published for this object. Any of them denotes this page.'' @
         elem ''dl'' [cls ''names''] (concat (map (\<lambda>(family, names).
           elem ''dt'' [] (esc family) @
           elem ''dd'' [] (concat (map (\<lambda>name. elem ''span'' [cls ''chip item''] (esc name) @ '' '') names))) families))))"

section \<open>Nothing an edge says can leave its place\<close>

lemma object_href_link [simp]: "value_ok (object_href c name)" "link_ok (object_href c name)"
  "value_ok (collection_href c)" "link_ok (collection_href c)"
  by (simp_all add: object_href_def collection_href_def link_ok_def)

lemma link_html [simp]: "value_ok target \<Longrightarrow> link_ok target \<Longrightarrow> html words \<Longrightarrow> html (link target words)"
  by (simp add: link_def)

lemma faint_html [simp]: "html words \<Longrightarrow> html (faint words)"
  by (simp add: faint_def)

lemma html_join [simp]: "html sep \<Longrightarrow> (\<And>x. x \<in> set xs \<Longrightarrow> html (f x)) \<Longrightarrow> html (join_with sep (map f xs))"
proof (induction xs)
  case (Cons x xs)
  then show ?case by (cases xs) auto
qed simp

lemma nat_html [simp]: "html (nat_str n)"
  by (rule value_html) simp

lemma target_link_html [simp]: "html (target_link owner contested holds rel)"
  by (auto simp: target_link_def Let_def split: option.split)

lemma relation_end_html [simp]: "html (relation_end owner contested holds inbound rel)"
  by (simp add: relation_end_def)

lemma relation_words_value [simp]: "value_ok (fst (relation_words obs vantage inbound))"
  "html (snd (relation_words obs vantage inbound))"
  by (cases obs; simp add: relation_words_def)+

lemma relation_bodies_html [simp]: "html (relation_bodies raw owner contested holds inbound grp)"
  by (simp add: relation_bodies_def)

lemma group_html_html [simp]: "html (group_html raw owner contested holds inbound g)"
  by (cases g, cases "fst g") (simp add: group_html_def Let_def case_prod_unfold)

lemma relation_groups_html [simp]: "html (relation_groups raw owner contested holds inbound rels)"
  by (simp add: relation_groups_def)

lemma panel_html_html [simp]: "html title \<Longrightarrow> html body \<Longrightarrow> html (panel_html is_open title body)"
  by (simp add: panel_html_def)

lemma relations_section_html [simp]: "html (relations_section raw d docs row)"
  by (simp add: relations_section_def Let_def case_prod_unfold)

lemma name_families_html [simp]: "html (name_families families)"
  by (simp add: name_families_def case_prod_unfold)

section \<open>Every edge in its group\<close>

lemma set_group_order: "set (group_order rels) = edge_key ` set rels" "distinct (group_order rels)"
  by (auto simp: group_order_def)

lemma group_order_sorted: "sorted (map (\<lambda>k. state_rank (fst (snd k))) (group_order rels))"
  unfolding group_order_def by (simp add: case_prod_unfold)


section \<open>Two edges the page takes for the object's own\<close>

text \<open>
  \<open>relations_touching\<close> finds an edge by the name of its end alone, in any collection: what another
  collection's object of the same name asserts stands among what this one asserts.
\<close>

definition other_edge :: rel_row where
  "other_edge = \<lparr>r_collection = ''datasets'', r_scope = [], r_key = ''k'', r_source_id = ''dataset:tank'',
     r_source_name = ''tank'', r_type = ''backs'', r_vantage = ''datasets'', r_target_kind = ''mount'',
     r_target_name = ''/srv'', r_target_id = None, r_resolved = False, r_facts = None, r_obs = Asserted\<rparr>"

lemma namesake_edges:
  "relations_touching ''pool:tank'' ''tank'' (empty_db\<lparr>d_rels := [other_edge]\<rparr>) = ([other_edge], [])"
  by (simp add: relations_touching_def other_edge_def)

end
