(* ===== verification/Pages.thy ===== *)
theory Pages
  imports Edges
begin

text \<open>
  The page of an object (go/internal/collate/object_page.go), the page of the host with its table
  and its opinions (page.go), and the rail that stands on every page (nav.go). A page is a title,
  the rail and a body; \<open>wrap_with\<close> writes the document around them, with the style sheet and the
  script as parameters.
\<close>

section \<open>The facts of an object\<close>

definition unread_facts :: "unobs_row list \<Rightarrow> string \<Rightarrow> string list" where
  "unread_facts unobs object = map u_fact (filter (\<lambda>u. u_object u = object) unobs)"

definition answer_of :: "render option \<Rightarrow> string list" where
  "answer_of rd = (case rd of None \<Rightarrow> [] | Some r \<Rightarrow> rd_answer r)"

definition declared_facts :: "render option \<Rightarrow> fact_decl gomap" where
  "declared_facts rd = (case rd of None \<Rightarrow> [] | Some r \<Rightarrow> rd_facts r)"

definition fact_names :: "render option \<Rightarrow> val gomap \<Rightarrow> string list \<Rightarrow> string list \<Rightarrow> string list" where
  "fact_names rd facts absent unread = mkeys (declared_facts rd) @ mkeys facts @ absent @ unread"

text \<open>The producer's own choice in its own order, then the others by name.\<close>

definition fact_order :: "render option \<Rightarrow> val gomap \<Rightarrow> string list \<Rightarrow> string list \<Rightarrow> string list \<times> string list" where
  "fact_order rd facts absent unread =
     (let names = fact_names rd facts absent unread;
          ordered = filter (\<lambda>n. n \<in> set names) (answer_of rd)
      in (ordered, sort (remdups (filter (\<lambda>n. n \<notin> set ordered) names))))"

definition fact_sentence :: "render option \<Rightarrow> string \<Rightarrow> string" where
  "fact_sentence rd name =
     (case mget (declared_facts rd) name of
        None \<Rightarrow> []
      | Some decl \<Rightarrow> if fd_sentence decl = [] then [] else elem ''div'' [cls ''sentence''] (esc (fd_sentence decl)))"

definition fact_row_html :: "lib \<Rightarrow> render option \<Rightarrow> val gomap \<Rightarrow> string list \<Rightarrow> unobs_row list \<Rightarrow> string \<Rightarrow> string \<Rightarrow> string" where
  "fact_row_html L rd facts absent unobs object name =
     elem ''tr'' []
       (elem ''th'' [cls ''factname''] (esc name) @
        elem ''td'' [cls ''factvalue'']
          (cell_html L \<lparr>sb_values = facts, sb_decls = declared_facts rd\<rparr>
             (cell_for rd name facts absent (could_not unobs object name))) @
        elem ''td'' [cls ''factsentence''] (fact_sentence rd name))"

definition facts_section :: "lib \<Rightarrow> render option \<Rightarrow> val gomap \<Rightarrow> string list \<Rightarrow> unobs_row list \<Rightarrow> string \<Rightarrow> string" where
  "facts_section L rd facts absent unobs object =
     (let (ordered, rest) = fact_order rd facts absent (unread_facts unobs object);
          row = fact_row_html L rd facts absent unobs object
      in panel_html True ''Facts'' (elem ''div'' [cls ''scroll''] (elem ''table'' [] (elem ''tbody'' []
           (concat (map row ordered) @
            (if ordered \<noteq> [] \<and> rest \<noteq> [] then
               elem ''tr'' [cls ''fact-divider''] (elem ''th'' [(''colspan'', Some ''2'')]
                 (''not on the row '' @ em_dash @
                  '' the producer publishes these and did not choose them for the table''))
             else []) @
            concat (map row rest))))))"

section \<open>The opinions of an object\<close>

definition cites_text :: "opinion \<Rightarrow> string" where
  "cites_text op = esc (join_with '', '' (op_cites op))"

definition grounds_html :: "opinion \<Rightarrow> string" where
  "grounds_html op = elem ''span'' [cls (''grounds '' @ esc (op_grounds op))] (esc (op_grounds op))"

definition object_opinions :: "lib \<Rightarrow> rule list \<Rightarrow> string list \<Rightarrow> obj_row \<Rightarrow> opinion list" where
  "object_opinions L rules secrets row =
     sort_key (\<lambda>op. display_rank (op_level op))
       (judge_shaped L rules (o_id row) (instance_of (o_scope row)) (o_type row)
          (filter (\<lambda>p. fst p \<notin> set secrets) (page_facts row)))"

definition opinions_section :: "lib \<Rightarrow> string \<Rightarrow> string \<Rightarrow> obj_row \<Rightarrow> string" where
  "opinions_section L document collection row =
     (let table = rule_table document collection
      in if table = None \<or> document = [] then
           panel_html False ''Opinions'' (elem ''p'' [cls ''faint'']
             ''No rule table could be read for this collection, so nothing has judged this object. That is a statement about the declaration, not about the object.'')
         else case the table of
           None \<Rightarrow> panel_html False ''Opinions'' (elem ''p'' [cls ''faint'']
             ''This collection declares no rules, so nothing was ever going to be said about this object either way. Its producer has published facts and no judgement of them.'')
         | Some rules \<Rightarrow>
             (let secrets = (case secret_facts document collection of None \<Rightarrow> [] | Some names \<Rightarrow> names);
                  fired = object_opinions L rules secrets row
              in if fired = [] then
                   panel_html False ''Opinions'' (elem ''p'' [cls ''dim'']
                     ''Every rule this collection declares was evaluated against this object and none fired.'')
                 else
                   panel_html True ''Opinions'' (elem ''div'' [cls ''scroll''] (elem ''table'' []
                     (elem ''thead'' [] (elem ''tr'' []
                        (elem ''th'' [] ''level'' @ elem ''th'' [] ''grounds'' @ elem ''th'' [] ''says'' @ elem ''th'' [] ''cites'')) @
                      elem ''tbody'' [] (concat (map (\<lambda>op. elem ''tr'' []
                        (elem ''td'' [] (chip (op_level op) (op_level op)) @
                         elem ''td'' [] (grounds_html op) @
                         elem ''td'' [] (esc (op_sentence op)) @
                         elem ''td'' [cls ''faint''] (cites_text op))) fired)))))))"

definition evidence_section :: "string \<Rightarrow> string \<Rightarrow> string" where
  "evidence_section collection object =
     panel_html False ''Evidence''
       (elem ''p'' [] (''The raw native document this object's facts were read from, captured fresh when you ask for it and stored nowhere: '' @
          link (''/v1'' @ collection_href collection @ ''/object/evidence?object='' @ esc (query_escape object)) ''fetch it'' @ ''.'') @
        elem ''p'' [cls ''faint'']
          ''Evidence is checkable, not infallible. It is captured now, so it may show a system that has changed since the fact was read; it can be truncated by a limit; and it inherits whatever the source itself gets wrong. What it offers is that it is the only thing here that is not our interpretation.'')"

section \<open>State chips\<close>

text \<open>\<open>time.Duration\<close> as text: a fraction without trailing zeros, the two larger units when there are any.\<close>

definition fraction :: "nat \<Rightarrow> nat \<Rightarrow> string" where
  "fraction digits n =
     (let s = nat_str (n mod 10 ^ digits);
          t = trim_right (CHR ''0'') (replicate (digits - length s) (CHR ''0'') @ s)
      in if t = [] then [] else CHR ''.'' # t)"

definition duration_text :: "nat \<Rightarrow> string" where
  "duration_text ns =
     (if ns = 0 then ''0s''
      else if ns < 10 ^ 3 then nat_str ns @ ''ns''
      else if ns < 10 ^ 6 then nat_str (ns div 10 ^ 3) @ fraction 3 ns @ [CHR 0xC2, CHR 0xB5, CHR ''s'']
      else if ns < 10 ^ 9 then nat_str (ns div 10 ^ 6) @ fraction 6 ns @ ''ms''
      else (let s = ns div 10 ^ 9; m = s div 60; h = m div 60
            in (if 0 < h then nat_str h @ ''h'' else []) @
               (if 0 < m then nat_str (m mod 60) @ ''m'' else []) @
               nat_str (s mod 60) @ fraction 9 ns @ ''s''))"

definition fixed0 :: "rat \<Rightarrow> string" where
  "fixed0 q = (let (n, d) = quotient_of q in nat_str (nat (div_even n d)))"

fun doubt_text :: "doubt \<Rightarrow> string" where
  "doubt_text NoPromise = ''no declared freshness could be read, so the promise cannot be checked''"
| "doubt_text OtherClock = ''the collector's clock domain differs from this collator's, so no age can be stated''"
| "doubt_text NoStamp = ''the applied reading carries no stamp, so no age can be stated''"
| "doubt_text EarlierBoot = ''the newest reading is from a previous boot; its age cannot be stated yet''"
| "doubt_text ImpossibleAge = ''the arithmetic on this boot's stamps is impossible, so no age is stated''"

fun ground_text :: "overdue_ground \<Rightarrow> string" where
  "ground_text (AtLeast now declared) =
     ''the newest reading is from a previous boot, at least '' @ fixed0 now @ ''s ago, against a declared promise of '' @
       duration_text (nat declared)"
| "ground_text (Aged age declared) =
     ''no reading for '' @ fixed0 age @ ''s against a declared promise of '' @ duration_text (nat declared) @ '' '' @
       em_dash @ '' the values shown are the last known, not the current state''"

definition freshness_chip :: "collection_state \<Rightarrow> verdict option \<Rightarrow> string" where
  "freshness_chip cs fv =
     (if cs_generation cs = 0 then chip ''never read'' ''muted''
      else if (case cs_decline cs of None \<Rightarrow> False | Some dv \<Rightarrow> dv_reason dv = ''absent'') then chip ''absent here'' ''muted''
      else if cs_stale cs then
        chip (''stale'' @ (case cs_stale_reason cs of None \<Rightarrow> [] | Some why \<Rightarrow> '' '' @ middle_dot @ '' '' @ why)) ''warn''
      else case fv of
          Some (Overdue g) \<Rightarrow> elem ''span'' [cls ''chip warn'', (''title'', Some (esc (ground_text g)))] ''overdue''
        | Some (Unverifiable w) \<Rightarrow> elem ''span'' [cls ''chip muted'', (''title'', Some (esc (doubt_text w)))] ''unverifiable''
        | _ \<Rightarrow> chip ''current'' ''ok'')"

section \<open>The rail\<close>

definition rail_count :: "collection_state \<Rightarrow> string" where
  "rail_count cs =
     (if cs_generation cs = 0 then elem ''span'' [cls ''rail-none''] em_dash
      else if cs_count cs = 0 then elem ''span'' [cls ''rail-none''] ''0''
      else elem ''span'' [cls ''num''] (nat_str (cs_count cs)))"

definition rail_state :: "collection_state \<Rightarrow> verdict option \<Rightarrow> string" where
  "rail_state cs fv = elem ''span'' [cls ''rail-state''] (freshness_chip cs fv)"

definition rail_item :: "string \<Rightarrow> (string \<Rightarrow> verdict option) \<Rightarrow> collection_state \<Rightarrow> string" where
  "rail_item current promised cs =
     (let name = cs_name cs; here = (name = current)
      in elem ''li'' [cls (''rail-item'' @ (if here then '' current'' else []))]
           (elem ''a'' (href (collection_href name) # (if here then [(''aria-current'', Some ''page'')] else []))
              (elem ''span'' [cls ''rail-name''] (esc name) @ elem ''span'' [cls ''rail-count''] (rail_count cs)) @
            rail_state cs (promised name)))"

definition state_named :: "collection_state list \<Rightarrow> string \<Rightarrow> collection_state option" where
  "state_named states name = find (\<lambda>cs. cs_name cs = name) (rev states)"

definition nav_rail :: "db \<Rightarrow> collection_state list \<Rightarrow> string \<Rightarrow> verdict gomap \<Rightarrow> string" where
  "nav_rail d states current promises =
     elem ''nav'' [cls ''rail'', (''aria-label'', Some ''Collections'')]
       (elem ''a'' [cls ''skip'', href ''#main''] ''Skip to content'' @
        elem ''a'' [cls (''rail-home'' @ (if current = [] then '' current'' else [])), href ''/''] ''This host'' @
        concat (map (\<lambda>(collector, names). elem ''div'' [cls ''rail-group'']
          (elem ''h2'' [] (esc (if collector = [] then ''collector not recorded'' else collector)) @
           elem ''ul'' [] (concat (map (\<lambda>name. case state_named states name of
               None \<Rightarrow> [] | Some cs \<Rightarrow> rail_item current (mget promises) cs) names)))) (nav_groups d states)))"

section \<open>The object page\<close>

record html_page =
  hp_title :: string
  hp_rail :: string
  hp_body :: string

datatype html_reply = HtmlNotFound | HtmlError | Html html_page

definition wrap_with :: "string \<Rightarrow> string \<Rightarrow> html_page \<Rightarrow> bool \<Rightarrow> string" where
  "wrap_with tokens_css narrow_js page script =
     ''<!doctype html>'' @ newline @ ''<html lang='' @ quoted ''en'' @ ''><head><meta charset='' @ quoted ''utf-8'' @ ''>'' @
     ''<meta name='' @ quoted ''viewport'' @ '' content='' @ quoted ''width=device-width, initial-scale=1'' @ ''>'' @
     ''<title>'' @ esc (hp_title page) @ ''</title><style>'' @ tokens_css @ ''</style></head><body>'' @ hp_rail page @
     ''<main id='' @ quoted ''main'' @ ''>'' @ hp_body page @ ''</main>'' @
     (if script then ''<script>'' @ narrow_js @ ''</script>'' else []) @ ''</body></html>'' @ newline"

definition object_body ::
  "lib \<Rightarrow> (rel_row \<Rightarrow> string) \<Rightarrow> db \<Rightarrow> string list \<Rightarrow> string \<Rightarrow> render option \<Rightarrow> obj_row \<Rightarrow> string"
where
  "object_body L raw d docs collection rd row =
     elem ''p'' [cls ''dim''] (link ''/'' ''this host'' @ '' '' @ middle_dot @ '' '' @
       link (collection_href collection) (esc collection)) @
     elem ''h1'' [] (esc (o_name row)) @
     (if o_type row = [] then [] else elem ''p'' [cls ''dim''] (chip (o_type row) ''type'' @ scope_mark (o_scope row))) @
     name_families (name_families_of (o_names row)) @
     facts_section L rd (page_facts row) (o_absent row) (unobservables_of collection d) (o_id row) @
     opinions_section L (declaration_for collection d) collection row @
     relations_section raw d docs row @
     evidence_section collection (o_name row)"

definition object_page ::
  "lib \<Rightarrow> (rel_row \<Rightarrow> string) \<Rightarrow> db \<Rightarrow> string list \<Rightarrow> rat \<Rightarrow> string \<Rightarrow> string \<Rightarrow> string \<Rightarrow> html_reply"
where
  "object_page L raw d docs now boot collection object =
     (case find (\<lambda>r. o_name r = object) (objects_of collection d) of
        None \<Rightarrow> HtmlNotFound
      | Some row \<Rightarrow>
          (case render_for (declaration_for collection d) collection of
             None \<Rightarrow> HtmlError
           | Some rd \<Rightarrow>
               (let states = collections_of d
                in Html \<lparr>hp_title = o_name row @ '' '' @ middle_dot @ '' '' @ collection,
                     hp_rail = nav_rail d states collection (freshness_map docs states now boot),
                     hp_body = object_body L raw d docs collection rd row\<rparr>)))"

end
