(* ===== verification/HostPage.thy ===== *)
theory HostPage
  imports Pages
begin

text \<open>
  The page of the host (\<open>hostPage\<close> of go/internal/collate/page.go): the table of its collections,
  what was judged and what was not, and every opinion with the object it is of. \<open>clock 0\<close> is read
  for the verdicts and \<open>clock (Suc i)\<close> for the age of row \<open>i\<close>.
\<close>

section \<open>The collections\<close>

definition faint_span :: "string \<Rightarrow> string" where
  "faint_span words = elem ''span'' [cls ''faint''] words"

definition age_html :: "collection_state \<Rightarrow> rat \<Rightarrow> string \<Rightarrow> string" where
  "age_html cs now boot =
     (if cs_generation cs = 0 then faint_span ''never read''
      else case cs_oldest cs of
          None \<Rightarrow> faint_span ''applied, no stamp''
        | Some oldest \<Rightarrow>
            if \<not> equal_fold_ptr (cs_boot cs) boot then faint_span ''another boot''
            else if 0 \<le> f64_sub now oldest then elem ''span'' [cls ''num''] (fixed0 (f64_sub now oldest) @ ''s'')
            else faint_span ''clock domain mismatch'')"

definition count_html :: "collection_state \<Rightarrow> string" where
  "count_html cs =
     (if cs_generation cs = 0 then elem ''span'' [cls ''state-unstated''] ''not counted'' else nat_str (cs_count cs))"

definition host_row :: "verdict gomap \<Rightarrow> string \<Rightarrow> rat \<Rightarrow> collection_state \<Rightarrow> string" where
  "host_row promises boot now cs =
     elem ''tr'' []
       (elem ''td'' [cls ''ident''] (link (collection_href (cs_name cs)) (esc (cs_name cs))) @
        elem ''td'' [cls ''num''] (nat_str (cs_generation cs)) @
        elem ''td'' [cls ''num''] (count_html cs) @
        elem ''td'' [] (freshness_chip cs (mget promises (cs_name cs))) @
        elem ''td'' [] (age_html cs now boot))"

definition host_table :: "verdict gomap \<Rightarrow> string \<Rightarrow> (nat \<Rightarrow> rat) \<Rightarrow> collection_state list \<Rightarrow> string" where
  "host_table promises boot clock states =
     elem ''section'' [cls ''panel''] (elem ''h2'' [] ''Collections'' @
       elem ''div'' [cls ''scroll''] (elem ''table'' []
         (elem ''thead'' [] (elem ''tr'' []
            (elem ''th'' [] ''collection'' @ elem ''th'' [] ''generation'' @ elem ''th'' [] ''objects'' @
             elem ''th'' [] ''freshness'' @ elem ''th'' [] ''age'')) @
          elem ''tbody'' [] (concat (map (\<lambda>(i, cs). host_row promises boot (clock (Suc i)) cs) (enumerate 0 states))))))"

section \<open>What was judged\<close>

text \<open>An opinion with the collection and the name of the object it is of.\<close>

type_synonym sourced = "opinion \<times> string \<times> string"

datatype standing = NeverRead | NoTable | NoRules | Fires "sourced list"

text \<open>\<open>None\<close> is an error of the page.\<close>

definition standing_of :: "lib \<Rightarrow> db \<Rightarrow> collection_state \<Rightarrow> standing option" where
  "standing_of L d cs =
     (if cs_generation cs = 0 then Some NeverRead
      else
        (let name = cs_name cs; document = declaration_for name d; table = rule_table document name
         in if table = None \<or> document = [] then Some NoTable
            else case the table of
              None \<Rightarrow> Some NoRules
            | Some rules \<Rightarrow>
                map_option (\<lambda>secrets. Fires (concat (map (\<lambda>row.
                    map (\<lambda>op. (op, name, o_name row)) (judge_row L rules secrets row)) (objects_of name d))))
                  (secret_facts document name)))"

definition standings :: "lib \<Rightarrow> db \<Rightarrow> collection_state list \<Rightarrow> (string \<times> standing) list option" where
  "standings L d states = mapO (\<lambda>cs. map_option (Pair (cs_name cs)) (standing_of L d cs)) states"

definition names_with :: "standing \<Rightarrow> (string \<times> standing) list \<Rightarrow> string list" where
  "names_with st marks = map fst (filter (\<lambda>p. snd p = st) marks)"

definition fired_of :: "(string \<times> standing) list \<Rightarrow> sourced list" where
  "fired_of marks =
     sort_key (\<lambda>(op, from). display_rank (op_level op))
       (concat (map (\<lambda>(name, st). case st of Fires ops \<Rightarrow> ops | _ \<Rightarrow> []) marks))"

definition nothing_fired :: "(string \<times> standing) list \<Rightarrow> string" where
  "nothing_fired marks =
     (let missed = length (names_with NoTable marks) + length (names_with NeverRead marks);
          judged = length marks - missed
      in elem ''p'' [cls ''dim'']
           (if missed = 0 then
              ''No opinion fired on this host's own facts, across all '' @ nat_str judged @ '' collections.''
            else
              ''No opinion fired on the '' @ nat_str judged @ '' of '' @ nat_str (length marks) @
              '' collections that were judged. That is not a verdict on the other '' @ nat_str missed @ '' '' @ em_dash @
              '' see below.''))"

definition fired_row :: "sourced \<Rightarrow> string" where
  "fired_row = (\<lambda>(op, collection, object).
     elem ''tr'' []
       (elem ''td'' [] (chip (op_level op) (op_level op)) @
        elem ''td'' [] (grounds_html op) @
        elem ''td'' [cls ''ident'']
          (if collection = [] then esc (op_object op) else link (object_href collection object) (esc (op_object op))) @
        elem ''td'' [] (esc (op_sentence op)) @
        elem ''td'' [cls ''faint''] (cites_text op)))"

definition fired_table :: "sourced list \<Rightarrow> string" where
  "fired_table fired =
     elem ''div'' [cls ''scroll''] (elem ''table'' []
       (elem ''thead'' [] (elem ''tr'' []
          (elem ''th'' [] ''level'' @ elem ''th'' [] ''grounds'' @ elem ''th'' [] ''object'' @ elem ''th'' [] ''says'' @
           elem ''th'' [] ''cites'')) @
        elem ''tbody'' [] (concat (map fired_row fired))))"

definition named_note :: "string list \<Rightarrow> (string \<Rightarrow> string) \<Rightarrow> string" where
  "named_note names words =
     (if names = [] then [] else elem ''p'' [cls ''faint''] (words (esc (join_with '', '' names))))"

definition attention_html :: "(string \<times> standing) list \<Rightarrow> string" where
  "attention_html marks =
     (let fired = fired_of marks;
          unjudged = names_with NoTable marks;
          unruled = names_with NoRules marks;
          never = names_with NeverRead marks
      in elem ''section'' [cls ''panel''] (elem ''h2'' [] ''Opinions'' @
           (if fired = [] then nothing_fired marks else fired_table fired) @
           named_note unjudged (\<lambda>names. ''Not judged, because no rule table could be read for: '' @ names @
             ''. That is a statement about the declaration, not about the host.'') @
           named_note unruled (\<lambda>names. nat_str (length unruled) @
             '' collections declare no rules at all, so nothing was ever going to fire for them: '' @ names @
             ''. That is their producer's choice, not a fault here '' @ em_dash @
             '' but it does mean this page says nothing about them either way.'') @
           named_note never (\<lambda>names. ''Nothing has ever applied for '' @ nat_str (length never) @
             '' of these collections, so no opinion could be formed about them at all: '' @ names @
             ''. Each one's own page says whether it declined and why.'')))"

section \<open>The page\<close>

definition host_page :: "lib \<Rightarrow> db \<Rightarrow> string list \<Rightarrow> (nat \<Rightarrow> rat) \<Rightarrow> string \<Rightarrow> html_reply" where
  "host_page L d docs clock boot =
     (let states = collections_of d; promises = freshness_map docs states (clock 0) boot
      in case standings L d states of
           None \<Rightarrow> HtmlError
         | Some marks \<Rightarrow>
             Html \<lparr>hp_title = ''This host'', hp_rail = nav_rail d states [] promises,
               hp_body = elem ''h1'' [] ''This host'' @ attention_html marks @ host_table promises boot clock states @
                 elem ''footer'' []
                   ''Served by this host's own collator. It answers whether or not a hub is reachable, which is why it exists.''\<rparr>)"

section \<open>Nothing the store holds can leave its place\<close>

lemma fixed0_value [simp]: "value_ok (fixed0 q)"
  by (simp add: fixed0_def case_prod_unfold Let_def)

lemma fixed0_html [simp]: "html (fixed0 q)"
  by (rule value_html) simp

lemma fact_sentence_html [simp]: "html (fact_sentence rd name)"
  by (simp add: fact_sentence_def split: option.split)

lemma fact_row_is_html [simp]: "html (fact_row_html L rd facts absent unobs object name)"
  by (simp add: fact_row_html_def)

lemma facts_section_html [simp]: "html (facts_section L rd facts absent unobs object)"
  by (simp add: facts_section_def Let_def case_prod_unfold)

lemma opinion_cells_html [simp]: "html (cites_text op)" "html (grounds_html op)"
  by (simp_all add: cites_text_def grounds_html_def)

lemma opinions_section_html [simp]: "html (opinions_section L document collection row)"
  by (simp add: opinions_section_def Let_def split: option.split)

lemma evidence_section_html [simp]: "html (evidence_section collection object)"
  by (simp add: evidence_section_def link_ok_def collection_href_def)

lemma freshness_chip_html [simp]: "html (freshness_chip cs fv)"
  by (simp add: freshness_chip_def split: option.split verdict.split)

lemma rail_item_html [simp]: "html (rail_item current promised cs)"
  by (simp add: rail_item_def rail_count_def rail_state_def Let_def)

lemma nav_rail_html [simp]: "html (nav_rail d states current promises)"
  by (simp add: nav_rail_def link_ok_def case_prod_unfold split: option.split)

lemma home_link [simp]: "link_ok ''/''"
  by (simp add: link_ok_def)

lemma object_body_html [simp]: "html (object_body L raw d docs collection rd row)"
  by (simp add: object_body_def)

lemma host_table_html [simp]: "html (host_table promises boot clock states)"
  by (simp add: host_table_def host_row_def count_html_def age_html_def faint_span_def case_prod_unfold split: option.split)

lemma fired_row_html [simp]: "html (fired_row f)"
  by (simp add: fired_row_def case_prod_unfold)

lemma attention_html_html [simp]: "html (attention_html marks)"
  by (simp add: attention_html_def Let_def nothing_fired_def fired_table_def named_note_def)

section \<open>Properties\<close>

text \<open>
  Property C28. Nothing a collector publishes can leave its place on a page. Whatever text the
  facts, names, edges, opinions and declarations of the store hold, the tags of an object's page
  and of the host's page nest, each is an element and has attributes the pages use, and every link
  stays on the host.
\<close>

theorem published_text_stays_text:
  shows "(case object_page L raw d docs now boot collection object of
        Html page \<Rightarrow> safe_html (hp_rail page @ hp_body page) | _ \<Rightarrow> True) \<and>
    (case host_page L d docs clock boot of
        Html page \<Rightarrow> safe_html (hp_rail page @ hp_body page) | _ \<Rightarrow> True)"
  by (auto simp: object_page_def host_page_def Let_def intro!: html_safe split: option.split)

lemma could_not_unread: "(could_not unobs object name = None) = (name \<notin> set (unread_facts unobs object))"
  by (auto simp: could_not_def find_None_iff unread_facts_def)


lemma judge_row_of:
  "op \<in> set (judge_row L rules secrets row) \<Longrightarrow> op_object op = o_id row \<and> op_instance op = instance_of (o_scope row)"
  by (auto simp: judge_row_def judge_shaped_def opinion_of_def split: option.splits)

text \<open>The opinions on the page and the objects they are linked to.\<close>

definition linked_right :: "db \<Rightarrow> sourced \<Rightarrow> bool" where
  "linked_right d = (\<lambda>(op, c, n).
     list_ex (\<lambda>row. o_name row = n \<and> o_id row = op_object op \<and> instance_of (o_scope row) = op_instance op) (objects_of c d))"

definition opinions_in :: "judgement \<Rightarrow> opinion list" where
  "opinions_in j = (case j of Judged ops \<Rightarrow> ops | _ \<Rightarrow> [])"

definition sourced_in :: "standing \<Rightarrow> sourced list" where
  "sourced_in st = (case st of Fires ops \<Rightarrow> ops | _ \<Rightarrow> [])"

fun stands_as :: "judgement \<Rightarrow> standing \<Rightarrow> bool" where
  "stands_as JudgeError st = False"
| "stands_as (Unjudged NothingApplied) st = (st = NeverRead)"
| "stands_as (Unjudged NoRuleTable) st = (st = NoRules)"
| "stands_as (Unjudged reason) st = (st = NoTable)"
| "stands_as (Judged ops) st = (case st of Fires sourced \<Rightarrow> map fst sourced = ops | _ \<Rightarrow> False)"

lemma standing_None: "standing_of L d cs = None \<longleftrightarrow> judge_collection L d cs = JudgeError"
  by (auto simp: standing_of_def judge_collection_def Let_def split: option.splits)

lemma judge_row_linked: "op \<in> set (judge_row L rules secrets row) \<Longrightarrow> row \<in> set (objects_of c d) \<Longrightarrow> linked_right d (op, c, o_name row)"
  using judge_row_of [of op L rules secrets row] by (auto simp: linked_right_def list_ex_iff intro!: bexI [of _ row])

lemma standing_Some:
  assumes "standing_of L d cs = Some st"
  shows "stands_as (judge_collection L d cs) st" and "list_all (linked_right d) (sourced_in st)"
    and "map fst (sourced_in st) = opinions_in (judge_collection L d cs)"
  using assms
  by (auto simp: standing_of_def judge_collection_def Let_def sourced_in_def opinions_in_def map_concat comp_def
      list_all_iff judge_row_linked split: option.splits if_splits)

lemma standings_None: "standings L d states = None \<longleftrightarrow> list_ex (\<lambda>cs. judge_collection L d cs = JudgeError) states"
  by (induction states) (auto simp: standings_def standing_None [symmetric] split: option.split)

lemma standings_Some:
  "standings L d states = Some marks \<longleftrightarrow>
     list_all2 (\<lambda>cs m. fst m = cs_name cs \<and> standing_of L d cs = Some (snd m)) states marks"
  unfolding standings_def mapO_Some_iff by (rule arg_cong [where f = "\<lambda>P. list_all2 P states marks"]) (auto simp: fun_eq_iff)

text \<open>
  Property C31. The page of the host says of every collection what the status surface says: an
  error there is an error here, the collections never read, without a readable table and without
  rules are named as such, and the opinions listed are exactly those the status counts, the most
  severe first, each linked to the stored object it is of.
\<close>

theorem host_page_agrees_with_status:
  fixes L d
  defines "states \<equiv> collections_of d"
  shows "case standings L d states of
      None \<Rightarrow> list_ex (\<lambda>cs. judge_collection L d cs = JudgeError) states
    | Some marks \<Rightarrow>
        list_all2 (\<lambda>cs (name, st). name = cs_name cs \<and> stands_as (judge_collection L d cs) st) states marks \<and>
        mset (map fst (fired_of marks)) = mset (concat (map (\<lambda>cs. opinions_in (judge_collection L d cs)) states)) \<and>
        sorted (map (\<lambda>(op, from). display_rank (op_level op)) (fired_of marks)) \<and>
        list_all (linked_right d) (fired_of marks)"
proof (cases "standings L d states")
  case None
  then show ?thesis using standings_None [of L d states] by simp
next
  case (Some marks)
  then have each: "list_all2 (\<lambda>cs m. fst m = cs_name cs \<and> standing_of L d cs = Some (snd m)) states marks"
    unfolding standings_Some .
  have listed: "concat (map (\<lambda>(name, st). case st of Fires ops \<Rightarrow> ops | _ \<Rightarrow> []) marks) = concat (map (sourced_in \<circ> snd) marks)"
    by (simp add: sourced_in_def case_prod_unfold comp_def)
  have "map fst (concat (map (sourced_in \<circ> snd) marks)) = concat (map (\<lambda>cs. opinions_in (judge_collection L d cs)) states)"
    using each by (induction rule: list_all2_induct) (simp_all add: standing_Some)
  then have "mset (map fst (fired_of marks)) = mset (concat (map (\<lambda>cs. opinions_in (judge_collection L d cs)) states))"
    unfolding fired_of_def listed mset_map mset_sort by (metis mset_map)
  moreover have "list_all (linked_right d) (concat (map (sourced_in \<circ> snd) marks))"
    using each by (induction rule: list_all2_induct) (auto dest: standing_Some(2))
  then have "list_all (linked_right d) (fired_of marks)"
    unfolding fired_of_def listed by (simp add: list_all_iff)
  moreover have "list_all2 (\<lambda>cs (name, st). name = cs_name cs \<and> stands_as (judge_collection L d cs) st) states marks"
    using each by (rule list_all2_mono) (auto dest: standing_Some(1))
  ultimately show ?thesis by (simp add: Some fired_of_def)
qed

end
