(* ===== verification/NetDocument.thy ===== *)
theory NetDocument
  imports Collector
begin

text \<open>
  The document se-collect-network reads from nft (go/cmd/se-collect-network/document.go) and the
  Python spellings of its values (python.go). A value is a \<open>json\<close> whose objects keep the order of
  the document: a member given twice stands at its first place with its last value. Nesting is
  bounded as \<open>json_unmarshal\<close> bounds it.
\<close>

section \<open>Documents (document.go)\<close>

fun put_member :: "string \<Rightarrow> json \<Rightarrow> (string \<times> json) list \<Rightarrow> (string \<times> json) list" where
  "put_member k v [] = [(k, v)]"
| "put_member k v (p # ps) = (if fst p = k then (k, v) # ps else p # put_member k v ps)"

fun ordered_value :: "json \<Rightarrow> json" where
  "ordered_value (JArr xs) = JArr (map ordered_value xs)"
| "ordered_value (JObj kvs) = JObj (fold (\<lambda>(k, v). put_member k v) (map (\<lambda>(k, v). (k, ordered_value v)) kvs) [])"
| "ordered_value j = j"

definition decode_document :: "string \<Rightarrow> json option" where
  "decode_document raw = map_option ordered_value (json_unmarshal raw)"

definition members_of :: "json \<Rightarrow> (string \<times> json) list" where
  "members_of j = (case j of JObj kvs \<Rightarrow> kvs | _ \<Rightarrow> [])"

definition doc_member :: "json \<Rightarrow> string \<Rightarrow> json option" where
  "doc_member j k = map_of (members_of j) k"

definition doc_get :: "json \<Rightarrow> string \<Rightarrow> json" where
  "doc_get j k = (case doc_member j k of None \<Rightarrow> JNull | Some v \<Rightarrow> v)"

definition doc_has :: "json \<Rightarrow> string \<Rightarrow> bool" where
  "doc_has j k = (doc_member j k \<noteq> None)"

definition is_object :: "json \<Rightarrow> bool" where
  "is_object j = (case j of JObj _ \<Rightarrow> True | _ \<Rightarrow> False)"

definition is_text :: "json \<Rightarrow> bool" where
  "is_text j = (case j of JStr _ \<Rightarrow> True | _ \<Rightarrow> False)"

definition text_in :: "json \<Rightarrow> string" where
  "text_in j = (case j of JStr s \<Rightarrow> s | _ \<Rightarrow> [])"

definition elements_of :: "json \<Rightarrow> json list" where
  "elements_of j = (case j of JArr xs \<Rightarrow> xs | _ \<Rightarrow> [])"

definition is_array :: "json \<Rightarrow> bool" where
  "is_array j = (case j of JArr _ \<Rightarrow> True | _ \<Rightarrow> False)"

definition is_integer_literal :: "string \<Rightarrow> bool" where
  "is_integer_literal s = list_all (\<lambda>c. c \<notin> {CHR ''.'', CHR ''e'', CHR ''E''}) s"

text \<open>A truth value is an integer, as it is in Python.\<close>

definition is_int :: "json \<Rightarrow> bool" where
  "is_int j = (case j of JBool _ \<Rightarrow> True | JNum n \<Rightarrow> is_integer_literal n | _ \<Rightarrow> False)"

definition first_key :: "json \<Rightarrow> string" where
  "first_key j = (case members_of j of [] \<Rightarrow> [] | p # _ \<Rightarrow> fst p)"

definition string_member :: "json \<Rightarrow> string \<Rightarrow> string" where
  "string_member j k = (case doc_member j k of Some (JStr s) \<Rightarrow> s | _ \<Rightarrow> [])"

definition number_is_non_zero :: "string \<Rightarrow> bool" where
  "number_is_non_zero s =
     (if is_integer_literal s then list_ex (\<lambda>c. c \<in> set ''123456789'') s
      else case parse_float s of None \<Rightarrow> True | Some x \<Rightarrow> f64_val x \<noteq> 0)"

definition py_truthy :: "json \<Rightarrow> bool" where
  "py_truthy j = (case j of
       JNull \<Rightarrow> False | JBool b \<Rightarrow> b | JNum n \<Rightarrow> number_is_non_zero n | JStr s \<Rightarrow> s \<noteq> []
     | JArr xs \<Rightarrow> xs \<noteq> [] | JObj kvs \<Rightarrow> kvs \<noteq> [])"

section \<open>Python's spellings (python.go)\<close>

text \<open>
  The shortest digits of a \<open>float64\<close> in the form of \<open>strconv.FormatFloat(f, 'e', -1, 64)\<close>, and
  what \<open>unicode.IsPrint\<close> says of a code point from 127 on, are parameters.
\<close>

record pylib =
  py_shortest :: "f64 \<Rightarrow> string"
  py_print :: "nat \<Rightarrow> bool"

function runes :: "string \<Rightarrow> nat list" where
  "runes [] = []"
| "runes (a # s) =
     (let k = utf8_len (a # s)
      in if k \<le> 1 then (if k = 0 then 65533 else byte a) # runes s
         else (case take (k - 1) s of
             [b] \<Rightarrow> (byte a - 192) * 64 + (byte b - 128)
           | [b, c] \<Rightarrow> (byte a - 224) * 4096 + (byte b - 128) * 64 + (byte c - 128)
           | b # c # d # _ \<Rightarrow> (byte a - 240) * 262144 + (byte b - 128) * 4096 + (byte c - 128) * 64 + (byte d - 128)
           | [] \<Rightarrow> 65533) # runes (drop (k - 1) s))"
  by pat_completeness auto
termination
  by (relation "measure length") auto

declare runes.simps [simp del]

definition hex_pad :: "nat \<Rightarrow> nat \<Rightarrow> string" where
  "hex_pad width n = map (\<lambda>i. hex_digit (n div 16 ^ i mod 16)) (rev [0..<width])"

definition append_escape :: "nat \<Rightarrow> string" where
  "append_escape r = CHR 0x5C # CHR ''u'' # hex_pad 4 r"

definition quoted_rune :: "nat \<Rightarrow> string" where
  "quoted_rune r =
     (if r = 34 then [CHR 0x5C, CHR 0x22]
      else if r = 92 then [CHR 0x5C, CHR 0x5C]
      else if r = 8 then CHR 0x5C # ''b'' else if r = 12 then CHR 0x5C # ''f''
      else if r = 10 then CHR 0x5C # ''n'' else if r = 13 then CHR 0x5C # ''r''
      else if r = 9 then CHR 0x5C # ''t''
      else if 32 \<le> r \<and> r \<le> 126 then [char_of r]
      else if 65535 < r then
        append_escape (55296 + (r - 65536) div 1024) @ append_escape (56320 + (r - 65536) mod 1024)
      else append_escape r)"

definition append_quoted :: "string \<Rightarrow> string" where
  "append_quoted s = CHR 0x22 # concat (map quoted_rune (runes s)) @ [CHR 0x22]"

definition format_exponent :: "int \<Rightarrow> string" where
  "format_exponent e =
     (if e < 0 then ''-'' else ''+'') @ (if \<bar>e\<bar> < 10 then ''0'' else []) @ nat_str (nat \<bar>e\<bar>)"

text \<open>The value as the document carried it.\<close>

fun append_json :: "json \<Rightarrow> string" where
  "append_json JNull = ''null''"
| "append_json (JBool b) = (if b then ''true'' else ''false'')"
| "append_json (JNum n) = (if n = [] then ''0'' else n)"
| "append_json (JStr s) = append_quoted s"
| "append_json (JArr xs) = ''['' @ join_with '','' (map append_json xs) @ '']''"
| "append_json (JObj kvs) =
     ''{'' @ join_with '','' (map (\<lambda>(k, v). append_quoted k @ '':'' @ append_json v) kvs) @ ''}''"

text \<open>\<open>repr\<close> of a float, from its shortest digits.\<close>

definition python_float_repr :: "string \<Rightarrow> string" where
  "python_float_repr shortest =
     (case (case cut_at CHR ''e'' shortest of Some p \<Rightarrow> p | None \<Rightarrow> (shortest, [])) of (coefficient, exponent) \<Rightarrow>
       (let negative = (coefficient \<noteq> [] \<and> hd coefficient = CHR ''-'');
            sign = (if negative then ''-'' else []);
            body = (if negative then tl coefficient else coefficient);
            digits = (case cut_at CHR ''.'' body of Some (a, b) \<Rightarrow> a @ b | None \<Rightarrow> body)
        in case parse_int64 exponent of
             None \<Rightarrow> shortest
           | Some e \<Rightarrow>
               (let decpt = (if digits = ''0'' then 1 else e + 1)
                in if decpt \<le> - 4 \<or> 16 < decpt then
                     sign @ take 1 digits @ (if 1 < length digits then CHR ''.'' # drop 1 digits else []) @ ''e'' @
                       format_exponent (decpt - 1)
                   else if decpt \<le> 0 then sign @ ''0.'' @ replicate (nat (- decpt)) CHR ''0'' @ digits
                   else if int (length digits) \<le> decpt then
                     sign @ digits @ replicate (nat decpt - length digits) CHR ''0'' @ ''.0''
                   else sign @ take (nat decpt) digits @ ''.'' @ drop (nat decpt) digits)))"

definition python_number_text :: "pylib \<Rightarrow> string \<Rightarrow> string" where
  "python_number_text L s =
     (if s = [] then ''0''
      else if is_integer_literal s then (if s = ''-0'' then ''0'' else s)
      else case parse_float s of
          None \<Rightarrow> (if is_prefix ''-'' s then ''-Infinity'' else ''Infinity'')
        | Some x \<Rightarrow> python_float_repr (py_shortest L x))"

fun python_dumps :: "pylib \<Rightarrow> json \<Rightarrow> string" where
  "python_dumps L JNull = ''null''"
| "python_dumps L (JBool b) = (if b then ''true'' else ''false'')"
| "python_dumps L (JNum n) = python_number_text L n"
| "python_dumps L (JStr s) = append_quoted s"
| "python_dumps L (JArr xs) = ''['' @ join_with '', '' (map (python_dumps L) xs) @ '']''"
| "python_dumps L (JObj kvs) =
     ''{'' @ join_with '', '' (map (\<lambda>(k, v). append_quoted k @ '': '' @ python_dumps L v) kvs) @ ''}''"

definition repr_rune :: "pylib \<Rightarrow> nat \<Rightarrow> nat \<Rightarrow> string" where
  "repr_rune L quote r =
     (if r = quote \<or> r = 92 then [CHR 0x5C, char_of r]
      else if r = 10 then CHR 0x5C # ''n'' else if r = 13 then CHR 0x5C # ''r'' else if r = 9 then CHR 0x5C # ''t''
      else if r < 32 \<or> r = 127 then CHR 0x5C # CHR ''x'' # hex_pad 2 r
      else if r < 127 then [char_of r]
      else if py_print L r then utf8_enc r
      else if r \<le> 255 then CHR 0x5C # CHR ''x'' # hex_pad 2 r
      else if r \<le> 65535 then CHR 0x5C # CHR ''u'' # hex_pad 4 r
      else CHR 0x5C # CHR ''U'' # hex_pad 8 r)"

definition python_string_repr :: "pylib \<Rightarrow> string \<Rightarrow> string" where
  "python_string_repr L s =
     (let quote = (if CHR 0x27 \<in> set s \<and> CHR 0x22 \<notin> set s then 34 else 39)
      in char_of quote # concat (map (repr_rune L quote) (runes s)) @ [char_of quote])"

fun python_repr :: "pylib \<Rightarrow> json \<Rightarrow> string" where
  "python_repr L JNull = ''None''"
| "python_repr L (JBool b) = (if b then ''True'' else ''False'')"
| "python_repr L (JNum n) = python_number_text L n"
| "python_repr L (JStr s) = python_string_repr L s"
| "python_repr L (JArr xs) = ''['' @ join_with '', '' (map (python_repr L) xs) @ '']''"
| "python_repr L (JObj kvs) =
     ''{'' @ join_with '', '' (map (\<lambda>(k, v). python_string_repr L k @ '': '' @ python_repr L v) kvs) @ ''}''"

definition python_str :: "pylib \<Rightarrow> json \<Rightarrow> string" where
  "python_str L j = (case j of JStr s \<Rightarrow> s | _ \<Rightarrow> python_repr L j)"

fun nat_hex :: "nat \<Rightarrow> string" where
  "nat_hex n = (if n < 16 then [hex_digit n] else nat_hex (n div 16) @ [hex_digit (n mod 16)])"

declare nat_hex.simps [simp del]

definition python_hex :: "json \<Rightarrow> string" where
  "python_hex j = (case j of
       JBool b \<Rightarrow> if b then ''0x1'' else ''0x0''
     | JNum n \<Rightarrow>
         (let digits = drop_sign n
          in if digits = [] \<or> \<not> list_all is_digit digits then ''0x0''
             else if is_prefix ''-'' n \<and> dec_val digits \<noteq> 0 then ''-0x'' @ nat_hex (dec_val digits)
             else ''0x'' @ nat_hex (dec_val digits))
     | _ \<Rightarrow> ''0x0'')"

section \<open>Bounding and scrubbing (python.go)\<close>

definition ellipsis :: string where
  "ellipsis = [CHR 0xE2, CHR 0x80, CHR 0xA6]"

definition one_line :: "string \<Rightarrow> nat \<Rightarrow> string" where
  "one_line value limit =
     (let flat = join_with '' '' (go_fields value); rs = runes flat
      in if length rs \<le> limit then flat
         else (let window = concat (map utf8_enc (take limit rs));
                   head = (case cut_last CHR '' '' window of Some (a, b) \<Rightarrow> a | None \<Rightarrow> window);
                   kept = (if head = [] then window else head)
               in rev (dropWhile (\<lambda>c. c \<in> set '' ,;:.([{-'') (rev kept)) @ '' '' @ ellipsis @ '' (truncated)''))"

definition is_query_terminator :: "char \<Rightarrow> bool" where
  "is_query_terminator c =
     (c \<in> {CHR '' '', CHR 0x09, CHR 0x0A, CHR 0x0B, CHR 0x0C, CHR 0x0D, CHR 0x22, CHR 0x27, CHR ''<'', CHR ''>''})"

definition is_userinfo_terminator :: "char \<Rightarrow> bool" where
  "is_userinfo_terminator c = (is_query_terminator c \<or> c = CHR ''/'' \<or> c = CHR ''@'')"

function strip_query_strings :: "string \<Rightarrow> string" where
  "strip_query_strings [] = []"
| "strip_query_strings (c # s) =
     (if c \<noteq> CHR ''?'' then c # strip_query_strings s
      else (let rest = dropWhile (\<lambda>c. \<not> is_query_terminator c) s
            in if length rest = length s then c # strip_query_strings s
               else ''?[query-stripped]'' @ strip_query_strings rest))"
  by pat_completeness auto
termination
  by (relation "measure length") (auto simp: length_dropWhile_le le_imp_less_Suc)

declare strip_query_strings.simps(2) [simp del]

function strip_userinfo :: "string \<Rightarrow> string" where
  "strip_userinfo [] = []"
| "strip_userinfo (c # s) =
     (if is_prefix ''://'' (c # s) then
        (let after = drop 2 s; rest = dropWhile (\<lambda>c. \<not> is_userinfo_terminator c) after
         in ''://'' @
            (if length rest < length after \<and> rest \<noteq> [] \<and> hd rest = CHR ''@''
             then ''[userinfo-stripped]@'' @ strip_userinfo (tl rest)
             else strip_userinfo after))
      else c # strip_userinfo s)"
  by pat_completeness auto
termination
proof (relation "measure length", simp, goal_cases)
  case (1 c s after rest)
  then have "length rest \<le> length s - 2" using length_dropWhile_le [of _ after] by simp
  then have "length rest \<le> length s" by linarith
  then show ?case by simp
qed auto

declare strip_userinfo.simps(2) [simp del]

definition scrub :: "string \<Rightarrow> string" where
  "scrub value = strip_userinfo (strip_query_strings value)"

definition max_reason_length :: nat where
  "max_reason_length = 400"

definition reason_text :: "string \<Rightarrow> string" where
  "reason_text value = scrub (one_line value max_reason_length)"

end
