(* ===== verification/Firewall.thy ===== *)
theory Firewall
  imports NetDocument
begin

text \<open>
  What se-collect-network says of a ruleset: the rows of its rules
  (go/cmd/se-collect-network/rules.go), of its chains (chains.go) and of its tables (tables.go). A
  fact is the JSON value the collector emits. An edge is the assertion a row carries; the emitter
  adds the names of the collection and of the row.
\<close>

section \<open>Rules (rules.go)\<close>

definition rendered_statements :: "string list" where
  "rendered_statements =
     [''match'', ''counter'', ''accept'', ''drop'', ''reject'', ''return'', ''jump'', ''goto'', ''continue'', ''log'',
      ''limit'', ''comment'']"

definition terminal_verdicts :: "string list" where
  "terminal_verdicts = [''accept'', ''drop'', ''reject'', ''return'', ''continue'', ''queue'']"

definition rendered_match_keys :: "string list" where
  "rendered_match_keys = [''payload'', ''meta'', ''ct'']"

text \<open>The left side without its mask and the mask; \<open>None\<close> where the masked side is no plain one.\<close>

definition unmask :: "json \<Rightarrow> (json \<times> json option) option" where
  "unmask left =
     (case (first_key left, doc_get left (first_key left)) of
        (key, JArr [expr, bits]) \<Rightarrow>
          if key \<noteq> ''&'' then Some (left, None)
          else if length (members_of expr) \<noteq> 1 then None else Some (expr, Some bits)
      | _ \<Rightarrow> Some (left, None))"

definition left_name :: "pylib \<Rightarrow> json \<Rightarrow> string option" where
  "left_name L left =
     (let key = first_key left; inner = doc_get left key
      in if key \<notin> set rendered_match_keys then None
         else if \<not> is_object inner then None
         else if key = ''payload'' then
           Some (python_str L (doc_get inner ''protocol'') @ '' '' @ python_str L (doc_get inner ''field''))
         else Some (key @ '' '' @ python_str L (doc_get inner ''key'')))"

definition element_text :: "pylib \<Rightarrow> json \<Rightarrow> string option" where
  "element_text L e =
     (if is_text e \<or> is_int e then Some (python_str L e)
      else case doc_get e ''range'' of
          JArr [lo, hi] \<Rightarrow> Some (python_str L lo @ ''-'' @ python_str L hi)
        | _ \<Rightarrow> None)"

definition right_text :: "pylib \<Rightarrow> json \<Rightarrow> string option" where
  "right_text L right =
     (if is_object right then
        (if is_object (doc_get right ''prefix'') then
           Some (python_str L (doc_get (doc_get right ''prefix'') ''addr'') @ ''/'' @
             python_str L (doc_get (doc_get right ''prefix'') ''len''))
         else case doc_get right ''set'' of
             JArr es \<Rightarrow> map_option (\<lambda>ts. ''{ '' @ join_with '', '' ts @ '' }'') (mapO (element_text L) es)
           | _ \<Rightarrow> None)
      else if is_text right \<or> is_int right then Some (python_str L right) else None)"

text \<open>The text of a match; \<open>None\<close> is what the code calls not understood.\<close>

definition render_match :: "pylib \<Rightarrow> json \<Rightarrow> string option" where
  "render_match L body =
     (let left = doc_get body ''left'';
          negation = (if doc_get body ''op'' = JStr ''!='' then ''!= '' else [])
      in if length (members_of left) \<noteq> 1 then None
         else case unmask left of
           None \<Rightarrow> None
         | Some (plain, bits) \<Rightarrow>
             (case left_name L plain of
                None \<Rightarrow> None
              | Some name \<Rightarrow>
                  (case (case bits of
                      None \<Rightarrow> Some name
                    | Some m \<Rightarrow> if m = JNull then Some name
                        else if is_int m then Some (name @ '' & '' @ python_hex m) else None) of
                     None \<Rightarrow> None
                   | Some full \<Rightarrow> map_option (\<lambda>value. full @ '' '' @ negation @ value) (right_text L (doc_get body ''right'')))))"

record rendered_rule =
  re_parts :: "string list"
  re_residue :: "json list"
  re_verdict :: string
  re_jump :: json
  re_packets :: "json option"
  re_bytes :: "json option"
  re_opaque :: string

definition nothing_rendered :: rendered_rule where
  "nothing_rendered = \<lparr>re_parts = [], re_residue = [], re_verdict = [], re_jump = JNull, re_packets = None,
     re_bytes = None, re_opaque = []\<rparr>"

definition add_part :: "string \<Rightarrow> rendered_rule \<Rightarrow> rendered_rule" where
  "add_part t r = r\<lparr>re_parts := re_parts r @ [t]\<rparr>"

definition add_residue :: "json \<Rightarrow> rendered_rule \<Rightarrow> rendered_rule" where
  "add_residue s r = r\<lparr>re_residue := re_residue r @ [s]\<rparr>"

definition unrendered :: "string \<Rightarrow> string" where
  "unrendered key = ''<unrendered '' @ key @ ''>''"

definition not_null :: "json option \<Rightarrow> json option" where
  "not_null j = (case j of Some JNull \<Rightarrow> None | _ \<Rightarrow> j)"

definition render_match_part :: "pylib \<Rightarrow> json \<Rightarrow> json \<Rightarrow> rendered_rule \<Rightarrow> rendered_rule" where
  "render_match_part L stmt body r =
     (case render_match L body of
        Some text \<Rightarrow> if text \<noteq> [] then add_part text r
          else add_residue stmt (add_part (unrendered (first_key (doc_get body ''left''))) r)
      | None \<Rightarrow>
          (let left = doc_get body ''left'';
               key = (if members_of left \<noteq> [] then first_key left else ''expr'')
           in add_residue stmt (add_part (unrendered key) r)))"

text \<open>A statement of one member: its verb and what the verb is said of.\<close>

definition render_verb :: "pylib \<Rightarrow> json \<Rightarrow> string \<Rightarrow> json \<Rightarrow> rendered_rule \<Rightarrow> rendered_rule" where
  "render_verb L stmt verb body r =
     (if verb = ''xt'' \<and> is_object body then
        add_residue stmt ((add_part (''xt '' @ python_str L (doc_get body ''type'') @ '' '' @
          CHR 0x22 # python_str L (doc_get body ''name'') @ [CHR 0x22]) r)\<lparr>re_opaque := ''xt''\<rparr>)
      else if verb \<notin> set rendered_statements then add_residue stmt (add_part (unrendered verb) r)
      else if verb = ''match'' \<and> is_object body then render_match_part L stmt body r
      else if verb = ''counter'' then
        add_part ''counter''
          (if is_object body then r\<lparr>re_packets := not_null (doc_member body ''packets''),
             re_bytes := not_null (doc_member body ''bytes'')\<rparr> else r)
      else if verb = ''jump'' \<or> verb = ''goto'' then
        (let target = (if is_object body then doc_get body ''target'' else JNull)
         in add_part (verb @ '' '' @ python_str L target) (r\<lparr>re_jump := target\<rparr>))
      else if verb \<in> set terminal_verdicts then add_part verb (r\<lparr>re_verdict := verb\<rparr>)
      else add_part verb r)"

definition render_text :: "json \<Rightarrow> rendered_rule \<Rightarrow> rendered_rule" where
  "render_text stmt r =
     (case stmt of
        JStr text \<Rightarrow> add_residue stmt ((add_part text r)
          \<lparr>re_opaque := (if re_opaque r = [] then ''text-fallback'' else re_opaque r)\<rparr>)
      | _ \<Rightarrow> add_residue stmt r)"

definition render_statement :: "pylib \<Rightarrow> json \<Rightarrow> rendered_rule \<Rightarrow> rendered_rule" where
  "render_statement L stmt r =
     (if length (members_of stmt) \<noteq> 1 then render_text stmt r
      else render_verb L stmt (first_key stmt) (doc_get stmt (first_key stmt)) r)"

definition render_rule :: "pylib \<Rightarrow> json list \<Rightarrow> rendered_rule" where
  "render_rule L expr = fold (render_statement L) expr nothing_rendered"

definition rendered_text :: "rendered_rule \<Rightarrow> string" where
  "rendered_text r = join_with '' '' (re_parts r)"

definition has_jump :: "rendered_rule \<Rightarrow> bool" where
  "has_jump r = py_truthy (re_jump r)"

text \<open>An object with its facts and the edges it asserts.\<close>

record edge_claim =
  ec_type :: string
  ec_kind :: string
  ec_name :: string
  ec_facts :: "json gomap"

record net_row =
  nr_name :: string
  nr_facts :: "json gomap"
  nr_edges :: "edge_claim list"

type_synonym chain_key = "string \<times> string \<times> string"

definition rule_chain :: "json \<Rightarrow> chain_key" where
  "rule_chain rule = (string_member rule ''family'', string_member rule ''table'', string_member rule ''chain'')"

definition entries_of :: "json \<Rightarrow> json list" where
  "entries_of doc = elements_of (doc_get doc ''nftables'')"

definition rules_in :: "json \<Rightarrow> json list" where
  "rules_in doc = map (\<lambda>e. doc_get e ''rule'') (filter (\<lambda>e. doc_has e ''rule'') (entries_of doc))"

definition comprehension_facts :: "pylib \<Rightarrow> rendered_rule \<Rightarrow> json gomap \<Rightarrow> json gomap" where
  "comprehension_facts L r m =
     (let told = (if re_opaque r \<noteq> [] then mput ''OpaqueReason'' (JStr (re_opaque r)) (mput ''Comprehension'' (JStr ''opaque'') m)
                  else if re_residue r \<noteq> [] then mput ''Comprehension'' (JStr ''partial'') m
                  else mput ''Comprehension'' (JStr ''full'') m)
      in if re_residue r = [] then told
         else mput ''Residue'' (JArr (map (\<lambda>s. JStr (reason_text (python_dumps L s))) (re_residue r))) told)"

definition optional_fact :: "string \<Rightarrow> json option \<Rightarrow> json gomap \<Rightarrow> json gomap" where
  "optional_fact name v m = (case v of None \<Rightarrow> m | Some j \<Rightarrow> mput name j m)"

definition rule_handle :: "json \<Rightarrow> json" where
  "rule_handle rule = (if doc_get rule ''handle'' = JNull then JNum ''0'' else doc_get rule ''handle'')"

definition rule_row :: "pylib \<Rightarrow> nat \<Rightarrow> json \<Rightarrow> net_row" where
  "rule_row L index rule =
     (case rule_chain rule of (family, table, chain) \<Rightarrow>
       (let r = render_rule L (elements_of (doc_get rule ''expr''));
            place = family @ '' '' @ table @ '' '';
            base = mof [(''Family'', JStr family), (''Table'', JStr table), (''Chain'', JStr chain),
              (''Position'', JNum (nat_str index)), (''Rendered'', JStr (rendered_text r)), (''Handle'', rule_handle rule)];
            facts = optional_fact ''CounterBytes'' (re_bytes r) (optional_fact ''CounterPackets'' (re_packets r)
              (comprehension_facts L r
                (optional_fact ''JumpTarget'' (if has_jump r then Some (re_jump r) else None)
                  (optional_fact ''Verdict'' (if re_verdict r = [] then None else Some (JStr (re_verdict r))) base))))
        in \<lparr>nr_name = place @ chain @ '' handle '' @ python_str L (doc_get rule ''handle''), nr_facts = facts,
            nr_edges = \<lparr>ec_type = ''member-of'', ec_kind = ''nft-chain'', ec_name = place @ chain, ec_facts = []\<rparr> #
              (if has_jump r then
                 [\<lparr>ec_type = ''dispatches-to'', ec_kind = ''nft-chain'', ec_name = place @ python_str L (re_jump r),
                   ec_facts = [(''Handle'', rule_handle rule)]\<rparr>]
               else [])\<rparr>))"

definition nft_rules :: "pylib \<Rightarrow> json \<Rightarrow> net_row list" where
  "nft_rules L doc =
     (let rules = rules_in doc
      in map (\<lambda>(i, rule). rule_row L (length (filter (\<lambda>r. rule_chain r = rule_chain rule) (take i rules))) rule)
           (enumerate 0 rules))"

subsection \<open>What is understood of a rule\<close>

definition statements_of :: "json \<Rightarrow> json list" where
  "statements_of rule = elements_of (doc_get rule ''expr'')"

text \<open>
  What makes a statement understood, stated without the text that is drawn of it.
\<close>

definition match_understood :: "pylib \<Rightarrow> json \<Rightarrow> bool" where
  "match_understood L body = (render_match L body \<notin> {None, Some []})"

definition statement_understood :: "pylib \<Rightarrow> json \<Rightarrow> bool" where
  "statement_understood L s =
     (case members_of s of
        [(verb, body)] \<Rightarrow> verb \<in> set rendered_statements \<and>
          (verb = ''match'' \<and> is_object body \<longrightarrow> match_understood L body)
      | _ \<Rightarrow> False)"

lemma single_member:
  assumes "members_of s = [(verb, body)]"
  shows "first_key s = verb" "doc_get s verb = body" "doc_member s verb = Some body"
  using assms by (simp_all add: first_key_def doc_get_def doc_member_def)

lemma statement_understoodE:
  assumes "statement_understood L s"
  obtains verb body where "members_of s = [(verb, body)]" "verb \<in> set rendered_statements"
    "verb = ''match'' \<Longrightarrow> is_object body \<Longrightarrow> match_understood L body"
proof (cases "members_of s")
  case (Cons p ps)
  with assms that show ?thesis by (cases p; cases ps) (auto simp: statement_understood_def)
qed (use assms in \<open>simp add: statement_understood_def\<close>)

lemma part_fields [simp]:
  "re_residue (add_part t r) = re_residue r" "re_verdict (add_part t r) = re_verdict r"
  "re_jump (add_part t r) = re_jump r" "re_parts (add_part t r) = re_parts r @ [t]"
  by (simp_all add: add_part_def)

lemma residue_fields [simp]:
  "re_residue (add_residue s r) = re_residue r @ [s]" "re_verdict (add_residue s r) = re_verdict r"
  "re_jump (add_residue s r) = re_jump r" "re_parts (add_residue s r) = re_parts r"
  by (simp_all add: add_residue_def)

lemma render_match_residue:
  "re_residue (render_match_part L s body r) = re_residue r @ (if match_understood L body then [] else [s])"
  by (auto simp: render_match_part_def match_understood_def Let_def split: option.splits)

lemma length_one_pair: "length xs = Suc 0 \<longleftrightarrow> (\<exists>a b. xs = [(a, b)])"
  by (cases xs) (auto simp: length_Suc_conv)

lemma xt_not_rendered: "''xt'' \<notin> set rendered_statements"
  by (simp add: rendered_statements_def)

lemma render_text_fields [simp]:
  "re_residue (render_text s r) = re_residue r @ [s]" "re_verdict (render_text s r) = re_verdict r"
  "re_jump (render_text s r) = re_jump r" "re_parts (render_text s r) = re_parts r @ (if is_text s then [text_in s] else [])"
  by (simp_all add: render_text_def is_text_def text_in_def split: json.split)

lemma render_verb_residue:
  "re_residue (render_verb L s verb body r) =
     re_residue r @ (if verb \<in> set rendered_statements \<and> (verb = ''match'' \<and> is_object body \<longrightarrow> match_understood L body)
       then [] else [s])"
  using xt_not_rendered
  by (simp add: render_verb_def Let_def render_match_residue split del: if_split cong: if_cong) (simp add: render_match_residue split: if_split)

lemma render_statement_residue:
  "re_residue (render_statement L s r) = re_residue r @ (if statement_understood L s then [] else [s])"
proof (cases "length (members_of s) = 1")
  case False
  then have "\<not> statement_understood L s"
    by (auto simp: statement_understood_def split: list.splits)
  with False show ?thesis
    by (simp add: render_statement_def)
next
  case True
  then obtain verb body where m: "members_of s = [(verb, body)]"
    by (auto simp: length_one_pair)
  show ?thesis
    using m by (simp add: render_statement_def single_member [OF m] statement_understood_def render_verb_residue)
qed

lemma fold_residue:
  "re_residue (fold (render_statement L) expr r) = re_residue r @ filter (\<lambda>s. \<not> statement_understood L s) expr"
  by (induction expr arbitrary: r) (simp_all add: render_statement_residue)

lemma render_rule_residue: "re_residue (render_rule L expr) = filter (\<lambda>s. \<not> statement_understood L s) expr"
  by (simp add: render_rule_def fold_residue nothing_rendered_def)

text \<open>The text of a statement; a rule's text is the texts of its statements in order.\<close>

definition drawn :: "pylib \<Rightarrow> json \<Rightarrow> string list" where
  "drawn L s = re_parts (render_statement L s nothing_rendered)"

lemma render_match_drawn:
  "\<exists>t. \<forall>r. re_parts (render_match_part L s body r) = re_parts r @ [t]"
proof (cases "render_match L body")
  case (Some t)
  then show ?thesis by (cases t) (simp_all add: render_match_part_def)
qed (simp add: render_match_part_def Let_def)

lemma render_verb_drawn:
  "\<exists>t. \<forall>r. re_parts (render_verb L s verb body r) = re_parts r @ [t]"
proof (cases "verb = ''xt'' \<and> is_object body \<or> verb \<notin> set rendered_statements")
  case True
  then show ?thesis
  proof (cases "verb = ''xt'' \<and> is_object body")
    case False
    with True have "\<And>r. render_verb L s verb body r = add_residue s (add_part (unrendered verb) r)"
      by (simp only: render_verb_def if_False simp_thms if_True)
    then show ?thesis by simp
  qed (simp add: render_verb_def)
next
  case False
  then have r: "\<not> (verb = ''xt'' \<and> is_object body)" "verb \<in> set rendered_statements" by simp_all
  show ?thesis
  proof (cases "verb = ''match'' \<and> is_object body")
    case True
    then show ?thesis using r render_match_drawn [of L s body] by (simp add: render_verb_def)
  next
    case False
    then show ?thesis
      using r by (cases "verb = ''counter''"; cases "verb = ''jump'' \<or> verb = ''goto''"; cases "verb \<in> set terminal_verdicts")
        (simp_all only: render_verb_def Let_def if_True if_False simp_thms, auto)
  qed
qed

lemma render_statement_drawn:
  "\<exists>ts. length ts = (if length (members_of s) = 1 \<or> is_text s then 1 else 0) \<and>
     (\<forall>r. re_parts (render_statement L s r) = re_parts r @ ts)"
proof (cases "length (members_of s) = 1")
  case True
  obtain t where "\<forall>r. re_parts (render_verb L s (first_key s) (doc_get s (first_key s)) r) = re_parts r @ [t]"
    using render_verb_drawn by blast
  with True show ?thesis
    by (intro exI [of _ "[t]"]) (simp add: render_statement_def)
qed (simp add: render_statement_def)

lemma render_statement_parts: "re_parts (render_statement L s r) = re_parts r @ drawn L s"
  using render_statement_drawn [of s L] by (auto simp: drawn_def nothing_rendered_def)

lemma fold_parts: "re_parts (fold (render_statement L) expr r) = re_parts r @ concat (map (drawn L) expr)"
  by (induction expr arbitrary: r) (simp_all add: render_statement_parts)

lemma drawn_length:
  "length (drawn L s) = (if length (members_of s) = 1 \<or> is_text s then 1 else 0)"
  using render_statement_drawn [of s L] by (auto simp: drawn_def nothing_rendered_def)

text \<open>A statement sets the verdict to a word or leaves it.\<close>

lemma render_match_verdict [simp]: "re_verdict (render_match_part L s body r) = re_verdict r"
  by (cases "render_match L body") (simp_all add: render_match_part_def Let_def)

lemma render_verb_verdict:
  "\<exists>v. \<forall>r. re_verdict (render_verb L s verb body r) = (if v = [] then re_verdict r else v)"
proof (cases "verb \<in> set terminal_verdicts \<and> verb \<in> set rendered_statements")
  case True
  have ne: "verb \<noteq> ''xt''" "verb \<noteq> ''match''" "verb \<noteq> ''counter''" "verb \<noteq> ''jump''" "verb \<noteq> ''goto''" "verb \<noteq> []"
    using True by (auto simp: terminal_verdicts_def)
  with True show ?thesis
    by (intro exI [of _ verb]) (simp add: render_verb_def)
next
  case False
  then show ?thesis
    by (intro exI [of _ "[]"]) (auto simp: render_verb_def Let_def)
qed

lemma render_statement_verdict:
  "re_verdict (render_statement L s r) =
     (if re_verdict (render_statement L s nothing_rendered) = [] then re_verdict r
      else re_verdict (render_statement L s nothing_rendered))"
  using render_verb_verdict [of L s "first_key s" "doc_get s (first_key s)"]
  by (auto simp: render_statement_def nothing_rendered_def)

lemma fold_verdict:
  "re_verdict (fold (render_statement L) expr r) =
     (if re_verdict (render_rule L expr) = [] then re_verdict r else re_verdict (render_rule L expr))"
proof (induction expr arbitrary: r)
  case Nil
  then show ?case by (simp add: render_rule_def nothing_rendered_def)
next
  case (Cons s expr)
  have "re_verdict (fold (render_statement L) expr (render_statement L s r)) =
    (if re_verdict (render_rule L expr) = [] then re_verdict (render_statement L s r)
     else re_verdict (render_rule L expr))" by (rule Cons.IH)
  moreover have "re_verdict (render_rule L (s # expr)) =
    (if re_verdict (render_rule L expr) = [] then re_verdict (render_statement L s nothing_rendered)
     else re_verdict (render_rule L expr))"
    using Cons.IH [of "render_statement L s nothing_rendered"] by (simp add: render_rule_def)
  ultimately show ?case
    using render_statement_verdict [of L s r] by simp
qed

lemma accept_through_guards:
  "re_verdict (render_rule L expr) = v \<Longrightarrow> v \<noteq> [] \<Longrightarrow> re_verdict (render_rule L (guards @ expr)) = v"
  using fold_verdict [of L expr "render_rule L guards"] by (simp add: render_rule_def)

subsection \<open>What a rule's row accounts for\<close>

lemma render_verb_opaque:
  assumes "re_opaque r \<noteq> [] \<Longrightarrow> re_residue r \<noteq> []"
  shows "re_opaque (render_verb L s verb body r) \<noteq> [] \<Longrightarrow> re_residue (render_verb L s verb body r) \<noteq> []"
proof (cases "verb = ''xt'' \<and> is_object body")
  case False
  have m: "re_opaque (render_match_part L s body r) = re_opaque r"
    by (simp add: render_match_part_def add_part_def add_residue_def Let_def split: option.split)
  have "re_opaque (render_verb L s verb body r) = re_opaque r"
    using False m by (auto simp: render_verb_def add_part_def add_residue_def Let_def)
  then show "re_opaque (render_verb L s verb body r) \<noteq> [] \<Longrightarrow> ?thesis"
    using assms by (simp add: render_verb_residue)
qed (simp add: render_verb_residue xt_not_rendered)

lemma opaque_is_residue:
  "(re_opaque r \<noteq> [] \<Longrightarrow> re_residue r \<noteq> []) \<Longrightarrow> re_opaque (fold (render_statement L) expr r) \<noteq> [] \<Longrightarrow>
   re_residue (fold (render_statement L) expr r) \<noteq> []"
proof (induction expr arbitrary: r)
  case (Cons s expr)
  have "re_opaque (render_statement L s r) \<noteq> [] \<Longrightarrow> re_residue (render_statement L s r) \<noteq> []"
    using Cons.prems(1) render_verb_opaque [of r L s "first_key s" "doc_get s (first_key s)"]
    by (cases "length (members_of s) = 1") (simp_all add: render_statement_def)
  then show ?case using Cons.IH Cons.prems(2) by simp
qed simp

lemma mget_optional [simp]:
  "mget (optional_fact name v m) x = (if x = name \<and> v \<noteq> None then v else mget m x)"
  by (simp add: optional_fact_def split: option.split)

lemma rule_row_comprehension:
  "mget (comprehension_facts L r m) ''Comprehension'' =
     Some (JStr (if re_opaque r \<noteq> [] then ''opaque'' else if re_residue r \<noteq> [] then ''partial'' else ''full''))"
  "mget (comprehension_facts L r m) ''Residue'' =
     (if re_residue r = [] then mget m ''Residue''
      else Some (JArr (map (\<lambda>s. JStr (reason_text (python_dumps L s))) (re_residue r))))"
  "x \<notin> {''Comprehension'', ''Residue'', ''OpaqueReason''} \<Longrightarrow> mget (comprehension_facts L r m) x = mget m x"
  by (simp_all add: comprehension_facts_def Let_def)

lemma comprehension_word:
  "(opaque \<noteq> [] \<Longrightarrow> residue \<noteq> []) \<Longrightarrow>
   ((if opaque \<noteq> [] then ''opaque'' else if residue \<noteq> [] then ''partial'' else ''full'') = ''full'') = (residue = [])"
  by (cases "residue = []") auto

lemma rule_row_facts:
  "mget (nr_facts (rule_row L i rule)) ''Rendered'' = Some (JStr (rendered_text (render_rule L (statements_of rule))))"
  "mget (nr_facts (rule_row L i rule)) ''Comprehension'' =
     Some (JStr (if re_opaque (render_rule L (statements_of rule)) \<noteq> [] then ''opaque''
       else if re_residue (render_rule L (statements_of rule)) \<noteq> [] then ''partial'' else ''full''))"
  "mget (nr_facts (rule_row L i rule)) ''Residue'' =
     (if re_residue (render_rule L (statements_of rule)) = [] then None
      else Some (JArr (map (\<lambda>s. JStr (reason_text (python_dumps L s))) (re_residue (render_rule L (statements_of rule))))))"
  by (cases "rule_chain rule"; simp add: rule_row_def Let_def statements_of_def rule_row_comprehension mget_mof)+

text \<open>
  Property C37. A rule's row is never thinner than the rule: its text is one part for each statement, in order,
  but for what is neither a statement nor a text; what was not understood is told beside it, in
  order; and it claims full comprehension exactly when every statement was understood.
\<close>

lemma rule_row_accounts_for_every_statement:
  "mget (nr_facts (rule_row L i rule)) ''Rendered'' =
     Some (JStr (join_with '' '' (concat (map (drawn L) (statements_of rule))))) \<and>
   map (\<lambda>s. length (drawn L s)) (statements_of rule) =
     map (\<lambda>s. if length (members_of s) = 1 \<or> is_text s then 1 else 0) (statements_of rule) \<and>
   mget (nr_facts (rule_row L i rule)) ''Residue'' =
     (if list_all (statement_understood L) (statements_of rule) then None
      else Some (JArr (map (\<lambda>s. JStr (reason_text (python_dumps L s))) (filter (\<lambda>s. \<not> statement_understood L s) (statements_of rule))))) \<and>
   (mget (nr_facts (rule_row L i rule)) ''Comprehension'' = Some (JStr ''full'')) = list_all (statement_understood L) (statements_of rule)"
proof -
  let ?r = "render_rule L (statements_of rule)"
  have res: "(re_residue ?r = []) = list_all (statement_understood L) (statements_of rule)"
    by (simp add: render_rule_residue filter_empty_conv list_all_iff)
  have op: "re_opaque ?r \<noteq> [] \<Longrightarrow> re_residue ?r \<noteq> []"
    unfolding render_rule_def by (rule opaque_is_residue) (simp_all add: nothing_rendered_def)
  have parts: "rendered_text ?r = join_with '' '' (concat (map (drawn L) (statements_of rule)))"
    by (simp add: rendered_text_def render_rule_def fold_parts nothing_rendered_def)
  show ?thesis
  proof (intro conjI)
    show "mget (nr_facts (rule_row L i rule)) ''Rendered'' =
       Some (JStr (join_with '' '' (concat (map (drawn L) (statements_of rule)))))"
      unfolding rule_row_facts(1) parts ..
    show "map (\<lambda>s. length (drawn L s)) (statements_of rule) =
       map (\<lambda>s. if length (members_of s) = 1 \<or> is_text s then 1 else 0) (statements_of rule)"
      by (simp add: drawn_length)
    show "mget (nr_facts (rule_row L i rule)) ''Residue'' =
       (if list_all (statement_understood L) (statements_of rule) then None
        else Some (JArr (map (\<lambda>s. JStr (reason_text (python_dumps L s))) (filter (\<lambda>s. \<not> statement_understood L s) (statements_of rule)))))"
      unfolding rule_row_facts(3) res unfolding render_rule_residue ..
    have "(if re_opaque ?r \<noteq> [] then ''opaque'' else if re_residue ?r \<noteq> [] then ''partial'' else ''full'') = ''full'' \<longleftrightarrow>
        list_all (statement_understood L) (statements_of rule)"
      unfolding res [symmetric] by (rule comprehension_word [OF op])
    then show "(mget (nr_facts (rule_row L i rule)) ''Comprehension'' = Some (JStr ''full'')) = list_all (statement_understood L) (statements_of rule)"
      unfolding rule_row_facts(2) by simp
  qed
qed


section \<open>Chains (chains.go)\<close>

definition keep_new :: "'a \<Rightarrow> 'a list \<Rightarrow> 'a list" where
  "keep_new x xs = (if x \<in> set xs then xs else xs @ [x])"

definition own_targets :: "json \<Rightarrow> string list" where
  "own_targets j =
     List.map_filter (\<lambda>verb. case doc_member j verb of
         Some body \<Rightarrow> if is_object body then
             (case doc_get body ''target'' of JStr t \<Rightarrow> if t = [] then None else Some t | _ \<Rightarrow> None)
           else None
       | None \<Rightarrow> None) [''jump'', ''goto'']"

fun descend_targets :: "json \<Rightarrow> string list \<Rightarrow> string list" where
  "descend_targets (JObj kvs) found = fold (\<lambda>(k, v). descend_targets v) kvs (fold keep_new (own_targets (JObj kvs)) found)"
| "descend_targets (JArr xs) found = fold descend_targets xs found"
| "descend_targets _ found = found"

definition verdict_targets :: "json \<Rightarrow> string list" where
  "verdict_targets j = descend_targets j []"

fun map_references :: "json \<Rightarrow> string list" where
  "map_references (JStr s) = (case s of [] \<Rightarrow> [] | c # name \<Rightarrow> if c = CHR ''@'' then [name] else [])"
| "map_references (JObj kvs) = concat (map (\<lambda>(k, v). map_references v) kvs)"
| "map_references (JArr xs) = concat (map map_references xs)"
| "map_references _ = []"

definition named_key :: "json \<Rightarrow> chain_key" where
  "named_key j = (string_member j ''family'', string_member j ''table'', string_member j ''name'')"

definition chains_in :: "json \<Rightarrow> json list" where
  "chains_in doc = map (\<lambda>e. doc_get e ''chain'') (filter (\<lambda>e. doc_has e ''chain'') (entries_of doc))"

text \<open>An entry is a chain, or else a rule, or else a map.\<close>

definition chain_rules :: "json \<Rightarrow> json list" where
  "chain_rules doc =
     map (\<lambda>e. doc_get e ''rule'') (filter (\<lambda>e. \<not> doc_has e ''chain'' \<and> doc_has e ''rule'') (entries_of doc))"

definition maps_in :: "json \<Rightarrow> json list" where
  "maps_in doc =
     map (\<lambda>e. doc_get e ''map'')
       (filter (\<lambda>e. \<not> doc_has e ''chain'' \<and> \<not> doc_has e ''rule'' \<and> doc_has e ''map'') (entries_of doc))"

definition last_named :: "chain_key \<Rightarrow> json list \<Rightarrow> json option" where
  "last_named key js = find (\<lambda>j. named_key j = key) (rev js)"

definition first_seen :: "'a list \<Rightarrow> 'a list" where
  "first_seen xs = fold keep_new xs []"

text \<open>The chains whose rules hand control to a chain, themselves or through a map they consult.\<close>

definition direct_callers :: "json \<Rightarrow> chain_key \<Rightarrow> string list" where
  "direct_callers doc key =
     (case key of (family, table, name) \<Rightarrow>
       concat (map (\<lambda>rule. case rule_chain rule of (f, t, chain) \<Rightarrow>
           if f = family \<and> t = table \<and> name \<in> set (verdict_targets (doc_get rule ''expr'')) then [chain] else [])
         (chain_rules doc)))"

definition map_users :: "json \<Rightarrow> chain_key \<Rightarrow> string list" where
  "map_users doc key =
     (case key of (family, table, name) \<Rightarrow>
       concat (map (\<lambda>rule. case rule_chain rule of (f, t, chain) \<Rightarrow>
           if f = family \<and> t = table \<and> name \<in> set (map_references (doc_get rule ''expr'')) then [chain] else [])
         (chain_rules doc)))"

definition map_callers :: "json \<Rightarrow> chain_key \<Rightarrow> string list" where
  "map_callers doc key =
     (case key of (family, table, name) \<Rightarrow>
       concat (map (\<lambda>mkey. case mkey of (f, t, m) \<Rightarrow>
           (case last_named mkey (maps_in doc) of
              None \<Rightarrow> []
            | Some mp \<Rightarrow>
                if f = family \<and> t = table \<and> name \<in> set (verdict_targets (doc_get mp ''elem''))
                then map_users doc mkey else []))
         (first_seen (map named_key (maps_in doc)))))"

definition jumped_from :: "json \<Rightarrow> chain_key \<Rightarrow> string list" where
  "jumped_from doc key = sort (remdups (direct_callers doc key @ map_callers doc key))"

definition rule_count :: "json \<Rightarrow> chain_key \<Rightarrow> nat" where
  "rule_count doc key = length (filter (\<lambda>r. rule_chain r = key) (chain_rules doc))"

definition is_base_chain :: "json \<Rightarrow> bool" where
  "is_base_chain chain = py_truthy (doc_get chain ''hook'')"

definition pass_through :: "(string \<times> string) list" where
  "pass_through = [(''Handle'', ''handle''), (''Hook'', ''hook''), (''Type'', ''type''), (''Priority'', ''prio''), (''Policy'', ''policy'')]"

definition chain_row :: "json \<Rightarrow> chain_key \<Rightarrow> net_row" where
  "chain_row doc key =
     (case key of (family, table, name) \<Rightarrow>
       (let chain = (case last_named key (chains_in doc) of None \<Rightarrow> JNull | Some c \<Rightarrow> c);
            base = is_base_chain chain;
            callers = jumped_from doc key;
            facts = fold (\<lambda>(label, member). optional_fact label (not_null (doc_member chain member))) pass_through
              (mof [(''Family'', JStr family), (''Table'', JStr table), (''Name'', JStr name), (''BaseChain'', JBool base)]);
            counted = mput ''RuleCount'' (JNum (nat_str (rule_count doc key))) facts
        in \<lparr>nr_name = family @ '' '' @ table @ '' '' @ name,
            nr_facts = (if callers \<noteq> [] then mput ''JumpedFrom'' (JArr (map JStr callers)) counted
                        else if base then counted else mput ''Unreferenced'' (JBool True) counted),
            nr_edges = [\<lparr>ec_type = ''member-of'', ec_kind = ''nft-table'', ec_name = family @ '' '' @ table, ec_facts = []\<rparr>]\<rparr>))"

definition nft_chains :: "json \<Rightarrow> net_row list" where
  "nft_chains doc = map (chain_row doc) (first_seen (map named_key (chains_in doc)))"

subsection \<open>Who hands control to a chain\<close>

text \<open>The values inside a value, itself among them; what a ruleset says wherever it says it.\<close>

inductive inside :: "json \<Rightarrow> json \<Rightarrow> bool" where
  inside_self: "inside j j"
| inside_element: "x \<in> set xs \<Longrightarrow> inside j x \<Longrightarrow> inside j (JArr xs)"
| inside_member: "(k, v) \<in> set kvs \<Longrightarrow> inside j v \<Longrightarrow> inside j (JObj kvs)"

inductive_simps inside_simps: "inside j (JArr xs)" "inside j (JObj kvs)" "inside j (JStr s)" "inside j (JNum n)"
  "inside j (JBool b)" "inside j JNull"

definition hands_control :: "json \<Rightarrow> string \<Rightarrow> bool" where
  "hands_control j name =
     (\<exists>sub verb. inside sub j \<and> verb \<in> {''jump'', ''goto''} \<and> doc_get (doc_get sub verb) ''target'' = JStr name \<and> name \<noteq> [])"

definition consults :: "json \<Rightarrow> string \<Rightarrow> bool" where
  "consults j name = inside (JStr (CHR ''@'' # name)) j"

lemma set_keep_new [simp]: "set (keep_new x xs) = insert x (set xs)"
  by (auto simp: keep_new_def)

lemma distinct_keep_new [simp]: "distinct xs \<Longrightarrow> distinct (keep_new x xs)"
  by (simp add: keep_new_def)

lemma set_fold_keep_new [simp]: "set (fold keep_new ys xs) = set xs \<union> set ys"
  by (induction ys arbitrary: xs) auto

lemma distinct_fold_keep_new [simp]: "distinct xs \<Longrightarrow> distinct (fold keep_new ys xs)"
  by (induction ys arbitrary: xs) auto

lemma first_seen_set [simp]: "set (first_seen xs) = set xs" "distinct (first_seen xs)"
  by (simp_all add: first_seen_def)

lemma doc_get_null [simp]: "doc_get JNull k = JNull"
  by (simp add: doc_get_def doc_member_def members_of_def)

lemma doc_get_text_object: "doc_get j k = JStr t \<Longrightarrow> is_object j"
  by (cases j) (auto simp: doc_get_def doc_member_def members_of_def is_object_def)

lemma own_targets_iff:
  "name \<in> set (own_targets j) \<longleftrightarrow>
     (\<exists>verb \<in> {''jump'', ''goto''}. doc_get (doc_get j verb) ''target'' = JStr name \<and> name \<noteq> [])"
  using doc_get_text_object
  by (auto simp: own_targets_def map_filter_def doc_get_def [of j] split: option.splits json.splits if_splits)

lemma fold_union:
  assumes "\<And>x acc. x \<in> set xs \<Longrightarrow> set (f x acc) = set acc \<union> P x"
  shows "set (fold f xs acc) = set acc \<union> (\<Union>x \<in> set xs. P x)"
  using assms by (induction xs arbitrary: acc) auto

lemma set_descend: "set (descend_targets j found) = set found \<union> {name. hands_control j name}"
proof (induction j arbitrary: found)
  case (JArr xs)
  have "{name. hands_control (JArr xs) name} = (\<Union>x \<in> set xs. {name. hands_control x name})"
    by (auto simp: hands_control_def inside_simps doc_get_def [of "JArr xs"] doc_member_def [of "JArr xs"] members_of_def)
  with JArr.IH show ?case
    by (simp add: fold_union [where P = "\<lambda>x. {name. hands_control x name}"])
next
  case (JObj kvs)
  have "{name. hands_control (JObj kvs) name} =
     set (own_targets (JObj kvs)) \<union> (\<Union>p \<in> set kvs. {name. hands_control (snd p) name})"
  proof (intro set_eqI, goal_cases)
    case (1 name)
    have "hands_control (JObj kvs) name \<longleftrightarrow>
       name \<in> set (own_targets (JObj kvs)) \<or> (\<exists>k v. (k, v) \<in> set kvs \<and> hands_control v name)"
      unfolding hands_control_def inside_simps(2) own_targets_iff by blast
    then show ?case by force
  qed
  moreover have "set (fold (\<lambda>(k, v). descend_targets v) kvs acc) = set acc \<union> (\<Union>p \<in> set kvs. {name. hands_control (snd p) name})" for acc
    using JObj.IH by (intro fold_union) (auto split: prod.splits)
  ultimately show ?case by auto
qed (auto simp: hands_control_def inside_simps doc_get_def doc_member_def members_of_def)

lemma verdict_targets_iff: "name \<in> set (verdict_targets j) \<longleftrightarrow> hands_control j name"
  by (simp add: verdict_targets_def set_descend)

lemma map_references_iff: "name \<in> set (map_references j) \<longleftrightarrow> consults j name"
proof (induction j)
  case (JStr s)
  then show ?case by (cases s) (auto simp: consults_def inside_simps)
qed (force simp: consults_def inside_simps)+

text \<open>A chain hands control to another: a rule of it does, or consults a map that does.\<close>

definition calls :: "json \<Rightarrow> string \<Rightarrow> chain_key \<Rightarrow> bool" where
  "calls doc caller key =
     (case key of (family, table, name) \<Rightarrow>
       \<exists>rule \<in> set (chain_rules doc). rule_chain rule = (family, table, caller) \<and>
         (hands_control (doc_get rule ''expr'') name \<or>
          (\<exists>m mp. last_named (family, table, m) (maps_in doc) = Some mp \<and> consults (doc_get rule ''expr'') m \<and>
            hands_control (doc_get mp ''elem'') name)))"

lemma direct_callers_iff:
  "caller \<in> set (direct_callers doc (f, t, name)) \<longleftrightarrow>
     (\<exists>rule \<in> set (chain_rules doc). rule_chain rule = (f, t, caller) \<and> hands_control (doc_get rule ''expr'') name)"
  by (auto simp: direct_callers_def verdict_targets_iff split: prod.splits if_splits)
    (metis list.set_intros(1) prod.inject)

lemma map_users_iff:
  "caller \<in> set (map_users doc (f, t, m)) \<longleftrightarrow>
     (\<exists>rule \<in> set (chain_rules doc). rule_chain rule = (f, t, caller) \<and> consults (doc_get rule ''expr'') m)"
  by (auto simp: map_users_def map_references_iff split: prod.splits if_splits)
    (metis list.set_intros(1) prod.inject)

lemma last_named_key: "last_named key js = Some j \<Longrightarrow> key \<in> named_key ` set js"
  by (auto simp: last_named_def find_Some_iff) (metis imageI nth_mem length_rev set_rev)

lemma map_callers_iff:
  "caller \<in> set (map_callers doc (f, t, name)) \<longleftrightarrow>
     (\<exists>m mp. last_named (f, t, m) (maps_in doc) = Some mp \<and> hands_control (doc_get mp ''elem'') name \<and>
       caller \<in> set (map_users doc (f, t, m)))"
proof -
  have "caller \<in> set (map_callers doc (f, t, name)) \<longleftrightarrow>
    (\<exists>k \<in> named_key ` set (maps_in doc). \<exists>m mp. k = (f, t, m) \<and> last_named k (maps_in doc) = Some mp \<and>
      hands_control (doc_get mp ''elem'') name \<and> caller \<in> set (map_users doc k))"
    unfolding map_callers_def
    by (auto simp: verdict_targets_iff eq_commute [of "(f, t, _)"] eq_commute [of "Some _"]
        split: prod.splits option.splits if_splits)
  then show ?thesis by (metis last_named_key)
qed

lemma jumped_from_iff: "caller \<in> set (jumped_from doc key) \<longleftrightarrow> calls doc caller key"
  by (cases key) (auto simp: jumped_from_def calls_def direct_callers_iff map_callers_iff map_users_iff)

lemma jumped_from_sorted: "sorted (jumped_from doc key)" "distinct (jumped_from doc key)"
  by (simp_all add: jumped_from_def)

lemma mget_pass_through:
  "x \<notin> fst ` set ps \<Longrightarrow>
   mget (fold (\<lambda>(label, member). optional_fact label (h member)) ps m) x = mget m x"
  by (induction ps arbitrary: m) (auto split: prod.splits)

text \<open>
  Property C38. A chain is called unreferenced exactly when it is no base chain and no rule hands control to
  it, itself or through a map it consults; otherwise its callers are listed, each once, in order.
\<close>

lemma unreferenced_means_uncalled:
  "mget (nr_facts (chain_row doc key)) ''Unreferenced'' =
     (if (\<exists>caller. calls doc caller key) \<or>
         is_base_chain (case last_named key (chains_in doc) of None \<Rightarrow> JNull | Some c \<Rightarrow> c)
      then None else Some (JBool True)) \<and>
   mget (nr_facts (chain_row doc key)) ''JumpedFrom'' =
     (if \<exists>caller. calls doc caller key then Some (JArr (map JStr (sorted_list_of_set {caller. calls doc caller key})))
      else None)"
proof -
  have s: "set (jumped_from doc key) = {caller. calls doc caller key}"
    using jumped_from_iff by blast
  have l: "sorted_list_of_set {caller. calls doc caller key} = jumped_from doc key"
    using jumped_from_sorted [of doc key] by (simp add: s [symmetric] sorted_list_of_set.idem_if_sorted_distinct)
  have e: "(\<exists>caller. calls doc caller key) \<longleftrightarrow> jumped_from doc key \<noteq> []"
    using s by (cases "jumped_from doc key") auto
  show ?thesis
    unfolding e l by (cases key) (simp add: chain_row_def Let_def mget_pass_through mget_mof pass_through_def del: fold.simps)
qed

lemma chains_listed:
  "map nr_name (nft_chains doc) = map (\<lambda>(f, t, n). f @ '' '' @ t @ '' '' @ n) (first_seen (map named_key (chains_in doc)))"
  by (simp add: nft_chains_def chain_row_def Let_def split: prod.split)

section \<open>Tables (tables.go)\<close>

record table_state =
  ts_order :: "(string \<times> string) list"
  ts_chains :: "(string \<times> string) \<Rightarrow> string list"
  ts_rules :: "(string \<times> string) \<Rightarrow> nat"

definition table_entry :: "json \<Rightarrow> table_state \<Rightarrow> table_state" where
  "table_entry entry st =
     (if doc_has entry ''table'' then
        (let t = doc_get entry ''table''; k = (string_member t ''family'', string_member t ''name'')
         in st\<lparr>ts_order := keep_new k (ts_order st)\<rparr>)
      else if doc_has entry ''chain'' then
        (let c = doc_get entry ''chain''; k = (string_member c ''family'', string_member c ''table'');
             policy = string_member c ''policy'';
             label = string_member c ''name'' @ (if policy = [] then [] else '' ('' @ policy @ '')'')
         in if k \<in> set (ts_order st) then st\<lparr>ts_chains := (ts_chains st)(k := ts_chains st k @ [label])\<rparr> else st)
      else if doc_has entry ''rule'' then
        (let r = doc_get entry ''rule''; k = (string_member r ''family'', string_member r ''table'')
         in if k \<in> set (ts_order st) then st\<lparr>ts_rules := (ts_rules st)(k := Suc (ts_rules st k))\<rparr> else st)
      else st)"

definition nft_tables :: "json \<Rightarrow> net_row list" where
  "nft_tables doc =
     (let st = fold table_entry (entries_of doc) \<lparr>ts_order = [], ts_chains = (\<lambda>_. []), ts_rules = (\<lambda>_. 0)\<rparr>
      in map (\<lambda>(family, name). \<lparr>nr_name = family @ '' '' @ name,
            nr_facts = mof [(''Family'', JStr family), (''Chains'', JArr (map JStr (ts_chains st (family, name)))),
              (''ChainCount'', JNum (nat_str (length (ts_chains st (family, name))))),
              (''RuleCount'', JNum (nat_str (ts_rules st (family, name))))],
            nr_edges = []\<rparr>) (ts_order st))"

end
