(* ===== verification/Exposure.thy ===== *)
theory Exposure
  imports Firewall "HOL-Library.Product_Lexorder"
begin

text \<open>
  The sockets a host listens on (go/cmd/se-collect-network/listening.go) and which rules of the
  input path admit traffic to them, from where (exposure.go).
\<close>

section \<open>Listening sockets (listening.go)\<close>

text \<open>\<open>strconv.ParseUint(s, 16, 32)\<close> and \<open>strconv.ParseInt(s, 16, 32)\<close>.\<close>

definition parse_hex_uint32 :: "string \<Rightarrow> nat option" where
  "parse_hex_uint32 s =
     (if s = [] \<or> \<not> list_all (\<lambda>c. hex_val c \<noteq> None) s \<or> 2 ^ 32 \<le> hex_digits_val s then None
      else Some (hex_digits_val s))"

definition parse_hex_int32 :: "string \<Rightarrow> int option" where
  "parse_hex_int32 s =
     (let neg = (s \<noteq> [] \<and> hd s = CHR ''-'');
          ds = (if s \<noteq> [] \<and> (hd s = CHR ''-'' \<or> hd s = CHR ''+'') then tl s else s)
      in case parse_hex_uint32 ds of
           None \<Rightarrow> None
         | Some n \<Rightarrow> if (if neg then 2 ^ 31 < n else 2 ^ 31 \<le> n) then None
             else Some (if neg then - int n else int n))"

text \<open>
  \<open>net.IP.String\<close>: dotted for four bytes and for the mapped form of sixteen; otherwise eight
  groups in hexadecimal, the first of the longest runs of at least two zero groups left out.
\<close>

definition dotted :: "nat list \<Rightarrow> string" where
  "dotted bs = join_with ''.'' (map nat_str bs)"

definition v6_groups :: "nat list \<Rightarrow> nat list" where
  "v6_groups bs = map (\<lambda>i. bs ! (2 * i) * 256 + bs ! (2 * i + 1)) [0..<length bs div 2]"

definition zero_run :: "nat list \<Rightarrow> nat \<Rightarrow> nat" where
  "zero_run gs i = length (takeWhile (\<lambda>g. g = 0) (drop i gs))"

definition longest_zero_run :: "nat list \<Rightarrow> nat \<times> nat" where
  "longest_zero_run gs =
     fold (\<lambda>i (start, len). if 2 \<le> zero_run gs i \<and> len < zero_run gs i then (i, zero_run gs i) else (start, len))
       [0..<length gs] (0, 0)"

definition colon_groups :: "nat list \<Rightarrow> string" where
  "colon_groups gs = join_with '':'' (map nat_hex gs)"

definition v6_text :: "nat list \<Rightarrow> string" where
  "v6_text gs =
     (case longest_zero_run gs of (start, len) \<Rightarrow>
        if len = 0 then colon_groups gs
        else colon_groups (take start gs) @ ''::'' @ colon_groups (drop (start + len) gs))"

definition ip_text :: "nat list \<Rightarrow> string" where
  "ip_text bs =
     (if length bs = 4 then dotted bs
      else if take 12 bs = replicate 10 0 @ [255, 255] then dotted (drop 12 bs)
      else v6_text (v6_groups bs))"

text \<open>A word of the kernel's table, in host byte order.\<close>

definition word_bytes :: "string \<Rightarrow> nat list option" where
  "word_bytes w = map_option (\<lambda>n. map (\<lambda>i. n div 256 ^ i mod 256) [0..<4]) (parse_hex_uint32 w)"

definition hex_addr :: "string \<Rightarrow> string" where
  "hex_addr raw =
     (if length raw = 8 then (case word_bytes raw of None \<Rightarrow> [] | Some bs \<Rightarrow> ip_text bs)
      else if length raw = 32 then
        (case mapO (\<lambda>i. word_bytes (take 8 (drop (8 * i) raw))) [0..<4] of
           None \<Rightarrow> [] | Some ws \<Rightarrow> ip_text (concat ws))
      else [])"

definition listening_scope :: "string \<Rightarrow> string" where
  "listening_scope address =
     (if address = ''0.0.0.0'' \<or> address = ''::'' then ''all-interfaces''
      else if is_prefix ''127.'' address \<or> address = ''::1'' then ''loopback''
      else ''specific-address'')"

record listening_row =
  ls_protocol :: string
  ls_address :: string
  ls_port :: int
  ls_uid :: int
  ls_inode :: int

definition proc_net_row :: "string \<Rightarrow> string \<Rightarrow> listening_row option" where
  "proc_net_row tbl line =
     (let fs = go_fields line; wanted = (if is_prefix ''tcp'' tbl then ''0A'' else ''07'')
      in if length fs < 10 \<or> fs ! 3 \<noteq> wanted then None
         else case cut_last CHR '':'' (fs ! 1) of
             None \<Rightarrow> None
           | Some (host, port) \<Rightarrow>
               if hex_addr host = [] then None
               else case (parse_hex_int32 port, parse_int64 (fs ! 7), parse_int64 (fs ! 9)) of
                   (Some p, Some u, Some i) \<Rightarrow>
                     Some \<lparr>ls_protocol = tbl, ls_address = hex_addr host, ls_port = p, ls_uid = u, ls_inode = i\<rparr>
                 | _ \<Rightarrow> None)"

definition parse_proc_net :: "string \<Rightarrow> string \<Rightarrow> listening_row list" where
  "parse_proc_net tbl contents =
     List.map_filter (proc_net_row tbl) (tl (split_on CHR 0x0A contents))"

definition socket_name :: "listening_row \<Rightarrow> string" where
  "socket_name r = ls_protocol r @ '' '' @ ls_address r @ '':'' @ int_str (ls_port r)"

definition socket_tables :: "string list" where
  "socket_tables = [''tcp'', ''tcp6'', ''udp'', ''udp6'']"

fun first_named :: "string set \<Rightarrow> listening_row list \<Rightarrow> listening_row list" where
  "first_named seen [] = []"
| "first_named seen (r # rs) =
     (if socket_name r \<in> seen then first_named seen rs
      else r # first_named (insert (socket_name r) seen) rs)"

definition scan_order :: "listening_row \<Rightarrow> int \<times> string \<times> string" where
  "scan_order r = (ls_port r, ls_protocol r, ls_address r)"

text \<open>\<open>proc_net\<close> is what reading a table gives, \<open>None\<close> where it could not be read.\<close>

definition acquire_listening :: "(string \<Rightarrow> string option) \<Rightarrow> listening_row list \<times> string list" where
  "acquire_listening proc_net =
     (sort_key scan_order (first_named {}
        (concat (map (\<lambda>t. case proc_net t of None \<Rightarrow> [] | Some s \<Rightarrow> parse_proc_net t s) socket_tables))),
      map (\<lambda>t. ''/proc/net/'' @ t @ '' could not be read'') (filter (\<lambda>t. proc_net t = None) socket_tables))"

definition process_unobservable :: string where
  "process_unobservable =
     ''the listening process cannot be named from this reading: the socket-inode to process join reads '' @
     ''/proc/<pid>/fd, which only the owning user may open, and this observer runs without that privilege. '' @
     ''The uid beside this fact is from /proc/net itself and is what can be said without it.''"

definition listening_fact_row :: "string list \<Rightarrow> listening_row \<Rightarrow> net_row" where
  "listening_fact_row unread r =
     (let facts = mof [(''Protocol'', JStr (ls_protocol r)), (''LocalAddress'', JStr (ls_address r)),
        (''LocalPort'', JNum (int_str (ls_port r))), (''Uid'', JNum (int_str (ls_uid r))),
        (''SocketInode'', JNum (int_str (ls_inode r))), (''Scope'', JStr (listening_scope (ls_address r))),
        (''ProcessUnobservable'', JStr process_unobservable)]
      in \<lparr>nr_name = socket_name r,
          nr_facts = (if unread = [] then facts
            else mput ''TablesUnreadable'' (JStr (join_with ''; '' unread)) facts),
          nr_edges = []\<rparr>)"

text \<open>\<open>None\<close> is the decline: no table could be read.\<close>

definition collect_listening :: "(string \<Rightarrow> string option) \<Rightarrow> net_row list option" where
  "collect_listening proc_net =
     (case acquire_listening proc_net of (rows, unread) \<Rightarrow>
        if length unread = 4 then None else Some (map (listening_fact_row unread) rows))"

subsection \<open>What is told of the sockets\<close>

lemma first_named_names:
  "socket_name ` set (first_named seen rs) = socket_name ` set rs - seen \<and> distinct (map socket_name (first_named seen rs)) \<and>
   set (first_named seen rs) \<subseteq> set rs"
proof (induction rs arbitrary: seen)
  case (Cons r rs)
  show ?case
  proof (cases "socket_name r \<in> seen")
    case True
    then show ?thesis using Cons.IH [of seen] by (simp add: subset_insertI2)
  next
    case False
    have "socket_name r \<notin> set (map socket_name (first_named (insert (socket_name r) seen) rs))"
      using Cons.IH [of "insert (socket_name r) seen"] by simp
    with False show ?thesis
      using Cons.IH [of "insert (socket_name r) seen"] by (simp add: subset_insertI2 insert_Diff_if) blast
  qed
qed simp

definition sockets_told :: "(string \<Rightarrow> string option) \<Rightarrow> listening_row list" where
  "sockets_told proc_net =
     concat (map (\<lambda>t. case proc_net t of None \<Rightarrow> [] | Some s \<Rightarrow> parse_proc_net t s) socket_tables)"

lemma listening_row_names: "nr_name (listening_fact_row unread r) = socket_name r"
  by (simp add: listening_fact_row_def Let_def)

lemma unread_all: "length (filter (\<lambda>t. proc_net t = None) socket_tables) = 4 \<longleftrightarrow> list_all (\<lambda>t. proc_net t = None) socket_tables"
  by (simp add: socket_tables_def)

text \<open>
  The sockets are declined only when no table could be read; otherwise every socket told of has
  one row, in the order of port, protocol and address, and every row says which tables are missing.
\<close>

lemma listening_rows_once_in_order:
  "case collect_listening proc_net of
     None \<Rightarrow> list_all (\<lambda>t. proc_net t = None) socket_tables
   | Some rows \<Rightarrow>
       \<not> list_all (\<lambda>t. proc_net t = None) socket_tables \<and>
       distinct (map nr_name rows) \<and>
       set (map nr_name rows) = socket_name ` set (sockets_told proc_net) \<and>
       (\<exists>rs. set rs \<subseteq> set (sockets_told proc_net) \<and> sorted (map scan_order rs) \<and> map nr_name rows = map socket_name rs) \<and>
       list_all (\<lambda>r. mget (nr_facts r) ''TablesUnreadable'' =
         (if list_all (\<lambda>t. proc_net t \<noteq> None) socket_tables then None
          else Some (JStr (join_with ''; '' (map (\<lambda>t. ''/proc/net/'' @ t @ '' could not be read'')
            (filter (\<lambda>t. proc_net t = None) socket_tables)))))) rows"
proof -
  let ?rs = "sort_key scan_order (first_named {} (sockets_told proc_net))"
  have n: "map nr_name (map (listening_fact_row unread) ?rs) = map socket_name ?rs" for unread
    by (simp add: listening_row_names comp_def)
  have d: "distinct (map socket_name ?rs)" and s: "socket_name ` set ?rs = socket_name ` set (sockets_told proc_net)"
    and sub: "set ?rs \<subseteq> set (sockets_told proc_net)"
    using first_named_names [of "{}" "sockets_told proc_net"] by (simp_all add: distinct_map)
  have none: "filter (\<lambda>t. proc_net t = None) socket_tables = [] \<longleftrightarrow> list_all (\<lambda>t. proc_net t \<noteq> None) socket_tables"
    by (simp add: filter_empty_conv list_all_iff)
  have facts: "list_all (\<lambda>r. mget (nr_facts r) ''TablesUnreadable'' =
      (if unread = [] then None else Some (JStr (join_with ''; '' unread)))) (map (listening_fact_row unread) rs)" for unread rs
    by (simp add: list_all_iff listening_fact_row_def mget_mof Let_def)
  show ?thesis
  proof (cases "list_all (\<lambda>t. proc_net t = None) socket_tables")
    case False
    define unread where "unread = map (\<lambda>t. ''/proc/net/'' @ t @ '' could not be read'') (filter (\<lambda>t. proc_net t = None) socket_tables)"
    define rows where "rows = map (listening_fact_row unread) ?rs"
    have c: "collect_listening proc_net = Some rows"
      using False unread_all [of proc_net]
      by (simp add: collect_listening_def acquire_listening_def sockets_told_def unread_def rows_def)
    have names: "map nr_name rows = map socket_name ?rs" unfolding rows_def by (rule n)
    have ordered: "\<exists>rs. set rs \<subseteq> set (sockets_told proc_net) \<and> sorted (map scan_order rs) \<and> map nr_name rows = map socket_name rs"
      using sub names by (intro exI [of _ ?rs]) auto
    have told: "set (map nr_name rows) = socket_name ` set (sockets_told proc_net)"
      unfolding names using s by simp
    have "distinct (map nr_name rows)" unfolding names by (rule d)
    moreover have "list_all (\<lambda>r. mget (nr_facts r) ''TablesUnreadable'' =
        (if list_all (\<lambda>t. proc_net t \<noteq> None) socket_tables then None else Some (JStr (join_with ''; '' unread)))) rows"
      using facts [of unread ?rs] unfolding rows_def unread_def by (simp only: none map_is_Nil_conv)
    ultimately show ?thesis
      using False told ordered unfolding c option.case unread_def by blast
  qed (use unread_all [of proc_net] in \<open>simp add: collect_listening_def acquire_listening_def\<close>)
qed

section \<open>The input path (exposure.go)\<close>

definition chain_walk_max_depth :: nat where
  "chain_walk_max_depth = 8"

definition path_coverage :: string where
  "path_coverage =
     ''input path only; a port published through prerouting/forward is not accounted for''"

definition family_bears_on :: "string \<Rightarrow> string \<Rightarrow> bool" where
  "family_bears_on family protocol =
     (if protocol = ''tcp'' \<or> protocol = ''udp'' then family \<in> {''ip'', ''inet''}
      else if protocol = ''tcp6'' \<or> protocol = ''udp6'' then family \<in> {''ip6'', ''inet''}
      else False)"

record guarded_rule =
  gr_rule :: json
  gr_guards :: "json list"

text \<open>A base chain on the input hook; an entry that has a rule is no chain here.\<close>

definition input_chains :: "json \<Rightarrow> chain_key list" where
  "input_chains doc =
     map (\<lambda>c. (string_member c ''family'', string_member c ''table'', string_member c ''name''))
       (filter (\<lambda>c. string_member c ''hook'' = ''input'')
         (map (\<lambda>e. doc_get e ''chain'') (filter (\<lambda>e. \<not> doc_has e ''rule'' \<and> doc_has e ''chain'') (entries_of doc))))"

definition rules_of_chain :: "json \<Rightarrow> chain_key \<Rightarrow> json list" where
  "rules_of_chain doc key = filter (\<lambda>r. rule_chain r = key) (rules_in doc)"

definition is_bare_transfer :: "json \<Rightarrow> bool" where
  "is_bare_transfer s = (is_object s \<and> (doc_has s ''jump'' \<or> doc_has s ''goto''))"

definition guards_through :: "json list \<Rightarrow> json \<Rightarrow> json list" where
  "guards_through guards rule = guards @ filter (\<lambda>s. \<not> is_bare_transfer s) (statements_of rule)"

text \<open>The first argument counts the levels left; a chain already on the path is not entered.\<close>

fun walk_chain :: "nat \<Rightarrow> json \<Rightarrow> chain_key list \<Rightarrow> json list \<Rightarrow> chain_key \<Rightarrow> guarded_rule list" where
  "walk_chain 0 doc path guards key = []"
| "walk_chain (Suc levels) doc path guards key =
     (if key \<in> set path then []
      else concat (map (\<lambda>rule.
        \<lparr>gr_rule = rule, gr_guards = guards\<rparr> #
        concat (map (\<lambda>target.
            walk_chain levels doc (key # path) (guards_through guards rule) (fst key, fst (snd key), target))
          (verdict_targets (doc_get rule ''expr''))))
        (rules_of_chain doc key)))"

definition walk_input_path :: "json \<Rightarrow> guarded_rule list" where
  "walk_input_path doc = concat (map (walk_chain (Suc chain_walk_max_depth) doc [] []) (input_chains doc))"

definition match_field :: "json \<Rightarrow> string" where
  "match_field left =
     (let key = first_key left; inner = doc_get left key
      in if \<not> is_object inner then []
         else if key = ''payload'' then string_member inner ''field''
         else if key = ''meta'' then string_member inner ''key''
         else [])"

definition classify_match :: "pylib \<Rightarrow> json \<Rightarrow> string" where
  "classify_match L body =
     (let left = doc_get body ''left''; key = first_key left; field = match_field left
      in if render_match L body \<in> {None, Some []} then []
         else if members_of left = [] then []
         else if key = ''payload'' then
           (if field \<in> {''dport'', ''protocol''} then ''destination''
            else if field = ''saddr'' then ''source'' else ''other'')
         else if key = ''meta'' then
           (if field = ''l4proto'' then ''destination''
            else if field \<in> {''iifname'', ''iif'', ''iifgroup'', ''iifkind''} then ''source'' else ''other'')
         else ''other'')"

text \<open>\<open>strconv.Atoi\<close> of an integer element; a truth value has no digits.\<close>

definition int_of :: "json \<Rightarrow> int option" where
  "int_of j = (if is_int j then parse_int64 (case j of JNum n \<Rightarrow> n | _ \<Rightarrow> []) else None)"

definition element_ports :: "json \<Rightarrow> int set option" where
  "element_ports e =
     (if is_int e then map_option (\<lambda>p. {p}) (int_of e)
      else case doc_get e ''range'' of
          JArr [lo, hi] \<Rightarrow>
            (case (int_of lo, int_of hi) of
               (Some a, Some b) \<Rightarrow> if 0 \<le> a \<and> a \<le> b \<and> b \<le> 65535 then Some {a..b} else None
             | _ \<Rightarrow> None)
        | _ \<Rightarrow> None)"

definition port_values :: "json \<Rightarrow> int set option" where
  "port_values right =
     (if is_int right then map_option (\<lambda>p. {p}) (int_of right)
      else case doc_get right ''set'' of
          JArr es \<Rightarrow> map_option (\<lambda>ps. \<Union> (set ps)) (mapO element_ports es)
        | _ \<Rightarrow> None)"

text \<open>What the statements read so far constrain: the ports, the protocols, and whether all was understood.\<close>

record closure =
  cl_readable :: bool
  cl_ports :: "int set list"
  cl_protocols :: "string list"

definition add_payload :: "json \<Rightarrow> json \<Rightarrow> closure \<Rightarrow> closure" where
  "add_payload payload right c =
     (let field = string_member payload ''field''; proto = string_member payload ''protocol''
      in if field = ''dport'' then
           (let d = (case port_values right of
                       None \<Rightarrow> c\<lparr>cl_readable := False\<rparr>
                     | Some ps \<Rightarrow> c\<lparr>cl_ports := cl_ports c @ [ps]\<rparr>)
            in if proto = ''tcp'' \<or> proto = ''udp'' then d\<lparr>cl_protocols := cl_protocols d @ [proto]\<rparr> else d)
         else if field = ''protocol'' \<and> is_text right then c\<lparr>cl_protocols := cl_protocols c @ [text_in right]\<rparr>
         else c)"

definition add_constraint :: "json \<Rightarrow> closure \<Rightarrow> closure" where
  "add_constraint body c =
     (let left = doc_get body ''left''; right = doc_get body ''right''
      in if \<not> is_object left then c
         else if (case doc_member body ''op'' of None \<Rightarrow> False | Some op \<Rightarrow> text_in op \<noteq> ''=='') then c\<lparr>cl_readable := False\<rparr>
         else if is_object (doc_get left ''meta'') then
           (if string_member (doc_get left ''meta'') ''key'' = ''l4proto'' \<and> is_text right
            then c\<lparr>cl_protocols := cl_protocols c @ [text_in right]\<rparr> else c)
         else if \<not> doc_has left ''payload'' then c
         else add_payload (doc_get left ''payload'') right c)"

definition add_match :: "pylib \<Rightarrow> json \<Rightarrow> closure \<Rightarrow> closure" where
  "add_match L body c =
     add_constraint body (if classify_match L body = ''other'' then c\<lparr>cl_readable := False\<rparr> else c)"

definition add_statement :: "pylib \<Rightarrow> json \<Rightarrow> closure \<Rightarrow> closure" where
  "add_statement L s c = (if doc_has s ''match'' then add_match L (doc_get s ''match'') c else c)"

definition wire_protocol :: "string \<Rightarrow> string" where
  "wire_protocol protocol = filter (\<lambda>c. c \<noteq> CHR ''6'') protocol"

definition rule_bears_on :: "pylib \<Rightarrow> rendered_rule \<Rightarrow> json list \<Rightarrow> string \<Rightarrow> int \<Rightarrow> bool \<times> bool" where
  "rule_bears_on L rendered expr protocol port =
     (let c = fold (add_statement L) expr
        \<lparr>cl_readable = (re_residue rendered = []), cl_ports = [], cl_protocols = []\<rparr>
      in if list_ex (\<lambda>p. p \<noteq> wire_protocol protocol) (cl_protocols c) then (False, False)
         else if list_ex (\<lambda>ps. port \<notin> ps) (cl_ports c) then (False, False)
         else (cl_readable c, True))"

definition source_text :: "pylib \<Rightarrow> json \<Rightarrow> string option" where
  "source_text L s =
     (if doc_has s ''match'' \<and> classify_match L (doc_get s ''match'') = ''source''
      then (case render_match L (doc_get s ''match'') of Some [] \<Rightarrow> None | t \<Rightarrow> t) else None)"

definition sources_of :: "pylib \<Rightarrow> json list \<Rightarrow> string list" where
  "sources_of L expr =
     (let ss = List.map_filter (source_text L) expr in if ss = [] then [''anywhere''] else ss)"

section \<open>One socket under the rules (exposure.go)\<close>

record admission =
  ad_rules :: "string list"
  ad_certain :: "string list"
  ad_possible :: "string list"
  ad_gap :: "string list"

definition no_admission :: admission where
  "no_admission = \<lparr>ad_rules = [], ad_certain = [], ad_possible = [], ad_gap = []\<rparr>"

definition unreadable_verdict :: "rendered_rule \<Rightarrow> bool" where
  "unreadable_verdict r = (re_verdict r = [] \<and> \<not> has_jump r \<and> re_residue r \<noteq> [])"

definition rule_place :: "json \<Rightarrow> string" where
  "rule_place rule =
     (let handle = (case doc_member rule ''handle'' of
          Some h \<Rightarrow> if is_int h then (case h of JNum n \<Rightarrow> n | _ \<Rightarrow> []) else ''None'' | None \<Rightarrow> ''None'')
      in string_member rule ''family'' @ ''/'' @ string_member rule ''table'' @ ''/'' @
         string_member rule ''chain'' @ ''/'' @ handle)"

text \<open>Whether the guarded rule admits the socket for certain; \<open>None\<close> where it does not bear on it.\<close>

definition admits :: "pylib \<Rightarrow> string \<Rightarrow> int \<Rightarrow> guarded_rule \<Rightarrow> bool option" where
  "admits L protocol port g =
     (let expr = gr_guards g @ statements_of (gr_rule g); rendered = render_rule L expr
      in if \<not> family_bears_on (string_member (gr_rule g) ''family'') protocol then None
         else if re_verdict rendered \<noteq> ''accept'' \<and> \<not> unreadable_verdict rendered then None
         else case rule_bears_on L rendered expr protocol port of
             (sure, maybe) \<Rightarrow> if maybe then Some (sure \<and> \<not> unreadable_verdict rendered) else None)"

definition admit_rule :: "pylib \<Rightarrow> string \<Rightarrow> int \<Rightarrow> guarded_rule \<Rightarrow> admission \<Rightarrow> admission" where
  "admit_rule L protocol port g a =
     (let expr = gr_guards g @ statements_of (gr_rule g);
          place = rule_place (gr_rule g); sources = sources_of L expr
      in case admits L protocol port g of
           None \<Rightarrow> a
         | Some sure \<Rightarrow>
             \<lparr>ad_rules = ad_rules a @ [place @ '': '' @ rendered_text (render_rule L expr)],
              ad_certain = (if sure then fold keep_new sources (ad_certain a) else ad_certain a),
              ad_possible = fold keep_new sources (ad_possible a),
              ad_gap = (if sure then ad_gap a else ad_gap a @ [place])\<rparr>)"

definition admission_of :: "pylib \<Rightarrow> json \<Rightarrow> string \<Rightarrow> int \<Rightarrow> admission" where
  "admission_of L doc protocol port = fold (admit_rule L protocol port) (walk_input_path doc) no_admission"

definition texts :: "string list \<Rightarrow> json" where
  "texts ss = JArr (map JStr ss)"

definition when_some :: "string \<Rightarrow> string list \<Rightarrow> json gomap \<Rightarrow> json gomap" where
  "when_some name ss m = (if ss = [] then m else mput name (texts ss) m)"

definition gap_facts :: "admission \<Rightarrow> json gomap \<Rightarrow> json gomap" where
  "gap_facts a m =
     (if ad_gap a \<noteq> [] then mput ''ClosureGapRules'' (texts (ad_gap a)) (mput ''ClosureGap'' (JBool True) m)
      else if ad_possible a \<noteq> [] then mput ''ClosureGap'' (JBool False) m
      else m)"

definition exposure_row :: "pylib \<Rightarrow> json \<Rightarrow> listening_row \<Rightarrow> net_row" where
  "exposure_row L doc r =
     (let a = admission_of L doc (ls_protocol r) (ls_port r);
          base = mof [(''Protocol'', JStr (ls_protocol r)), (''LocalAddress'', JStr (ls_address r)),
            (''LocalPort'', JNum (int_str (ls_port r))), (''Scope'', JStr (listening_scope (ls_address r))),
            (''PathCoverage'', JStr path_coverage)]
      in \<lparr>nr_name = socket_name r,
          nr_facts = gap_facts a (when_some ''AdmittedFromPossible'' (ad_possible a)
            (when_some ''AdmittedFromCertain'' (ad_certain a) (when_some ''AdmittingRules'' (ad_rules a) base))),
          nr_edges = []\<rparr>)"

definition emit_exposure :: "pylib \<Rightarrow> json \<Rightarrow> (string \<Rightarrow> string option) \<Rightarrow> net_row list option" where
  "emit_exposure L doc proc_net =
     (case acquire_listening proc_net of (rows, unread) \<Rightarrow>
        if length unread = 4 then None else Some (map (exposure_row L doc) rows))"

section \<open>What a packet meets\<close>

text \<open>
  A packet is its transport protocol, its destination port, and the truth \<open>E\<close> of the statements
  that say something else. A word that names a set of protocols says nothing by itself.
\<close>

definition protocol_word :: "json \<Rightarrow> string option" where
  "protocol_word right = (case right of JStr p \<Rightarrow> if is_prefix ''@'' p then None else Some p | _ \<Rightarrow> None)"

definition element_covers :: "int \<Rightarrow> json \<Rightarrow> bool" where
  "element_covers p e =
     (if is_int e then int_of e = Some p
      else case doc_get e ''range'' of
          JArr [lo, hi] \<Rightarrow> (case (int_of lo, int_of hi) of (Some a, Some b) \<Rightarrow> a \<le> p \<and> p \<le> b | _ \<Rightarrow> False)
        | _ \<Rightarrow> False)"

definition port_covered :: "int \<Rightarrow> json \<Rightarrow> bool" where
  "port_covered p right =
     (if is_int right then int_of right = Some p else list_ex (element_covers p) (elements_of (doc_get right ''set'')))"

definition header_matches :: "string \<Rightarrow> string \<Rightarrow> bool" where
  "header_matches header proto = (header = ''th'' \<or> header = proto)"

text \<open>What a match says of protocol and port, where it says it in a form that can be read.\<close>

definition destination_test :: "string \<Rightarrow> int \<Rightarrow> json \<Rightarrow> bool option" where
  "destination_test proto port body =
     (let left = doc_get body ''left''; right = doc_get body ''right''; payload = doc_get left ''payload''
      in if (case doc_member body ''op'' of None \<Rightarrow> False | Some op \<Rightarrow> op \<noteq> JStr ''=='') then None
         else if is_object (doc_get left ''meta'') then
           (if string_member (doc_get left ''meta'') ''key'' = ''l4proto'' then map_option (\<lambda>p. p = proto) (protocol_word right)
            else None)
         else if string_member payload ''field'' = ''dport'' then
           (if \<not> header_matches (string_member payload ''protocol'') proto then Some False
            else if port_values right = None then None
            else Some (port_covered port right))
         else if string_member payload ''field'' = ''protocol'' then map_option (\<lambda>p. p = proto) (protocol_word right)
         else None)"

text \<open>Statements that impose no condition on a packet.\<close>

definition unconditional_verbs :: "string list" where
  "unconditional_verbs =
     [''counter'', ''log'', ''comment'', ''accept'', ''drop'', ''reject'', ''return'', ''continue'', ''jump'', ''goto'']"

definition holds :: "(json \<Rightarrow> bool) \<Rightarrow> string \<Rightarrow> int \<Rightarrow> json \<Rightarrow> bool" where
  "holds E proto port s =
     (if doc_has s ''match'' then
        (case destination_test proto port (doc_get s ''match'') of Some b \<Rightarrow> b | None \<Rightarrow> E s)
      else length (members_of s) = 1 \<and> first_key s \<in> set unconditional_verbs \<or> E s)"

definition passes :: "(json \<Rightarrow> bool) \<Rightarrow> string \<Rightarrow> int \<Rightarrow> json list \<Rightarrow> bool" where
  "passes E proto port expr = list_all (holds E proto port) expr"

text \<open>
  A way from the hook to a chain: the chains left behind and the statements that guarded each
  transfer. A packet takes it when it passes the guards and no earlier rule has decided it.
\<close>

inductive way :: "json \<Rightarrow> chain_key list \<Rightarrow> json list \<Rightarrow> chain_key \<Rightarrow> bool" for doc :: json where
  way_hook: "key \<in> set (input_chains doc) \<Longrightarrow> way doc [] [] key"
| way_transfer: "way doc path guards key \<Longrightarrow> rule \<in> set (rules_of_chain doc key) \<Longrightarrow>
    hands_control (doc_get rule ''expr'') target \<Longrightarrow>
    way doc (key # path) (guards_through guards rule) (fst key, fst (snd key), target)"

lemma way_walked:
  assumes "way doc path guards key" "distinct (key # path)" "length path \<le> chain_walk_max_depth"
  shows "set (walk_chain (Suc chain_walk_max_depth - length path) doc path guards key) \<subseteq> set (walk_input_path doc)"
  using assms
proof (induction rule: way.induct)
  case (way_hook key)
  then show ?case by (auto simp: walk_input_path_def)
next
  case (way_transfer path guards key rule target)
  define levels where "levels = Suc chain_walk_max_depth - length (key # path)"
  have l: "Suc chain_walk_max_depth - length path = Suc levels"
    using way_transfer.prems(2) by (simp add: levels_def)
  have "set (walk_chain levels doc (key # path) (guards_through guards rule) (fst key, fst (snd key), target))
      \<subseteq> set (walk_chain (Suc levels) doc path guards key)"
    using way_transfer.hyps(2,3) way_transfer.prems(1) by (force simp: verdict_targets_iff)
  also have "\<dots> \<subseteq> set (walk_input_path doc)"
    using way_transfer.IH way_transfer.prems unfolding l [symmetric] by simp
  finally show ?case by (simp add: levels_def)
qed

lemma walk_chain_way:
  assumes "g \<in> set (walk_chain levels doc path guards key)" "way doc path guards key" "distinct path"
    "levels + length path = Suc chain_walk_max_depth"
  shows "\<exists>path key. way doc path (gr_guards g) key \<and> distinct (key # path) \<and> length path \<le> chain_walk_max_depth \<and>
    gr_rule g \<in> set (rules_of_chain doc key)"
  using assms
proof (induction levels doc path guards key rule: walk_chain.induct)
  case (2 levels doc path guards key)
  from "2.prems"(1) have key: "key \<notin> set path" by (auto split: if_splits)
  from "2.prems"(1) obtain rule where r: "rule \<in> set (rules_of_chain doc key)"
    and g: "g = \<lparr>gr_rule = rule, gr_guards = guards\<rparr> \<or>
      (\<exists>target \<in> set (verdict_targets (doc_get rule ''expr'')).
        g \<in> set (walk_chain levels doc (key # path) (guards_through guards rule) (fst key, fst (snd key), target)))"
    by (auto split: if_splits)
  from g show ?case
  proof
    assume "g = \<lparr>gr_rule = rule, gr_guards = guards\<rparr>"
    with r key "2.prems"(2-4) show ?thesis by (intro exI [of _ path] exI [of _ key]) auto
  next
    assume "\<exists>target \<in> set (verdict_targets (doc_get rule ''expr'')).
        g \<in> set (walk_chain levels doc (key # path) (guards_through guards rule) (fst key, fst (snd key), target))"
    then obtain target where t: "target \<in> set (verdict_targets (doc_get rule ''expr''))"
      and w: "g \<in> set (walk_chain levels doc (key # path) (guards_through guards rule) (fst key, fst (snd key), target))"
      by blast
    have "way doc (key # path) (guards_through guards rule) (fst key, fst (snd key), target)"
      using "2.prems"(2) r t by (auto simp: verdict_targets_iff intro: way_transfer)
    then show ?thesis
      using "2.IH" [OF key r t w] "2.prems"(3,4) key by simp
  qed
qed simp

text \<open>The walk visits exactly the rules of the ways that enter no chain twice and make at most eight transfers.\<close>

lemma walk_iff_way:
  "g \<in> set (walk_input_path doc) \<longleftrightarrow>
     (\<exists>path key. way doc path (gr_guards g) key \<and> distinct (key # path) \<and> length path \<le> chain_walk_max_depth \<and>
       gr_rule g \<in> set (rules_of_chain doc key))"
proof
  assume "g \<in> set (walk_input_path doc)"
  then obtain key where "key \<in> set (input_chains doc)" "g \<in> set (walk_chain (Suc chain_walk_max_depth) doc [] [] key)"
    by (auto simp: walk_input_path_def simp del: walk_chain.simps)
  then show "\<exists>path key. way doc path (gr_guards g) key \<and> distinct (key # path) \<and> length path \<le> chain_walk_max_depth \<and>
       gr_rule g \<in> set (rules_of_chain doc key)"
    by (intro walk_chain_way) (auto intro: way_hook simp del: walk_chain.simps)
next
  assume "\<exists>path key. way doc path (gr_guards g) key \<and> distinct (key # path) \<and> length path \<le> chain_walk_max_depth \<and>
       gr_rule g \<in> set (rules_of_chain doc key)"
  then obtain path key where w: "way doc path (gr_guards g) key" "distinct (key # path)" "length path \<le> chain_walk_max_depth"
    and r: "gr_rule g \<in> set (rules_of_chain doc key)" by blast
  obtain levels where l: "Suc chain_walk_max_depth - length path = Suc levels"
    using w(3) by (metis Suc_diff_le)
  have "\<lparr>gr_rule = gr_rule g, gr_guards = gr_guards g\<rparr> \<in> set (walk_chain (Suc levels) doc path (gr_guards g) key)"
    using w(2) r by force
  then have "\<lparr>gr_rule = gr_rule g, gr_guards = gr_guards g\<rparr> \<in> set (walk_input_path doc)"
    using way_walked [OF w] unfolding l by (rule rev_subsetD)
  then show "g \<in> set (walk_input_path doc)" by (cases g) simp
qed

text \<open>
  A ruleset whose input chain jumps to \<open>svc\<close> under a port and a source, and accepts there.
\<close>

definition jump_rule :: json where
  "jump_rule = JObj [(''family'', JStr ''inet''), (''table'', JStr ''fw''), (''chain'', JStr ''input''), (''handle'', JNum ''2''),
     (''expr'', JArr
       [JObj [(''match'', JObj [(''op'', JStr ''==''),
          (''left'', JObj [(''payload'', JObj [(''protocol'', JStr ''tcp''), (''field'', JStr ''dport'')])]), (''right'', JNum ''22'')])],
        JObj [(''match'', JObj [(''op'', JStr ''==''),
          (''left'', JObj [(''payload'', JObj [(''protocol'', JStr ''ip''), (''field'', JStr ''saddr'')])]),
          (''right'', JObj [(''prefix'', JObj [(''addr'', JStr ''192.0.2.0''), (''len'', JNum ''24'')])])])],
        JObj [(''jump'', JObj [(''target'', JStr ''svc'')])]])]"

definition accept_rule :: json where
  "accept_rule = JObj [(''family'', JStr ''inet''), (''table'', JStr ''fw''), (''chain'', JStr ''svc''), (''handle'', JNum ''3''),
     (''expr'', JArr [JObj [(''counter'', JNull)], JObj [(''accept'', JNull)]])]"

definition guarded_ruleset :: json where
  "guarded_ruleset = JObj [(''nftables'', JArr
     [JObj [(''chain'', JObj [(''family'', JStr ''inet''), (''table'', JStr ''fw''), (''name'', JStr ''input''), (''hook'', JStr ''input'')])],
      JObj [(''rule'', jump_rule)], JObj [(''rule'', accept_rule)]])]"

definition plain_lib :: pylib where
  "plain_lib = \<lparr>py_shortest = (\<lambda>_. []), py_print = (\<lambda>_. True)\<rparr>"

section \<open>The closures\<close>

lemma mapO_some: "mapO f xs = Some ys \<Longrightarrow> list_all2 (\<lambda>x y. f x = Some y) xs ys"
  by (induction xs arbitrary: ys) (auto split: option.splits)

lemma element_ports_covers: "element_ports e = Some ps \<Longrightarrow> element_covers p e \<longleftrightarrow> p \<in> ps"
  by (auto simp: element_ports_def element_covers_def split: if_splits json.splits list.splits option.splits)

lemma port_values_covered: "port_values right = Some ps \<Longrightarrow> port_covered p right \<longleftrightarrow> p \<in> ps"
proof (cases "is_int right")
  case False
  assume ps: "port_values right = Some ps"
  with False obtain es qs where es: "doc_get right ''set'' = JArr es" "mapO element_ports es = Some qs" "ps = \<Union> (set qs)"
    by (auto simp: port_values_def split: json.splits)
  have "list_all2 (\<lambda>e q. element_ports e = Some q) es qs" using es(2) by (rule mapO_some)
  then have "list_ex (element_covers p) es \<longleftrightarrow> p \<in> \<Union> (set qs)"
    by (induction rule: list_all2_induct) (auto simp: element_ports_covers)
  with False es show ?thesis by (simp add: port_covered_def elements_of_def)
qed (auto simp: port_values_def port_covered_def)

text \<open>A match that names a set of protocols, which the closure takes for a protocol of that name.\<close>

definition protocol_set_match :: "json \<Rightarrow> bool" where
  "protocol_set_match body =
     (let left = doc_get body ''left''; right = doc_get body ''right''
      in is_text right \<and> is_prefix ''@'' (text_in right) \<and>
         (if is_object (doc_get left ''meta'') then string_member (doc_get left ''meta'') ''key'' = ''l4proto''
          else string_member (doc_get left ''payload'') ''field'' = ''protocol''))"

definition names_protocol_set :: "json \<Rightarrow> bool" where
  "names_protocol_set s = protocol_set_match (doc_get s ''match'')"

definition fits :: "string \<Rightarrow> int \<Rightarrow> closure \<Rightarrow> bool" where
  "fits proto port c = (list_all (\<lambda>p. p = proto) (cl_protocols c) \<and> list_all (\<lambda>ps. port \<in> ps) (cl_ports c))"

lemma protocol_word_text: "is_text right \<Longrightarrow> \<not> is_prefix ''@'' (text_in right) \<Longrightarrow> protocol_word right = Some (text_in right)"
  by (cases right) (simp_all add: protocol_word_def is_text_def text_in_def)

lemma op_equal: "text_in op \<noteq> ''=='' \<longleftrightarrow> op \<noteq> JStr ''==''"
  by (cases op) (auto simp: text_in_def)

lemma fits_update [simp]:
  "fits proto port (c\<lparr>cl_readable := b\<rparr>) = fits proto port c"
  "fits proto port (c\<lparr>cl_protocols := cl_protocols c @ [p]\<rparr>) = (fits proto port c \<and> p = proto)"
  "fits proto port (c\<lparr>cl_ports := cl_ports c @ [ps]\<rparr>) = (fits proto port c \<and> port \<in> ps)"
  by (auto simp: fits_def)

lemma fits_payload:
  assumes "fits proto port c"
    and "string_member payload ''field'' = ''dport'' \<Longrightarrow> header_matches (string_member payload ''protocol'') proto"
    and "string_member payload ''field'' = ''dport'' \<Longrightarrow> port_values right \<noteq> None \<Longrightarrow> port_covered port right"
    and "string_member payload ''field'' = ''protocol'' \<Longrightarrow> is_text right \<Longrightarrow> text_in right = proto"
  shows "fits proto port (add_payload payload right c)"
proof (cases "string_member payload ''field'' = ''dport''")
  case True
  let ?d = "case port_values right of None \<Rightarrow> c\<lparr>cl_readable := False\<rparr> | Some ps \<Rightarrow> c\<lparr>cl_ports := cl_ports c @ [ps]\<rparr>"
  have d: "fits proto port ?d"
    using assms(1,3) True by (cases "port_values right") (simp_all add: port_values_covered)
  show ?thesis using True d assms(2) by (auto simp: add_payload_def header_matches_def Let_def)
qed (use assms(1,4) in \<open>simp add: add_payload_def\<close>)

lemma add_constraint_fits:
  assumes c: "fits proto port c" and t: "destination_test proto port body \<noteq> Some False"
    and n: "\<not> protocol_set_match body"
  shows "fits proto port (add_constraint body c)"
proof -
  consider (skip) "\<not> is_object (doc_get body ''left'')"
    | (op) op where "is_object (doc_get body ''left'')" "doc_member body ''op'' = Some op" "op \<noteq> JStr ''==''"
    | (meta) "is_object (doc_get body ''left'')" "doc_member body ''op'' \<in> {None, Some (JStr ''=='')}"
        "is_object (doc_get (doc_get body ''left'') ''meta'')"
    | (payload) "is_object (doc_get body ''left'')" "doc_member body ''op'' \<in> {None, Some (JStr ''=='')}"
        "\<not> is_object (doc_get (doc_get body ''left'') ''meta'')"
    by (cases "doc_member body ''op''") auto
  then show ?thesis
  proof cases
    case payload
    then have "fits proto port (add_payload (doc_get (doc_get body ''left'') ''payload'') (doc_get body ''right'') c)"
      using t n by (intro fits_payload c)
        (auto simp: destination_test_def Let_def protocol_word_text protocol_set_match_def split: if_splits)
    with payload c show ?thesis by (auto simp: add_constraint_def Let_def text_in_def)
  next
    case meta
    then show ?thesis using c t n
      by (auto simp: add_constraint_def destination_test_def Let_def protocol_word_text text_in_def protocol_set_match_def
          split: if_splits)
  qed (use c in \<open>simp_all add: add_constraint_def Let_def op_equal\<close>)
qed

lemma add_match_fits:
  assumes "fits proto port c" "destination_test proto port body \<noteq> Some False"
    and "\<not> protocol_set_match body"
  shows "fits proto port (add_match L body c)"
  unfolding add_match_def using assms by (intro add_constraint_fits) auto

lemma add_statements_fit:
  assumes "fits proto port c" "passes E proto port expr" "\<not> list_ex names_protocol_set expr"
  shows "fits proto port (fold (add_statement L) expr c)"
  using assms
proof (induction expr arbitrary: c)
  case (Cons s expr)
  have "fits proto port (add_statement L s c)"
  proof (cases "doc_has s ''match''")
    case True
    have "destination_test proto port (doc_get s ''match'') \<noteq> Some False"
      using Cons.prems(2) True by (auto simp: passes_def holds_def)
    then show ?thesis
      using Cons.prems(1,3) True by (auto simp: add_statement_def names_protocol_set_def intro: add_match_fits)
  qed (use Cons.prems(1) in \<open>simp add: add_statement_def\<close>)
  with Cons show ?case by (simp add: passes_def)
qed simp

lemma bears_on_what_it_admits:
  assumes "passes E (wire_protocol protocol) port expr" "\<not> list_ex names_protocol_set expr"
  shows "snd (rule_bears_on L rendered expr protocol port)"
proof -
  let ?c = "\<lparr>cl_readable = (re_residue rendered = []), cl_ports = [], cl_protocols = []\<rparr>"
  have "fits (wire_protocol protocol) port (fold (add_statement L) expr ?c)"
    by (rule add_statements_fit [OF _ assms]) (simp add: fits_def)
  then show ?thesis
    by (auto simp: rule_bears_on_def Let_def fits_def list_ex_iff list_all_iff)
qed

subsection \<open>What a rule of the path adds\<close>

lemma admit_rule_grows:
  "set (ad_possible a) \<subseteq> set (ad_possible (admit_rule L protocol port g a))"
  "set (ad_gap a) \<subseteq> set (ad_gap (admit_rule L protocol port g a))"
  by (auto simp: admit_rule_def Let_def split: option.split)

lemma admission_grows:
  "set (ad_possible a) \<subseteq> set (ad_possible (fold (admit_rule L protocol port) gs a)) \<and>
   set (ad_gap a) \<subseteq> set (ad_gap (fold (admit_rule L protocol port) gs a))"
proof (induction gs arbitrary: a)
  case (Cons g gs)
  then show ?case using admit_rule_grows [of a L protocol port g] by (simp, blast)
qed simp

definition path_statements :: "guarded_rule \<Rightarrow> json list" where
  "path_statements g = gr_guards g @ statements_of (gr_rule g)"

lemma admission_keeps:
  assumes "g \<in> set gs" "admits L protocol port g = Some sure"
  shows "set (sources_of L (path_statements g)) \<subseteq> set (ad_possible (fold (admit_rule L protocol port) gs a)) \<and>
    (sure \<or> rule_place (gr_rule g) \<in> set (ad_gap (fold (admit_rule L protocol port) gs a)))"
  using assms(1)
proof (induction gs arbitrary: a)
  case (Cons h gs)
  show ?case
  proof (cases "h = g")
    case True
    have "set (sources_of L (path_statements g)) \<subseteq> set (ad_possible (admit_rule L protocol port g a)) \<and>
      (sure \<or> rule_place (gr_rule g) \<in> set (ad_gap (admit_rule L protocol port g a)))"
      using assms(2) by (auto simp: admit_rule_def Let_def path_statements_def)
    then show ?thesis
      using True admission_grows [of "admit_rule L protocol port g a" L protocol port gs] by auto
  qed (use Cons in simp)
qed simp

text \<open>
  Property C35. Within the limits the code has, what may reach a socket is never left out. When a
  way of at most eight transfers, through no chain twice, leads from the input hook to a rule of
  a family that bears on the socket, the rule accepts or its verdict cannot be read, and a packet
  to the socket satisfies the statements of the rule and of the guards on the way, then where the
  rule admits from is listed as possible, and the rule is listed as a gap unless it is certain.
  The limits are real: a rule more than eight transfers deep, a rule of the other family, and a
  rule that is itself or by a guard restricted to a named set of protocols can be left out; the
  last is excluded by a hypothesis.
\<close>

lemma possible_closure_misses_nothing:
  assumes "way doc path guards key" "distinct (key # path)" "length path \<le> chain_walk_max_depth"
    and "rule \<in> set (rules_of_chain doc key)" "family_bears_on (string_member rule ''family'') protocol"
    and "passes E (wire_protocol protocol) port (guards @ statements_of rule)"
    and "\<not> list_ex names_protocol_set (guards @ statements_of rule)"
    and "re_verdict (render_rule L (statements_of rule)) = ''accept'' \<or>
      unreadable_verdict (render_rule L (guards @ statements_of rule))"
  shows "set (sources_of L (guards @ statements_of rule)) \<subseteq> set (ad_possible (admission_of L doc protocol port)) \<and>
    (rule_place rule \<in> set (ad_gap (admission_of L doc protocol port)) \<or>
     admits L protocol port \<lparr>gr_rule = rule, gr_guards = guards\<rparr> = Some True)"
proof -
  let ?g = "\<lparr>gr_rule = rule, gr_guards = guards\<rparr>"
  have g: "?g \<in> set (walk_input_path doc)"
    unfolding walk_iff_way using assms(1-4) by (intro exI [of _ path] exI [of _ key]) simp
  have v: "re_verdict (render_rule L (guards @ statements_of rule)) = ''accept'' \<or>
      unreadable_verdict (render_rule L (guards @ statements_of rule))"
    using assms(8) accept_through_guards [of L "statements_of rule" "''accept''" guards] by auto
  have "snd (rule_bears_on L (render_rule L (guards @ statements_of rule)) (guards @ statements_of rule) protocol port)"
    by (rule bears_on_what_it_admits [OF assms(6,7)])
  then obtain sure where a: "admits L protocol port ?g = Some sure"
    using assms(5) v by (auto simp: admits_def Let_def case_prod_beta)
  show ?thesis
    using admission_keeps [OF g a, of no_admission] a by (auto simp: admission_of_def path_statements_def)
qed

lemma possible_closure_misses_nothing_witness:
  "''ip saddr 192.0.2.0/24'' \<in> set (ad_possible (admission_of plain_lib guarded_ruleset ''tcp'' 22))"
proof -
  let ?guards = "guards_through [] jump_rule"
  have h: "way guarded_ruleset [] [] (''inet'', ''fw'', ''input'')"
    by (rule way_hook) code_simp
  have j: "jump_rule \<in> set (rules_of_chain guarded_ruleset (''inet'', ''fw'', ''input''))" by code_simp
  have t: "''svc'' \<in> set (verdict_targets (doc_get jump_rule ''expr''))" by code_simp
  have w: "way guarded_ruleset [(''inet'', ''fw'', ''input'')] ?guards (''inet'', ''fw'', ''svc'')"
    using way_transfer [OF h j t [unfolded verdict_targets_iff]] by simp
  have r: "accept_rule \<in> set (rules_of_chain guarded_ruleset (''inet'', ''fw'', ''svc''))" by code_simp
  have f: "family_bears_on (string_member accept_rule ''family'') ''tcp''" by code_simp
  have p: "passes (\<lambda>_. True) (wire_protocol ''tcp'') 22 (?guards @ statements_of accept_rule)" by code_simp
  have n: "\<not> list_ex names_protocol_set (?guards @ statements_of accept_rule)" by code_simp
  have v: "re_verdict (render_rule plain_lib (statements_of accept_rule)) = ''accept''" by code_simp
  have s: "sources_of plain_lib (?guards @ statements_of accept_rule) = [''ip saddr 192.0.2.0/24'']" by code_simp
  show ?thesis
    using possible_closure_misses_nothing [OF w _ _ r f p n disjI1 [OF v]] unfolding s
    by (simp add: chain_walk_max_depth_def)
qed

text \<open>A statement that tells where from.\<close>

definition is_source_statement :: "pylib \<Rightarrow> json \<Rightarrow> bool" where
  "is_source_statement L s = (doc_has s ''match'' \<and> classify_match L (doc_get s ''match'') = ''source'')"

text \<open>
  A statement in a form whose condition the closure takes up whole: no rate limit; a protocol
  given as one word; a port of the TCP, the UDP or any header; a match whose body is an object.
\<close>

definition plain_destination :: "json \<Rightarrow> bool" where
  "plain_destination body =
     (let left = doc_get body ''left''; payload = doc_get left ''payload''
      in if is_object (doc_get left ''meta'') then protocol_word (doc_get body ''right'') \<noteq> None
         else if string_member payload ''field'' = ''dport''
           then string_member payload ''protocol'' \<in> {''tcp'', ''udp'', ''th''}
         else protocol_word (doc_get body ''right'') \<noteq> None)"

definition plain_statement :: "pylib \<Rightarrow> json \<Rightarrow> bool" where
  "plain_statement L s =
     (if doc_has s ''match'' then
        is_object (doc_get s ''match'') \<and>
        (classify_match L (doc_get s ''match'') = ''destination'' \<longrightarrow> plain_destination (doc_get s ''match''))
      else first_key s \<noteq> ''limit'')"

lemma closure_parts [simp]:
  "cl_readable (c\<lparr>cl_readable := b\<rparr>) = b"
  by simp

text \<open>The constraints taken up are never given back, nor is what was not understood.\<close>

definition grown :: "closure \<Rightarrow> closure \<Rightarrow> bool" where
  "grown c d = (set (cl_ports c) \<subseteq> set (cl_ports d) \<and> set (cl_protocols c) \<subseteq> set (cl_protocols d) \<and>
     (cl_readable d \<longrightarrow> cl_readable c))"

lemma grown_refl [simp]: "grown c c"
  by (simp add: grown_def)

lemma grown_trans: "grown a b \<Longrightarrow> grown b c \<Longrightarrow> grown a c"
  by (auto simp: grown_def)

lemma grown_update [simp]:
  "grown c d \<Longrightarrow> grown c (d\<lparr>cl_readable := False\<rparr>)"
  "grown c d \<Longrightarrow> grown c (d\<lparr>cl_ports := cl_ports d @ ps\<rparr>)"
  "grown c d \<Longrightarrow> grown c (d\<lparr>cl_protocols := cl_protocols d @ qs\<rparr>)"
  by (auto simp: grown_def)

lemma grown_payload: "grown c (add_payload payload right c)"
  by (auto simp: add_payload_def Let_def split: option.split)

lemma grown_constraint: "grown c (add_constraint body c)"
  by (simp add: add_constraint_def Let_def grown_payload)

lemma grown_match: "grown c (add_match L body c)"
  unfolding add_match_def by (rule grown_trans [OF _ grown_constraint]) simp

lemma grown_statement: "grown c (add_statement L s c)"
  by (simp add: add_statement_def grown_match)

lemma grown_statements: "grown c (fold (add_statement L) expr c)"
  by (induction expr arbitrary: c) (auto intro: grown_trans [OF grown_statement])

lemma statement_of_fold:
  assumes "s \<in> set expr"
  obtains d where "grown (add_statement L s d) (fold (add_statement L) expr c)"
  using assms
proof (induction expr arbitrary: c thesis)
  case (Cons t expr)
  show ?case
  proof (cases "s = t")
    case True
    then show ?thesis using Cons.prems(1) [of c] grown_statements by simp
  next
    case False
    with Cons.prems(2) have "s \<in> set expr" by simp
    then show ?thesis using Cons.IH [of "add_statement L t c"] Cons.prems(1) by auto
  qed
qed simp

lemma match_added:
  assumes "cl_readable (add_match L body c)"
  shows "classify_match L body \<noteq> ''other''"
    and "is_object (doc_get body ''left'') \<Longrightarrow> doc_member body ''op'' \<in> {None, Some (JStr ''=='')}"
proof -
  show o: "classify_match L body \<noteq> ''other''"
    using assms grown_constraint [of "c\<lparr>cl_readable := False\<rparr>" body] by (auto simp: add_match_def grown_def)
  show "doc_member body ''op'' \<in> {None, Some (JStr ''=='')}" if "is_object (doc_get body ''left'')"
    using assms o that by (cases "doc_member body ''op''") (auto simp: add_match_def add_constraint_def op_equal Let_def split: if_splits)
qed

lemma rendered_left:
  "render_match L body = Some t \<Longrightarrow> \<exists>k v. doc_get body ''left'' = JObj [(k, v)]"
  by (cases "doc_get body ''left''")
    (auto simp: render_match_def members_of_def Let_def length_one_pair split: if_splits)

lemma classified_destination:
  assumes "classify_match L body \<noteq> ''other''" "classify_match L body \<noteq> ''source''"
    "render_match L body = Some t" "t \<noteq> []" "doc_get body ''left'' = JObj [(k, v)]"
  shows "classify_match L body = ''destination'' \<and>
    (k = ''payload'' \<and> string_member v ''field'' \<in> {''dport'', ''protocol''} \<or>
     k = ''meta'' \<and> is_object v \<and> string_member v ''key'' = ''l4proto'')"
  using assms
  by (auto simp: classify_match_def match_field_def Let_def first_key_def members_of_def doc_get_def [of "JObj _"]
      doc_member_def [of "JObj _"] split: if_splits)

lemma sure_destination:
  assumes k: "k = ''payload'' \<and> string_member v ''field'' \<in> {''dport'', ''protocol''} \<or>
     k = ''meta'' \<and> is_object v \<and> string_member v ''key'' = ''l4proto''"
    and l: "doc_get body ''left'' = JObj [(k, v)]"
    and op: "doc_member body ''op'' \<in> {None, Some (JStr ''=='')}"
    and p: "plain_destination body"
    and fit: "fits proto port (add_constraint body c)" and r: "cl_readable (add_constraint body c)"
  shows "destination_test proto port body = Some True"
proof (cases "k = ''meta''")
  case True
  obtain p where w: "protocol_word (doc_get body ''right'') = Some p"
    using assms(1,4) l True by (auto simp: plain_destination_def doc_get_def [of "JObj _"] doc_member_def [of "JObj _"] members_of_def)
  then have "is_text (doc_get body ''right'')" "text_in (doc_get body ''right'') = p"
    by (auto simp: protocol_word_def is_text_def text_in_def split: json.splits if_splits)
  with True k l op fit w show ?thesis
    by (auto simp: add_constraint_def destination_test_def Let_def is_object_def doc_get_def [of "JObj _"]
        doc_member_def [of "JObj _"] members_of_def text_in_def)
next
  case False
  with k have k': "k = ''payload''" "string_member v ''field'' \<in> {''dport'', ''protocol''}" by auto
  have left: "doc_get (doc_get body ''left'') ''meta'' = JNull" "doc_get (doc_get body ''left'') ''payload'' = v"
    "is_object (doc_get body ''left'')" "doc_has (doc_get body ''left'') ''payload''"
    using k'(1) l by (simp_all add: doc_get_def [of "JObj _"] doc_member_def members_of_def is_object_def doc_has_def)
  have added: "add_constraint body c = add_payload v (doc_get body ''right'') c"
    using left op by (auto simp: add_constraint_def Let_def is_object_def text_in_def)
  show ?thesis
  proof (cases "string_member v ''field'' = ''dport''")
    case True
    then obtain ps where ps: "port_values (doc_get body ''right'') = Some ps"
      using r unfolding added by (cases "port_values (doc_get body ''right'')") (auto simp: add_payload_def Let_def split: if_splits)
    have "string_member v ''protocol'' \<in> {''tcp'', ''udp'', ''th''}"
      using p True left by (simp add: plain_destination_def is_object_def)
    with fit ps True left op show ?thesis
      unfolding added
      by (auto simp: destination_test_def add_payload_def Let_def is_object_def header_matches_def port_values_covered fits_def
          simp del: fits_update split: if_splits)
  next
    case False
    with k' have f: "string_member v ''field'' = ''protocol''" by auto
    then obtain p where w: "protocol_word (doc_get body ''right'') = Some p"
      using assms(4) left by (auto simp: plain_destination_def is_object_def)
    then have "is_text (doc_get body ''right'')" "text_in (doc_get body ''right'') = p"
      by (auto simp: protocol_word_def is_text_def text_in_def split: json.splits if_splits)
    with fit f w left op show ?thesis
      unfolding added by (auto simp: destination_test_def add_payload_def Let_def is_object_def)
  qed
qed

lemma sure_statement_holds:
  assumes u: "statement_understood L s" and p: "plain_statement L s"
    and g: "grown (add_statement L s d) c" and r: "cl_readable c"
    and f: "fits proto port c" and e: "is_source_statement L s \<Longrightarrow> E s"
  shows "holds E proto port s"
proof -
  obtain verb body where m: "members_of s = [(verb, body)]" "verb \<in> set rendered_statements"
    "verb = ''match'' \<Longrightarrow> is_object body \<Longrightarrow> match_understood L body"
    using statement_understoodE [OF u] by blast
  show ?thesis
  proof (cases "verb = ''match''")
    case False
    have "\<not> doc_has s ''match''" using False m(1) by (simp add: doc_has_def doc_member_def)
    moreover have "verb \<noteq> ''limit''" using p calculation m(1) by (simp add: plain_statement_def first_key_def)
    with False m(2) have "verb \<in> set unconditional_verbs"
      by (auto simp: rendered_statements_def unconditional_verbs_def)
    ultimately show ?thesis using m(1) by (simp add: holds_def first_key_def)
  next
    case True
    then have h: "doc_has s ''match''" and b: "doc_get s ''match'' = body"
      using m(1) by (simp_all add: doc_has_def doc_member_def doc_get_def)
    with p m(3) True obtain t where t: "render_match L body = Some t" "t \<noteq> []"
      by (auto simp: plain_statement_def match_understood_def)
    obtain k v where l: "doc_get body ''left'' = JObj [(k, v)]"
      using rendered_left [OF t(1)] by blast
    have a: "grown (add_match L body d) c" using g h b by (simp add: add_statement_def)
    then have rd: "cl_readable (add_match L body d)" using r by (simp add: grown_def)
    have fit: "fits proto port (add_match L body d)" using a f by (auto simp: fits_def grown_def list_all_iff)
    have op: "doc_member body ''op'' \<in> {None, Some (JStr ''=='')}"
      using match_added(2) [OF rd] l by (simp add: is_object_def)
    show ?thesis
    proof (cases "classify_match L body = ''source''")
      case True
      then have "E s" using e h b by (simp add: is_source_statement_def)
      moreover have "destination_test proto port body = None"
        using True l by (auto simp: destination_test_def classify_match_def match_field_def Let_def first_key_def members_of_def
            doc_get_def [of "JObj _"] doc_member_def [of "JObj _"] string_member_def is_object_def split: if_splits)
      ultimately show ?thesis using h b by (simp add: holds_def)
    next
      case False
      note c = classified_destination [OF match_added(1) [OF rd] False t l]
      have "plain_destination body" using p h b c by (simp add: plain_statement_def)
      then have "destination_test proto port body = Some True"
        using sure_destination [OF conjunct2 [OF c] l op] fit rd unfolding add_match_def by blast
      then show ?thesis using h b by (simp add: holds_def)
    qed
  qed
qed

lemma sure_passes:
  assumes "rule_bears_on L (render_rule L expr) expr protocol port = (True, True)"
    and "list_all (plain_statement L) expr"
    and "list_all (\<lambda>s. is_source_statement L s \<longrightarrow> E s) expr"
  shows "passes E (wire_protocol protocol) port expr"
proof -
  define c where "c = fold (add_statement L) expr
    \<lparr>cl_readable = (re_residue (render_rule L expr) = []), cl_ports = [], cl_protocols = []\<rparr>"
  have f: "fits (wire_protocol protocol) port c" and r: "cl_readable c"
    using assms(1) unfolding c_def [symmetric] rule_bears_on_def Let_def
    by (auto simp: fits_def list_ex_iff list_all_iff split: if_splits)
  have "re_residue (render_rule L expr) = []"
    using r grown_statements [of "\<lparr>cl_readable = (re_residue (render_rule L expr) = []), cl_ports = [], cl_protocols = []\<rparr>" L expr]
    by (simp add: c_def grown_def)
  then have u: "list_all (statement_understood L) expr"
    by (simp add: render_rule_residue filter_empty_conv list_all_iff)
  show ?thesis
    unfolding passes_def list_all_iff
  proof
    fix s assume s: "s \<in> set expr"
    obtain d where "grown (add_statement L s d) c"
      unfolding c_def by (rule statement_of_fold [OF s])
    then show "holds E (wire_protocol protocol) port s"
      using s u assms(2,3) f r by (intro sure_statement_holds [where d = d and c = c]) (auto simp: list_all_iff)
  qed
qed

lemma certain_from:
  "t \<in> set (ad_certain (fold (admit_rule L protocol port) gs a)) \<Longrightarrow>
   t \<in> set (ad_certain a) \<or>
   (\<exists>g \<in> set gs. admits L protocol port g = Some True \<and> t \<in> set (sources_of L (path_statements g)))"
proof (induction gs arbitrary: a)
  case (Cons g gs)
  have "t \<in> set (ad_certain (admit_rule L protocol port g a)) \<Longrightarrow> t \<in> set (ad_certain a) \<or>
     admits L protocol port g = Some True \<and> t \<in> set (sources_of L (path_statements g))"
    by (auto simp: admit_rule_def Let_def path_statements_def split: option.splits if_splits)
  then show ?case using Cons by fastforce
qed simp

lemma admits_surely:
  "admits L protocol port g = Some True \<longleftrightarrow>
     family_bears_on (string_member (gr_rule g) ''family'') protocol \<and>
     re_verdict (render_rule L (path_statements g)) = ''accept'' \<and>
     rule_bears_on L (render_rule L (path_statements g)) (path_statements g) protocol port = (True, True)"
  by (auto simp: admits_def Let_def path_statements_def unreadable_verdict_def split: prod.splits)

text \<open>Certain sources are possible ones, and without a gap they are all of them.\<close>

lemma certain_within_possible:
  "set (ad_certain (fold (admit_rule L protocol port) gs no_admission)) \<subseteq>
     set (ad_possible (fold (admit_rule L protocol port) gs no_admission)) \<and>
   (ad_gap (fold (admit_rule L protocol port) gs no_admission) = [] \<longrightarrow>
     ad_certain (fold (admit_rule L protocol port) gs no_admission) =
     ad_possible (fold (admit_rule L protocol port) gs no_admission))"
proof (induction gs rule: rev_induct)
  case (snoc g gs)
  then show ?case by (auto simp: admit_rule_def Let_def split: option.splits)
qed (simp add: no_admission_def)

text \<open>
  Property C36. What is listed as certain is listed as possible too and comes from a rule of the
  path, of a family that bears on the socket, that accepts through its guards and has it among
  its sources. Where all statements of that rule and of its guards have a form whose condition
  the closure takes up whole (no rate limit, no protocol given otherwise than by one word, no
  port of another transport), every packet to the socket that meets all their source conditions
  together satisfies them all. Nothing is stated of a packet that meets only the listed condition
  of several, nor of a rule with a statement in another form: there the closure claims too much.
\<close>

lemma certain_closure_is_real:
  assumes "t \<in> set (ad_certain (admission_of L doc protocol port))"
  shows "t \<in> set (ad_possible (admission_of L doc protocol port)) \<and>
    (\<exists>g. g \<in> set (walk_input_path doc) \<and> t \<in> set (sources_of L (path_statements g)) \<and>
    family_bears_on (string_member (gr_rule g) ''family'') protocol \<and>
    re_verdict (render_rule L (path_statements g)) = ''accept'' \<and>
    (list_all (plain_statement L) (path_statements g) \<longrightarrow>
     (\<forall>E. list_all (\<lambda>s. is_source_statement L s \<longrightarrow> E s) (path_statements g) \<longrightarrow>
       passes E (wire_protocol protocol) port (path_statements g))))"
proof -
  obtain g where g: "g \<in> set (walk_input_path doc)" "admits L protocol port g = Some True"
    "t \<in> set (sources_of L (path_statements g))"
    using certain_from [of t L protocol port "walk_input_path doc" no_admission] assms
    by (auto simp: admission_of_def no_admission_def)
  have "t \<in> set (ad_possible (admission_of L doc protocol port))"
    using certain_within_possible [of L protocol port "walk_input_path doc"] assms by (auto simp: admission_of_def)
  with g show ?thesis
    using sure_passes by (intro conjI exI [of _ g]) (auto simp: admits_surely)
qed

lemma certain_closure_is_real_witness:
  "\<exists>g. g \<in> set (walk_input_path guarded_ruleset) \<and>
     ''ip saddr 192.0.2.0/24'' \<in> set (sources_of plain_lib (path_statements g)) \<and>
     re_verdict (render_rule plain_lib (path_statements g)) = ''accept'' \<and>
     passes (\<lambda>_. True) ''tcp'' 22 (path_statements g)"
proof -
  have "''ip saddr 192.0.2.0/24'' \<in> set (ad_certain (admission_of plain_lib guarded_ruleset ''tcp'' 22))"
    by code_simp
  from certain_closure_is_real [OF this]
  obtain g where g: "g \<in> set (walk_input_path guarded_ruleset)"
      "''ip saddr 192.0.2.0/24'' \<in> set (sources_of plain_lib (path_statements g))"
      "re_verdict (render_rule plain_lib (path_statements g)) = ''accept''"
    and met: "list_all (plain_statement plain_lib) (path_statements g) \<longrightarrow>
      (\<forall>E. list_all (\<lambda>s. is_source_statement plain_lib s \<longrightarrow> E s) (path_statements g) \<longrightarrow>
        passes E (wire_protocol ''tcp'') 22 (path_statements g))"
    by blast
  have "list_all (\<lambda>g. list_all (plain_statement plain_lib) (path_statements g)) (walk_input_path guarded_ruleset)"
    by code_simp
  then have "list_all (plain_statement plain_lib) (path_statements g)" using g(1) by (simp add: list_all_iff)
  moreover have "wire_protocol ''tcp'' = ''tcp''" by code_simp
  ultimately have "passes (\<lambda>_. True) ''tcp'' 22 (path_statements g)" using spec [OF mp [OF met], of "\<lambda>_. True"]
    by (simp add: list_all_iff)
  then show ?thesis using g by blast
qed

end
