(* ===== verification/NetAddress.thy ===== *)
theory NetAddress
  imports Exposure Serving
begin

text \<open>
  What se-collect-network uses of the standard library: \<open>netip.ParseAddr\<close>,
  \<open>netip.Addr.String\<close>, \<open>net.ParseIP\<close> and \<open>time.Parse\<close> of RFC 3339. An address is its
  four or sixteen bytes and its zone.
\<close>

section \<open>Addresses\<close>

definition v4_bytes :: "string \<Rightarrow> nat list option" where
  "v4_bytes s = (if ipv4 s then Some (map dec_val (split_on CHR ''.'' s)) else None)"

text \<open>The bytes read so far, and where among them a double colon stood.\<close>

function v6_loop :: "nat list \<Rightarrow> nat option \<Rightarrow> string \<Rightarrow> (nat list \<times> nat option) option" where
  "v6_loop ip e s =
     (if 16 \<le> length ip then (if s = [] then Some (ip, e) else None)
      else
        (let f = takeWhile hex_char s; r = dropWhile hex_char s; n = hex_digits_val f;
             ip' = ip @ [n div 256, n mod 256]
         in if f = [] \<or> 4 < length f then None
            else case r of
              [] \<Rightarrow> Some (ip', e)
            | c # t \<Rightarrow>
                if c = CHR ''.'' then
                  (if e = None \<and> length ip \<noteq> 12 \<or> 16 < length ip + 4 then None
                   else map_option (\<lambda>q. (ip @ q, e)) (v4_bytes s))
                else if c \<noteq> CHR '':'' then None
                else case t of
                  [] \<Rightarrow> None
                | d # u \<Rightarrow>
                    if d = CHR '':'' then
                      (if e \<noteq> None then None else if u = [] then Some (ip', Some (length ip'))
                       else v6_loop ip' (Some (length ip')) u)
                    else v6_loop ip' e t))"
  by pat_completeness auto
termination
proof (relation "measure (\<lambda>(ip, e, s). length s)", simp, goal_cases)
  case (1 ip e s f r n ip' c t d u)
  then have "dropWhile hex_char s = c # d # u" by simp
  then have "length (c # d # u) \<le> length s" by (metis length_dropWhile_le)
  then show ?case by simp
next
  case (2 ip e s f r n ip' c t d u)
  then have "dropWhile hex_char s = c # t" by simp
  then have "length (c # t) \<le> length s" by (metis length_dropWhile_le)
  then show ?case by simp
qed

declare v6_loop.simps [simp del]

definition v6_bytes :: "string \<Rightarrow> nat list option" where
  "v6_bytes s =
     (if s = ''::'' then Some (replicate 16 0)
      else case (if is_prefix ''::'' s then v6_loop [] (Some 0) (drop 2 s) else v6_loop [] None s) of
        None \<Rightarrow> None
      | Some (ip, e) \<Rightarrow>
          (case e of
             None \<Rightarrow> if length ip < 16 then None else Some ip
           | Some k \<Rightarrow> if length ip < 16 then Some (take k ip @ replicate (16 - length ip) 0 @ drop k ip) else None))"

definition parse_addr :: "string \<Rightarrow> (nat list \<times> string) option" where
  "parse_addr s = (case find (\<lambda>c. c = CHR ''.'' \<or> c = CHR '':'' \<or> c = CHR ''%'') s of
       None \<Rightarrow> None
     | Some c \<Rightarrow>
         if c = CHR ''.'' then map_option (\<lambda>bs. (bs, [])) (v4_bytes s)
         else if c = CHR ''%'' then None
         else case cut_at CHR ''%'' s of
             None \<Rightarrow> map_option (\<lambda>bs. (bs, [])) (v6_bytes s)
           | Some (host, zone) \<Rightarrow> if zone = [] then None else map_option (\<lambda>bs. (bs, zone)) (v6_bytes host))"

definition is_mapped :: "nat list \<Rightarrow> bool" where
  "is_mapped bs = (length bs = 16 \<and> take 12 bs = replicate 10 0 @ [255, 255])"

definition addr_text :: "nat list \<times> string \<Rightarrow> string" where
  "addr_text a = (case a of (bs, zone) \<Rightarrow>
     (if length bs = 4 then dotted bs
      else (if is_mapped bs then ''::ffff:'' @ dotted (drop 12 bs) else v6_text (v6_groups bs)) @
        (if zone = [] then [] else ''%'' @ zone)))"

definition is_link_local :: "nat list \<Rightarrow> bool" where
  "is_link_local bs =
     (let qs = (if is_mapped bs then drop 12 bs else bs)
      in if length qs = 4 then take 2 qs = [169, 254]
         else qs ! 0 = 254 \<and> qs ! 1 div 64 = 2)"

text \<open>\<open>net.ParseIP\<close> refuses a zone.\<close>

definition net_parse_ip :: "string \<Rightarrow> nat list option" where
  "net_parse_ip s = (case parse_addr s of Some (bs, []) \<Rightarrow> Some bs | _ \<Rightarrow> None)"

definition is_to4 :: "nat list \<Rightarrow> bool" where
  "is_to4 bs = (length bs = 4 \<or> is_mapped bs)"

section \<open>Moments\<close>

text \<open>Days since the epoch, and back.\<close>

definition is_leap :: "int \<Rightarrow> bool" where
  "is_leap y = (y mod 4 = 0 \<and> (y mod 100 \<noteq> 0 \<or> y mod 400 = 0))"

definition month_days :: "int \<Rightarrow> nat \<Rightarrow> int" where
  "month_days y m = (if m = 2 then (if is_leap y then 29 else 28) else if m \<in> {4, 6, 9, 11} then 30 else 31)"

definition year_start :: "int \<Rightarrow> int" where
  "year_start y = 365 * (y - 1) + (y - 1) div 4 - (y - 1) div 100 + (y - 1) div 400 - 719162"

definition civil_days :: "int \<Rightarrow> nat \<Rightarrow> int \<Rightarrow> int" where
  "civil_days y m d = year_start y + sum_list (map (month_days y) [1..<m]) + d - 1"

fun month_at :: "int \<Rightarrow> nat list \<Rightarrow> int \<Rightarrow> nat \<times> int" where
  "month_at y [] n = (12, n + 1)"
| "month_at y (m # ms) n = (if n < month_days y m then (m, n + 1) else month_at y ms (n - month_days y m))"

definition year_at :: "int \<Rightarrow> int" where
  "year_at n = (let y = 400 * (n + 719162) div 146097 in
     y + int (length (takeWhile (\<lambda>k. year_start (y + int k + 1) \<le> n) [0..<3])))"

definition civil_date :: "int \<Rightarrow> int \<times> nat \<times> int" where
  "civil_date n = (let y = year_at n; (m, d) = month_at y [1..<13] (n - year_start y) in (y, m, d))"

lemma year_start_bounds:
  "400 * (year_start y + 719162) \<le> 146097 * y - 145701"
  "146097 * y - 146796 \<le> 400 * (year_start y + 719162)"
proof -
  have d: "k * (a div k) \<le> a" "a \<le> k * (a div k) + (k - 1)" if "0 < k" for a k :: int
    using that mult_div_mod_eq [of k a] pos_mod_bound [of k a] pos_mod_sign [of k a] by linarith+
  note q = d [of 4 "y - 1", simplified] d [of 100 "y - 1", simplified] d [of 400 "y - 1", simplified]
  show "400 * (year_start y + 719162) \<le> 146097 * y - 145701"
    using q unfolding year_start_def by (simp add: algebra_simps)
  show "146097 * y - 146796 \<le> 400 * (year_start y + 719162)"
    using q unfolding year_start_def by (simp add: algebra_simps)
qed

lemma year_at_spec: "year_start (year_at n) \<le> n" "n < year_start (year_at n + 1)"
proof -
  define y where "y = 400 * (n + 719162) div 146097"
  define N where "N = 400 * (n + 719162)"
  have yN: "y = N div 146097" by (simp add: y_def N_def)
  define r where "r = N mod 146097"
  have "146097 * y + r = N" unfolding yN r_def by (rule mult_div_mod_eq)
  moreover have "0 \<le> r" "r < 146097" unfolding r_def by simp_all
  moreover have "146097 * (y + 1) = 146097 * y + 146097" by simp
  ultimately have "146097 * y \<le> N" "N < 146097 * (y + 1)" by linarith+
  then have q: "146097 * y \<le> 400 * n + 287664800" "400 * n + 287664800 < 146097 * y + 146097"
    by (simp_all add: N_def)
  have low: "year_start y \<le> n" using q(1) year_start_bounds(1) [of y] by (simp add: distrib_left)
  have up: "n < year_start (y + 3)" using q(2) year_start_bounds(2) [of "y + 3"] by (simp add: distrib_left)
  have at: "year_at n = y + int (length (takeWhile (\<lambda>k. year_start (y + int k + 1) \<le> n) [0, 1, 2]))"
    unfolding year_at_def Let_def y_def [symmetric] by (simp add: upt_rec)
  show "year_start (year_at n) \<le> n" "n < year_start (year_at n + 1)"
    using low up unfolding at by (auto simp: algebra_simps)
qed

lemma div_step:
  assumes "0 < (k :: int)"
  shows "a div k = (a - 1) div k + (if a mod k = 0 then 1 else 0)"
proof (cases "a mod k = 0")
  case True
  then have "a - 1 = k * (a div k - 1) + (k - 1)"
    using mult_div_mod_eq [of k a] by (simp add: algebra_simps)
  then show ?thesis using int_div_pos_eq [of "a - 1" k "a div k - 1" "k - 1"] assms True by simp
next
  case False
  then have "0 < a mod k" using pos_mod_sign [OF assms, of a] by linarith
  moreover have "a - 1 = k * (a div k) + (a mod k - 1)"
    using mult_div_mod_eq [of k a] by linarith
  ultimately show ?thesis
    using int_div_pos_eq [of "a - 1" k "a div k" "a mod k - 1"] pos_mod_bound [OF assms, of a] False by simp
qed

lemma leap_sum:
  fixes y :: int
  assumes "p = a + (if u then 1 else 0)" "q = b + (if v then 1 else 0)" "r = c + (if w then 1 else 0)"
    and "w \<Longrightarrow> v" "v \<Longrightarrow> u"
  shows "365 * y + p - q + r - k = 365 * (y - 1) + a - b + c - k + (365 + (if u \<and> (\<not> v \<or> w) then 1 else 0))"
  unfolding assms(1-3) using assms(4,5) by (cases u; cases v; cases w) simp_all

lemma year_days: "year_start (y + 1) = year_start y + sum_list (map (month_days y) [1..<13])"
proof -
  have days: "sum_list (map (month_days y) [1..<13]) = 365 + (if is_leap y then 1 else 0)"
    by (simp add: month_days_def upt_rec)
  have f: "y mod 400 = 0 \<Longrightarrow> y mod 100 = 0" "y mod 100 = 0 \<Longrightarrow> y mod 4 = 0"
    using mod_mod_cancel [of 100 400 y] mod_mod_cancel [of 4 100 y] by auto
  have d: "y div 4 = (y - 1) div 4 + (if y mod 4 = 0 then 1 else 0)"
    "y div 100 = (y - 1) div 100 + (if y mod 100 = 0 then 1 else 0)"
    "y div 400 = (y - 1) div 400 + (if y mod 400 = 0 then 1 else 0)"
    by (rule div_step, rule zero_less_numeral)+
  have "365 * y + y div 4 - y div 100 + y div 400 - 719162 =
      365 * (y - 1) + (y - 1) div 4 - (y - 1) div 100 + (y - 1) div 400 - 719162 +
      (365 + (if y mod 4 = 0 \<and> (\<not> y mod 100 = 0 \<or> y mod 400 = 0) then 1 else 0))"
    by (rule leap_sum [OF d f])
  then show ?thesis unfolding days year_start_def is_leap_def add_diff_cancel_right' .
qed

lemma month_at_spec:
  assumes "0 \<le> n" "n < sum_list (map (month_days y) [a..<13])" "month_at y [a..<13] n = (m, d)"
  shows "a \<le> m \<and> m < 13 \<and> 1 \<le> d \<and> d \<le> month_days y m \<and> n = sum_list (map (month_days y) [a..<m]) + d - 1"
  using assms
proof (induction "13 - a" arbitrary: a n)
  case (Suc k)
  then have upt: "[a..<13] = a # [Suc a..<13]" by (simp add: upt_rec)
  show ?case
  proof (cases "n < month_days y a")
    case True
    with Suc.prems(1,3) show ?thesis unfolding upt using Suc.hyps(2) by auto
  next
    case False
    have "Suc a \<le> m \<and> m < 13 \<and> 1 \<le> d \<and> d \<le> month_days y m \<and>
        n - month_days y a = sum_list (map (month_days y) [Suc a..<m]) + d - 1"
      using Suc.prems False unfolding upt by (intro Suc.hyps(1)) (use Suc.hyps(2) in auto)
    then show ?thesis by (auto simp: upt_conv_Cons)
  qed
qed simp

text \<open>A date is written and read as the same day.\<close>

lemma civil_date_days:
  assumes "civil_date n = (y, m, d)"
  shows "civil_days y m d = n" "1 \<le> m" "m \<le> 12" "1 \<le> d" "d \<le> month_days y m"
proof -
  have y: "y = year_at n" and md: "month_at y [1..<13] (n - year_start y) = (m, d)"
    using assms by (auto simp: civil_date_def Let_def split: prod.splits)
  have "0 \<le> n - year_start y" "n - year_start y < sum_list (map (month_days y) [1..<13])"
    using year_at_spec [of n] unfolding y year_days by linarith+
  from month_at_spec [OF this md]
  show "civil_days y m d = n" "1 \<le> m" "m \<le> 12" "1 \<le> d" "d \<le> month_days y m"
    by (auto simp: civil_days_def)
qed

definition pad :: "nat \<Rightarrow> string \<Rightarrow> string" where
  "pad w s = replicate (w - length s) CHR ''0'' @ s"

text \<open>\<open>Format\<close> with \<open>2006-01-02T15:04:05Z\<close>, of seconds since the epoch, in UTC.\<close>

definition utc_text :: "int \<Rightarrow> string" where
  "utc_text secs =
     (let (y, m, d) = civil_date (secs div 86400); t = nat (secs mod 86400)
      in pad 4 (int_str y) @ ''-'' @ pad 2 (nat_str m) @ ''-'' @ pad 2 (int_str d) @ ''T'' @
         pad 2 (nat_str (t div 3600)) @ '':'' @ pad 2 (nat_str (t div 60 mod 60)) @ '':'' @ pad 2 (nat_str (t mod 60)) @ ''Z'')"

text \<open>
  A number of two digits; the hour may have one. The fraction keeps nine digits.
\<close>

definition two_digit_number :: "bool \<Rightarrow> string \<Rightarrow> (nat \<times> string) option" where
  "two_digit_number fixed s = (case s of
       a # b # t \<Rightarrow> if \<not> is_digit a then None
         else if is_digit b then Some (dec_val [a, b], t) else if fixed then None else Some (dec_val [a], b # t)
     | [a] \<Rightarrow> if is_digit a \<and> \<not> fixed then Some (dec_val [a], []) else None
     | [] \<Rightarrow> None)"

definition skip_byte :: "char \<Rightarrow> string \<Rightarrow> string option" where
  "skip_byte c s = (case s of [] \<Rightarrow> None | a # t \<Rightarrow> if a = c then Some t else None)"

definition fraction_part :: "string \<Rightarrow> int \<times> string" where
  "fraction_part s = (case s of
       a # b # t \<Rightarrow> if (a = CHR ''.'' \<or> a = CHR '','') \<and> is_digit b then
           (let ds = takeWhile is_digit (b # t); kept = take 9 ds
            in (int (dec_val kept) * 10 ^ (9 - length kept), drop (length ds) (b # t)))
         else (0, s)
     | _ \<Rightarrow> (0, s))"

text \<open>Seconds east of UTC.\<close>

definition zone_offset :: "string \<Rightarrow> int option" where
  "zone_offset s =
     (if s = ''Z'' then Some 0
      else case s of
        [sign, a, b, c, d, e] \<Rightarrow>
          (case (two_digit_number True [a, b], two_digit_number True [d, e]) of
             (Some (h, _), Some (m, _)) \<Rightarrow>
               if c \<noteq> CHR '':'' \<or> 24 < h \<or> 60 < m then None
               else if sign = CHR ''+'' then Some (int h * 3600 + int m * 60)
               else if sign = CHR ''-'' then Some (- (int h * 3600 + int m * 60)) else None
           | _ \<Rightarrow> None)
      | _ \<Rightarrow> None)"

definition parse_clock :: "string \<Rightarrow> (int \<times> int \<times> string) option" where
  "parse_clock s =
     Option.bind (two_digit_number False s) (\<lambda>(hour, s1).
     Option.bind (skip_byte CHR '':'' s1) (\<lambda>s2.
     Option.bind (two_digit_number True s2) (\<lambda>(minute, s3).
     Option.bind (skip_byte CHR '':'' s3) (\<lambda>s4.
     Option.bind (two_digit_number True s4) (\<lambda>(second, s5).
       if 24 \<le> hour \<or> 60 \<le> minute \<or> 60 \<le> second then None
       else (case fraction_part s5 of (nanos, s6) \<Rightarrow>
         Some (int hour * 3600 + int minute * 60 + int second, nanos, s6)))))))"

text \<open>The year as written, the seconds since the epoch, the nanoseconds.\<close>

definition parse_rfc3339 :: "string \<Rightarrow> (int \<times> int \<times> int) option" where
  "parse_rfc3339 s =
     (if length s < 4 \<or> \<not> list_all is_digit (take 4 s) then None
      else
        (let y = int (dec_val (take 4 s)) in
         Option.bind (skip_byte CHR ''-'' (drop 4 s)) (\<lambda>s1.
         Option.bind (two_digit_number True s1) (\<lambda>(m, s2).
         Option.bind (skip_byte CHR ''-'' s2) (\<lambda>s3.
         Option.bind (two_digit_number True s3) (\<lambda>(d, s4).
         Option.bind (skip_byte CHR ''T'' s4) (\<lambda>s5.
         Option.bind (parse_clock s5) (\<lambda>(secs, nanos, s6).
         Option.bind (zone_offset s6) (\<lambda>east.
           if m < 1 \<or> 12 < m \<or> d < 1 \<or> month_days y m < int d then None
           else Some (y, civil_days y m (int d) * 86400 + secs - east, nanos))))))))))"

end
