(* ===== verification/NetSource.thy ===== *)
theory NetSource
  imports NetAddress
begin

text \<open>
  What se-collect-network reads (go/cmd/se-collect-network/source.go): a reading of the machine,
  taken live or from a capture. A reading that takes the boot clock leaves its name behind, newest
  first; what an object is stamped with depends on them.
\<close>

section \<open>The seam\<close>

text \<open>\<open>IpSilent\<close> and \<open>CallFailed\<close> carry the tool's own words.\<close>

datatype net_error =
    Uncaptured
  | IpSilent string
  | CallFailed string
  | NftAbsent
  | NftRefused
  | NftSilent
  | NftUnreadable
  | TailscaleAbsent
  | OtherFailure string

definition is_replay_gap :: "net_error \<Rightarrow> bool" where
  "is_replay_gap e = (e = Uncaptured)"

text \<open>\<open>ns_six_first\<close> says which family the map of the two route readers gives first.\<close>

record net_source =
  ns_boot :: "string option"
  ns_timens :: int
  ns_batch :: "string option"
  ns_document :: string
  ns_nft :: "net_error + json"
  ns_route4 :: "net_error + json"
  ns_route6 :: "net_error + json"
  ns_six_first :: bool
  ns_rule :: "net_error + json"
  ns_route_get :: "string \<Rightarrow> net_error + json"
  ns_addr :: "net_error + json"
  ns_lldp :: json
  ns_fdb :: json
  ns_proc :: "string \<Rightarrow> string option"
  ns_resolve1 :: "string \<Rightarrow> net_error + json option"
  ns_interfaces :: "(int \<times> string) list"
  ns_resolv :: "(string \<times> string) option"
  ns_hostname :: "string option"
  ns_tailscale :: "net_error + json \<times> f64"
  ns_now :: "f64 option"
  ns_stamp :: "string list \<Rightarrow> nat \<Rightarrow> f64"
  ns_costs :: "f64 \<times> f64"

definition resolve1_manager_request :: string where
  "resolve1_manager_request =
     ''/org/freedesktop/resolve1 org.freedesktop.DBus.Properties GetAll s org.freedesktop.resolve1.Manager''"

definition get_link_request :: "int \<Rightarrow> string" where
  "get_link_request ifindex =
     ''/org/freedesktop/resolve1 org.freedesktop.resolve1.Manager GetLink i '' @ int_str ifindex"

definition link_properties_request :: "string \<Rightarrow> string" where
  "link_properties_request path =
     path @ '' org.freedesktop.DBus.Properties GetAll s org.freedesktop.resolve1.Link''"

section \<open>Live\<close>

text \<open>
  A command: it is not there, takes too long, refuses (with what it wrote to standard error),
  cannot be run, or prints. The texts of Go's own errors are an argument of each.
\<close>

datatype command =
    CmdMissing string
  | CmdSlow string string
  | CmdRefuses string string
  | CmdBroken string
  | CmdPrints string

definition live_nft :: "f64 option \<Rightarrow> command \<Rightarrow> net_error + json" where
  "live_nft clock cmd =
     (if clock = None then Inl (OtherFailure [])
      else case cmd of
        CmdMissing _ \<Rightarrow> Inl NftAbsent
      | CmdSlow _ _ \<Rightarrow> Inl NftSilent
      | CmdRefuses _ _ \<Rightarrow> Inl NftRefused
      | CmdBroken _ \<Rightarrow> Inl NftSilent
      | CmdPrints out \<Rightarrow>
          if trim_space out = [] then Inr (JObj [])
          else (case decode_document out of Some doc \<Rightarrow> Inr doc | None \<Rightarrow> Inl NftUnreadable))"

definition command_words :: "command \<Rightarrow> string" where
  "command_words cmd = (case cmd of
       CmdMissing e \<Rightarrow> e
     | CmdSlow err e \<Rightarrow> if trim_space err = [] then e else trim_space err
     | CmdRefuses err e \<Rightarrow> if trim_space err = [] then e else trim_space err
     | CmdBroken e \<Rightarrow> e
     | CmdPrints _ \<Rightarrow> [])"

definition ip_json :: "f64 option \<Rightarrow> command \<Rightarrow> net_error + json" where
  "ip_json clock cmd =
     (if clock = None then Inl (OtherFailure [])
      else case cmd of
        CmdPrints out \<Rightarrow>
          (if trim_space out = [] then Inr (JArr [])
           else case decode_document (trim_space out) of Some doc \<Rightarrow> Inr doc | None \<Rightarrow> Inl (IpSilent []))
      | _ \<Rightarrow> Inl (IpSilent (command_words cmd)))"

definition live_route_get :: "(string \<Rightarrow> string) \<Rightarrow> f64 option \<Rightarrow> command \<Rightarrow> net_error + json" where
  "live_route_get why clock cmd =
     (if clock = None then Inl (OtherFailure [])
      else case cmd of
        CmdPrints out \<Rightarrow>
          (if trim_space out = [] then Inr (JArr [])
           else case decode_document (trim_space out) of Some doc \<Rightarrow> Inr doc | None \<Rightarrow> Inl (OtherFailure (why out)))
      | _ \<Rightarrow> Inl (IpSilent (command_words cmd)))"

text \<open>The document busctl prints, where it is one.\<close>

definition live_resolve1 :: "f64 option \<Rightarrow> command \<Rightarrow> net_error + json option" where
  "live_resolve1 clock cmd =
     (if clock = None then Inl (OtherFailure [])
      else case cmd of CmdPrints out \<Rightarrow> Inr (json_unmarshal out) | _ \<Rightarrow> Inl (CallFailed (command_words cmd)))"

definition enrichment :: "command \<Rightarrow> json" where
  "enrichment cmd = (case cmd of
       CmdPrints out \<Rightarrow> if trim_space out = [] then JNull
         else (case decode_document (trim_space out) of Some doc \<Rightarrow> doc | None \<Rightarrow> JNull)
     | _ \<Rightarrow> JNull)"

definition live_tailscale :: "(string \<times> f64) option \<Rightarrow> net_error + json \<times> f64" where
  "live_tailscale file = (case file of
       None \<Rightarrow> Inl TailscaleAbsent
     | Some (raw, mtime) \<Rightarrow>
         (case decode_document raw of Some doc \<Rightarrow> Inr (doc, mtime) | None \<Rightarrow> Inl TailscaleAbsent))"

text \<open>What was last stamped, nothing at first.\<close>

definition live_stamp :: "(string \<Rightarrow> f64 option) \<Rightarrow> string list \<Rightarrow> nat \<Rightarrow> f64" where
  "live_stamp clock readings i =
     (case find (\<lambda>r. clock r \<noteq> None) readings of Some r \<Rightarrow> the (clock r) | None \<Rightarrow> Fin 0)"

record machine =
  mc_clock :: "string \<Rightarrow> f64 option"
  mc_run :: "string list \<Rightarrow> command"
  mc_proc_net :: "string \<Rightarrow> string option"
  mc_boot_file :: "string option"
  mc_minted :: "string option"
  mc_timens :: int
  mc_interfaces :: "(int \<times> string) list"
  mc_resolv :: "(string \<times> string) option"
  mc_hostname :: "string option"
  mc_snapshot :: "(string \<times> f64) option"
  mc_now :: f64
  mc_costs :: "f64 \<times> f64"
  mc_six_first :: bool
  mc_why :: "string \<Rightarrow> string"

definition live_net_source :: "machine \<Rightarrow> string \<Rightarrow> net_source" where
  "live_net_source m document =
     \<lparr>ns_boot = map_option trim_space (mc_boot_file m), ns_timens = mc_timens m, ns_batch = mc_minted m,
      ns_document = document,
      ns_nft = live_nft (mc_clock m ''nft'') (mc_run m [''nft'', ''-j'', ''list'', ''ruleset'']),
      ns_route4 = ip_json (mc_clock m ''ip-route4'') (mc_run m [''ip'', ''-j'', ''-4'', ''route'', ''show'', ''table'', ''all'']),
      ns_route6 = ip_json (mc_clock m ''ip-route6'') (mc_run m [''ip'', ''-j'', ''-6'', ''route'', ''show'', ''table'', ''all'']),
      ns_six_first = mc_six_first m,
      ns_rule = ip_json (mc_clock m ''ip-rule'') (mc_run m [''ip'', ''-j'', ''rule'', ''show'']),
      ns_route_get = (\<lambda>address. live_route_get (mc_why m) (mc_clock m ''ip-route-get'')
        (mc_run m [''ip'', ''-j'', ''route'', ''get'', address])),
      ns_addr = ip_json (mc_clock m ''ip-addr'') (mc_run m [''ip'', ''-j'', ''-d'', ''addr'', ''show'']),
      ns_lldp = enrichment (mc_run m [''networkctl'', ''lldp'', ''--json=short'']),
      ns_fdb = enrichment (mc_run m [''bridge'', ''-j'', ''fdb'', ''show'']),
      ns_proc = (\<lambda>t. if mc_clock m (''procnet '' @ t) = None then None else mc_proc_net m t),
      ns_resolve1 = (\<lambda>request. live_resolve1 (mc_clock m (''resolve1 '' @ request))
        (mc_run m ([''busctl'', ''call'', ''org.freedesktop.resolve1''] @ go_fields request @ [''--json=short'']))),
      ns_interfaces = mc_interfaces m, ns_resolv = mc_resolv m, ns_hostname = mc_hostname m,
      ns_tailscale = live_tailscale (mc_snapshot m), ns_now = Some (mc_now m),
      ns_stamp = live_stamp (mc_clock m), ns_costs = mc_costs m\<rparr>"

section \<open>Replayed\<close>

definition staged_document :: "(string \<Rightarrow> replay_file) \<Rightarrow> string \<Rightarrow> net_error + json" where
  "staged_document dir name = (case dir (name @ ''.json'') of
       Holds raw \<Rightarrow> (case decode_document raw of Some doc \<Rightarrow> Inr doc | None \<Rightarrow> Inl (OtherFailure []))
     | _ \<Rightarrow> Inl Uncaptured)"

definition staged_nft :: "(string \<Rightarrow> replay_file) \<Rightarrow> net_error + json" where
  "staged_nft dir = (case dir ''nft.json'' of
       Missing \<Rightarrow> Inl NftAbsent
     | Unreadable \<Rightarrow> Inl (OtherFailure [])
     | Holds raw \<Rightarrow> (case decode_document raw of Some doc \<Rightarrow> Inr doc | None \<Rightarrow> Inl (OtherFailure [])))"

definition staged_enrichment :: "(string \<Rightarrow> replay_file) \<Rightarrow> string \<Rightarrow> json" where
  "staged_enrichment dir name = (case staged_document dir name of Inr doc \<Rightarrow> doc | Inl _ \<Rightarrow> JNull)"

text \<open>A table staged as \<open>null\<close> would not open; so does one that was never staged.\<close>

definition staged_proc :: "(string \<Rightarrow> replay_file) \<Rightarrow> string \<Rightarrow> string option" where
  "staged_proc dir tbl = (case dir ''procnet.json'' of
       Holds raw \<Rightarrow>
         (case Option.bind (json_unmarshal raw) struct_of of
            None \<Rightarrow> None
          | Some dirs \<Rightarrow>
              if \<not> list_all (\<lambda>(_, tables). case struct_of tables of None \<Rightarrow> False
                   | Some ts \<Rightarrow> list_all (\<lambda>(_, t). text_of t \<noteq> None) ts) dirs then None
              else (case map_of (rev dirs) ''/proc/net'' of
                  Some tables \<Rightarrow>
                    (case map_of (rev (members_of tables)) tbl of Some (JStr s) \<Rightarrow> Some s | _ \<Rightarrow> None)
                | None \<Rightarrow> None))
     | _ \<Rightarrow> None)"

definition route_get_stem :: "string \<Rightarrow> string" where
  "route_get_stem address =
     ''ip-route-get-'' @ map (\<lambda>c. if c = CHR '':'' then CHR ''_'' else if c = CHR ''.'' then CHR ''-'' else c) address"

definition staged_route_get :: "(string \<Rightarrow> string) \<Rightarrow> (string \<Rightarrow> replay_file) \<Rightarrow> string \<Rightarrow> net_error + json" where
  "staged_route_get why dir address = (case dir (route_get_stem address @ ''.json'') of
       Holds raw \<Rightarrow>
         (case decode_document raw of
            None \<Rightarrow> Inl (OtherFailure (why raw))
          | Some (JStr refusal) \<Rightarrow> Inl (IpSilent refusal)
          | Some doc \<Rightarrow> Inr doc)
     | _ \<Rightarrow> Inl Uncaptured)"

definition staged_resolve1 :: "(string \<Rightarrow> replay_file) \<Rightarrow> string \<Rightarrow> net_error + json option" where
  "staged_resolve1 dir request = (case dir ''bus.json'' of
       Holds raw \<Rightarrow>
         (case Option.bind (json_unmarshal raw) struct_of of
            None \<Rightarrow> Inl (OtherFailure [])
          | Some staged \<Rightarrow>
              (case map_of (rev staged) request of
                 None \<Rightarrow> Inl Uncaptured
               | Some (JBool False) \<Rightarrow> Inl (CallFailed ''staged as failed at capture'')
               | Some doc \<Rightarrow> Inr (Some doc)))
     | _ \<Rightarrow> Inl (CallFailed []))"

text \<open>Each entry a pair of a number and a text; the number is truncated.\<close>

definition f64_trunc :: "f64 \<Rightarrow> int" where
  "f64_trunc x = (if f64_val x < 0 then - \<lfloor>- f64_val x\<rfloor> else \<lfloor>f64_val x\<rfloor>)"

definition staged_pair :: "json \<Rightarrow> (int \<times> string) option" where
  "staged_pair j = (case j of
       JArr (JNum n # JStr name # _) \<Rightarrow> map_option (\<lambda>x. (f64_trunc x, name)) (parse_float n)
     | _ \<Rightarrow> None)"

definition staged_interfaces :: "(string \<Rightarrow> replay_file) \<Rightarrow> (int \<times> string) list" where
  "staged_interfaces dir = (case dir ''ifindex.json'' of
       Holds raw \<Rightarrow>
         (case json_unmarshal raw of
            Some (JArr pairs) \<Rightarrow>
              if list_all (\<lambda>p. (is_array p \<or> p = JNull) \<and> to_val p \<noteq> None) pairs then List.map_filter staged_pair pairs else []
          | _ \<Rightarrow> [])
     | _ \<Rightarrow> [])"

definition staged_resolv :: "(string \<Rightarrow> replay_file) \<Rightarrow> (string \<times> string) option" where
  "staged_resolv dir = (case dir ''resolv-conf.json'' of
       Holds raw \<Rightarrow>
         Option.bind (json_unmarshal raw) (\<lambda>j. Option.bind (struct_of j) (\<lambda>kvs.
         Option.bind (text_field kvs ''text'') (\<lambda>contents.
         Option.bind (text_field kvs ''target'') (\<lambda>target. Some (contents, target)))))
     | _ \<Rightarrow> None)"

definition staged_hostname :: "(string \<Rightarrow> replay_file) \<Rightarrow> string option" where
  "staged_hostname dir = (case dir ''hostname'' of
       Holds raw \<Rightarrow> if trim_space raw = [] then None else Some (trim_space raw)
     | _ \<Rightarrow> None)"

definition staged_tailscale :: "(string \<Rightarrow> replay_file) \<Rightarrow> net_error + json \<times> f64" where
  "staged_tailscale dir = (case dir ''tailscale.json'' of
       Holds raw \<Rightarrow>
         (case decode_document raw of
            Some (JArr [doc, mtime]) \<Rightarrow>
              (case go_parse_float (case mtime of JNum n \<Rightarrow> n | _ \<Rightarrow> []) of
                 Some x \<Rightarrow> Inr (doc, x) | None \<Rightarrow> Inl (OtherFailure []))
          | _ \<Rightarrow> Inl (OtherFailure []))
     | _ \<Rightarrow> Inl TailscaleAbsent)"

text \<open>Nanoseconds since the epoch as \<open>UnixNano\<close> gives them, in 64 bits, and as seconds.\<close>

definition unix_seconds :: "int \<Rightarrow> int \<Rightarrow> f64" where
  "unix_seconds secs nanos = Fin (f64_near0 (f64_near0 (of_int (wrap64 (secs * 10 ^ 9 + nanos))) / 10 ^ 9))"

definition moment_of :: "string \<Rightarrow> (int \<times> int \<times> int) option" where
  "moment_of raw = parse_rfc3339
     (case cut_at CHR ''Z'' raw of Some (a, b) \<Rightarrow> a @ ''+00:00'' @ b | None \<Rightarrow> raw)"

definition replay_now :: "f64 \<Rightarrow> string \<Rightarrow> f64 option" where
  "replay_now wall pinned =
     (if pinned = [] then Some wall
      else map_option (\<lambda>(_, secs, nanos). unix_seconds secs nanos) (moment_of pinned))"

definition replay_at :: "nat \<Rightarrow> f64" where
  "replay_at i = Fin (f64_near0 (1 + f64_near0 (f64_near0 (1 / 1000) * of_nat i)))"

definition replay_net_source ::
  "(string \<Rightarrow> replay_file) \<Rightarrow> string \<Rightarrow> f64 \<Rightarrow> bool \<Rightarrow> (string \<Rightarrow> string) \<Rightarrow> string \<Rightarrow> net_source"
where
  "replay_net_source dir pinned wall six_first why document =
     \<lparr>ns_boot = replay_boot dir, ns_timens = 0, ns_batch = Some ''replay'', ns_document = document,
      ns_nft = staged_nft dir, ns_route4 = staged_document dir ''ip-route4'',
      ns_route6 = staged_document dir ''ip-route6'', ns_six_first = six_first,
      ns_rule = staged_document dir ''ip-rule'', ns_route_get = staged_route_get why dir,
      ns_addr = staged_document dir ''ip-addr'', ns_lldp = staged_enrichment dir ''lldp'',
      ns_fdb = staged_enrichment dir ''fdb'', ns_proc = staged_proc dir, ns_resolve1 = staged_resolve1 dir,
      ns_interfaces = staged_interfaces dir, ns_resolv = staged_resolv dir, ns_hostname = staged_hostname dir,
      ns_tailscale = staged_tailscale dir, ns_now = replay_now wall pinned,
      ns_stamp = (\<lambda>_. replay_at), ns_costs = (Fin (1 / 2), Fin 1)\<rparr>"

end
