(* ===== verification/NetRows.thy ===== *)
theory NetRows
  imports NetSource
begin

text \<open>
  The rows of se-collect-network that come from more than the ruleset: links
  (go/cmd/se-collect-network/links.go), routes (routes.go), the resolver (busdoc.go, resolver.go)
  and the tailnet (tailscale.go).
\<close>

record net_object = net_row +
  no_type :: string
  no_names :: "json gomap"

definition present :: "json \<Rightarrow> string \<Rightarrow> json option" where
  "present j k = not_null (doc_member j k)"

definition text_fact :: "string \<Rightarrow> string \<Rightarrow> json gomap \<Rightarrow> json gomap" where
  "text_fact name s m = (if s = [] then m else mput name (JStr s) m)"

section \<open>Links (links.go)\<close>

definition link_kind :: "json \<Rightarrow> string" where
  "link_kind link =
     (let info = doc_get link ''linkinfo''; kind = string_member info ''info_kind'';
          mode = string_member (doc_get info ''info_data'') ''type''
      in if kind = ''tun'' \<and> mode \<noteq> [] then mode else kind)"

definition neighbour_row :: "json \<Rightarrow> json gomap" where
  "neighbour_row n =
     optional_fact ''ChassisID'' (present n ''ChassisID'')
       (optional_fact ''PortDescription''
         (case present n ''PortDescription'' of Some v \<Rightarrow> Some v | None \<Rightarrow> present n ''PortID'')
         (optional_fact ''SystemName'' (present n ''SystemName'') []))"

definition lldp_entries :: "json \<Rightarrow> (string \<times> json list) list" where
  "lldp_entries doc =
     filter (\<lambda>e. fst e \<noteq> [])
       (map (\<lambda>e. (string_member e ''InterfaceName'', map (\<lambda>n. JObj (neighbour_row n)) (elements_of (doc_get e ''Neighbors''))))
         (elements_of (doc_get doc ''Neighbors'')))"

definition lldp_of :: "json \<Rightarrow> string \<Rightarrow> json list" where
  "lldp_of doc name = concat (map snd (filter (\<lambda>e. fst e = name) (lldp_entries doc)))"

text \<open>
  Whether the first octet has the multicast bit, as \<open>Sscanf\<close> with \<open>%02x\<close> reads it: at most two
  characters after spaces, one of them may be a sign.
\<close>

definition multicast_bit :: "string \<Rightarrow> bool option" where
  "multicast_bit mac =
     (let window = take 2 (dropWhile (\<lambda>c. c = CHR '' '' \<or> c = CHR 0x09) mac);
          body = (if window \<noteq> [] \<and> hd window \<in> {CHR ''+'', CHR ''-''} then tl window else window);
          ds = takeWhile hex_char body
      in if ds = [] then None else Some (odd (hex_digits_val ds)))"

definition is_learned :: "json \<Rightarrow> bool" where
  "is_learned e =
     (let port = string_member e ''ifname''; mac = string_member e ''mac''; master = string_member e ''master''
      in port \<noteq> [] \<and> mac \<noteq> [] \<and> master \<noteq> [] \<and> port \<noteq> master \<and>
         JStr ''self'' \<notin> set (elements_of (doc_get e ''flags'')) \<and> string_member e ''state'' \<noteq> ''permanent'' \<and>
         multicast_bit mac = Some False)"

definition peer_macs :: "json \<Rightarrow> string \<Rightarrow> string list" where
  "peer_macs fdb port =
     map (\<lambda>e. string_member e ''mac'') (filter (\<lambda>e. is_learned e \<and> string_member e ''ifname'' = port) (elements_of fdb))"

definition link_addresses :: "json \<Rightarrow> string list" where
  "link_addresses link =
     List.map_filter (\<lambda>a.
       (let local = string_member a ''local''
        in case doc_member a ''prefixlen'' of
             Some p \<Rightarrow> if local \<noteq> [] \<and> is_int p then Some (local @ ''/'' @ (case p of JNum n \<Rightarrow> n | _ \<Rightarrow> [])) else None
           | None \<Rightarrow> None))
       (elements_of (doc_get link ''addr_info''))"

definition link_members :: "(string \<times> string) list" where
  "link_members = [(''LinkType'', ''link_type''), (''MTU'', ''mtu''), (''MACAddress'', ''address''), (''Master'', ''master'')]"

definition link_facts :: "json \<Rightarrow> json \<Rightarrow> json \<Rightarrow> json \<Rightarrow> json gomap" where
  "link_facts doc lldp fdb link =
     (let name = string_member link ''ifname''; kind = link_kind link; perm = string_member link ''permaddr'';
          dev = string_member link ''parentdev''; macs = peer_macs fdb name; neighbours = lldp_of lldp name;
          base = text_fact ''Kind'' kind [(''OperState'', JStr (to_lower (string_member link ''operstate'')))];
          passed = fold (\<lambda>(fact, member). optional_fact fact (present link member)) link_members base;
          addressed = mput ''Addresses'' (JArr (map JStr (link_addresses link))) passed;
          placed = (if dev = [] then addressed
            else mput ''ParentDev'' (JStr dev) (text_fact ''ParentBus'' (string_member link ''parentbus'') addressed));
          burned = (if perm \<noteq> [] \<and> perm \<noteq> string_member link ''address'' then mput ''PermanentMACAddress'' (JStr perm) placed
            else placed);
          counted = (if kind = ''bridge'' then
              mput ''BridgeMembers'' (JNum (nat_str (length (filter (\<lambda>l. string_member l ''master'' = name) (elements_of doc))))) burned
            else burned);
          peered = (if macs = [] then counted else mput ''PeerMACAddresses'' (JArr (map JStr (sort macs))) counted)
      in if neighbours = [] then peered else mput ''LLDPNeighbors'' (JArr neighbours) peered)"

record link_row =
  lk_name :: string
  lk_master :: string
  lk_facts :: "json gomap"

definition link_row_of :: "json \<Rightarrow> json \<Rightarrow> json \<Rightarrow> json \<Rightarrow> link_row" where
  "link_row_of doc lldp fdb link =
     \<lparr>lk_name = string_member link ''ifname'', lk_master = string_member link ''master'',
      lk_facts = link_facts doc lldp fdb link\<rparr>"

definition last_link :: "link_row list \<Rightarrow> string \<Rightarrow> link_row option" where
  "last_link rows name = find (\<lambda>r. lk_name r = name) (rev rows)"

text \<open>The links in the document's order; a name given twice stands twice for its last entry.\<close>

definition listed_links :: "json \<Rightarrow> json \<Rightarrow> json \<Rightarrow> link_row list" where
  "listed_links doc lldp fdb =
     (let rows = map (link_row_of doc lldp fdb) (filter (\<lambda>l. string_member l ''ifname'' \<noteq> []) (elements_of doc))
      in List.map_filter (\<lambda>r. last_link rows (lk_name r)) rows)"

definition has_master :: "link_row list \<Rightarrow> link_row \<Rightarrow> bool" where
  "has_master links l = (lk_master l \<noteq> [] \<and> list_ex (\<lambda>m. lk_name m = lk_master l) links)"

definition link_children :: "link_row list \<Rightarrow> link_row \<Rightarrow> link_row list" where
  "link_children links l = filter (\<lambda>c. has_master links c \<and> lk_master c = lk_name l) links"

text \<open>The first argument bounds the depth; no chain of masters is longer than the links are many.\<close>

fun walk_link :: "nat \<Rightarrow> link_row list \<Rightarrow> link_row \<Rightarrow> link_row list" where
  "walk_link 0 links l = []"
| "walk_link (Suc n) links l = l # concat (map (walk_link n links) (link_children links l))"

definition walk_links :: "link_row list \<Rightarrow> link_row list" where
  "walk_links links = concat (map (walk_link (Suc (length links)) links) (filter (\<lambda>l. \<not> has_master links l) links))"

definition link_object :: "link_row \<Rightarrow> net_object" where
  "link_object l =
     \<lparr>nr_name = lk_name l, nr_facts = lk_facts l,
      nr_edges = (if lk_master l = [] then [] else
        [\<lparr>ec_type = ''enslaved-to'', ec_kind = ''link'', ec_name = lk_master l, ec_facts = []\<rparr>]),
      no_type = ''link'', no_names = []\<rparr>"

definition link_objects :: "json \<Rightarrow> json \<Rightarrow> json \<Rightarrow> net_object list" where
  "link_objects doc lldp fdb = map link_object (walk_links (listed_links doc lldp fdb))"

section \<open>Routes (routes.go)\<close>

definition family_of :: "string \<Rightarrow> string" where
  "family_of destination =
     (case net_parse_ip (case cut_at CHR ''/'' destination of Some (a, _) \<Rightarrow> a | None \<Rightarrow> destination) of
        None \<Rightarrow> [] | Some bs \<Rightarrow> if is_to4 bs then ''ipv4'' else ''ipv6'')"

definition main_table_pref :: int where
  "main_table_pref = 32766"

definition table_text :: "json \<Rightarrow> string" where
  "table_text j = (case j of JStr s \<Rightarrow> s | JNum n \<Rightarrow> n | _ \<Rightarrow> [])"

text \<open>The lowest preference of a table.\<close>

definition rule_preferences :: "json \<Rightarrow> (string \<times> int) list" where
  "rule_preferences doc =
     List.map_filter (\<lambda>r.
       (let t = table_text (doc_get r ''table'')
        in if t = [] then None else map_option (\<lambda>p. (t, p)) (int_of (doc_get r ''priority''))))
       (elements_of doc)"

definition preference_of :: "(string \<times> int) list \<Rightarrow> string \<Rightarrow> int option" where
  "preference_of prefs t =
     fold (\<lambda>(t', p) held. if t' = t then (case held of None \<Rightarrow> Some p | Some q \<Rightarrow> Some (min p q)) else held) prefs None"

definition route_table :: "json \<Rightarrow> string" where
  "route_table route = (let t = table_text (doc_get route ''table'') in if t = [] then ''main'' else t)"

definition is_connected :: "json \<Rightarrow> string \<Rightarrow> bool" where
  "is_connected doc dst =
     list_ex (\<lambda>r. route_table r = ''main'' \<and> string_member r ''scope'' = ''link'' \<and>
       string_member r ''dst'' = dst \<and> dst \<noteq> []) (elements_of doc)"

definition route_members :: "(string \<times> string) list" where
  "route_members = [(''Gateway'', ''gateway''), (''Protocol'', ''protocol''), (''Scope'', ''scope''), (''PrefSrc'', ''prefsrc''), (''Metric'', ''metric'')]"

definition or_else :: "string \<Rightarrow> string \<Rightarrow> string" where
  "or_else s d = (if s = [] then d else s)"

definition route_object :: "json \<Rightarrow> (string \<times> int) list \<Rightarrow> string \<Rightarrow> json \<Rightarrow> net_object" where
  "route_object doc prefs family route =
     (let dst = or_else (string_member route ''dst'') ''default''; dev = or_else (string_member route ''dev'') ''?'';
          gateway = string_member route ''gateway''; t = route_table route;
          main = (case preference_of prefs ''main'' of Some p \<Rightarrow> p | None \<Rightarrow> main_table_pref);
          base = mof [(''Destination'', JStr dst), (''Device'', JStr dev), (''Table'', JStr t)];
          passed = fold (\<lambda>(fact, member). optional_fact fact (present route member)) route_members base;
          preferred = optional_fact ''RulePreference'' (map_option (\<lambda>p. JNum (int_str p)) (preference_of prefs t)) passed;
          shadowing = (case preference_of prefs t of None \<Rightarrow> False
            | Some p \<Rightarrow> t \<noteq> ''main'' \<and> p < main \<and> is_connected doc dst)
      in \<lparr>nr_name = dst @ '' dev '' @ dev @ (if gateway = [] then [] else '' via '' @ gateway) @
            (if t = ''main'' then [] else '' table '' @ t),
          nr_facts = mput ''Family'' (JStr (or_else (family_of dst) family))
            (if shadowing then mput ''ShadowsLocalPrefix'' (JBool True) preferred else preferred),
          nr_edges = [], no_type = ''route'', no_names = []\<rparr>)"

definition route_objects :: "json \<Rightarrow> json \<Rightarrow> json \<Rightarrow> net_object list" where
  "route_objects doc4 doc6 rule_doc =
     (let prefs = rule_preferences rule_doc
      in map (route_object doc4 prefs ''ipv4'') (elements_of doc4) @ map (route_object doc6 prefs ''ipv6'') (elements_of doc6))"

text \<open>The readings made, newest first, and the rows or the error.\<close>

definition read_routes :: "net_source \<Rightarrow> string list \<times> (net_error + net_object list)" where
  "read_routes src =
     (let first = (if ns_six_first src then (''ip-route6'', ns_route6 src) else (''ip-route4'', ns_route4 src));
          second = (if ns_six_first src then (''ip-route4'', ns_route4 src) else (''ip-route6'', ns_route6 src))
      in case snd first of
           Inl e \<Rightarrow> ([fst first], Inl e)
         | Inr _ \<Rightarrow>
             (case snd second of
                Inl e \<Rightarrow> ([fst second, fst first], Inl e)
              | Inr _ \<Rightarrow>
                  (let lg = [''ip-rule'', fst second, fst first];
                       rows = (\<lambda>rule_doc. case (ns_route4 src, ns_route6 src) of
                         (Inr d4, Inr d6) \<Rightarrow> Inr (route_objects d4 d6 rule_doc)
                       | (Inl e, _) \<Rightarrow> Inl e
                       | (_, Inl e) \<Rightarrow> Inl e)
                   in case ns_rule src of
                        Inr rule_doc \<Rightarrow> (lg, rows rule_doc)
                      | Inl e \<Rightarrow> if is_replay_gap e then (lg, Inl e) else (lg, rows (JArr [])))))"

section \<open>The walk of the enslavement tree\<close>

text \<open>A link whose chain of masters ends at a link the listing shows no master of.\<close>

inductive rooted :: "link_row list \<Rightarrow> link_row \<Rightarrow> bool" for links where
  rooted_top: "\<not> has_master links l \<Longrightarrow> rooted links l"
| rooted_under: "has_master links l \<Longrightarrow> m \<in> set links \<Longrightarrow> lk_name m = lk_master l \<Longrightarrow> rooted links m \<Longrightarrow> rooted links l"

text \<open>Every link the listing shows a master of follows it.\<close>

fun led :: "link_row list \<Rightarrow> string set \<Rightarrow> link_row list \<Rightarrow> bool" where
  "led links seen [] = True"
| "led links seen (l # ls) = ((has_master links l \<longrightarrow> lk_master l \<in> seen) \<and> led links (insert (lk_name l) seen) ls)"

fun level_of :: "link_row list \<Rightarrow> nat \<Rightarrow> link_row \<Rightarrow> bool" where
  "level_of links 0 l = (\<not> has_master links l)"
| "level_of links (Suc n) l = (has_master links l \<and> (\<exists>m \<in> set links. lk_name m = lk_master l \<and> level_of links n m))"

fun below :: "link_row list \<Rightarrow> nat \<Rightarrow> link_row \<Rightarrow> link_row \<Rightarrow> bool" where
  "below links 0 l x = (x = l)"
| "below links (Suc n) l x = (\<exists>c \<in> set (link_children links l). below links n c x)"

lemma same_link:
  "distinct (map lk_name links) \<Longrightarrow> m \<in> set links \<Longrightarrow> m' \<in> set links \<Longrightarrow> lk_name m = lk_name m' \<Longrightarrow> m = m'"
  by (metis distinct_map inj_onD)

lemma child_simps: "c \<in> set (link_children links l) \<longleftrightarrow> c \<in> set links \<and> has_master links c \<and> lk_master c = lk_name l"
  by (auto simp: link_children_def)

lemma level_unique:
  assumes "distinct (map lk_name links)"
  shows "level_of links i l \<Longrightarrow> level_of links j l \<Longrightarrow> i = j"
proof (induction i arbitrary: j l)
  case 0
  then show ?case by (cases j) simp_all
next
  case (Suc i)
  then obtain j' where j: "j = Suc j'" by (cases j) simp_all
  with Suc.prems obtain m m' where "m \<in> set links" "m' \<in> set links" "lk_name m = lk_name m'"
    "level_of links i m" "level_of links j' m'" by auto
  with same_link [OF assms] Suc.IH j show ?case by metis
qed

lemma levels_filled: "level_of links k x \<Longrightarrow> x \<in> set links \<Longrightarrow> i \<le> k \<Longrightarrow> \<exists>m \<in> set links. level_of links i m"
proof (induction k arbitrary: x)
  case (Suc k)
  show ?case
  proof (cases "i = Suc k")
    case True
    with Suc.prems show ?thesis by blast
  next
    case False
    with Suc show ?thesis by (metis le_Suc_eq level_of.simps(2))
  qed
qed auto

lemma level_bound:
  assumes "distinct (map lk_name links)" "level_of links k x" "x \<in> set links"
  shows "k < length links"
proof -
  obtain f where f: "\<And>i. i \<le> k \<Longrightarrow> f i \<in> set links \<and> level_of links i (f i)"
    using levels_filled [OF assms(2,3)] by metis
  have "inj_on f {..k}"
    using f level_unique [OF assms(1)] by (metis atMost_iff inj_onI)
  then have "card {..k} \<le> card (set links)"
    using f by (intro card_inj_on_le) auto
  then show ?thesis using card_length [of links] by simp
qed

lemma rooted_level: "rooted links l \<Longrightarrow> \<exists>k. level_of links k l"
proof (induction rule: rooted.induct)
  case (rooted_top l)
  then show ?case by (intro exI [of _ 0]) simp
next
  case (rooted_under l m)
  then obtain k where "level_of links k m" by blast
  with rooted_under show ?case by (intro exI [of _ "Suc k"]) auto
qed

lemma level_rooted: "level_of links k l \<Longrightarrow> rooted links l"
  by (induction k arbitrary: l) (auto intro: rooted_top rooted_under)

lemma below_level:
  "level_of links j l \<Longrightarrow> l \<in> set links \<Longrightarrow> below links k l x \<Longrightarrow> level_of links (j + k) x \<and> x \<in> set links"
proof (induction k arbitrary: j l)
  case (Suc k)
  then obtain c where c: "c \<in> set (link_children links l)" "below links k c x" by auto
  with Suc.prems have "level_of links (Suc j) c" "c \<in> set links" by (auto simp: child_simps)
  with Suc.IH [of "Suc j" c] c(2) show ?case by simp
qed simp

lemma below_same:
  assumes "distinct (map lk_name links)"
  shows "below links k c x \<Longrightarrow> below links k d x \<Longrightarrow> c \<in> set links \<Longrightarrow> d \<in> set links \<Longrightarrow> c = d"
proof (induction k arbitrary: c d)
  case (Suc k)
  then obtain c' d' where k: "c' \<in> set (link_children links c)" "below links k c' x"
    "d' \<in> set (link_children links d)" "below links k d' x" by auto
  then have "c' = d'" using Suc.IH by (auto simp: child_simps)
  with k Suc.prems same_link [OF assms] show ?case by (metis child_simps)
qed simp

lemma level_below:
  "level_of links k x \<Longrightarrow> x \<in> set links \<Longrightarrow> \<exists>r \<in> set links. \<not> has_master links r \<and> below links k r x"
proof (induction k arbitrary: x)
  case (Suc k)
  have step: "below links n l m \<Longrightarrow> x \<in> set (link_children links m) \<Longrightarrow> below links (Suc n) l x" for n l m
    by (induction n arbitrary: l) (simp, metis below.simps(2))
  from Suc.prems obtain m where "m \<in> set links" "level_of links k m" "x \<in> set (link_children links m)"
    by (auto simp: child_simps)
  with Suc.IH step show ?case by blast
qed auto

lemma walk_below: "x \<in> set (walk_link n links l) \<longleftrightarrow> (\<exists>k < n. below links k l x)"
proof (induction n arbitrary: l)
  case (Suc n)
  have "(\<exists>k < Suc n. below links k l x) \<longleftrightarrow> x = l \<or> (\<exists>k < n. below links (Suc k) l x)"
    unfolding less_Suc_eq_0_disj by (metis below.simps(1))
  with Suc show ?case by auto
qed simp

lemma distinct_concat_map:
  "distinct xs \<Longrightarrow> (\<And>x. x \<in> set xs \<Longrightarrow> distinct (f x)) \<Longrightarrow>
    (\<And>x y z. x \<in> set xs \<Longrightarrow> y \<in> set xs \<Longrightarrow> z \<in> set (f x) \<Longrightarrow> z \<in> set (f y) \<Longrightarrow> x = y) \<Longrightarrow> distinct (concat (map f xs))"
  by (induction xs) (auto; blast)+

lemma subtrees_apart:
  assumes "distinct (map lk_name links)" "level_of links j c" "level_of links j d" "c \<in> set links" "d \<in> set links"
    and "x \<in> set (walk_link n links c)" "x \<in> set (walk_link n links d)"
  shows "c = d"
proof -
  from assms(6,7) obtain k i where b: "below links k c x" "below links i d x" by (auto simp: walk_below)
  with below_level assms(2-5) level_unique [OF assms(1)] have "j + k = j + i" by metis
  with b below_same [OF assms(1)] assms(4,5) show ?thesis by auto
qed

lemma link_walk_distinct:
  assumes "distinct (map lk_name links)"
  shows "level_of links j l \<Longrightarrow> l \<in> set links \<Longrightarrow> distinct (walk_link n links l)"
proof (induction n arbitrary: j l)
  case (Suc n)
  have kids: "level_of links (Suc j) c" "c \<in> set links" if "c \<in> set (link_children links l)" for c
    using that Suc.prems by (auto simp: child_simps)
  have "distinct (link_children links l)"
    using assms by (simp add: link_children_def distinct_map)
  then have "distinct (concat (map (walk_link n links) (link_children links l)))"
  proof (rule distinct_concat_map)
    show "distinct (walk_link n links c)" if "c \<in> set (link_children links l)" for c
      using Suc.IH kids [OF that] by blast
    show "c = d" if "c \<in> set (link_children links l)" "d \<in> set (link_children links l)"
      "x \<in> set (walk_link n links c)" "x \<in> set (walk_link n links d)" for c d x
      using subtrees_apart [OF assms kids(1) [OF that(1)] kids(1) [OF that(2)]] kids(2) that by blast
  qed
  moreover have "l \<notin> set (walk_link n links c)" if "c \<in> set (link_children links l)" for c
  proof
    assume "l \<in> set (walk_link n links c)"
    then obtain k where "below links k c l" by (auto simp: walk_below)
    with below_level kids [OF that] level_unique [OF assms] Suc.prems(1) have "Suc j + k = j" by metis
    then show False by simp
  qed
  ultimately show ?case by auto
qed simp

lemma led_mono: "led links s xs \<Longrightarrow> s \<subseteq> t \<Longrightarrow> led links t xs"
proof (induction xs arbitrary: s t)
  case (Cons a xs)
  from Cons.prems have "led links (insert (lk_name a) t) xs"
    by (auto intro: Cons.IH [of "insert (lk_name a) s"])
  with Cons.prems show ?case by auto
qed simp

lemma led_append: "led links s xs \<Longrightarrow> led links s ys \<Longrightarrow> led links s (xs @ ys)"
proof (induction xs arbitrary: s)
  case (Cons a xs)
  from Cons.prems(2) have "led links (insert (lk_name a) s) ys"
    by (rule led_mono) blast
  with Cons show ?case by simp
qed simp

lemma led_concat: "(\<And>x. x \<in> set xs \<Longrightarrow> led links s (f x)) \<Longrightarrow> led links s (concat (map f xs))"
  by (induction xs) (auto intro: led_append)

lemma walk_led: "(has_master links l \<longrightarrow> lk_master l \<in> s) \<Longrightarrow> led links s (walk_link n links l)"
proof (induction n arbitrary: l s)
  case (Suc n)
  have "led links (insert (lk_name l) s) (concat (map (walk_link n links) (link_children links l)))"
    by (rule led_concat) (auto intro: Suc.IH simp: child_simps)
  with Suc.prems show ?case by simp
qed simp

text \<open>Property C40. The walk of the links ends within the depth given it and tells every link whose chain of
  masters ends exactly once, none that it was not given, each after its master. A link on or under a ring
  of masters is told not at all.\<close>

theorem links_walked_once:
  assumes "distinct (map lk_name links)"
  shows "mset (walk_links links) = mset (filter (rooted links) links) \<and> led links {} (walk_links links)"
proof -
  let ?roots = "filter (\<lambda>l. \<not> has_master links l) links"
  have root: "level_of links 0 r" "r \<in> set links" if "r \<in> set ?roots" for r using that by auto
  have links: "distinct links" using assms by (simp add: distinct_map)
  have "distinct (walk_links links)"
    unfolding walk_links_def
  proof (rule distinct_concat_map)
    show "distinct ?roots" using links by simp
    show "distinct (walk_link (Suc (length links)) links c)" if "c \<in> set ?roots" for c
      using link_walk_distinct [OF assms] root [OF that] by blast
    show "c = d" if "c \<in> set ?roots" "d \<in> set ?roots" "x \<in> set (walk_link (Suc (length links)) links c)"
      "x \<in> set (walk_link (Suc (length links)) links d)" for c d x
      using subtrees_apart [OF assms root(1) [OF that(1)] root(1) [OF that(2)]] root(2) that by blast
  qed
  moreover have "x \<in> set (walk_links links) \<longleftrightarrow> x \<in> set links \<and> rooted links x" for x
  proof
    assume "x \<in> set (walk_links links)"
    then obtain r k where "r \<in> set ?roots" "below links k r x"
      by (auto simp: walk_links_def walk_below simp del: walk_link.simps)
    with below_level root level_rooted show "x \<in> set links \<and> rooted links x" by metis
  next
    assume x: "x \<in> set links \<and> rooted links x"
    then obtain k where k: "level_of links k x" using rooted_level by blast
    from level_below [OF k] x obtain r where r: "r \<in> set ?roots" "below links k r x" by auto
    moreover have "k < Suc (length links)" using level_bound [OF assms k] x by simp
    ultimately show "x \<in> set (walk_links links)"
      unfolding walk_links_def by (auto simp: walk_below simp del: walk_link.simps filter_set)
  qed
  ultimately have "mset (walk_links links) = mset (filter (rooted links) links)"
    using links set_eq_iff_mset_eq_distinct [of "walk_links links" "filter (rooted links) links"] by auto
  moreover have "led links {} (walk_links links)"
    unfolding walk_links_def by (rule led_concat) (auto intro: walk_led simp del: walk_link.simps)
  ultimately show ?thesis ..
qed

definition demo_link :: "string \<Rightarrow> string \<Rightarrow> link_row" where
  "demo_link name master = \<lparr>lk_name = name, lk_master = master, lk_facts = []\<rparr>"

definition demo_links :: "link_row list" where
  "demo_links = map (case_prod demo_link)
     [(''veth0'', ''br0''), (''lo'', []), (''ring1'', ''ring2''), (''bond0'', ''br0''), (''br0'', []), (''eth0'', ''bond0''),
      (''ring2'', ''ring1''), (''wan'', ''elsewhere'')]"

lemma links_walked_once_witness:
  "distinct (map lk_name demo_links) \<and> map lk_name (walk_links demo_links) = [''lo'', ''br0'', ''veth0'', ''bond0'', ''eth0'', ''wan''] \<and>
   mset (walk_links demo_links) = mset (filter (rooted demo_links) demo_links) \<and> led demo_links {} (walk_links demo_links)"
proof -
  have d: "distinct (map lk_name demo_links)" by code_simp
  moreover have "map lk_name (walk_links demo_links) = [''lo'', ''br0'', ''veth0'', ''bond0'', ''eth0'', ''wan'']" by code_simp
  ultimately show ?thesis using links_walked_once [OF d] by blast
qed

end
