(* ===== verification/NetResolver.thy ===== *)
theory NetResolver
  imports NetRows
begin

text \<open>
  How the host resolves names (busdoc.go, resolver.go) and its tailnet (tailscale.go). Text of a
  D-Bus byte array (base64) is not read: no signature this reads has one.
\<close>

section \<open>Bus documents (busdoc.go)\<close>

text \<open>A variant: its signature and what it holds, if anything.\<close>

type_synonym variant = "string \<times> json option"

definition variant_of :: "json \<Rightarrow> variant option" where
  "variant_of j =
     Option.bind (struct_of j) (\<lambda>kvs. map_option (\<lambda>t. (t, struct_get kvs ''data'')) (text_field kvs ''type''))"

definition bus_document :: "json option \<Rightarrow> (string \<times> json list) option" where
  "bus_document doc =
     Option.bind (Option.bind doc struct_of) (\<lambda>kvs.
     Option.bind (text_field kvs ''type'') (\<lambda>t. map_option (\<lambda>data. (t, data)) (list_field kvs ''data'')))"

text \<open>The properties as a list; of two with one name the last is taken.\<close>

definition properties_of :: "json option \<Rightarrow> (string \<times> variant) list option" where
  "properties_of doc =
     (case bus_document doc of
        Some (t, [props]) \<Rightarrow>
          if t = ''a{sv}'' then
            Option.bind (struct_of props)
              (mapO (\<lambda>(k, v). map_option (\<lambda>x. (k, x)) (variant_of v)))
          else None
      | _ \<Rightarrow> None)"

definition property :: "(string \<times> variant) list \<Rightarrow> string \<Rightarrow> variant option" where
  "property props name = map_of (rev props) name"

definition string_of :: "json option \<Rightarrow> string option" where
  "string_of j = (case j of Some (JStr s) \<Rightarrow> Some s | Some JNull \<Rightarrow> Some [] | _ \<Rightarrow> None)"

definition bus_bool :: "json option \<Rightarrow> bool option" where
  "bus_bool j = (case j of Some (JBool b) \<Rightarrow> Some b | Some JNull \<Rightarrow> Some False | _ \<Rightarrow> None)"

definition raw_array :: "json option \<Rightarrow> json list option" where
  "raw_array j = (case j of Some (JArr xs) \<Rightarrow> Some xs | Some JNull \<Rightarrow> Some [] | _ \<Rightarrow> None)"

definition prop_string :: "(string \<times> variant) list \<Rightarrow> string \<Rightarrow> string option" where
  "prop_string props name = (case property props name of Some (t, d) \<Rightarrow> if t = ''s'' then string_of d else None | None \<Rightarrow> None)"

definition prop_bool :: "(string \<times> variant) list \<Rightarrow> string \<Rightarrow> bool option" where
  "prop_bool props name = (case property props name of Some (t, d) \<Rightarrow> if t = ''b'' then bus_bool d else None | None \<Rightarrow> None)"

section \<open>resolv.conf (resolver.go)\<close>

record resolv_conf =
  rc_nameservers :: "string list"
  rc_search :: "string list"
  rc_options :: "string list"

definition resolv_line :: "string \<Rightarrow> resolv_conf \<Rightarrow> resolv_conf" where
  "resolv_line raw c =
     (case go_fields (takeWhile (\<lambda>c. c \<noteq> CHR '';'') (takeWhile (\<lambda>c. c \<noteq> CHR ''#'') raw)) of
        word # first # rest \<Rightarrow>
          if word = ''nameserver'' then c\<lparr>rc_nameservers := rc_nameservers c @ [first]\<rparr>
          else if word = ''search'' \<or> word = ''domain'' then c\<lparr>rc_search := first # rest\<rparr>
          else if word = ''options'' then c\<lparr>rc_options := rc_options c @ first # rest\<rparr>
          else c
      | _ \<Rightarrow> c)"

definition parse_resolv_conf :: "string \<Rightarrow> resolv_conf" where
  "parse_resolv_conf contents =
     fold resolv_line (split_on CHR 0x0A contents) \<lparr>rc_nameservers = [], rc_search = [], rc_options = []\<rparr>"

definition file_facts :: "string \<Rightarrow> string \<Rightarrow> json gomap" where
  "file_facts contents target =
     (let c = parse_resolv_conf contents
      in text_fact ''ResolvConfTarget'' target
        (mof [(''ResolverService'', JStr ''libc-resolv.conf''), (''Nameservers'', texts (rc_nameservers c)),
          (''SearchDomains'', texts (rc_search c)), (''Options'', texts (rc_options c))]))"

section \<open>systemd-resolved (resolver.go)\<close>

definition byte_of :: "json \<Rightarrow> nat option" where
  "byte_of j = (case j of
       JNum n \<Rightarrow> (case parse_uint64 n of Some v \<Rightarrow> if v \<le> 255 then Some v else None | None \<Rightarrow> None)
     | JNull \<Rightarrow> Some 0
     | _ \<Rightarrow> None)"

definition byte_array :: "json \<Rightarrow> nat list option" where
  "byte_array j = (case j of JArr xs \<Rightarrow> mapO byte_of xs | _ \<Rightarrow> None)"

text \<open>The last field that is an address of four or sixteen bytes.\<close>

definition server_addr :: "variant \<Rightarrow> string" where
  "server_addr v = (case v of (t, d) \<Rightarrow>
     if \<not> is_suffix ''ay)'' t then []
     else case raw_array d of
       None \<Rightarrow> []
     | Some fs \<Rightarrow>
         (case find (\<lambda>bs. length bs = 4 \<or> length bs = 16) (List.map_filter byte_array (rev fs)) of
            Some bs \<Rightarrow> ip_text bs | None \<Rightarrow> []))"

definition struct_array :: "(string \<times> variant) list \<Rightarrow> string \<Rightarrow> variant list" where
  "struct_array props name = (case property props name of
       Some (t, d) \<Rightarrow>
         if is_prefix ''a('' t then
           (case raw_array d of Some xs \<Rightarrow> map (\<lambda>x. (tl t, Some x)) xs | None \<Rightarrow> [])
         else []
     | None \<Rightarrow> [])"

definition told_addrs :: "variant list \<Rightarrow> string list" where
  "told_addrs vs = filter (\<lambda>a. a \<noteq> []) (map server_addr vs)"

definition bus_index :: "json \<Rightarrow> int option" where
  "bus_index j = (case j of JNum n \<Rightarrow> parse_int64 n | JNull \<Rightarrow> Some 0 | _ \<Rightarrow> None)"

definition is_global :: "variant \<Rightarrow> bool" where
  "is_global v = (case raw_array (snd v) of
       Some [index, _, _] \<Rightarrow> (case bus_index index of Some i \<Rightarrow> i = 0 \<or> i = 1 | None \<Rightarrow> False)
     | _ \<Rightarrow> False)"

definition global_dns_servers :: "variant list \<Rightarrow> string list" where
  "global_dns_servers vs = told_addrs (filter is_global vs)"

definition manager_domain :: "variant \<Rightarrow> string option" where
  "manager_domain v = (case raw_array (snd v) of
       Some (_ # name # route_only # _) \<Rightarrow>
         (case string_of (Some name) of
            Some (c # s) \<Rightarrow> Some (if bus_bool (Some route_only) = Some True then (c # s) @ '' (route-only)'' else c # s)
          | _ \<Rightarrow> None)
     | _ \<Rightarrow> None)"

record link_entry =
  le_servers :: "string list"
  le_current :: string
  le_domains :: "string list"
  le_default :: "bool option"

definition link_domain :: "variant \<Rightarrow> string option" where
  "link_domain v = (case raw_array (snd v) of
       Some (name # _) \<Rightarrow> (case string_of (Some name) of Some (c # s) \<Rightarrow> Some (c # s) | _ \<Rightarrow> None)
     | _ \<Rightarrow> None)"

definition link_entry_of :: "(string \<times> variant) list \<Rightarrow> link_entry option" where
  "link_entry_of props =
     (let servers = told_addrs (struct_array props ''DNS'')
      in if servers = [] then None
         else Some \<lparr>le_servers = servers,
           le_current = (case property props ''CurrentDNSServer'' of Some v \<Rightarrow> server_addr v | None \<Rightarrow> []),
           le_domains = List.map_filter link_domain (struct_array props ''Domains''),
           le_default = prop_bool props ''DefaultRoute''\<rparr>)"

text \<open>The calls made for one interface, newest first, and its entry if it has servers.\<close>

definition link_reading :: "net_source \<Rightarrow> int \<Rightarrow> string list \<times> link_entry option" where
  "link_reading src ifindex =
     (let first = get_link_request ifindex; lg1 = [''resolve1 '' @ first]
      in case ns_resolve1 src first of
           Inl _ \<Rightarrow> (lg1, None)
         | Inr doc \<Rightarrow>
             (case bus_document doc of
                Some (_, [JStr (c # path)]) \<Rightarrow>
                  (let second = link_properties_request (c # path); lg2 = (''resolve1 '' @ second) # lg1
                   in case ns_resolve1 src second of
                        Inl _ \<Rightarrow> (lg2, None)
                      | Inr doc2 \<Rightarrow> (lg2, Option.bind (properties_of doc2) link_entry_of))
              | _ \<Rightarrow> (lg1, None)))"

record link_dns =
  ld_log :: "string list"
  ld_links :: "link_entry gomap"
  ld_known :: bool
  ld_any :: bool

definition link_dns_step :: "net_source \<Rightarrow> int \<times> string \<Rightarrow> link_dns \<Rightarrow> link_dns" where
  "link_dns_step src = (\<lambda>(ifindex, name) d.
     if name = ''lo'' then d
     else case link_reading src ifindex of
       (lg, None) \<Rightarrow> d\<lparr>ld_log := lg @ ld_log d\<rparr>
     | (lg, Some entry) \<Rightarrow>
         \<lparr>ld_log = lg @ ld_log d, ld_links = mput name entry (ld_links d),
          ld_known = (ld_known d \<and> le_default entry \<noteq> None),
          ld_any = (ld_any d \<or> le_default entry = Some True)\<rparr>)"

definition link_dns_of :: "net_source \<Rightarrow> link_dns" where
  "link_dns_of src =
     (let d = fold (link_dns_step src) (ns_interfaces src) \<lparr>ld_log = [], ld_links = [], ld_known = True, ld_any = False\<rparr>
      in d\<lparr>ld_known := ld_known d \<and> ld_links d \<noteq> []\<rparr>)"

definition link_entry_facts :: "link_entry \<Rightarrow> json gomap" where
  "link_entry_facts e =
     optional_fact ''DefaultRoute'' (map_option JBool (le_default e))
       (when_some ''Domains'' (le_domains e)
         (text_fact ''CurrentDNSServer'' (le_current e) [(''DNSServers'', texts (le_servers e))]))"

definition manager_members :: "string list" where
  "manager_members = [''DNSSEC'', ''DNSOverTLS'', ''LLMNR'', ''MulticastDNS'', ''ResolvConfMode'']"

definition servers_in_use :: "string list \<Rightarrow> link_entry gomap \<Rightarrow> string list" where
  "servers_in_use servers links = sort (remdups (servers @ concat (map (\<lambda>(_, e). le_servers e) links)))"

definition resolve1_facts :: "(string \<times> variant) list \<Rightarrow> link_dns \<Rightarrow> json gomap" where
  "resolve1_facts props d =
     (let servers = global_dns_servers (struct_array props ''DNS'');
          base = mof [(''ResolverService'', JStr ''systemd-resolved''),
            (''DNSServersInUse'', texts (servers_in_use servers (ld_links d))),
            (''GlobalDNSServers'', texts servers),
            (''PerLinkDNS'', JObj (map (\<lambda>(k, e). (k, JObj (link_entry_facts e))) (ld_links d))),
            (''FallbackDNSServers'', texts (told_addrs (struct_array props ''FallbackDNS''))),
            (''SearchDomains'', texts (List.map_filter manager_domain (struct_array props ''Domains'')))];
          current = text_fact ''CurrentDNSServer''
            (case property props ''CurrentDNSServer'' of Some v \<Rightarrow> server_addr v | None \<Rightarrow> []) base;
          passed = fold (\<lambda>name. optional_fact name (map_option JStr (prop_string props name))) manager_members current
      in if ld_links d \<noteq> [] \<and> ld_known d then mput ''NoLinkTakesDNSDefaultRoute'' (JBool (\<not> ld_any d)) passed else passed)"

section \<open>The tailnet (tailscale.go)\<close>

definition non_zero_time :: "string \<Rightarrow> bool" where
  "non_zero_time raw = (raw \<noteq> [] \<and> (case moment_of raw of Some (y, _) \<Rightarrow> 1 < y | None \<Rightarrow> False))"

definition f64_minus :: "f64 \<Rightarrow> f64 \<Rightarrow> rat" where
  "f64_minus x y = f64_near0 (f64_val x - f64_val y)"

definition rat_trunc :: "rat \<Rightarrow> int" where
  "rat_trunc q = (if q < 0 then - \<lfloor>- q\<rfloor> else \<lfloor>q\<rfloor>)"

text \<open>Whole days, rounded towards minus infinity; the product is a \<open>float64\<close>.\<close>

definition whole_days :: "rat \<Rightarrow> int" where
  "whole_days seconds =
     (let days = rat_trunc (f64_near0 (seconds / 86400))
      in if seconds < 0 \<and> f64_near0 (f64_near0 (of_int days) * 86400) \<noteq> seconds then days - 1 else days)"

definition key_expiry :: "string \<Rightarrow> f64 \<Rightarrow> (string \<times> int) option" where
  "key_expiry raw now =
     (if \<not> non_zero_time raw then None
      else map_option (\<lambda>(y, secs, nanos). (utc_text secs, whole_days (f64_minus (unix_seconds secs nanos) now))) (moment_of raw))"

definition public_key_family :: "json \<Rightarrow> json gomap" where
  "public_key_family node =
     (let key = string_member node ''PublicKey''
      in if key = [] then [] else [(''stable'', JObj [(''public-key'', JStr key)])])"

definition peer_native_id :: "json \<Rightarrow> string" where
  "peer_native_id node = takeWhile (\<lambda>c. c \<noteq> CHR ''.'') (string_member node ''DNSName'')"

definition list_fact :: "string \<Rightarrow> json option \<Rightarrow> bool \<Rightarrow> json gomap \<Rightarrow> json gomap" where
  "list_fact name v empty_too m = (case v of
       Some (JArr xs) \<Rightarrow> if xs = [] \<and> \<not> empty_too then m else mput name (texts (map text_in xs)) m
     | _ \<Rightarrow> m)"

definition bool_fact :: "string \<Rightarrow> json option \<Rightarrow> json gomap \<Rightarrow> json gomap" where
  "bool_fact name v m = (case v of Some (JBool b) \<Rightarrow> mput name (JBool b) m | _ \<Rightarrow> m)"

definition tailscale_facts :: "json \<Rightarrow> json gomap" where
  "tailscale_facts node =
     list_fact ''PrimaryRoutes'' (doc_member node ''PrimaryRoutes'') False
       (bool_fact ''Online'' (doc_member node ''Online'')
         (list_fact ''TailscaleIPs'' (doc_member node ''TailscaleIPs'') True
           (fold (\<lambda>name. text_fact name (string_member node name)) [''HostName'', ''DNSName'', ''OS'', ''Relay''] [])))"

definition self_object :: "json \<Rightarrow> f64 \<Rightarrow> f64 \<Rightarrow> net_object" where
  "self_object doc mtime now =
     (let self = doc_get doc ''Self'';
          facts = bool_fact ''ExitNodeOption'' (doc_member self ''ExitNodeOption'') (tailscale_facts self);
          expiring = (case key_expiry (string_member self ''KeyExpiry'') now of
              None \<Rightarrow> facts
            | Some (when, days) \<Rightarrow> mput ''KeyExpiryDays'' (JNum (int_str days)) (mput ''KeyExpiry'' (JStr when) facts));
          placed = list_fact ''Health'' (doc_member doc ''Health'') False
            (text_fact ''BackendState'' (string_member doc ''BackendState'')
              (text_fact ''MagicDNSSuffix'' (string_member doc ''MagicDNSSuffix'') expiring))
      in \<lparr>nr_name = or_else (peer_native_id self) ''self'',
          nr_facts = mput ''TailscaleSnapshotAgeSeconds'' (JNum (int_str (max 0 (rat_trunc (f64_minus now mtime)))))
            (mput ''TailscaleSnapshotAt'' (JStr (utc_text (f64_trunc mtime))) placed),
          nr_edges = [], no_type = ''tailscale-self'', no_names = public_key_family self\<rparr>)"

definition peer_object :: "json \<Rightarrow> net_object" where
  "peer_object peer =
     (let seen = string_member peer ''LastSeen'';
          facts = text_fact ''CurAddr'' (string_member peer ''CurAddr'')
            (if non_zero_time seen then mput ''LastSeen'' (JStr seen) (tailscale_facts peer) else tailscale_facts peer);
          counted = fold (\<lambda>counter m. case doc_member peer counter of Some (JNum n) \<Rightarrow> mput counter (JNum n) m | _ \<Rightarrow> m)
            [''RxBytes'', ''TxBytes''] facts
      in \<lparr>nr_name = peer_native_id peer, nr_facts = bool_fact ''ExitNode'' (doc_member peer ''ExitNode'') counted,
          nr_edges = [], no_type = ''tailscale-peer'', no_names = public_key_family peer\<rparr>)"

definition tailscale_objects :: "json \<Rightarrow> f64 \<Rightarrow> f64 \<Rightarrow> net_object list" where
  "tailscale_objects doc mtime now =
     self_object doc mtime now #
     map peer_object (filter (\<lambda>p. peer_native_id p \<noteq> []) (map snd (members_of (doc_get doc ''Peer''))))"

end
