(* ===== verification/NetCollect.thy ===== *)
theory NetCollect
  imports NetResolver
begin

text \<open>
  A run of se-collect-network: the stream (go/cmd/se-collect-network/collect.go), the reverse verbs
  (verbs.go), the lookups (lookup.go), the probe and the request (main.go). The stream is a list of
  records; how encoding/json spells a record is the matter of JsonText. What is written to
  standard error is left out, and a write that fails.
\<close>

datatype net_record =
    BeginLine string string string int "nat gomap"
  | ObjectLine string string string "json gomap" "json gomap" f64
  | EdgeLine string string edge_claim
  | DeclineLine string string string
  | CommitLine string nat nat nat
  | EndLine string "f64 \<times> f64"
  | VerbEndLine string bool
  | EvidenceLine string nat bool string
  | ProbeLine bool string

section \<open>The state of a run\<close>

record net_run =
  rn_out :: "net_record list"
  rn_objects :: nat
  rn_log :: "string list"

definition put_line :: "net_record \<Rightarrow> net_run \<Rightarrow> net_run" where
  "put_line r st = st\<lparr>rn_out := rn_out st @ [r]\<rparr>"

definition has_read :: "string list \<Rightarrow> net_run \<Rightarrow> net_run" where
  "has_read lg st = st\<lparr>rn_log := lg @ rn_log st\<rparr>"

definition put_object :: "net_source \<Rightarrow> string \<Rightarrow> net_object \<Rightarrow> net_run \<Rightarrow> net_run" where
  "put_object src collection r st =
     (let st1 = put_line (ObjectLine collection (nr_name r) (no_type r) (nr_facts r) (no_names r)
            (ns_stamp src (rn_log st) (rn_objects st))) st
      in fold (\<lambda>e. put_line (EdgeLine collection (nr_name r) e)) (nr_edges r) (st1\<lparr>rn_objects := Suc (rn_objects st)\<rparr>))"

definition edges_of :: "net_object list \<Rightarrow> nat" where
  "edges_of rows = sum_list (map (\<lambda>r. length (nr_edges r)) rows)"

text \<open>The objects, each followed by its edges, and the commit that counts them.\<close>

definition commit_rows :: "net_source \<Rightarrow> string \<Rightarrow> nat \<Rightarrow> net_object list \<Rightarrow> net_run \<Rightarrow> net_run" where
  "commit_rows src collection generation rows st =
     put_line (CommitLine collection generation (length rows) (edges_of rows))
       (fold (put_object src collection) rows st)"

definition typed :: "string \<Rightarrow> net_row \<Rightarrow> net_object" where
  "typed t r = \<lparr>nr_name = nr_name r, nr_facts = nr_facts r, nr_edges = nr_edges r, no_type = t, no_names = []\<rparr>"

section \<open>Declines\<close>

definition decline_for_nft :: "net_error \<Rightarrow> (string \<times> string) option" where
  "decline_for_nft e =
     (if e = NftAbsent then Some (''absent'', ''no nft on this host'')
      else if e = NftRefused then Some (''unauthorised'', ''nft could not read the ruleset'')
      else if e = NftSilent then Some (''unavailable'', ''nft did not answer'')
      else if e = NftUnreadable then Some (''unsupported'', ''nft answered in a form this collector cannot read'')
      else None)"

definition decline_acquisition :: "string \<Rightarrow> nat \<Rightarrow> net_error \<Rightarrow> net_run \<Rightarrow> net_run" where
  "decline_acquisition collection generation e st =
     (case decline_for_nft e of
        None \<Rightarrow> put_line (DeclineLine collection [] []) st
      | Some (why, detail) \<Rightarrow>
          (let st1 = put_line (DeclineLine collection why detail) st
           in if why = ''absent'' then put_line (CommitLine collection generation 0 0) st1 else st1))"

definition no_socket_tables :: string where
  "no_socket_tables =
     ''none of the /proc/net socket tables could be read, so what this host is listening on is unobservable rather than nothing''"

definition no_snapshot :: string where
  "no_snapshot =
     ''no tailscale snapshot at /run/system-explorer-tailscale/status.json (grantTailscaleAccess off, or tailscaled absent)''"

section \<open>One collection\<close>

definition nft_collections :: "string list" where
  "nft_collections = [''nft-tables'', ''nft-chains'', ''nft-rules'', ''port-exposure'']"

definition procnet_readings :: "string list" where
  "procnet_readings = map (\<lambda>t. ''procnet '' @ t) (rev socket_tables)"

text \<open>Each gives the run on, or stops it; \<open>pl\<close> spells the values of the ruleset.\<close>

definition collect_sockets ::
  "net_source \<Rightarrow> string \<Rightarrow> string \<Rightarrow> nat \<Rightarrow> net_row list option \<Rightarrow> net_run \<Rightarrow> exit_status \<times> net_run"
where
  "collect_sockets src t collection generation rows st =
     (let st1 = has_read procnet_readings st
      in (ExitOK, case rows of
           None \<Rightarrow> put_line (DeclineLine collection ''unavailable'' no_socket_tables) st1
         | Some rs \<Rightarrow> commit_rows src collection generation (map (typed t) rs) st1))"

definition collect_nft ::
  "pylib \<Rightarrow> net_source \<Rightarrow> string \<Rightarrow> nat \<Rightarrow> net_error + json \<Rightarrow> net_run \<Rightarrow> exit_status \<times> net_run"
where
  "collect_nft pl src collection generation acquired st =
     (case acquired of
        Inl e \<Rightarrow> (ExitOK, decline_acquisition collection generation e st)
      | Inr doc \<Rightarrow>
          if collection = ''port-exposure'' then
            collect_sockets src ''port-exposure'' collection generation (emit_exposure pl doc (ns_proc src)) st
          else (ExitOK, commit_rows src collection generation
            (if collection = ''nft-tables'' then map (typed ''table'') (nft_tables doc)
             else if collection = ''nft-chains'' then map (typed ''chain'') (nft_chains doc)
             else map (typed ''rule'') (nft_rules pl doc)) st))"

definition collect_routes :: "net_source \<Rightarrow> string \<Rightarrow> nat \<Rightarrow> net_run \<Rightarrow> exit_status \<times> net_run" where
  "collect_routes src collection generation st =
     (case read_routes src of (lg, outcome) \<Rightarrow>
       (let st1 = has_read lg st
        in case outcome of
             Inr rows \<Rightarrow> (ExitOK, commit_rows src collection generation rows st1)
           | Inl e \<Rightarrow>
               if is_replay_gap e then (ExitRuntime, st1)
               else (ExitOK, put_line (DeclineLine collection ''unavailable'' ''iproute2 did not answer on this host'') st1)))"

definition collect_links :: "net_source \<Rightarrow> string \<Rightarrow> nat \<Rightarrow> net_run \<Rightarrow> exit_status \<times> net_run" where
  "collect_links src collection generation st =
     (let st1 = has_read [''ip-addr''] st
      in case ns_addr src of
           Inl e \<Rightarrow>
             if is_replay_gap e then (ExitRuntime, st1)
             else (ExitOK, put_line (DeclineLine collection ''unavailable'' ''iproute2 did not answer on this host'') st1)
         | Inr doc \<Rightarrow> (ExitOK, commit_rows src collection generation (link_objects doc (ns_lldp src) (ns_fdb src)) st1))"

definition resolver_object :: "string \<Rightarrow> json gomap \<Rightarrow> net_object" where
  "resolver_object name facts = \<lparr>nr_name = name, nr_facts = facts, nr_edges = [], no_type = ''resolver'', no_names = []\<rparr>"

definition emit_resolver ::
  "net_source \<Rightarrow> string \<Rightarrow> nat \<Rightarrow> json gomap \<Rightarrow> net_run \<Rightarrow> exit_status \<times> net_run"
where
  "emit_resolver src collection generation facts st =
     (case ns_hostname src of
        None \<Rightarrow> (ExitRuntime, st)
      | Some name \<Rightarrow> (ExitOK, commit_rows src collection generation [resolver_object name facts] st))"

definition no_resolver :: string where
  "no_resolver =
     ''resolve1 is not on the system bus and there is no resolv.conf to read instead'' @
     [CHR '' '', CHR 0xE2, CHR 0x80, CHR 0x94, CHR '' ''] @ ''how this host resolves names is unobservable, not absent''"

definition collect_resolver :: "net_source \<Rightarrow> string \<Rightarrow> nat \<Rightarrow> net_run \<Rightarrow> exit_status \<times> net_run" where
  "collect_resolver src collection generation st =
     (let st1 = has_read [''resolve1 '' @ resolve1_manager_request] st
      in case ns_resolve1 src resolve1_manager_request of
           Inr doc \<Rightarrow>
             (case properties_of doc of
                None \<Rightarrow> (ExitOK, put_line (DeclineLine collection ''unavailable''
                  ''resolve1 answered with a document this collector cannot read'') st1)
              | Some props \<Rightarrow>
                  (let d = link_dns_of src
                   in emit_resolver src collection generation (resolve1_facts props d) (has_read (ld_log d) st1)))
         | Inl e \<Rightarrow>
             if is_replay_gap e then (ExitRuntime, st1)
             else (case ns_resolv src of
                 None \<Rightarrow> (ExitOK, put_line (DeclineLine collection ''unavailable'' no_resolver) st1)
               | Some (contents, target) \<Rightarrow>
                   emit_resolver src collection generation (file_facts contents target) st1))"

definition collect_tailscale :: "net_source \<Rightarrow> string \<Rightarrow> nat \<Rightarrow> net_run \<Rightarrow> exit_status \<times> net_run" where
  "collect_tailscale src collection generation st =
     (case ns_tailscale src of
        Inl e \<Rightarrow>
          if e = TailscaleAbsent then (ExitOK, put_line (DeclineLine collection ''unavailable'' no_snapshot) st)
          else (ExitRuntime, st)
      | Inr (doc, mtime) \<Rightarrow>
          (case ns_now src of
             None \<Rightarrow> (ExitRuntime, st)
           | Some now \<Rightarrow> (ExitOK, commit_rows src collection generation (tailscale_objects doc mtime now) st)))"

definition collect_one ::
  "pylib \<Rightarrow> net_source \<Rightarrow> net_error + json \<Rightarrow> string \<Rightarrow> nat \<Rightarrow> net_run \<Rightarrow> exit_status \<times> net_run"
where
  "collect_one pl src acquired collection generation st =
     (if collection = ''routes'' then collect_routes src collection generation st
      else if collection = ''listening'' then
        collect_sockets src ''listening-socket'' collection generation (collect_listening (ns_proc src)) st
      else if collection = ''links'' then collect_links src collection generation st
      else if collection = ''resolver'' then collect_resolver src collection generation st
      else if collection = ''tailscale'' then collect_tailscale src collection generation st
      else if collection \<in> set nft_collections then collect_nft pl src collection generation acquired st
      else (ExitOK, put_line (DeclineLine collection ''unsupported'' ''this collector does not serve this collection'') st))"

fun collect_order ::
  "pylib \<Rightarrow> net_source \<Rightarrow> net_error + json \<Rightarrow> nat gomap \<Rightarrow> string list \<Rightarrow> net_run \<Rightarrow> exit_status \<times> net_run"
where
  "collect_order pl src acquired generations [] st = (ExitOK, st)"
| "collect_order pl src acquired generations (c # order) st =
     (case collect_one pl src acquired c (case mget generations c of Some g \<Rightarrow> g | None \<Rightarrow> 0) st of
        (ExitOK, st1) \<Rightarrow> collect_order pl src acquired generations order st1
      | stopped \<Rightarrow> stopped)"

section \<open>A batch\<close>

text \<open>The ruleset is read once, and only when a collection needs it.\<close>

definition net_collect ::
  "golib \<Rightarrow> pylib \<Rightarrow> net_source \<Rightarrow> string list \<Rightarrow> nat gomap \<Rightarrow> exit_status \<times> net_record list"
where
  "net_collect L pl src order generations =
     (case ns_boot src of None \<Rightarrow> (ExitRuntime, []) | Some boot \<Rightarrow>
     (case ns_batch src of None \<Rightarrow> (ExitRuntime, []) | Some bat \<Rightarrow>
       (let begun = put_line (BeginLine bat (''sha256:'' @ sha256 L (ns_document src)) boot (ns_timens src) generations)
              \<lparr>rn_out = [], rn_objects = 0, rn_log = []\<rparr>;
            needed = list_ex (\<lambda>c. c \<in> set nft_collections) order;
            acquired = (if needed then ns_nft src else Inr JNull);
            st = (if needed then has_read [''nft''] begun else begun)
        in if (case acquired of Inl e \<Rightarrow> decline_for_nft e = None | Inr _ \<Rightarrow> False) then (ExitRuntime, rn_out begun)
           else (case collect_order pl src acquired generations order st of
               (ExitOK, st1) \<Rightarrow> (ExitOK, rn_out st1 @ [EndLine bat (ns_costs src)])
             | (code, st1) \<Rightarrow> (code, rn_out st1)))))"

section \<open>The reverse verbs (verbs.go)\<close>

definition verb_decline_lines :: "string \<Rightarrow> string \<Rightarrow> string \<Rightarrow> string \<Rightarrow> net_record list" where
  "verb_decline_lines verb collection why detail = [DeclineLine collection why detail, VerbEndLine verb False]"

definition no_such_object :: string where
  "no_such_object = ''this collector publishes no object of that name in this collection''"

text \<open>The first decline answers; otherwise what the walk wrote of the name, and whether an object was in it.\<close>

definition first_decline :: "net_record list \<Rightarrow> net_record option" where
  "first_decline lines = find (\<lambda>r. case r of DeclineLine _ _ _ \<Rightarrow> True | _ \<Rightarrow> False) lines"

definition is_of :: "string \<Rightarrow> net_record \<Rightarrow> bool" where
  "is_of name r = (case r of ObjectLine _ n _ _ _ _ \<Rightarrow> n = name | EdgeLine _ n _ \<Rightarrow> n = name | _ \<Rightarrow> False)"

definition is_object_line :: "net_record \<Rightarrow> bool" where
  "is_object_line r = (case r of ObjectLine _ _ _ _ _ _ \<Rightarrow> True | _ \<Rightarrow> False)"

definition capture_collection ::
  "golib \<Rightarrow> pylib \<Rightarrow> net_source \<Rightarrow> string \<Rightarrow> string \<Rightarrow> exit_status \<times> net_record list \<times> bool"
where
  "capture_collection L pl src collection name =
     (case net_collect L pl src [collection] [(collection, 0)] of
        (ExitOK, lines) \<Rightarrow>
          (case first_decline lines of
             Some r \<Rightarrow> (ExitOK, [r], True)
           | None \<Rightarrow> (ExitOK, filter (is_of name) lines, list_ex is_object_line (filter (is_of name) lines)))
      | (code, _) \<Rightarrow> (code, [], False))"

definition net_serve_object ::
  "golib \<Rightarrow> pylib \<Rightarrow> net_source \<Rightarrow> string \<Rightarrow> string \<Rightarrow> exit_status \<times> net_record list"
where
  "net_serve_object L pl src collection name =
     (case capture_collection L pl src collection name of
        (ExitOK, kept, matched) \<Rightarrow>
          (ExitOK, if matched then kept @ [VerbEndLine ''object'' False]
             else verb_decline_lines ''object'' collection ''unavailable'' no_such_object)
      | (code, _) \<Rightarrow> (code, []))"

definition proc_tables :: "net_source \<Rightarrow> json" where
  "proc_tables src =
     JObj (map (\<lambda>t. (''/proc/net/'' @ t, JStr (case ns_proc src t of
         Some s \<Rightarrow> if s = [] then ''could not be read'' else s | None \<Rightarrow> ''could not be read''))) socket_tables)"

definition link_dns_evidence :: "net_source \<Rightarrow> json" where
  "link_dns_evidence src = JObj (map (\<lambda>(k, e). (k, JObj (link_entry_facts e))) (ld_links (link_dns_of src)))"

definition lldp_evidence :: "net_source \<Rightarrow> json" where
  "lldp_evidence src =
     JObj (mof (map (\<lambda>name. (name, JArr (lldp_of (ns_lldp src) name)))
       (filter (\<lambda>name. lldp_of (ns_lldp src) name \<noteq> []) (map fst (lldp_entries (ns_lldp src))))))"

text \<open>The document behind a collection, or the error.\<close>

definition evidence_document :: "net_source \<Rightarrow> string \<Rightarrow> net_error + json" where
  "evidence_document src collection =
     (if collection \<in> {''nft-tables'', ''nft-chains'', ''nft-rules''} then ns_nft src
      else if collection = ''listening'' then Inr (proc_tables src)
      else if collection = ''port-exposure'' then
        (case ns_nft src of Inl e \<Rightarrow> Inl e
         | Inr doc \<Rightarrow> Inr (JObj [(''ruleset'', doc), (''sockets'', proc_tables src)]))
      else if collection = ''tailscale'' then
        (case ns_tailscale src of Inl e \<Rightarrow> Inl e | Inr (snapshot, _) \<Rightarrow> Inr snapshot)
      else if collection = ''routes'' then
        (case ns_route4 src of Inl e \<Rightarrow> Inl e
         | Inr v4 \<Rightarrow> (case ns_route6 src of Inl e \<Rightarrow> Inl e | Inr v6 \<Rightarrow> Inr (JObj [(''ipv4'', v4), (''ipv6'', v6)])))
      else if collection = ''links'' then
        (case ns_addr src of Inl e \<Rightarrow> Inl e
         | Inr doc \<Rightarrow> Inr (JObj [(''ip_addr'', doc), (''lldp'', lldp_evidence src)]))
      else if collection = ''resolver'' then
        (case ns_resolve1 src resolve1_manager_request of
           Inl e \<Rightarrow> Inl e
         | Inr None \<Rightarrow> Inl (OtherFailure [])
         | Inr (Some doc) \<Rightarrow> Inr (JObj [(''links'', link_dns_evidence src), (''manager'', doc)]))
      else Inr JNull)"

text \<open>
  How a document is spelled is an argument: the ruleset and the snapshot by append_json, the
  others by encoding/json around what the tools wrote. \<open>again\<close> is the second reading. The
  bytes are cut at the bound, and the digest is over what is served.
\<close>

definition net_serve_evidence ::
  "golib \<Rightarrow> pylib \<Rightarrow> (string \<Rightarrow> json \<Rightarrow> string) \<Rightarrow> net_source \<Rightarrow> net_source \<Rightarrow> string \<Rightarrow> string \<Rightarrow> exit_status \<times> net_record list"
where
  "net_serve_evidence L pl spell src again collection name =
     (case capture_collection L pl src collection name of
        (ExitOK, kept, matched) \<Rightarrow>
          if matched \<and> length kept = 1 \<and> first_decline kept \<noteq> None then (ExitOK, kept @ [VerbEndLine ''evidence'' False])
          else if \<not> matched then (ExitOK, verb_decline_lines ''evidence'' collection ''unavailable'' no_such_object)
          else (case evidence_document again collection of
              Inl e \<Rightarrow>
                if is_replay_gap e then (ExitRuntime, [])
                else (ExitOK, verb_decline_lines ''evidence'' collection ''unavailable''
                  ''the interface answered the collection walk and not the evidence read'')
            | Inr doc \<Rightarrow>
                (let whole = spell collection doc; truncated = evidence_verb_bytes < length whole;
                     canonical = (if truncated then take evidence_verb_bytes whole else whole)
                 in (ExitOK, [EvidenceLine (''sha256:'' @ sha256 L canonical) (length canonical) truncated canonical,
                      VerbEndLine ''evidence'' truncated])))
      | (code, _) \<Rightarrow> (code, []))"

section \<open>Lookups (lookup.go)\<close>

definition resolve_protocol :: "int \<Rightarrow> string option" where
  "resolve_protocol flags =
     (if flags mod 2 = 1 then Some ''DNS''
      else if flags div 2 mod 4 \<noteq> 0 then Some ''LLMNR''
      else if flags div 8 mod 4 \<noteq> 0 then Some ''mDNS''
      else None)"

definition is_authenticated :: "int \<Rightarrow> bool" where
  "is_authenticated flags = (flags div 512 mod 2 = 1)"

definition bus_argument :: "json \<Rightarrow> nat \<Rightarrow> json" where
  "bus_argument reply i =
     (let xs = elements_of (doc_get reply ''data'') in if i < length xs then xs ! i else JNull)"

definition bus_int :: "json \<Rightarrow> int" where
  "bus_int j = (case j of JNum n \<Rightarrow> (case parse_int64 n of Some i \<Rightarrow> i | None \<Rightarrow> 0) | _ \<Rightarrow> 0)"

definition host_gate :: "string \<Rightarrow> bool" where
  "host_gate s =
     (s \<noteq> [] \<and> length s \<le> 253 \<and>
      list_all (\<lambda>c. is_digit c \<or> 65 \<le> byte c \<and> byte c \<le> 90 \<or> 97 \<le> byte c \<and> byte c \<le> 122 \<or> c \<in> set ''_.-'') s)"

text \<open>A link-local address is written with the interface its index names.\<close>

definition scoped_addr :: "net_source \<Rightarrow> json \<Rightarrow> string" where
  "scoped_addr src entry = (case elements_of entry of
       [index, _, packed] \<Rightarrow>
         (let bs = map (\<lambda>b. nat (bus_int b mod 256)) (elements_of packed)
          in if length bs \<noteq> 4 \<and> length bs \<noteq> 16 then []
             else addr_text (bs, []) @
               (if \<not> is_link_local bs then []
                else case find (\<lambda>i. fst i = bus_int index) (ns_interfaces src) of
                  Some (_, name) \<Rightarrow> ''%'' @ name | None \<Rightarrow> []))
     | _ \<Rightarrow> [])"

definition failure_words :: "net_error \<Rightarrow> string" where
  "failure_words e = (case e of
       IpSilent s \<Rightarrow> trim_space s | CallFailed s \<Rightarrow> trim_space s | OtherFailure s \<Rightarrow> trim_space s | _ \<Rightarrow> [])"

definition lookup_answer ::
  "net_source \<Rightarrow> string list \<Rightarrow> string \<Rightarrow> json gomap \<Rightarrow> string \<Rightarrow> net_record list"
where
  "lookup_answer src lg name facts via =
     [ObjectLine ''lookups'' name ''lookup-result'' facts [] (ns_stamp src lg 0)] @
     (if via = [] then [] else
       [EdgeLine ''lookups'' name \<lparr>ec_type = ''routes-via'', ec_kind = ''link'', ec_name = via, ec_facts = []\<rparr>]) @
     [VerbEndLine ''lookup'' False]"

definition lookup_decline :: "string \<Rightarrow> net_record list" where
  "lookup_decline detail = [DeclineLine ''lookups'' ''unsupported'' detail, VerbEndLine ''lookup'' False]"

definition spelled_fact :: "string \<Rightarrow> json option \<Rightarrow> json gomap \<Rightarrow> json gomap" where
  "spelled_fact name v m = (case v of Some (JStr s) \<Rightarrow> mput name (JStr s) m | Some (JNum n) \<Rightarrow> mput name (JNum n) m | _ \<Rightarrow> m)"

definition route_get_facts :: "string \<Rightarrow> json \<Rightarrow> json gomap" where
  "route_get_facts destination route =
     fold (\<lambda>(fact, member). spelled_fact fact (doc_member route member))
       [(''Table'', ''table''), (''Scope'', ''scope''), (''Metric'', ''metric'')]
       (fold (\<lambda>(fact, member). text_fact fact (string_member route member))
         [(''Destination'', ''dst''), (''Gateway'', ''gateway''), (''Device'', ''dev''), (''PreferredSource'', ''prefsrc''),
          (''Protocol'', ''protocol'')]
         (mof [(''Destination'', JStr destination), (''RouteFound'', JBool True)]))"

definition lookup_route_get :: "net_source \<Rightarrow> string \<Rightarrow> exit_status \<times> net_record list" where
  "lookup_route_get src input =
     (case parse_addr input of
        None \<Rightarrow> (ExitOK, lookup_decline ''not an IPv4 or IPv6 address'')
      | Some a \<Rightarrow>
          (case ns_route_get src (addr_text a) of
             Inl e \<Rightarrow>
               if is_replay_gap e then (ExitRuntime, [])
               else (ExitOK, lookup_answer src [''ip-route-get''] (''route-get/'' @ input)
                 (mof [(''Destination'', JStr (addr_text a)), (''RouteFound'', JBool False),
                   (''KernelError'', JStr (failure_words e))]) [])
           | Inr doc \<Rightarrow>
               (let route = (case elements_of doc of r # _ \<Rightarrow> r | [] \<Rightarrow> JNull)
                in (ExitOK, lookup_answer src [''ip-route-get''] (''route-get/'' @ input)
                     (route_get_facts (addr_text a) route) (string_member route ''dev'')))))"

definition resolve_request :: "string \<Rightarrow> string" where
  "resolve_request input =
     ''/org/freedesktop/resolve1 org.freedesktop.resolve1.Manager '' @
     (case parse_addr input of
        Some (bs, _) \<Rightarrow>
          ''ResolveAddress iiayt '' @ join_with '' ''
            ([''0'', if length bs = 4 then ''2'' else ''10'', nat_str (length bs)] @ map nat_str bs @ [''0''])
      | None \<Rightarrow> ''ResolveHostname isit 0 '' @ input @ '' 0 0'')"

definition flag_facts :: "int \<Rightarrow> json gomap \<Rightarrow> json gomap" where
  "flag_facts flags m =
     mput ''Authenticated'' (JBool (is_authenticated flags)) (optional_fact ''Protocol'' (map_option JStr (resolve_protocol flags)) m)"

text \<open>Tenths of a millisecond, halves to even, never negative.\<close>

definition query_time :: "golib \<Rightarrow> f64 \<Rightarrow> f64 \<Rightarrow> json" where
  "query_time L started finished =
     (let elapsed = max 0 (f64_near0 (f64_minus finished started * 1000));
          tenths = f64_near0 (elapsed * 10);
          (n, d) = quotient_of tenths
      in JNum (fmt_float L (Fin (f64_near0 (of_int (div_even n d) / 10)))))"

definition answer_facts :: "net_source \<Rightarrow> bool \<Rightarrow> json \<Rightarrow> json gomap" where
  "answer_facts src by_address reply =
     (if by_address then
        flag_facts (bus_int (bus_argument reply 1))
          [(''Names'', texts (List.map_filter (\<lambda>pair. case elements_of pair of [_, name] \<Rightarrow> Some (text_in name) | _ \<Rightarrow> None)
             (elements_of (bus_argument reply 0))))]
      else
        flag_facts (bus_int (bus_argument reply 2))
          (mof [(''Addresses'', texts (filter (\<lambda>a. a \<noteq> []) (map (scoped_addr src) (elements_of (bus_argument reply 0))))),
            (''CanonicalName'', JStr (text_in (bus_argument reply 1)))]))"

definition without_prefix :: "string \<Rightarrow> string \<Rightarrow> string" where
  "without_prefix p s = (if is_prefix p s then drop (length p) s else s)"

text \<open>\<open>finished\<close> is the clock after the call.\<close>

definition lookup_resolve :: "golib \<Rightarrow> net_source \<Rightarrow> f64 \<Rightarrow> string \<Rightarrow> exit_status \<times> net_record list" where
  "lookup_resolve L src finished input =
     (if parse_addr input = None \<and> \<not> host_gate input then (ExitOK, lookup_decline ''not a hostname or IP address'')
      else case ns_now src of
        None \<Rightarrow> (ExitRuntime, [])
      | Some started \<Rightarrow>
          (let request = resolve_request input; lg = [''resolve1 '' @ request]
           in case ns_resolve1 src request of
                Inl e \<Rightarrow>
                  if is_replay_gap e then (ExitRuntime, [])
                  else (ExitOK, lookup_answer src lg (''resolve/'' @ input)
                    (mof [(''Query'', JStr input), (''Resolved'', JBool False),
                      (''Result'', JStr (without_prefix ''Call failed: '' (failure_words e)))]) [])
              | Inr None \<Rightarrow> (ExitRuntime, [])
              | Inr (Some doc) \<Rightarrow>
                  (ExitOK, lookup_answer src lg (''resolve/'' @ input)
                    (mput ''QueryTimeMs'' (query_time L started finished)
                      (mput ''Query'' (JStr input) (mput ''Resolved'' (JBool True)
                        (answer_facts src (parse_addr input \<noteq> None) (ordered_value doc))))) [])))"

definition serve_lookup :: "golib \<Rightarrow> net_source \<Rightarrow> f64 \<Rightarrow> string \<Rightarrow> string \<Rightarrow> exit_status \<times> net_record list" where
  "serve_lookup L src finished name input =
     (if name = ''route-get'' then lookup_route_get src input
      else if name = ''resolve'' then lookup_resolve L src finished input
      else (ExitOK, lookup_decline ''this collector's lookup palette holds route-get and resolve''))"

section \<open>Probe and request (source.go, main.go)\<close>

definition net_probe :: "net_source \<Rightarrow> net_record" where
  "net_probe src = (case ns_nft src of
       Inr _ \<Rightarrow> ProbeLine True ''nft answers `nft -j list ruleset`''
     | Inl e \<Rightarrow> ProbeLine False
         (if e = NftAbsent then ''nft is not on PATH''
          else if e = NftRefused then ''nft cannot read the ruleset (CAP_NET_ADMIN not granted?)''
          else ''the ruleset could not be read''))"

text \<open>What a run answers: the declaration's bytes or records. \<open>again\<close> is the second reading of evidence.\<close>

definition network_run ::
  "golib \<Rightarrow> pylib \<Rightarrow> (string \<Rightarrow> json \<Rightarrow> string) \<Rightarrow> net_source \<Rightarrow> net_source \<Rightarrow> f64 \<Rightarrow> string
   \<Rightarrow> exit_status \<times> (string + net_record list)"
where
  "network_run L pl spell src again finished stdin =
     (case request_line stdin of
        None \<Rightarrow> (ExitRequest, Inr [])
      | Some line \<Rightarrow>
          (case go_fields line of
             [] \<Rightarrow> (ExitRequest, Inr [])
           | verb # args \<Rightarrow>
               if verb = ''declare'' then
                 (if args \<noteq> [] then (ExitRequest, Inr []) else (ExitOK, Inl (ns_document src)))
               else if verb = ''probe'' then
                 (if args \<noteq> [] then (ExitRequest, Inr []) else (ExitOK, Inr [net_probe src]))
               else if verb = ''collect'' then
                 (case parse_collect args of
                    None \<Rightarrow> (ExitRequest, Inr [])
                  | Some (order, generations) \<Rightarrow> map_prod id Inr (net_collect L pl src order generations))
               else if verb = ''object'' \<or> verb = ''evidence'' \<or> verb = ''lookup'' then
                 (case args of
                    [a, token] \<Rightarrow> map_prod id Inr
                      (if verb = ''object'' then net_serve_object L pl src a (decode_name_token token)
                       else if verb = ''evidence'' then net_serve_evidence L pl spell src again a (decode_name_token token)
                       else serve_lookup L src finished a (decode_name_token token))
                  | _ \<Rightarrow> (ExitRequest, Inr []))
               else (ExitRequest, Inr [])))"

section \<open>What a stream accounts for\<close>

definition is_edge_line :: "net_record \<Rightarrow> bool" where
  "is_edge_line r = (case r of EdgeLine _ _ _ \<Rightarrow> True | _ \<Rightarrow> False)"

text \<open>Objects of the collection, each edge after the object it is asserted of.\<close>

fun emitted_ok :: "string \<Rightarrow> string set \<Rightarrow> net_record list \<Rightarrow> bool" where
  "emitted_ok c seen [] = True"
| "emitted_ok c seen (r # rs) = (case r of
       ObjectLine c' name _ _ _ _ \<Rightarrow> c' = c \<and> emitted_ok c (insert name seen) rs
     | EdgeLine c' name _ \<Rightarrow> c' = c \<and> name \<in> seen \<and> emitted_ok c seen rs
     | _ \<Rightarrow> False)"

text \<open>A collection is declined, or told and committed with exact counts under the generation it was asked for.\<close>

definition segment_answers :: "string \<Rightarrow> nat \<Rightarrow> net_record list \<Rightarrow> bool" where
  "segment_answers c g seg =
     ((\<exists>why detail. seg = [DeclineLine c why detail] \<and> why \<noteq> ''absent'') \<or>
      (\<exists>detail. seg = [DeclineLine c ''absent'' detail, CommitLine c g 0 0]) \<or>
      (\<exists>told. seg = told @ [CommitLine c g (length (filter is_object_line told)) (length (filter is_edge_line told))] \<and>
        emitted_ok c {} told))"

lemma emitted_ok_append:
  "emitted_ok c seen xs \<Longrightarrow> (\<And>s. seen \<subseteq> s \<Longrightarrow> emitted_ok c s ys) \<Longrightarrow> emitted_ok c seen (xs @ ys)"
  by (induction c seen xs rule: emitted_ok.induct) (auto split: net_record.splits)

lemma put_edges_out:
  "rn_out (fold (\<lambda>e. put_line (EdgeLine c n e)) es st) = rn_out st @ map (EdgeLine c n) es"
  by (induction es arbitrary: st) (simp_all add: put_line_def)

definition object_lines :: "net_source \<Rightarrow> string \<Rightarrow> net_object \<Rightarrow> net_run \<Rightarrow> net_record list" where
  "object_lines src c r st =
     ObjectLine c (nr_name r) (no_type r) (nr_facts r) (no_names r) (ns_stamp src (rn_log st) (rn_objects st)) #
     map (EdgeLine c (nr_name r)) (nr_edges r)"

lemma put_object_out: "rn_out (put_object src c r st) = rn_out st @ object_lines src c r st"
  by (simp add: put_object_def Let_def put_edges_out object_lines_def) (simp add: put_line_def)

lemma edges_emitted_ok: "name \<in> seen \<Longrightarrow> emitted_ok c seen (map (EdgeLine c name) es)"
  by (induction es) simp_all

lemma filter_edge_lines [simp]:
  "filter is_object_line (map (EdgeLine c n) es) = []" "filter is_edge_line (map (EdgeLine c n) es) = map (EdgeLine c n) es"
  by (induction es) (simp_all add: is_object_line_def is_edge_line_def)

lemma rows_out:
  "\<exists>told. rn_out (fold (put_object src c) rows st) = rn_out st @ told \<and> (\<forall>seen. emitted_ok c seen told) \<and>
     length (filter is_object_line told) = length rows \<and> length (filter is_edge_line told) = edges_of rows"
proof (induction rows arbitrary: st)
  case Nil
  then show ?case by (intro exI [of _ "[]"]) (simp add: edges_of_def)
next
  case (Cons r rows)
  obtain told where t: "rn_out (fold (put_object src c) rows (put_object src c r st)) = rn_out (put_object src c r st) @ told"
    "\<forall>seen. emitted_ok c seen told" "length (filter is_object_line told) = length rows"
    "length (filter is_edge_line told) = edges_of rows"
    using Cons.IH by blast
  have "emitted_ok c seen (object_lines src c r st @ told)" for seen
    by (rule emitted_ok_append) (auto simp: object_lines_def edges_emitted_ok t(2))
  moreover have "length (filter is_object_line (object_lines src c r st)) = 1"
    "length (filter is_edge_line (object_lines src c r st)) = length (nr_edges r)"
    by (simp_all add: object_lines_def is_object_line_def is_edge_line_def)
  ultimately show ?case
    using t by (intro exI [of _ "object_lines src c r st @ told"]) (simp add: put_object_out edges_of_def)
qed

lemma commit_rows_out: "\<exists>seg. rn_out (commit_rows src c g rows st) = rn_out st @ seg \<and> segment_answers c g seg"
proof -
  obtain told where t: "rn_out (fold (put_object src c) rows st) = rn_out st @ told" "\<forall>seen. emitted_ok c seen told"
    "length (filter is_object_line told) = length rows" "length (filter is_edge_line told) = edges_of rows"
    using rows_out [of src c rows st] by blast
  have "segment_answers c g (told @ [CommitLine c g (length rows) (edges_of rows)])"
    unfolding segment_answers_def t(3,4) [symmetric] using t(2) by blast
  then show ?thesis
    by (intro exI conjI) (simp add: commit_rows_def put_line_def t(1), assumption)
qed

lemma decline_out:
  "why \<noteq> ''absent'' \<Longrightarrow> \<exists>seg. rn_out (put_line (DeclineLine c why detail) st) = rn_out st @ seg \<and> segment_answers c g seg"
  by (intro exI [of _ "[DeclineLine c why detail]"]) (simp add: put_line_def segment_answers_def)

lemma has_read_out [simp]: "rn_out (has_read lg st) = rn_out st"
  by (simp add: has_read_def)

lemma decline_acquisition_out:
  assumes "decline_for_nft e \<noteq> None"
  shows "\<exists>seg. rn_out (decline_acquisition c g e st) = rn_out st @ seg \<and> segment_answers c g seg"
proof -
  obtain why detail where d: "decline_for_nft e = Some (why, detail)" using assms by auto
  show ?thesis
  proof (cases "why = ''absent''")
    case True
    with d show ?thesis
      by (intro exI [of _ "[DeclineLine c why detail, CommitLine c g 0 0]"])
        (simp add: decline_acquisition_def put_line_def segment_answers_def)
  next
    case False
    then have "decline_acquisition c g e st = put_line (DeclineLine c why detail) st"
      by (simp add: decline_acquisition_def d)
    with decline_out [OF False] show ?thesis by metis
  qed
qed

text \<open>What one collection adds when the run goes on.\<close>

definition adds_answer :: "string \<Rightarrow> nat \<Rightarrow> net_run \<Rightarrow> exit_status \<times> net_run \<Rightarrow> bool" where
  "adds_answer c g st result =
     (fst result = ExitOK \<and> (\<exists>seg. rn_out (snd result) = rn_out st @ seg \<and> segment_answers c g seg) \<or>
      fst result \<noteq> ExitOK \<and> rn_out (snd result) = rn_out st)"

lemma adds_commit: "adds_answer c g st (ExitOK, commit_rows src c g rows (has_read lg st))"
  using commit_rows_out [of src c g rows "has_read lg st"] by (simp add: adds_answer_def)

lemma adds_decline: "why \<noteq> ''absent'' \<Longrightarrow> adds_answer c g st (ExitOK, put_line (DeclineLine c why detail) (has_read lg st))"
  using decline_out [of why c detail "has_read lg st" g] by (simp add: adds_answer_def)

lemma has_read_nothing: "has_read [] st = st"
  by (simp add: has_read_def)

lemmas adds_commit_now = adds_commit [where lg = "[]", unfolded has_read_nothing]
lemmas adds_decline_now = adds_decline [where lg = "[]", unfolded has_read_nothing]

lemma adds_stop: "code \<noteq> ExitOK \<Longrightarrow> adds_answer c g st (code, has_read lg st)"
  by (simp add: adds_answer_def)

lemmas adds_stop_now = adds_stop [where lg = "[]", unfolded has_read_nothing]

lemma collect_sockets_adds: "adds_answer c g st (collect_sockets src t c g rows st)"
  by (cases rows) (simp_all add: collect_sockets_def Let_def adds_commit adds_decline)

lemma collect_nft_adds:
  assumes "\<And>e. acquired = Inl e \<Longrightarrow> decline_for_nft e \<noteq> None"
  shows "adds_answer c g st (collect_nft pl src c g acquired st)"
proof (cases acquired)
  case (Inl e)
  then show ?thesis using assms decline_acquisition_out [of e c g st] by (simp add: collect_nft_def adds_answer_def)
next
  case (Inr doc)
  then show ?thesis by (simp add: collect_nft_def collect_sockets_adds adds_commit_now)
qed

lemma collect_routes_adds: "adds_answer c g st (collect_routes src c g st)"
  by (auto simp: collect_routes_def Let_def adds_commit adds_decline adds_stop split: prod.split sum.split)

lemma collect_links_adds: "adds_answer c g st (collect_links src c g st)"
  by (auto simp: collect_links_def Let_def adds_commit adds_decline adds_stop split: sum.split)

lemma has_read_twice: "has_read a (has_read b st) = has_read (a @ b) st"
  by (simp add: has_read_def)

lemma emit_resolver_adds: "adds_answer c g st (emit_resolver src c g facts (has_read lg st))"
  by (simp add: emit_resolver_def adds_commit adds_stop split: option.split)

lemma collect_resolver_adds: "adds_answer c g st (collect_resolver src c g st)"
  by (auto simp: collect_resolver_def Let_def has_read_twice emit_resolver_adds adds_decline adds_stop
      split: sum.split option.split)

lemma collect_tailscale_adds: "adds_answer c g st (collect_tailscale src c g st)"
  by (auto simp: collect_tailscale_def adds_commit_now adds_decline_now adds_stop_now split: sum.split option.split)

lemma collect_one_adds:
  assumes "\<And>e. acquired = Inl e \<Longrightarrow> decline_for_nft e \<noteq> None"
  shows "adds_answer c g st (collect_one pl src acquired c g st)"
  by (simp add: collect_one_def collect_routes_adds collect_links_adds collect_sockets_adds collect_resolver_adds
      collect_tailscale_adds collect_nft_adds [OF assms] adds_decline_now)

definition asked_for :: "nat gomap \<Rightarrow> string \<Rightarrow> nat" where
  "asked_for generations c = (case mget generations c of Some g \<Rightarrow> g | None \<Rightarrow> 0)"

lemma collect_order_out:
  assumes "\<And>e. acquired = Inl e \<Longrightarrow> decline_for_nft e \<noteq> None"
    and "collect_order pl src acquired generations order st = (code, st1)"
  shows "\<exists>segs. rn_out st1 = rn_out st @ concat segs \<and>
    list_all2 (\<lambda>c seg. segment_answers c (asked_for generations c) seg) (take (length segs) order) segs \<and>
    (code = ExitOK \<longrightarrow> length segs = length order)"
  using assms(2)
proof (induction order arbitrary: st)
  case Nil
  then show ?case by (intro exI [of _ "[]"]) simp
next
  case (Cons c order)
  let ?g = "asked_for generations c"
  obtain code' st' where one: "collect_one pl src acquired c ?g st = (code', st')" by fastforce
  have adds: "adds_answer c ?g st (code', st')"
    unfolding one [symmetric] by (rule collect_one_adds) (rule assms(1))
  show ?case
  proof (cases "code' = ExitOK")
    case True
    then obtain seg where seg: "rn_out st' = rn_out st @ seg" "segment_answers c ?g seg"
      using adds by (auto simp: adds_answer_def)
    have "collect_order pl src acquired generations order st' = (code, st1)"
      using Cons.prems one True by (simp add: asked_for_def)
    from Cons.IH [OF this] obtain segs where "rn_out st1 = rn_out st' @ concat segs"
      "list_all2 (\<lambda>c seg. segment_answers c (asked_for generations c) seg) (take (length segs) order) segs"
      "code = ExitOK \<longrightarrow> length segs = length order" by blast
    with seg show ?thesis by (intro exI [of _ "seg # segs"]) simp
  next
    case False
    then have "code = code'" "st1 = st'"
      using Cons.prems one by (cases code'; simp add: asked_for_def)+
    with False adds show ?thesis by (intro exI [of _ "[]"]) (simp add: adds_answer_def)
  qed
qed

lemma segment_answers_no_end: "segment_answers c g seg \<Longrightarrow> EndLine b k \<notin> set seg"
proof -
  have "emitted_ok c seen xs \<Longrightarrow> EndLine b k \<notin> set xs" for seen xs
    by (induction c seen xs rule: emitted_ok.induct) (auto split: net_record.splits)
  then show "segment_answers c g seg \<Longrightarrow> EndLine b k \<notin> set seg"
    by (auto simp: segment_answers_def)
qed

lemma list_all2_right: "list_all2 P xs ys \<Longrightarrow> y \<in> set ys \<Longrightarrow> \<exists>x \<in> set xs. P x y"
  by (auto simp: list_all2_conv_all_nth set_conv_nth)

text \<open>Property C39. A run of collect either stops without an end record, which the wire then refuses to
  commit, or accounts for every collection it was asked for, once and in the asked order: a
  decline that is not of absence, an absence with its empty commit, or objects each followed by its own edges and
  a commit under the asked generation with the exact counts of both. The frame is one begin and one end.\<close>

theorem every_request_is_answered:
  "case net_collect L pl src order generations of
     (ExitOK, lines) \<Rightarrow>
       (\<exists>bat boot segs costs.
          lines = BeginLine bat (''sha256:'' @ sha256 L (ns_document src)) boot (ns_timens src) generations #
            concat segs @ [EndLine bat costs] \<and>
          list_all2 (\<lambda>c seg. segment_answers c (asked_for generations c) seg) order segs)
   | (_, lines) \<Rightarrow> (\<forall>bat costs. EndLine bat costs \<notin> set lines)"
proof (cases "ns_boot src = None \<or> ns_batch src = None")
  case True
  then show ?thesis by (auto simp: net_collect_def split: option.split)
next
  case False
  then obtain boot bat where b: "ns_boot src = Some boot" "ns_batch src = Some bat" by auto
  define first where "first = BeginLine bat (''sha256:'' @ sha256 L (ns_document src)) boot (ns_timens src) generations"
  define needed where "needed = list_ex (\<lambda>c. c \<in> set nft_collections) order"
  define acquired where "acquired = (if needed then ns_nft src else Inr JNull)"
  define st where "st = (if needed then has_read [''nft''] (put_line first \<lparr>rn_out = [], rn_objects = 0, rn_log = []\<rparr>)
    else put_line first \<lparr>rn_out = [], rn_objects = 0, rn_log = []\<rparr>)"
  have begun: "rn_out (put_line first \<lparr>rn_out = [], rn_objects = 0, rn_log = []\<rparr>) = [first]" "rn_out st = [first]"
    by (simp_all add: put_line_def st_def)
  have run: "net_collect L pl src order generations =
    (if (case acquired of Inl e \<Rightarrow> decline_for_nft e = None | Inr _ \<Rightarrow> False) then (ExitRuntime, [first])
     else (case collect_order pl src acquired generations order st of
         (ExitOK, st1) \<Rightarrow> (ExitOK, rn_out st1 @ [EndLine bat (ns_costs src)])
       | (code, st1) \<Rightarrow> (code, rn_out st1)))"
    by (simp only: net_collect_def b Let_def option.case begun(1)
        first_def [symmetric] needed_def [symmetric] acquired_def [symmetric] st_def [symmetric])
  show ?thesis
  proof (cases "case acquired of Inl e \<Rightarrow> decline_for_nft e = None | Inr _ \<Rightarrow> False")
    case True
    then show ?thesis by (simp add: run first_def)
  next
    case False
    then have known: "decline_for_nft e \<noteq> None" if "acquired = Inl e" for e using that by simp
    obtain code st1 where went: "collect_order pl src acquired generations order st = (code, st1)" by fastforce
    from collect_order_out [OF known went] obtain segs where out: "rn_out st1 = first # concat segs"
      "list_all2 (\<lambda>c seg. segment_answers c (asked_for generations c) seg) (take (length segs) order) segs"
      "code = ExitOK \<longrightarrow> length segs = length order" by (auto simp: begun(2))
    have "EndLine x y \<notin> set seg" if "seg \<in> set segs" for x y seg
      using list_all2_right [OF out(2) that] segment_answers_no_end by blast
    then have no_end: "EndLine x y \<notin> set (rn_out st1)" for x y
      by (auto simp: out(1) first_def)
    show ?thesis
      using False went out no_end by (cases code) (auto simp: run first_def)
  qed
qed

end
