(* ===== verification/Spec2Isabelle.thy ===== *)
theory Spec2Isabelle
  imports Acquire Redelivery Nesting Hub CollectionPage Refinement Conversation Serving HostPage NetCollect
begin

text \<open>
  The System Explorer collator and two of its collectors: a model of the Go implementation under
  src/go/internal, src/go/cmd/se-collect-unbound and src/go/cmd/se-collect-network.

  THE PROGRAM. A host runs collectors, small programs that each answer over a Unix socket
  with newline-delimited JSON. The collator (go/internal/collate) asks each of them for its
  declaration (which collections it publishes, how fresh each promises to be, what each fact
  means, which rules judge them), issues generations, validates the batch it answers with,
  applies it to a SQLite store (go/internal/store), acknowledges it, keeps a record of past
  readings, and assembles the edges between objects. From the store it serves the host: a read
  API, a roll-up of what needs attention, pages; and it sends a hub a checkpoint. The wire
  format and its checks are go/internal/wire.

  THE THEORIES, in the order of the layers.
    Prelude      results as sums, the finite maps of the model (a Go map is an association list
                 sorted by key; a locale states what a client may assume of one), sorting.
    GoText       strings as bytes: split, cut, trim, prefixes, ASCII case folding, decimal
                 numbers, the range of int64.
    Json         reading and writing JSON as encoding/json does. A reader consumes at least one
                 byte per level, so the fuel 2 * length + 2 it is given always suffices; nesting
                 beyond 10000 is refused as the library refuses it.
    Float64      float64 as exact rationals with a separate negative zero; reading a lexeme
                 rounds to 53 bits, ties to even. The text of a float is a parameter.
    Wire, Batch  wire.go: the record parsers and ParseBatch as a fold over lines, then the checks
                 of a whole stream.
    Client       client.go and verbs.go: the exchange under its byte ceiling, requests, the
                 declaration slice, the freshness grammar (the product wraps at 64 bits as the
                 code's does), the reverse channel and the decoding of a name token.
    Store        store.go: the tables as a record, issuing generations, applying a commit,
                 declines, acknowledgements, declarations, the reads. A locale states what the
                 three tables replaced by a commit share.
    Relations    relations.go: edge keys, assembly, observability, resolution and re-testing.
    History      record.go: storing, finding and pruning readings.
    Opinions     opinions.go, evaluators.go: the rule table, its acceptance, conditions, judging,
                 the facts declared secret, the named evaluators.
    Changes      changes.go: measures, diffable readings, comparing, asking about the past.
    Collate      collate.go: one acquisition from the declaration to the acknowledgement, over a
                 parameter that answers for the collector.
    JsonText     the text encoding/json writes, and that reading it gives the value back.
    Collector    se-collect-unbound: the request line, the row, the stream, the reverse verbs,
                 the live and the replayed source; a reading of the machine is a record.
    DaemonRow    the row: shapes of its facts, which line a counter comes from.
    Conversation the collector against the collator: what one writes the other understands.
    Authority    the invariant of the store and the states reachable by acquisitions and prunings.
    Refinement   the store against an abstract authority: every operation simulates a step of a
                 small specification (what each scope holds, which generation is applied).
    Acquire      the properties of an acquisition.
    Query        query.go, the objects route of rest.go, withoutSecrets: filters, pagination,
                 the withholding of secrets.
    Status       freshness.go, status.go, the collections route of rest.go.
    Nesting      parentsFrom of collection_page.go and nest of tree.go.
    Hub          checkpoint.go, dial.go and the hub half of run.go.
    HideGroups   hide_groups.go, declared.go, worstPerObject of collection_page.go.
    CollectionPage  collection_page.go: situations, order, controls, cells, marks.
    Directory    dictionary.go, nav.go, views.go: where an id opens, the groups of the rail, the
                 operator's view documents.
    Serving      run.go, hostguard.go, the other routes of rest.go: configuration, pace, the
                 reverse verbs, relations, changes, the names the listener answers to.
    Html         elements, and an executable reader of tags that says when a text is safe.
    Widgets      widgets.go: the markup of a fact and of a mark.
    Edges        tree.go: the far end of an edge, the groups of an object's relations.
    Pages        object_page.go, the chips of page.go, the rail of nav.go.
    HostPage     page.go: the host's table and its opinions.

    The other collector is go/cmd/se-collect-network:
    NetDocument  document.go, python.go: a decoded document with its members in order, and how
                 Python would write a value of it.
    Firewall     rules.go, chains.go, tables.go, listening.go: the rows of the ruleset and of the
                 socket tables.
    Exposure     exposure.go: the walk of the input path, what a rule asks of a packet, who is
                 admitted to a socket. Packets and the rules' meaning on them are defined here, as
                 the specification of the two closures.
    NetAddress   net/netip and time of the standard library: addresses, civil dates, RFC 3339.
    NetSource    source.go: what the tools and files say, live or from a capture, as a record.
    NetRows      links.go, routes.go. The walk of the links is given a depth of one more than there are
                 links, which no chain of masters exceeds.
    NetResolver  busdoc.go, resolver.go, tailscale.go.
    NetCollect   collect.go, verbs.go, lookup.go, main.go: the stream, the verbs, the lookups. A
                 run keeps the names of its readings, newest first, since a live object is stamped
                 with the last clock reading.

  HOW STATE CORRESPONDS. The record db has one field per table; a column is a field of the row
  records, named after it (c_issued is issued_generation, o_seq the order within a reading). An
  operation of the store takes the arguments of the Go method and the db and returns the outcome
  and the new db. A transaction is one step; a failure of the database engine itself and a crash
  are not modelled. An error of the code is the left of a sum or None, and a refusal that the
  code records is a row of d_rejs. A handler is a function of the store and the request.

  WHAT IS PROVED. Type and invariant: the store invariant holds in every reachable state, and a
  generation names its content; the store refines the abstract authority. The wire, end to end:
  what the collector writes to a request of the collator parses to the batch meant, or is
  refused as unfinished when the run was cut short. Acquisition: what an error changes, what lands, what stands, and
  that a batch once taken is a retry. Edges: keys identify, one edge per assertion, resolution
  terminates with nothing left beside its target. Record: a reading is stored exactly when it
  differs, and the past is answered or a gap is stated. Judgement: rules read declared facts
  only; status and checkpoint judge alike. Reading: pagination visits every match once, secrets
  reach no answer of the objects route or checkpoint, freshness is claimed only when checked,
  the checkpoint is complete or has no end, the default page hides nothing critical, nesting
  draws every row once. Pages: what collectors publish cannot leave its place in the markup, every
  fact is asked and the five states of an answer stay apart, edges of different standing are never
  drawn as one group, the host page says what the status says, the rail shows everything. Reverse
  channel: only a collector that declares the name is asked, and what it writes is what is served.
  Wire: accepted batches are well formed; requests are one line of three tokens.
  Firewall: against a meaning of rules on packets, the possible closure misses no source a rule may
  admit and the certain closure names only sources the rules do admit; the row of a rule accounts
  for every statement; a chain is unreferenced exactly when nothing calls it. The network
  collector: a run accounts for every collection it was asked for with exact counts or has no end
  record, and the walk of the links tells each once, under its master.

  BOUNDS. int64 is int with explicit wrapping (wrap64) where the code can overflow: freshness
  products, pagination sums, generations at SQLite's maximum. Go map iteration is random; where
  the order can matter the model takes it as an argument (the documents of a freshness map) or
  the definition says which order it takes.

  PARAMETERS. SHA-256, the text of a float64 (records lib and golib), the collector's answers, the clock
  and boot id, the order of sort.SliceStable on a comparison that need not be an order, which
  runes are printable and the shortest digits of a float (pylib), the contents of /proc/net, what
  a tool prints, refuses or does not answer (machine), the text of an evidence document. Each is
  an argument of the definitions that use it.

  NOT MODELLED, and why. Opening and migrating the database, sockets, TLS, deadlines, goroutines
  and the loops that sleep (input and output); the sentences of refusals; the markup of the
  collection page around its cells and marks (its content is modelled, and the hide-group controls
  and links as text), response headers; clock.go and bootid.go (reads of the operating system);
  the other collectors, which translate native interfaces into the wire format; what a program
  writes to standard error, and a write that fails; the Python implementation and the conformance
  suite. strings.ToLower and EqualFold are taken on ASCII.
\<close>

end
